(* ===== verification/Prelude.thy ===== *)
theory Prelude
  imports Main "HOL-Library.Word"
begin

text \<open>
  Prelude of the development: the machine types of the compiler and of the abstract machine,
  the values a C routine can end with, the sequencing of imperative steps, the character
  classes of the C library, C string helpers, and the generic list facts that several
  components share.
\<close>

unbundle bit_operations_syntax

section \<open>Lemma collections\<close>

named_theorems emit_simps \<open>what a code generation routine writes and how it moves the code index\<close>
named_theorems asm_simps \<open>rewrite rules that run the assembler on emitted lines\<close>
named_theorems vm_simps \<open>rewrite rules that run instructions of the abstract machine\<close>

section \<open>Machine types\<close>

text \<open>\<open>PAWN_CELL_SIZE\<close> is 32 (amx.h): a cell is a 32-bit word, \<open>ucell\<close> its unsigned reading.\<close>

type_synonym cell = "32 word"
type_synonym byte = "8 word"

abbreviation cell_bytes :: cell where "cell_bytes \<equiv> 4"

definition opcodes :: "cell \<Rightarrow> cell" where "opcodes n = n * cell_bytes"

definition opargs :: "cell \<Rightarrow> cell" where "opargs n = n * cell_bytes"

section \<open>How a routine can stop\<close>

text \<open>
  A fatal error of the compiler (numbers 100 to 199) leaves by \<open>longjmp\<close>; a failed assertion
  stops the process; an access past a buffer, a read of freed memory and a read of a variable
  that was never set have no defined meaning in C, and neither have a shift by the width of a cell,
  a division that overflows and a \<open>memcpy\<close> between blocks that overlap; \<open>CompactErr\<close> is the \<open>longjmp\<close> by which the assembler gives up compact
  encoding. Each is a value.
\<close>

datatype fault = Fatal nat | AssertFail | BufferOverflow | UseAfterFree | Uninitialised | ArithUndefined
  | CompactErr | OverlappingCopy

type_synonym 'a result = "fault + 'a"

fun bindR :: "'e + 'a \<Rightarrow> ('a \<Rightarrow> 'e + 'b) \<Rightarrow> 'e + 'b" where
  "bindR (Inl e) f = Inl e"
| "bindR (Inr x) f = f x"

lemma bindR_Inr_iff: "bindR m f = Inr y \<longleftrightarrow> (\<exists>x. m = Inr x \<and> f x = Inr y)"
  by (cases m) auto

lemma bindR_InrE [elim]:
  assumes "bindR m f = Inr y"
  obtains x where "m = Inr x" and "f x = Inr y"
  using assms by (cases m) auto

lemma bindR_assoc: "bindR (bindR m f) g = bindR m (\<lambda>x. bindR (f x) g)"
  by (cases m) auto

definition assertR :: "bool \<Rightarrow> unit result" where
  "assertR b = (if b then Inr () else Inl AssertFail)"

lemma assertR_simps [simp]: "assertR True = Inr ()" "assertR False = Inl AssertFail"
  by (simp_all add: assertR_def)

lemma assertR_Inr [simp]: "assertR b = Inr u \<longleftrightarrow> b"
  by (simp add: assertR_def)

text \<open>A loop that collects one value per element and stops at the first fault.\<close>

fun mapR :: "('a \<Rightarrow> 'e + 'b) \<Rightarrow> 'a list \<Rightarrow> 'e + 'b list" where
  "mapR f [] = Inr []"
| "mapR f (x # xs) = bindR (f x) (\<lambda>y. bindR (mapR f xs) (\<lambda>ys. Inr (y # ys)))"

lemma bindR_cong:
  "m = n \<Longrightarrow> (\<And>x. n = Inr x \<Longrightarrow> f x = g x) \<Longrightarrow> bindR m f = bindR n g"
  by (cases n) auto

lemma mapR_cong:
  "xs = ys \<Longrightarrow> (\<And>x. x \<in> set ys \<Longrightarrow> f x = g x) \<Longrightarrow> mapR f xs = mapR g ys"
  by (induction ys arbitrary: xs) auto

lemma mapR_Inr: "(\<And>x. x \<in> set xs \<Longrightarrow> f x = Inr (g x)) \<Longrightarrow> mapR f xs = Inr (map g xs)"
  by (induction xs) auto

text \<open>A block of statements, each of which may stop the routine.\<close>

fun block :: "('s \<Rightarrow> 'e + 's) list \<Rightarrow> 's \<Rightarrow> 'e + 's" where
  "block [] s = Inr s"
| "block (a # as) s = bindR (a s) (block as)"

lemma block_append: "block (as @ bs) s = bindR (block as s) (block bs)"
proof (induction as arbitrary: s)
  case (Cons a as)
  show ?case by (cases "a s") (simp_all add: Cons.IH)
qed simp

section \<open>Characters\<close>

abbreviation TAB :: char where "TAB \<equiv> CHR 0x09"
abbreviation NL :: char where "NL \<equiv> CHR 0x0A"
abbreviation NUL :: char where "NUL \<equiv> CHR 0x00"
abbreviation tab :: string where "tab \<equiv> [TAB]"
abbreviation nl :: string where "nl \<equiv> [NL]"

definition code_of :: "char \<Rightarrow> nat" where "code_of c = of_char c"

lemma code_of_bound: "code_of c < 256"
  by (simp add: code_of_def nat_of_char_less_256)

lemma code_of_inj [simp]: "code_of c = code_of d \<longleftrightarrow> c = d"
  by (simp add: code_of_def)

definition isspace :: "char \<Rightarrow> bool" where
  "isspace c \<longleftrightarrow> c = CHR '' '' \<or> (9 \<le> code_of c \<and> code_of c \<le> 13)"

definition isdigit :: "char \<Rightarrow> bool" where
  "isdigit c \<longleftrightarrow> 48 \<le> code_of c \<and> code_of c \<le> 57"

definition isupper :: "char \<Rightarrow> bool" where
  "isupper c \<longleftrightarrow> 65 \<le> code_of c \<and> code_of c \<le> 90"

definition islower :: "char \<Rightarrow> bool" where
  "islower c \<longleftrightarrow> 97 \<le> code_of c \<and> code_of c \<le> 122"

definition isalpha :: "char \<Rightarrow> bool" where
  "isalpha c \<longleftrightarrow> isupper c \<or> islower c"

definition tolower :: "char \<Rightarrow> char" where
  "tolower c = (if isupper c then char_of (code_of c + 32) else c)"

text \<open>\<open>strcmp\<close> compares as unsigned characters; \<open>stricmp\<close> does so after \<open>tolower\<close>. Only the
  sign of the result is used by the callers.\<close>

fun strcmp :: "string \<Rightarrow> string \<Rightarrow> int" where
  "strcmp [] [] = 0"
| "strcmp [] (b # bs) = -1"
| "strcmp (a # as) [] = 1"
| "strcmp (a # as) (b # bs) =
     (if a = b then strcmp as bs else if code_of a < code_of b then -1 else 1)"

definition stricmp :: "string \<Rightarrow> string \<Rightarrow> int" where
  "stricmp a b = strcmp (map tolower a) (map tolower b)"

lemma strcmp_eq_0 [simp]: "strcmp a b = 0 \<longleftrightarrow> a = b"
  by (induction a b rule: strcmp.induct) auto

lemma strcmp_refl [simp]: "strcmp a a = 0"
  by simp

lemma strcmp_range: "strcmp a b = -1 \<or> strcmp a b = 0 \<or> strcmp a b = 1"
  by (induction a b rule: strcmp.induct) auto

lemma strcmp_antisym: "strcmp b a = - strcmp a b"
  by (induction a b rule: strcmp.induct) (auto simp: not_less order.order_iff_strict)

lemma strcmp_less_trans: "strcmp a b < 0 \<Longrightarrow> strcmp b c < 0 \<Longrightarrow> strcmp a c < 0"
proof (induction a b arbitrary: c rule: strcmp.induct)
  case (4 x xs y ys)
  then show ?case by (cases c) (auto split: if_splits)
next
  case (2 y ys)
  then show ?case by (cases c) auto
qed auto

lemma strcmp_le_trans: "strcmp a b \<le> 0 \<Longrightarrow> strcmp b c \<le> 0 \<Longrightarrow> strcmp a c \<le> 0"
  by (metis order.order_iff_strict strcmp_eq_0 strcmp_less_trans)

lemma strcmp_le_less_trans: "strcmp a b \<le> 0 \<Longrightarrow> strcmp b c < 0 \<Longrightarrow> strcmp a c < 0"
  by (metis order.order_iff_strict strcmp_eq_0 strcmp_less_trans)

section \<open>Scanning\<close>

lemma takeWhile_append_stop [simp]:
  "list_all P xs \<Longrightarrow> \<not> P y \<Longrightarrow> takeWhile P (xs @ y # ys) = xs"
  by (induction xs) auto

lemma dropWhile_append_stop [simp]:
  "list_all P xs \<Longrightarrow> \<not> P y \<Longrightarrow> dropWhile P (xs @ y # ys) = y # ys"
  by (induction xs) auto

lemma dropWhile_length: "length (dropWhile P xs) \<le> length xs"
  by (induction xs) auto

end
