(* ===== verification/ScText.thy ===== *)
theory ScText
  imports Prelude
begin

text \<open>
  Numbers as text. The compiler writes every operand with \<open>itoh\<close> (sc2.c) and the assembler
  reads it back with \<open>hex2long\<close> and \<open>getparam\<close> (sc6.c); the peephole optimizer reads
  literal operands with the C library's \<open>strtol\<close>. The theory models these, with the
  character classes of sc2.c, and shows that what is written is what is read.
\<close>

section \<open>Character classes of sc2.c\<close>

definition alpha :: "char \<Rightarrow> bool" where
  "alpha c \<longleftrightarrow> isalpha c \<or> c = CHR ''_'' \<or> c = CHR ''@''"

definition alphanum :: "char \<Rightarrow> bool" where
  "alphanum c \<longleftrightarrow> alpha c \<or> isdigit c"

definition ishex :: "char \<Rightarrow> bool" where
  "ishex c \<longleftrightarrow> isdigit c \<or> (97 \<le> code_of c \<and> code_of c \<le> 102) \<or> (65 \<le> code_of c \<and> code_of c \<le> 70)"

definition hex_value :: "char \<Rightarrow> nat option" where
  "hex_value c =
     (if isdigit c then Some (code_of c - 48)
      else if 97 \<le> code_of c \<and> code_of c \<le> 102 then Some (code_of c - 97 + 10)
      else if 65 \<le> code_of c \<and> code_of c \<le> 70 then Some (code_of c - 65 + 10)
      else None)"

lemma hex_value_ishex: "ishex c \<longleftrightarrow> hex_value c \<noteq> None"
  by (auto simp: ishex_def hex_value_def)

section \<open>\<open>itoh\<close>: a cell in hexadecimal (sc2.c)\<close>

text \<open>The eight nibbles, nibble 0 the lowest; the scan from \<open>i = max - 1\<close> for the highest
  non-zero one; the digits from there down.\<close>

definition nibbles :: "cell \<Rightarrow> nat list" where
  "nibbles val = map (\<lambda>i. unat (drop_bit (4 * i) val AND 0xF)) [0..<8]"

fun high_nonzero :: "nat list \<Rightarrow> nat list" where
  "high_nonzero (x # y # zs) = (if x = 0 then high_nonzero (y # zs) else x # y # zs)"
| "high_nonzero xs = xs"

definition nibble_char :: "nat \<Rightarrow> char" where
  "nibble_char n = (if 10 \<le> n then char_of (97 + (n - 10)) else char_of (48 + n))"

definition itoh :: "cell \<Rightarrow> string" where
  "itoh val = map nibble_char (high_nonzero (rev (nibbles val)))"

section \<open>\<open>hex2long\<close> and \<open>getparam\<close>: reading operands (sc6.c)\<close>

fun hex_loop :: "cell \<Rightarrow> string \<Rightarrow> cell \<times> string" where
  "hex_loop r [] = (r, [])"
| "hex_loop r (c # cs) =
     (case hex_value c of
        Some d \<Rightarrow> hex_loop (push_bit 4 r OR of_nat d) cs
      | None \<Rightarrow> (r, c # cs))"

text \<open>The assertion on the first digit is the source's: its third test repeats the second, so
  a number that starts with an upper case digit fails it.\<close>

definition hex_start :: "string \<Rightarrow> bool" where
  "hex_start s = (case s of [] \<Rightarrow> False
     | c # _ \<Rightarrow> isdigit c \<or> (97 \<le> code_of c \<and> code_of c \<le> 102) \<or> (97 \<le> code_of c \<and> code_of c \<le> 102))"

definition blank :: "char \<Rightarrow> bool" where
  "blank c \<longleftrightarrow> c = CHR '' '' \<or> c = TAB"

definition hex2long :: "string \<Rightarrow> (cell \<times> string) result" where
  "hex2long s =
     (let s1 = dropWhile blank s;
          negate = (case s1 of c # _ \<Rightarrow> c = CHR ''-'' | [] \<Rightarrow> False);
          s2 = (if negate then tl s1 else s1)
      in bindR (assertR (hex_start s2)) (\<lambda>_.
           let (r, rest) = hex_loop 0 s2
           in Inr (if negate then NOT r + 1 else r, rest)))"

lemma hex_loop_length: "length (snd (hex_loop r s)) \<le> length s"
  by (induction r s rule: hex_loop.induct) (auto split: option.splits)

lemma hex_loop_start_length: "hex_start s \<Longrightarrow> length (snd (hex_loop r s)) < length s"
  by (cases s)
     (auto simp: hex_start_def hex_value_def less_Suc_eq_le hex_loop_length split: if_splits)

lemma hex2long_length: "hex2long s = Inr (v, rest) \<Longrightarrow> length rest < length s"
proof -
  assume a: "hex2long s = Inr (v, rest)"
  define s1 where "s1 = dropWhile blank s"
  define s2 where "s2 = (if (case s1 of c # _ \<Rightarrow> c = CHR ''-'' | [] \<Rightarrow> False) then tl s1 else s1)"
  have "length s2 \<le> length s"
    using dropWhile_length [of blank s] by (auto simp: s1_def s2_def intro: le_trans [OF diff_le_self])
  moreover have "hex_start s2" and "rest = snd (hex_loop 0 s2)"
    using a by (auto simp: hex2long_def s1_def s2_def Let_def bindR_Inr_iff split: prod.splits)
  ultimately show ?thesis using hex_loop_start_length [of s2 0] by simp
qed

text \<open>\<open>getparam\<close> adds up operands joined by \<open>+\<close> (the optimizer joins constants so).\<close>

function getparam_from :: "cell \<Rightarrow> string \<Rightarrow> (cell \<times> string) result" where
  "getparam_from result s =
     (case hex2long s of
        Inl e \<Rightarrow> Inl e
      | Inr (v, rest) \<Rightarrow>
          (case rest of
             c # cs \<Rightarrow> if c = CHR ''+'' then getparam_from (result + v) cs else Inr (result + v, rest)
           | [] \<Rightarrow> Inr (result + v, rest)))"
  by pat_completeness auto
termination
  by (relation "measure (\<lambda>(_, s). length s)") (auto dest!: hex2long_length)

declare getparam_from.simps [simp del]

definition getparam :: "string \<Rightarrow> (cell \<times> string) result" where
  "getparam s = getparam_from 0 s"

section \<open>The C library's \<open>strtol\<close> in base 16\<close>

fun hex_run :: "int \<Rightarrow> string \<Rightarrow> int \<times> string" where
  "hex_run r [] = (r, [])"
| "hex_run r (c # cs) =
     (case hex_value c of Some d \<Rightarrow> hex_run (16 * r + int d) cs | None \<Rightarrow> (r, c # cs))"

definition strip_0x :: "string \<Rightarrow> string" where
  "strip_0x s = (case s of
     a # b # c # r \<Rightarrow> if a = CHR ''0'' \<and> tolower b = CHR ''x'' \<and> ishex c then c # r else s
   | _ \<Rightarrow> s)"

definition strtol16 :: "string \<Rightarrow> int \<times> string" where
  "strtol16 s =
     (let s1 = dropWhile isspace s;
          (neg, s2) = (case s1 of c # r \<Rightarrow> if c = CHR ''-'' then (True, r)
                         else if c = CHR ''+'' then (False, r) else (False, s1) | [] \<Rightarrow> (False, s1));
          s3 = strip_0x s2
      in case s3 of
           c # _ \<Rightarrow> if ishex c then (let (v, r) = hex_run 0 s3 in (if neg then - v else v, r))
                    else (0, s)
         | [] \<Rightarrow> (0, s))"

section \<open>What \<open>itoh\<close> writes is what \<open>hex2long\<close> reads\<close>

lemma nibble_char_code: "n < 16 \<Longrightarrow> code_of (nibble_char n) = (if 10 \<le> n then 87 + n else 48 + n)"
  by (simp add: nibble_char_def code_of_def)

lemma hex_value_nibble_char: "n < 16 \<Longrightarrow> hex_value (nibble_char n) = Some n"
  by (auto simp: hex_value_def isdigit_def nibble_char_code)

lemma hex_loop_nibbles:
  "list_all (\<lambda>n. n < 16) ns \<Longrightarrow>
   hex_loop r (map nibble_char ns @ rest) =
     hex_loop (foldl (\<lambda>r n. push_bit 4 r OR of_nat n) r ns) rest"
  by (induction ns arbitrary: r) (auto simp: hex_value_nibble_char)

lemma foldl_high_nonzero:
  "foldl (\<lambda>r n. push_bit 4 r OR of_nat n) (0 :: cell) (high_nonzero ns) =
   foldl (\<lambda>r n. push_bit 4 r OR of_nat n) 0 ns"
  by (induction ns rule: high_nonzero.induct) auto

lemma set_high_nonzero: "set (high_nonzero ns) \<subseteq> set ns"
  by (induction ns rule: high_nonzero.induct) auto

lemma nibbles_bound: "n \<in> set (nibbles v) \<Longrightarrow> n < 16"
proof -
  have "unat (drop_bit (4 * i) v AND 0xF) < 16" for i
  proof -
    have "unat (drop_bit (4 * i) v AND 0xF) \<le> unat (0xF :: cell)"
      by (rule word_and_le1 [THEN word_le_nat_alt [THEN iffD1]])
    then show ?thesis by simp
  qed
  then show "n \<in> set (nibbles v) \<Longrightarrow> n < 16" by (auto simp: nibbles_def)
qed

lemma nibble_step:
  fixes v :: cell
  shows "push_bit 4 (drop_bit (k + 4) v) OR (drop_bit k v AND 0xF) = drop_bit k v"
proof -
  have "drop_bit k v AND 0xF = take_bit 4 (drop_bit k v)"
    by (simp add: take_bit_eq_mask mask_eq_exp_minus_1)
  moreover have "push_bit 4 (drop_bit (k + 4) v) OR take_bit 4 (drop_bit k v) = drop_bit k v"
  proof (rule bit_word_eqI)
    fix n :: nat
    assume "n < LENGTH(32)"
    moreover have "4 \<le> n \<Longrightarrow> k + (4 + (n - 4)) = n + k" by simp
    ultimately show "bit (push_bit 4 (drop_bit (k + 4) v) OR take_bit 4 (drop_bit k v)) n
        = bit (drop_bit k v) n"
      by (cases "4 \<le> n") (auto simp: bit_simps ac_simps)
  qed
  ultimately show ?thesis by simp
qed

lemma nibbles_assemble: "foldl (\<lambda>r n. push_bit 4 r OR of_nat n) 0 (rev (nibbles v)) = v"
proof -
  have "drop_bit 32 v = 0" by (rule bit_word_eqI) (simp add: bit_simps)
  then have "drop_bit 28 v AND 0xF = drop_bit 28 v"
    using nibble_step [of 28 v] by simp
  then show ?thesis
    using nibble_step [of 24 v] nibble_step [of 20 v] nibble_step [of 16 v] nibble_step [of 12 v]
      nibble_step [of 8 v] nibble_step [of 4 v] nibble_step [of 0 v]
    by (simp add: nibbles_def upt_rec)
qed

lemma high_nonzero_nonempty: "ns \<noteq> [] \<Longrightarrow> high_nonzero ns \<noteq> []"
  by (induction ns rule: high_nonzero.induct) auto

lemma high_nonzero_bound: "n \<in> set (high_nonzero (rev (nibbles v))) \<Longrightarrow> n < 16"
  using set_high_nonzero [of "rev (nibbles v)"] nibbles_bound [of n v] by auto

lemma itoh_nonempty: "itoh v \<noteq> []"
  by (simp add: itoh_def high_nonzero_nonempty nibbles_def)

lemma itoh_hex_digits:
  "c \<in> set (itoh v) \<Longrightarrow> isdigit c \<or> (97 \<le> code_of c \<and> code_of c \<le> 102)"
  by (auto simp: itoh_def isdigit_def nibble_char_code dest!: high_nonzero_bound split: if_splits)

lemma hex_loop_itoh:
  assumes "\<And>c cs. rest = c # cs \<Longrightarrow> \<not> ishex c"
  shows "hex_loop 0 (itoh v @ rest) = (v, rest)"
proof -
  have b: "list_all (\<lambda>n. n < 16) (high_nonzero (rev (nibbles v)))"
    by (simp add: list_all_iff high_nonzero_bound)
  have "hex_loop v rest = (v, rest)"
    using assms by (cases rest) (auto simp: hex_value_ishex)
  then show ?thesis
    by (simp add: itoh_def hex_loop_nibbles [OF b] foldl_high_nonzero nibbles_assemble)
qed

lemma itoh_no_char:
  "\<not> isdigit c \<Longrightarrow> code_of c < 97 \<or> 102 < code_of c \<Longrightarrow> c \<notin> set (itoh v)"
  using itoh_hex_digits by fastforce

lemma itoh_hd: "itoh v = c # cs \<Longrightarrow> isdigit c \<or> (97 \<le> code_of c \<and> code_of c \<le> 102)"
  using itoh_hex_digits [of c v] by simp

lemma hex_digit_not_blank:
  "isdigit c \<or> (97 \<le> code_of c \<and> code_of c \<le> 102) \<Longrightarrow>
   \<not> blank c \<and> c \<noteq> CHR ''-'' \<and> \<not> isspace c \<and> c \<noteq> CHR '';'' \<and> c \<noteq> NL \<and> c \<noteq> NUL \<and> c \<noteq> CHR ''+'' \<and> c \<noteq> CHR ''.''"
  by (auto simp: blank_def isdigit_def isspace_def code_of_def)

lemma hex2long_itoh:
  assumes "\<And>c cs. rest = c # cs \<Longrightarrow> \<not> ishex c"
  shows "hex2long (itoh v @ rest) = Inr (v, rest)"
proof -
  obtain c cs where i: "itoh v = c # cs" using itoh_nonempty [of v] by (cases "itoh v") auto
  have d: "isdigit c \<or> (97 \<le> code_of c \<and> code_of c \<le> 102)" using i by (rule itoh_hd)
  have "hex_loop 0 (c # cs @ rest) = (v, rest)"
    using hex_loop_itoh [of rest v, OF assms] by (simp add: i)
  then show ?thesis
    using hex_digit_not_blank [OF d] d by (auto simp: hex2long_def i hex_start_def Let_def)
qed

lemma hex2long_neg_itoh:
  assumes "\<And>c cs. rest = c # cs \<Longrightarrow> \<not> ishex c"
  shows "hex2long (CHR ''-'' # itoh v @ rest) = Inr (- v, rest)"
proof -
  obtain c cs where i: "itoh v = c # cs" using itoh_nonempty [of v] by (cases "itoh v") auto
  have d: "isdigit c \<or> (97 \<le> code_of c \<and> code_of c \<le> 102)" using i by (rule itoh_hd)
  have "hex_loop 0 (c # cs @ rest) = (v, rest)"
    using hex_loop_itoh [of rest v, OF assms] by (simp add: i)
  moreover have "NOT v + 1 = - v" by (simp add: minus_eq_not_plus_1)
  ultimately show ?thesis
    using d by (auto simp: hex2long_def i hex_start_def Let_def blank_def)
qed

lemma hex2long_blanks:
  "list_all blank ws \<Longrightarrow> hex2long (ws @ s) = hex2long s"
  by (induction ws) (auto simp: hex2long_def)

lemma getparam_itoh:
  assumes "\<And>c cs. rest = c # cs \<Longrightarrow> \<not> ishex c \<and> c \<noteq> CHR ''+''"
  shows "getparam (itoh v @ rest) = Inr (v, rest)"
  using assms
  by (subst getparam_def, subst getparam_from.simps)
     (auto simp: hex2long_itoh split: list.splits)

lemma getparam_from_plus:
  "getparam_from r (itoh v @ CHR ''+'' # s) = getparam_from (r + v) s"
proof -
  have "hex2long (itoh v @ CHR ''+'' # s) = Inr (v, CHR ''+'' # s)"
    by (rule hex2long_itoh) (auto simp: ishex_def isdigit_def code_of_def)
  then show ?thesis by (subst getparam_from.simps) simp
qed

section \<open>Properties\<close>

text \<open>Operands joined the way the optimizer joins them.\<close>

fun plus_join :: "cell list \<Rightarrow> string" where
  "plus_join [] = []"
| "plus_join [v] = itoh v"
| "plus_join (v # vs) = itoh v @ CHR ''+'' # plus_join vs"

lemma getparam_from_join:
  assumes "\<And>c cs. rest = c # cs \<Longrightarrow> \<not> ishex c \<and> c \<noteq> CHR ''+''"
  shows "vs \<noteq> [] \<Longrightarrow> getparam_from r (plus_join vs @ rest) = Inr (r + sum_list vs, rest)"
proof (induction vs arbitrary: r rule: plus_join.induct)
  case (2 v)
  show ?case using assms
    by (subst getparam_from.simps) (auto simp: hex2long_itoh split: list.splits)
next
  case (3 v w vs)
  then show ?case by (simp add: getparam_from_plus add.assoc del: plus_join.simps(2))
qed simp

text \<open>C33 (\<open>itoh\<close> against \<open>getparam\<close> and \<open>hex2long\<close>): what the code generator prints, the
  assembler reads back: a parameter made of any cells printed by \<open>itoh\<close> and joined by plus
  signs, after blanks and before anything that is neither a hexadecimal digit nor a plus sign,
  is read as their sum modulo \<open>2^32\<close>, and the reader stops exactly there.\<close>
theorem getparam_reads_printed_sum:
  assumes "vs \<noteq> []" and "\<forall>c cs. rest = c # cs \<longrightarrow> \<not> ishex c \<and> c \<noteq> CHR ''+''" and "list_all blank ws"
  shows "getparam (ws @ plus_join vs @ rest) = Inr (sum_list vs, rest)"
proof -
  have "getparam_from 0 (ws @ s) = getparam_from 0 s" for s
    by (subst (1 2) getparam_from.simps) (simp add: hex2long_blanks [OF assms(3)])
  then show ?thesis
    using getparam_from_join [of rest vs 0] assms(1,2) by (simp add: getparam_def)
qed

theorem getparam_reads_printed_sum_witness:
  "getparam (tab @ plus_join [0xFFFFFFFF, 0x2A] @ nl) = Inr (sum_list [0xFFFFFFFF, 0x2A], nl)"
  by (rule getparam_reads_printed_sum) (auto simp: ishex_def isdigit_def code_of_def blank_def)

text \<open>\<open>hex2long\<close>: the routine means to accept upper-case digits (its loop does), but the
  assertion before the loop tests the range \<open>a\<close> to \<open>f\<close> twice, so a number whose first digit
  is upper case stops the assembler, although the same digit is read in any later position.\<close>
theorem hex2long_upper_case_first_digit:
  assumes "c \<in> set ''ABCDEF''" and "isdigit d"
  shows "hex2long (c # cs) = Inl AssertFail \<and> hex2long [d, c] \<noteq> Inl AssertFail"
proof -
  have "hex2long (c # cs) = Inl AssertFail"
    using assms(1) by (auto simp: hex2long_def hex_start_def blank_def isdigit_def code_of_def)
  moreover have "hex_start [d, c]" using assms(2) by (simp add: hex_start_def)
  moreover have "\<not> blank d" and "d \<noteq> CHR ''-''" using hex_digit_not_blank [of d] assms(2) by auto
  ultimately show ?thesis by (simp add: hex2long_def split: prod.splits)
qed

theorem hex2long_upper_case_first_digit_witness:
  "hex2long ''FF'' = Inl AssertFail \<and> hex2long ''1F'' \<noteq> Inl AssertFail"
  by (rule hex2long_upper_case_first_digit) (simp_all add: isdigit_def code_of_def)

end
