(* ===== verification/ScMemfile.thy ===== *)
theory ScMemfile
  imports ScText
begin

text \<open>
  The memory file (memfile.c and its stdio-like wrapper scmemfil.c) that holds the generated
  assembler text between code generation and assembly: creation, seeking, reading, writing
  with growth of the block, \<open>mfgets\<close> and \<open>mfputs\<close>. The lemmas show that the file keeps its
  bounds, that a write puts exactly its bytes at the file position, and that the lines
  written with \<open>mfputs\<close> come back, in order, from \<open>mfgets\<close>.
\<close>

section \<open>State and operations of memfile.c\<close>

text \<open>
  The block is a map from offsets to characters: offsets up to \<open>mf_size\<close> are allocated, those
  from \<open>mf_used\<close> on hold whatever the allocator left. \<open>mf_base = None\<close> is a null pointer.
  Whether an allocation succeeds is the parameter \<open>oom\<close> of the operations that allocate.
\<close>

record memfile =
  mf_name :: string
  mf_base :: "(nat \<Rightarrow> char) option"
  mf_offs :: int
  mf_used :: nat
  mf_size :: nat
  mf_static :: bool

definition memfile_creat :: "bool \<Rightarrow> (nat \<Rightarrow> char) \<Rightarrow> string \<Rightarrow> nat \<Rightarrow> memfile option" where
  "memfile_creat oom garbage name init =
     (if oom then None
      else Some \<lparr>mf_name = name, mf_base = Some garbage, mf_offs = 0, mf_used = 0,
                 mf_size = init, mf_static = False\<rparr>)"

definition memfile_seek :: "int \<Rightarrow> memfile \<Rightarrow> memfile" where
  "memfile_seek seek mf = mf\<lparr>mf_offs := seek\<rparr>"

definition memfile_tell :: "memfile \<Rightarrow> int" where
  "memfile_tell mf = mf_offs mf"

text \<open>Reading through a null block or in front of it is outside what C defines.\<close>

definition memfile_read :: "nat \<Rightarrow> memfile \<Rightarrow> (string \<times> memfile) result" where
  "memfile_read maxsize mf =
     (if maxsize = 0 \<or> mf_offs mf \<ge> int (mf_used mf) then Inr ([], mf)
      else let n = (if int (mf_used mf) - mf_offs mf < int maxsize
                    then nat (int (mf_used mf) - mf_offs mf) else maxsize)
           in (case mf_base mf of
                 None \<Rightarrow> Inl BufferOverflow
               | Some b \<Rightarrow>
                   if mf_offs mf < 0 then Inl BufferOverflow
                   else Inr (map b [nat (mf_offs mf)..<nat (mf_offs mf) + n],
                             mf\<lparr>mf_offs := mf_offs mf + int n\<rparr>)))"

definition put_bytes :: "(nat \<Rightarrow> char) \<Rightarrow> nat \<Rightarrow> string \<Rightarrow> nat \<Rightarrow> char" where
  "put_bytes b at buf = (\<lambda>i. if at \<le> i \<and> i < at + length buf then buf ! (i - at) else b i)"

definition memfile_grow :: "bool \<Rightarrow> nat \<Rightarrow> memfile \<Rightarrow> memfile option" where
  "memfile_grow oom n mf =
     (if mf_offs mf + int n > int (mf_size mf)
      then (if oom then None
            else Some (mf\<lparr>mf_static := False, mf_size := (mf_size mf + n) * 2\<rparr>))
      else Some mf)"

definition memfile_write :: "bool \<Rightarrow> string \<Rightarrow> memfile \<Rightarrow> (bool \<times> memfile) result" where
  "memfile_write oom buffer mf =
     (case memfile_grow oom (length buffer) mf of
        None \<Rightarrow> Inr (False, mf\<lparr>mf_base := None\<rparr>)
      | Some mf1 \<Rightarrow>
          (case mf_base mf1 of
             None \<Rightarrow> Inl BufferOverflow
           | Some b \<Rightarrow>
               if mf_offs mf1 < 0 \<or> mf_offs mf1 + int (length buffer) > int (mf_size mf1)
               then Inl BufferOverflow
               else let offs = mf_offs mf1 + int (length buffer)
                    in Inr (True, mf1\<lparr>mf_base := Some (put_bytes b (nat (mf_offs mf1)) buffer),
                                      mf_offs := offs,
                                      mf_used := (if offs > int (mf_used mf1) then nat offs
                                                  else mf_used mf1)\<rparr>)))"

section \<open>Operations of scmemfil.c\<close>

definition mfcreate :: "bool \<Rightarrow> (nat \<Rightarrow> char) \<Rightarrow> string \<Rightarrow> memfile option" where
  "mfcreate oom garbage filename = memfile_creat oom garbage filename 4096"

definition mflength :: "memfile \<Rightarrow> nat" where
  "mflength mf = mf_used mf"

datatype whence = SEEK_SET | SEEK_CUR | SEEK_END

definition mfseek :: "int \<Rightarrow> whence \<Rightarrow> memfile \<Rightarrow> (int \<times> memfile) result" where
  "mfseek offset w mf =
     (if mf_used mf = 0 then Inr (0, mf)
      else let len = int (mflength mf)
           in bindR (assertR (w = SEEK_END \<longrightarrow> offset \<le> 0)) (\<lambda>_.
                let o1 = (case w of SEEK_SET \<Rightarrow> offset | SEEK_CUR \<Rightarrow> offset + mf_offs mf
                                  | SEEK_END \<Rightarrow> offset + len);
                    o2 = (if o1 < 0 then 0 else if o1 > len then len else o1)
                in Inr (o2, memfile_seek o2 mf)))"

definition mfwrite :: "bool \<Rightarrow> string \<Rightarrow> memfile \<Rightarrow> (nat \<times> memfile) result" where
  "mfwrite oom buffer mf =
     bindR (memfile_write oom buffer mf) (\<lambda>(ok, mf'). Inr (if ok then length buffer else 0, mf'))"

definition mfread :: "nat \<Rightarrow> memfile \<Rightarrow> (string \<times> memfile) result" where
  "mfread maxsize mf = memfile_read maxsize mf"

text \<open>A character array read as a C string: everything before the first zero byte.\<close>

definition cstr :: "string \<Rightarrow> string" where
  "cstr s = takeWhile (\<lambda>c. c \<noteq> NUL) s"

text \<open>\<open>mfgets\<close>: read up to \<open>maxsize\<close> bytes, terminate the string (over the last byte when the
  buffer is full), cut it after the first line feed, and step the file back over what was
  read too far. \<open>gets_cut\<close> is what happens to the buffer: the string the caller sees and the
  distance to seek. \<open>None\<close> is the null pointer.\<close>

definition gets_cut :: "nat \<Rightarrow> string \<Rightarrow> string \<times> int" where
  "gets_cut maxsize dat =
     (let read = length dat;
          str = cstr (if read < maxsize then dat else take (maxsize - 1) dat);
          line = takeWhile (\<lambda>c. c \<noteq> NL) str
      in if length line < length str then (line @ nl, int (length line) + 1 - int read)
         else (str, if read < maxsize then 0 else -1))"

definition mfgets :: "nat \<Rightarrow> memfile \<Rightarrow> (string option \<times> memfile) result" where
  "mfgets maxsize mf =
     bindR (mfread maxsize mf) (\<lambda>(dat, mf1).
       if dat = [] then Inr (None, mf1)
       else let (result, seek) = gets_cut maxsize dat
            in bindR (assertR (seek \<le> 0)) (\<lambda>_.
                 if seek = 0 then Inr (Some result, mf1)
                 else bindR (mfseek seek SEEK_CUR mf1) (\<lambda>(_, mf2). Inr (Some result, mf2))))"

definition mfputs :: "bool \<Rightarrow> string \<Rightarrow> memfile \<Rightarrow> (bool \<times> memfile) result" where
  "mfputs oom string mf =
     bindR (mfwrite oom (cstr string) mf)
       (\<lambda>(written, mf'). Inr (written = length (cstr string), mf'))"

section \<open>Contents and invariant\<close>

definition mf_ok :: "memfile \<Rightarrow> bool" where
  "mf_ok mf \<longleftrightarrow> mf_base mf \<noteq> None \<and> 0 \<le> mf_offs mf \<and> mf_offs mf \<le> int (mf_used mf)
     \<and> mf_used mf \<le> mf_size mf"

definition contents :: "memfile \<Rightarrow> string" where
  "contents mf = (case mf_base mf of None \<Rightarrow> [] | Some b \<Rightarrow> map b [0..<mf_used mf])"

definition rest_of :: "memfile \<Rightarrow> string" where
  "rest_of mf = drop (nat (mf_offs mf)) (contents mf)"

lemma length_contents: "mf_base mf \<noteq> None \<Longrightarrow> length (contents mf) = mf_used mf"
  by (auto simp: contents_def)

lemma mf_ok_creat: "mfcreate oom g name = Some mf \<Longrightarrow> mf_ok mf \<and> contents mf = [] \<and> mf_offs mf = 0"
  by (auto simp: mfcreate_def memfile_creat_def mf_ok_def contents_def split: if_splits)

lemma map_interval_eq: "map b [m..<m + n] = take n (drop m (map b [0..<m + n]))"
  by (simp add: drop_map take_map)

lemma memfile_read_ok:
  assumes ok: "mf_ok mf"
  shows "memfile_read n mf = Inr (take n (rest_of mf), mf\<lparr>mf_offs := mf_offs mf + int (length (take n (rest_of mf)))\<rparr>)"
proof -
  obtain b where b: "mf_base mf = Some b" using ok by (auto simp: mf_ok_def)
  define m where "m = nat (mf_offs mf)"
  have m: "mf_offs mf = int m" "m \<le> mf_used mf" using ok by (auto simp: mf_ok_def m_def)
  have r: "rest_of mf = map b [m..<mf_used mf]"
    by (simp add: rest_of_def contents_def b m_def [symmetric] drop_map)
  have t: "take n (rest_of mf) = map b [m..<min (m + n) (mf_used mf)]"
    by (simp add: r take_map min_def)
  show ?thesis
  proof (cases "n = 0 \<or> m = mf_used mf")
    case True
    then show ?thesis using m by (auto simp: memfile_read_def t)
  next
    case False
    then show ?thesis using m by (auto simp: memfile_read_def t b Let_def min_def nat_diff_distrib)
  qed
qed

lemma mfread_ok:
  assumes "mf_ok mf"
  shows "mfread n mf = Inr (take n (rest_of mf), mf\<lparr>mf_offs := mf_offs mf + int (length (take n (rest_of mf)))\<rparr>)"
  using memfile_read_ok [OF assms] by (simp add: mfread_def)

lemma length_rest_of: "mf_ok mf \<Longrightarrow> int (length (rest_of mf)) = int (mf_used mf) - mf_offs mf"
  by (auto simp: rest_of_def length_contents mf_ok_def nat_diff_distrib)

lemma mf_ok_offs:
  "mf_ok mf \<Longrightarrow> 0 \<le> k \<Longrightarrow> k \<le> int (mf_used mf) \<Longrightarrow> mf_ok (mf\<lparr>mf_offs := k\<rparr>)"
  by (auto simp: mf_ok_def)

lemma contents_offs [simp]: "contents (mf\<lparr>mf_offs := k\<rparr>) = contents mf"
  by (cases "mf_base mf") (simp_all add: contents_def)

lemma rest_of_offs: "rest_of (mf\<lparr>mf_offs := k\<rparr>) = drop (nat k) (contents mf)"
  by (simp add: rest_of_def)

lemma rest_of_advance:
  "mf_ok mf \<Longrightarrow> rest_of (mf\<lparr>mf_offs := mf_offs mf + int n\<rparr>) = drop n (rest_of mf)"
  by (auto simp: rest_of_def mf_ok_def nat_add_distrib add.commute)

text \<open>A write replaces the bytes at the file position and extends the file when it runs past
  its end; the file keeps its bounds.\<close>

lemma map_put_bytes:
  assumes "at \<le> n"
  shows "map (put_bytes b at buf) [0..<max n (at + length buf)]
    = take at (map b [0..<n]) @ buf @ drop (at + length buf) (map b [0..<n])"
proof (rule nth_equalityI)
  show "length (map (put_bytes b at buf) [0..<max n (at + length buf)])
    = length (take at (map b [0..<n]) @ buf @ drop (at + length buf) (map b [0..<n]))"
    using assms by auto
next
  fix i
  assume "i < length (map (put_bytes b at buf) [0..<max n (at + length buf)])"
  then show "map (put_bytes b at buf) [0..<max n (at + length buf)] ! i
    = (take at (map b [0..<n]) @ buf @ drop (at + length buf) (map b [0..<n])) ! i"
    using assms by (auto simp: put_bytes_def nth_append)
qed

lemma memfile_write_ok:
  assumes ok: "mf_ok mf"
  shows "\<exists>mf'. memfile_write False buf mf = Inr (True, mf') \<and> mf_ok mf'
    \<and> contents mf' = take (nat (mf_offs mf)) (contents mf) @ buf
         @ drop (nat (mf_offs mf) + length buf) (contents mf)
    \<and> mf_offs mf' = mf_offs mf + int (length buf)"
proof -
  obtain b where b: "mf_base mf = Some b" using ok by (auto simp: mf_ok_def)
  define m where "m = nat (mf_offs mf)"
  have m: "mf_offs mf = int m" "m \<le> mf_used mf" "mf_used mf \<le> mf_size mf"
    using ok by (auto simp: mf_ok_def m_def)
  obtain mf1 where g: "memfile_grow False (length buf) mf = Some mf1"
    and g1: "mf_base mf1 = Some b" "mf_offs mf1 = int m" "mf_used mf1 = mf_used mf"
      "m + length buf \<le> mf_size mf1" "mf_used mf \<le> mf_size mf1"
    using m b by (cases "mf_offs mf + int (length buf) > int (mf_size mf)")
      (auto simp: memfile_grow_def)
  define mf2 where "mf2 = mf1\<lparr>mf_base := Some (put_bytes b m buf), mf_offs := int (m + length buf),
      mf_used := max (mf_used mf) (m + length buf)\<rparr>"
  have w: "memfile_write False buf mf = Inr (True, mf2)"
    using g g1 by (auto simp: memfile_write_def Let_def mf2_def max_def nat_add_distrib)
  have "mf_ok mf2" using g1 by (auto simp: mf_ok_def mf2_def)
  moreover have "contents mf2 = take m (contents mf) @ buf @ drop (m + length buf) (contents mf)"
    using map_put_bytes [OF m(2), of b buf] by (simp add: contents_def mf2_def b)
  ultimately show ?thesis using w m by (auto simp: mf2_def)
qed

lemma cstr_id: "NUL \<notin> set s \<Longrightarrow> cstr s = s"
  unfolding cstr_def by (subst takeWhile_eq_all_conv) auto

lemma mfputs_ok:
  assumes "mf_ok mf" and "mf_offs mf = int (mf_used mf)" and "NUL \<notin> set s"
  shows "\<exists>mf'. mfputs False s mf = Inr (True, mf') \<and> mf_ok mf'
    \<and> mf_offs mf' = int (mf_used mf') \<and> contents mf' = contents mf @ s"
proof -
  have l: "length (contents mf) = mf_used mf" using assms(1) by (auto simp: mf_ok_def length_contents)
  obtain mf' where w: "memfile_write False s mf = Inr (True, mf')" "mf_ok mf'"
    "contents mf' = contents mf @ s" "mf_offs mf' = mf_offs mf + int (length s)"
    using memfile_write_ok [OF assms(1), of s] assms(2) l by auto
  have "mf_used mf' = length (contents mf')" using w(2) by (auto simp: mf_ok_def length_contents)
  then show ?thesis using w assms l by (auto simp: mfputs_def mfwrite_def cstr_id)
qed

lemma mfseek_ok:
  assumes "mf_ok mf" and "w = SEEK_END \<longrightarrow> k \<le> 0"
  shows "\<exists>o2 mf'. mfseek k w mf = Inr (o2, mf') \<and> mf_ok mf' \<and> contents mf' = contents mf"
  using assms
  by (cases "mf_used mf = 0")
     (auto simp: mfseek_def Let_def memfile_seek_def mflength_def assertR_def mf_ok_def contents_def)

lemma gets_cut_line:
  assumes l: "NL \<notin> set l" "NUL \<notin> set l" and n: "length l + 1 < n"
  shows "gets_cut n (l @ NL # x) = (l @ nl, - int (length x))"
proof -
  define str where "str = cstr (if length (l @ NL # x) < n then l @ NL # x else take (n - 1) (l @ NL # x))"
  have "\<exists>t. str = l @ NL # t"
    using n l(2) by (auto simp: str_def cstr_def take_Cons' takeWhile_append)
  then obtain t where str: "str = l @ NL # t" ..
  have line: "takeWhile (\<lambda>c. c \<noteq> NL) str = l"
    using l(1) by (subst str, subst takeWhile_append2) auto
  show ?thesis
    unfolding gets_cut_def Let_def str_def [symmetric] line by (simp add: str)
qed

lemma mfgets_line:
  assumes ok: "mf_ok mf" and r: "rest_of mf = l @ NL # r"
    and l: "NL \<notin> set l" "NUL \<notin> set l" and n: "length l + 1 < n"
  shows "\<exists>mf'. mfgets n mf = Inr (Some (l @ nl), mf') \<and> mf_ok mf' \<and> contents mf' = contents mf
    \<and> rest_of mf' = r"
proof -
  define x where "x = take (n - length l - 1) r"
  define d where "d = l @ NL # x"
  have t: "take n (rest_of mf) = d" using n by (simp add: r d_def x_def take_Cons')
  define mf1 where "mf1 = mf\<lparr>mf_offs := mf_offs mf + int (length d)\<rparr>"
  have rd: "mfread n mf = Inr (d, mf1)" by (simp add: mfread_ok [OF ok] t mf1_def)
  have lenrest: "int (length (rest_of mf)) = int (mf_used mf) - mf_offs mf"
    using ok by (rule length_rest_of)
  have offs: "0 \<le> mf_offs mf" using ok by (auto simp: mf_ok_def)
  define k where "k = mf_offs mf + int (length l) + 1"
  have kb: "0 \<le> k" "k \<le> int (mf_used mf)" using lenrest offs by (auto simp: k_def r)
  have used: "mf_used mf \<noteq> 0" using lenrest offs by (auto simp: r)
  have sk: "mfseek (- int (length x)) SEEK_CUR mf1 = Inr (k, mf1\<lparr>mf_offs := k\<rparr>)"
    using used kb
    by (auto simp: mfseek_def mf1_def memfile_seek_def mflength_def k_def Let_def assertR_def d_def)
  have "mfgets n mf = Inr (Some (l @ nl), mf\<lparr>mf_offs := k\<rparr>)"
    using sk gets_cut_line [OF l n, of x]
    by (auto simp: mfgets_def rd d_def [symmetric]) (auto simp: d_def mf1_def k_def)
  moreover have "mf_ok (mf\<lparr>mf_offs := k\<rparr>)" using ok kb by (rule mf_ok_offs)
  moreover have "rest_of (mf\<lparr>mf_offs := k\<rparr>) = r"
    using rest_of_advance [OF ok, of "length l + 1"] by (simp add: r k_def ac_simps)
  ultimately show ?thesis by auto
qed

lemma mfgets_eof: "mf_ok mf \<Longrightarrow> rest_of mf = [] \<Longrightarrow> \<exists>mf'. mfgets n mf = Inr (None, mf')"
  by (simp add: mfgets_def mfread_ok)


section \<open>The interface between code generation and assembly\<close>

text \<open>
  What libpawnc.c promises of the intermediate file: \<open>pc_writeasm\<close> appends a string,
  \<open>pc_resetasm\<close> goes back to the start, \<open>pc_readasm\<close> returns the next line with its line
  feed. The code generator and the assembler use nothing else of it.
\<close>

locale asm_file =
  fixes writeasm :: "string \<Rightarrow> 'f \<Rightarrow> 'f result"
    and resetasm :: "'f \<Rightarrow> 'f result"
    and readasm :: "nat \<Rightarrow> 'f \<Rightarrow> (string option \<times> 'f) result"
    and ok :: "'f \<Rightarrow> bool"
    and at_end :: "'f \<Rightarrow> bool"
    and text_of :: "'f \<Rightarrow> string"
    and pending :: "'f \<Rightarrow> string"
  assumes put: "ok f \<Longrightarrow> at_end f \<Longrightarrow> NUL \<notin> set s \<Longrightarrow>
      \<exists>f'. writeasm s f = Inr f' \<and> ok f' \<and> at_end f' \<and> text_of f' = text_of f @ s"
    and reset: "ok f \<Longrightarrow> \<exists>f'. resetasm f = Inr f' \<and> ok f' \<and> text_of f' = text_of f \<and> pending f' = text_of f"
    and read_line: "ok f \<Longrightarrow> pending f = l @ NL # r \<Longrightarrow> NL \<notin> set l \<Longrightarrow> NUL \<notin> set l \<Longrightarrow>
      length l + 1 < n \<Longrightarrow> \<exists>f'. readasm n f = Inr (Some (l @ nl), f') \<and> ok f' \<and> pending f' = r"
    and read_end: "ok f \<Longrightarrow> pending f = [] \<Longrightarrow> \<exists>f'. readasm n f = Inr (None, f')"
begin

fun write_all :: "string list \<Rightarrow> 'f \<Rightarrow> 'f result" where
  "write_all [] f = Inr f"
| "write_all (s # ss) f = bindR (writeasm s f) (write_all ss)"

fun read_all :: "nat \<Rightarrow> nat \<Rightarrow> 'f \<Rightarrow> string list result option" where
  "read_all 0 n f = None"
| "read_all (Suc k) n f =
     (case readasm n f of
        Inl e \<Rightarrow> Some (Inl e)
      | Inr (None, f') \<Rightarrow> Some (Inr [])
      | Inr (Some l, f') \<Rightarrow> map_option (\<lambda>r. bindR r (\<lambda>ls. Inr (l # ls))) (read_all k n f'))"

lemma write_all_text:
  "ok f \<Longrightarrow> at_end f \<Longrightarrow> \<forall>s \<in> set ss. NUL \<notin> set s \<Longrightarrow>
   \<exists>f'. write_all ss f = Inr f' \<and> ok f' \<and> at_end f' \<and> text_of f' = text_of f @ concat ss"
proof (induction ss arbitrary: f)
  case (Cons s ss)
  obtain f1 where f1: "writeasm s f = Inr f1" "ok f1" "at_end f1" "text_of f1 = text_of f @ s"
    using put [of f s] Cons.prems by auto
  show ?case using Cons.IH [OF f1(2,3)] Cons.prems(3) f1 by auto
qed simp

lemma read_all_lines:
  "ok f \<Longrightarrow> pending f = concat (map (\<lambda>l. l @ nl) ls) \<Longrightarrow>
   \<forall>l \<in> set ls. NL \<notin> set l \<and> NUL \<notin> set l \<and> length l + 1 < n \<Longrightarrow> length ls < k \<Longrightarrow>
   read_all k n f = Some (Inr (map (\<lambda>l. l @ nl) ls))"
proof (induction ls arbitrary: f k)
  case Nil
  then obtain k' f' where "k = Suc k'" "readasm n f = Inr (None, f')"
    using read_end [of f n] by (cases k) auto
  then show ?case by simp
next
  case (Cons l ls)
  obtain k' where k: "k = Suc k'" using Cons.prems(4) by (cases k) auto
  obtain f1 where f1: "readasm n f = Inr (Some (l @ nl), f1)" "ok f1"
    "pending f1 = concat (map (\<lambda>l. l @ nl) ls)"
    using read_line [of f l "concat (map (\<lambda>l. l @ nl) ls)" n] Cons.prems by auto
  have "read_all k' n f1 = Some (Inr (map (\<lambda>l. l @ nl) ls))"
    using Cons.IH [OF f1(2,3), of k'] Cons.prems k by simp
  then show ?case by (simp add: k f1)
qed

lemma lines_come_back:
  assumes "ok f" and "at_end f" and "text_of f = []"
    and "concat ss = concat (map (\<lambda>l. l @ nl) ls)"
    and "\<forall>l \<in> set ls. NL \<notin> set l \<and> NUL \<notin> set l \<and> length l + 1 < n"
    and "\<forall>s \<in> set ss. NUL \<notin> set s"
  shows "\<exists>f1 f2. write_all ss f = Inr f1 \<and> resetasm f1 = Inr f2
    \<and> read_all (Suc (length ls)) n f2 = Some (Inr (map (\<lambda>l. l @ nl) ls))"
proof -
  obtain f1 where f1: "write_all ss f = Inr f1" "ok f1" "text_of f1 = concat ss"
    using write_all_text [OF assms(1,2,6)] assms(3) by auto
  obtain f2 where f2: "resetasm f1 = Inr f2" "ok f2" "pending f2 = concat ss"
    using reset [OF f1(2)] f1(3) by auto
  have "read_all (Suc (length ls)) n f2 = Some (Inr (map (\<lambda>l. l @ nl) ls))"
    using read_all_lines [OF f2(2), of ls n "Suc (length ls)"] f2(3) assms(4,5)
    by (simp del: read_all.simps)
  then show ?thesis using f1 f2 by blast
qed

end

text \<open>\<open>pc_writeasm\<close>, \<open>pc_resetasm\<close> and \<open>pc_readasm\<close> of libpawnc.c on the memory file.\<close>

definition pc_writeasm :: "string \<Rightarrow> memfile \<Rightarrow> memfile result" where
  "pc_writeasm str mf = bindR (mfputs False str mf) (\<lambda>(_, mf'). Inr mf')"

definition pc_resetasm :: "memfile \<Rightarrow> memfile result" where
  "pc_resetasm mf = bindR (mfseek 0 SEEK_SET mf) (\<lambda>(_, mf'). Inr mf')"

definition pc_readasm :: "nat \<Rightarrow> memfile \<Rightarrow> (string option \<times> memfile) result" where
  "pc_readasm maxchars mf = mfgets maxchars mf"

lemma pc_resetasm_ok:
  "mf_ok mf \<Longrightarrow> \<exists>mf'. pc_resetasm mf = Inr mf' \<and> mf_ok mf' \<and> contents mf' = contents mf
     \<and> rest_of mf' = contents mf"
  by (cases "mf_used mf = 0")
     (auto simp: pc_resetasm_def mfseek_def Let_def memfile_seek_def mflength_def mf_ok_def
        contents_def rest_of_def)

interpretation mf: asm_file pc_writeasm pc_resetasm pc_readasm mf_ok
  "\<lambda>mf. mf_offs mf = int (mf_used mf)" contents rest_of
proof
  show "\<exists>f'. pc_writeasm s f = Inr f' \<and> mf_ok f' \<and> mf_offs f' = int (mf_used f')
      \<and> contents f' = contents f @ s"
    if "mf_ok f" "mf_offs f = int (mf_used f)" "NUL \<notin> set s" for f s
    using mfputs_ok [OF that] by (auto simp: pc_writeasm_def)
  show "\<exists>f'. pc_resetasm f = Inr f' \<and> mf_ok f' \<and> contents f' = contents f
      \<and> rest_of f' = contents f" if "mf_ok f" for f
    using pc_resetasm_ok [OF that] .
  show "\<exists>f'. pc_readasm n f = Inr (Some (l @ nl), f') \<and> mf_ok f' \<and> rest_of f' = r"
    if "mf_ok f" "rest_of f = l @ NL # r" "NL \<notin> set l" "NUL \<notin> set l" "length l + 1 < n" for f l r n
    using mfgets_line [OF that] by (auto simp: pc_readasm_def)
  show "\<exists>f'. pc_readasm n f = Inr (None, f')" if "mf_ok f" "rest_of f = []" for f n
    using mfgets_eof [OF that] by (simp add: pc_readasm_def)
qed

section \<open>Properties\<close>

text \<open>C34 (the assembler file in memory): the code generator writes pieces of lines; when the
  pieces make up whole lines, each shorter than the reader's buffer and free of zero bytes, then
  after \<open>pc_resetasm\<close> the assembler reads exactly those lines, in order and each with its line
  end, and then the end of the file. Neither side fails, however often the file had to grow.\<close>
theorem asm_text_comes_back:
  assumes "mfcreate False g name = Some mf"
    and "concat ss = concat (map (\<lambda>l. l @ nl) ls)"
    and "\<forall>l \<in> set ls. NL \<notin> set l \<and> NUL \<notin> set l \<and> length l + 1 < n"
    and "\<forall>s \<in> set ss. NUL \<notin> set s"
  shows "\<exists>f1 f2. mf.write_all ss mf = Inr f1 \<and> pc_resetasm f1 = Inr f2
    \<and> mf.read_all (Suc (length ls)) n f2 = Some (Inr (map (\<lambda>l. l @ nl) ls))"
proof -
  have "mf_used mf = 0" using assms(1) by (auto simp: mfcreate_def memfile_creat_def)
  then show ?thesis
    using mf.lines_come_back [OF _ _ _ assms(2-4), of mf] mf_ok_creat [OF assms(1)]
    by (simp del: mf.read_all.simps)
qed

theorem asm_text_comes_back_witness:
  "\<exists>mf f1 f2. mf.write_all [tab @ ''push.c '', ''2a'' @ nl, ''l.1'' @ nl] mf = Inr f1 \<and> pc_resetasm f1 = Inr f2
    \<and> mf.read_all 3 20 f2 = Some (Inr [tab @ ''push.c 2a'' @ nl, ''l.1'' @ nl])"
proof -
  obtain mf where "mfcreate False (\<lambda>_. NUL) ''a.asm'' = Some mf"
    by (simp add: mfcreate_def memfile_creat_def)
  from asm_text_comes_back [OF this, of "[tab @ ''push.c '', ''2a'' @ nl, ''l.1'' @ nl]" "[tab @ ''push.c 2a'', ''l.1'']" 20]
  show ?thesis by (auto simp: eval_nat_numeral)
qed

end
