(* ===== verification/Tables.thy ===== *)
theory Tables
  imports Prelude
begin

text \<open>
  The contract of the compiler's keyed tables. The symbol tables, the constant tables, the
  alias, substitution and macro lists are all linked lists with an insertion and a search; a
  client only relies on finding what was inserted and on not losing what was there. Every
  component that keeps such a table interprets \<open>keyed_table\<close> on its own operations.
\<close>

locale keyed_table =
  fixes ok :: "'t \<Rightarrow> bool"
    and fits :: "'k \<Rightarrow> 'v \<Rightarrow> bool"
    and ins :: "'k \<Rightarrow> 'v \<Rightarrow> 't \<Rightarrow> 't"
    and lookup :: "'t \<Rightarrow> 'k \<Rightarrow> 'v option"
  assumes ok_ins: "ok t \<Longrightarrow> fits k v \<Longrightarrow> ok (ins k v t)"
    and lookup_ins: "ok t \<Longrightarrow> fits k v \<Longrightarrow> lookup t k = None \<Longrightarrow>
      lookup (ins k v t) k' = (if k' = k then Some v else lookup t k')"
begin

fun ins_all :: "('k \<times> 'v) list \<Rightarrow> 't \<Rightarrow> 't" where
  "ins_all [] t = t"
| "ins_all ((k, v) # kvs) t = ins_all kvs (ins k v t)"

lemma ins_all_lookup:
  "ok t \<Longrightarrow> \<forall>(k, v) \<in> set kvs. fits k v \<and> lookup t k = None \<Longrightarrow> distinct (map fst kvs) \<Longrightarrow>
   ok (ins_all kvs t) \<and>
   lookup (ins_all kvs t) k' = (case map_of kvs k' of Some v \<Rightarrow> Some v | None \<Rightarrow> lookup t k')"
proof (induction kvs arbitrary: t)
  case (Cons kv kvs)
  obtain k v where kv: "kv = (k, v)" by (cases kv)
  have fit: "fits k v" "lookup t k = None" using Cons.prems(2) by (auto simp: kv)
  have k: "k \<notin> fst ` set kvs" and d: "distinct (map fst kvs)" using Cons.prems(3) by (auto simp: kv)
  note look = lookup_ins [OF Cons.prems(1) fit]
  have "\<forall>(k1, v1) \<in> set kvs. fits k1 v1 \<and> lookup (ins k v t) k1 = None"
    using Cons.prems(2) k by (force simp: look kv)
  note ih = Cons.IH [OF ok_ins [OF Cons.prems(1) fit(1)] this d]
  have "map_of kvs k = None" using k by (simp add: map_of_eq_None_iff)
  then show ?case using ih by (auto simp: kv look split: option.splits)
qed simp

text \<open>The order in which distinct keys are inserted does not show.\<close>

lemma ins_all_order:
  assumes "ok t" and "\<forall>(k, v) \<in> set kvs. fits k v \<and> lookup t k = None" and "distinct (map fst kvs)"
    and "set kvs' = set kvs" and "distinct (map fst kvs')"
  shows "lookup (ins_all kvs' t) k = lookup (ins_all kvs t) k"
proof -
  have "map_of kvs' = map_of kvs"
    using assms(3-5) by (simp add: map_of_inject_set)
  then show ?thesis
    using ins_all_lookup [OF assms(1-3)] ins_all_lookup [of t kvs' k] assms by simp
qed

end

end
