(* ===== verification/ScTypes.thy ===== *)
theory ScTypes
  imports ScText Tables
begin

text \<open>
  The compiler's data types of sc.h (constant values, symbols, expression values), the
  constant tables of sc1.c, the referrer lists and usage marks of sc2.c, and the names of
  user-defined operators of sc1.c. Pointers between symbols are the symbols' numbers.
\<close>

section \<open>Types of sc.h\<close>

record constvalue =
  cname :: string
  cvalue :: cell
  cindex :: int

datatype ident = iLABEL | iVARIABLE | iREFERENCE | iARRAY | iREFARRAY | iARRAYCELL | iARRAYCHAR
  | iEXPRESSION | iCONSTEXPR | iFUNCTN | iREFFUNC | iVARARGS

datatype vclass = sGLOBAL | sLOCAL | sSTATIC

abbreviation uDEFINE :: byte where "uDEFINE \<equiv> 0x01"
abbreviation uREAD :: byte where "uREAD \<equiv> 0x02"
abbreviation uWRITTEN :: byte where "uWRITTEN \<equiv> 0x04"
abbreviation uPROTOTYPED :: byte where "uPROTOTYPED \<equiv> 0x08"
abbreviation uPREDEF :: byte where "uPREDEF \<equiv> 0x08"
abbreviation uPUBLIC :: byte where "uPUBLIC \<equiv> 0x10"
abbreviation uNATIVE :: byte where "uNATIVE \<equiv> 0x20"
abbreviation uMISSING :: byte where "uMISSING \<equiv> 0x80"

definition sNAMEMAX :: nat where "sNAMEMAX = 31"

text \<open>\<open>sid\<close> stands for the symbol's address in memory: pointers to symbols (\<open>parent\<close>, the
  referrers) are these numbers. \<open>sidxtag\<close>, \<open>slength\<close> and \<open>slevel\<close> are the members of the unions
  \<open>x\<close> and \<open>dim\<close> that arrays use.\<close>

record symbol =
  sid :: nat
  sparent :: "nat option"
  sname :: string
  shash :: cell
  saddr :: cell
  scodeaddr :: cell
  svclass :: vclass
  sident :: ident
  susage :: byte
  scompound :: int
  stag :: cell
  sidxtag :: cell
  slength :: cell
  slevel :: int
  sstates :: "constvalue list option"
  sfnumber :: int
  srefer :: "nat option list"

definition has_usage :: "symbol \<Rightarrow> byte \<Rightarrow> bool" where
  "has_usage sy m \<longleftrightarrow> susage sy AND m \<noteq> 0"

record lvalue =
  lsym :: "symbol option"
  lconstval :: cell
  ltag :: cell
  lident :: ident

definition PUBLICTAG :: cell where "PUBLICTAG = 0x80000000"
definition TAGMASK :: cell where "TAGMASK = NOT PUBLICTAG"

section \<open>Constant tables (sc1.c)\<close>

text \<open>A table is the list behind its root node.\<close>

definition insert_constval :: "constvalue list \<Rightarrow> constvalue list \<Rightarrow> string \<Rightarrow> cell \<Rightarrow> int \<Rightarrow> constvalue list result" where
  "insert_constval before after nm val index =
     bindR (assertR (length nm < sNAMEMAX)) (\<lambda>_.
       Inr (before @ \<lparr>cname = nm, cvalue = val, cindex = index\<rparr> # after))"

definition append_constval :: "constvalue list \<Rightarrow> string \<Rightarrow> cell \<Rightarrow> int \<Rightarrow> constvalue list result" where
  "append_constval table nm val index = insert_constval table [] nm val index"

fun find_constval :: "constvalue list \<Rightarrow> string \<Rightarrow> int \<Rightarrow> constvalue option" where
  "find_constval [] nm index = None"
| "find_constval (p # ps) nm index =
     (if strcmp nm (cname p) = 0 \<and> cindex p = index then Some p else find_constval ps nm index)"

fun find_constval_byval :: "constvalue list \<Rightarrow> cell \<Rightarrow> constvalue option" where
  "find_constval_byval [] val = None"
| "find_constval_byval (p # ps) val = (if cvalue p = val then Some p else find_constval_byval ps val)"

definition delete_consttable :: "constvalue list \<Rightarrow> constvalue list" where
  "delete_consttable table = []"

lemma find_constval_snoc:
  "find_constval (t @ [p]) nm ix =
     (case find_constval t nm ix of
        Some q \<Rightarrow> Some q
      | None \<Rightarrow> if nm = cname p \<and> ix = cindex p then Some p else None)"
  by (induction t) auto

lemma append_constval_Inr:
  "append_constval t nm val ix = Inr t' \<longleftrightarrow>
     length nm < sNAMEMAX \<and> t' = t @ [\<lparr>cname = nm, cvalue = val, cindex = ix\<rparr>]"
  by (auto simp: append_constval_def insert_constval_def bindR_Inr_iff)

lemma find_constval_Some:
  "find_constval t nm ix = Some p \<Longrightarrow> p \<in> set t \<and> cname p = nm \<and> cindex p = ix"
  by (induction t) (auto split: if_splits)

lemma find_constval_None:
  "find_constval t nm ix = None \<longleftrightarrow> (\<forall>p \<in> set t. \<not> (cname p = nm \<and> cindex p = ix))"
  by (induction t) auto

text \<open>Appending keeps the contract of a keyed table; the key is the name and the index.\<close>

definition names_const :: "string \<times> int \<Rightarrow> constvalue \<Rightarrow> bool" where
  "names_const k p \<longleftrightarrow> cname p = fst k \<and> cindex p = snd k \<and> length (fst k) < sNAMEMAX"

definition add_const :: "string \<times> int \<Rightarrow> constvalue \<Rightarrow> constvalue list \<Rightarrow> constvalue list" where
  "add_const k p t = (case append_constval t (fst k) (cvalue p) (snd k) of Inl _ \<Rightarrow> t | Inr t' \<Rightarrow> t')"

interpretation constab: keyed_table "\<lambda>_. True" names_const add_const "\<lambda>t k. find_constval t (fst k) (snd k)"
proof unfold_locales
  fix t k k' p
  assume f: "names_const k p" and n: "find_constval t (fst k) (snd k) = None"
  have "\<lparr>cname = fst k, cvalue = cvalue p, cindex = snd k\<rparr> = p"
    using f by (simp add: names_const_def)
  then have "append_constval t (fst k) (cvalue p) (snd k) = Inr (t @ [p])"
    using f by (simp add: append_constval_Inr names_const_def)
  then show "find_constval (add_const k p t) (fst k') (snd k')
      = (if k' = k then Some p else find_constval t (fst k') (snd k'))"
    using f n by (auto simp: add_const_def find_constval_snoc names_const_def prod_eq_iff split: option.splits)
qed simp

section \<open>Referrers and usage (sc2.c)\<close>

text \<open>\<open>refer_symbol\<close>: nothing to do when the referrer is there already; else the first empty
  spot, after doubling the list when there is none.\<close>

fun first_empty :: "nat option list \<Rightarrow> nat" where
  "first_empty [] = 0"
| "first_empty (None # rs) = 0"
| "first_empty (Some _ # rs) = Suc (first_empty rs)"

definition refer_symbol :: "nat option list \<Rightarrow> nat \<Rightarrow> nat option list result" where
  "refer_symbol refer bywhom =
     (if Some bywhom \<in> set refer then Inr refer
      else let count = first_empty refer
           in if count = length refer
              then bindR (assertR (0 < 2 * length refer)) (\<lambda>_.
                     Inr ((refer @ replicate (length refer) None)[length refer := Some bywhom]))
              else Inr (refer[count := Some bywhom]))"

definition markusage :: "nat option \<Rightarrow> byte \<Rightarrow> symbol \<Rightarrow> symbol result" where
  "markusage curfn m sy =
     (let sy1 = sy\<lparr>susage := susage sy OR m\<rparr>
      in if m AND (uREAD OR uWRITTEN) \<noteq> 0 \<and> svclass sy1 = sGLOBAL
         then (case curfn of
                 None \<Rightarrow> Inr sy1
               | Some f \<Rightarrow> bindR (refer_symbol (srefer sy1) f) (\<lambda>r. Inr (sy1\<lparr>srefer := r\<rparr>)))
         else Inr sy1)"

lemma first_empty_le: "first_empty rs \<le> length rs"
  by (induction rs rule: first_empty.induct) auto

lemma first_empty_None: "first_empty rs < length rs \<Longrightarrow> rs ! first_empty rs = None"
  by (induction rs rule: first_empty.induct) auto

lemma split_empty:
  assumes "rs ! k = None" and "k < length rs"
  obtains as bs where "rs = as @ None # bs" and "\<And>y. rs[k := Some y] = as @ Some y # bs"
  using assms by (metis id_take_nth_drop upd_conv_take_nth_drop)

lemma set_update_empty:
  assumes "rs ! k = None" and "k < length rs"
  shows "Some x \<in> set (rs[k := Some y]) \<longleftrightarrow> x = y \<or> Some x \<in> set rs"
proof -
  obtain as bs where "rs = as @ None # bs" "rs[k := Some y] = as @ Some y # bs"
    using split_empty [OF assms] by metis
  then show ?thesis by auto
qed

lemma refer_symbol_set:
  assumes "refer_symbol refer f = Inr refer'"
  shows "Some x \<in> set refer' \<longleftrightarrow> x = f \<or> Some x \<in> set refer"
proof (cases "Some f \<in> set refer")
  case True
  then show ?thesis using assms by (auto simp: refer_symbol_def)
next
  case new: False
  show ?thesis
  proof (cases "first_empty refer = length refer")
    case True
    then have r: "refer' = (refer @ replicate (length refer) None)[length refer := Some f]" "refer \<noteq> []"
      using assms new by (auto simp: refer_symbol_def Let_def bindR_Inr_iff)
    show ?thesis
      using set_update_empty [of "refer @ replicate (length refer) None" "length refer" x f] r(2)
      by (auto simp: r nth_append)
  next
    case False
    then have "first_empty refer < length refer" using first_empty_le [of refer] by simp
    then show ?thesis
      using set_update_empty [of refer "first_empty refer" x f] first_empty_None [of refer] assms new False
      by (auto simp: refer_symbol_def Let_def)
  qed
qed

text \<open>A referrer is listed at most once.\<close>

definition refer_ok :: "nat option list \<Rightarrow> bool" where
  "refer_ok rs \<longleftrightarrow> rs \<noteq> [] \<and> distinct (filter (\<lambda>r. r \<noteq> None) rs)"

lemma refer_ok_update:
  assumes "refer_ok rs" and "rs ! k = None" and "k < length rs" and "Some f \<notin> set rs"
  shows "refer_ok (rs[k := Some f])"
proof -
  obtain as bs where "rs = as @ None # bs" "rs[k := Some f] = as @ Some f # bs"
    using split_empty [OF assms(2,3)] by metis
  then show ?thesis using assms(1,4) by (auto simp: refer_ok_def)
qed

lemma refer_symbol_ok:
  assumes r: "refer_symbol refer f = Inr refer'" and ok: "refer_ok refer"
  shows "refer_ok refer'"
proof (cases "Some f \<in> set refer")
  case True
  then show ?thesis using assms by (auto simp: refer_symbol_def)
next
  case new: False
  show ?thesis
  proof (cases "first_empty refer = length refer")
    case True
    then have "refer' = (refer @ replicate (length refer) None)[length refer := Some f]" "refer \<noteq> []"
      using r new by (auto simp: refer_symbol_def Let_def bindR_Inr_iff)
    moreover have "refer_ok (refer @ replicate (length refer) None)"
      using ok by (auto simp: refer_ok_def)
    ultimately show ?thesis
      using refer_ok_update [of "refer @ replicate (length refer) None" "length refer" f] new
      by (auto simp: nth_append)
  next
    case False
    then have "first_empty refer < length refer" using first_empty_le [of refer] by simp
    then show ?thesis
      using refer_ok_update [OF ok, of "first_empty refer" f] first_empty_None [of refer] r new False
      by (auto simp: refer_symbol_def Let_def)
  qed
qed

lemma refer_symbol_succeeds: "refer_ok refer \<Longrightarrow> \<exists>refer'. refer_symbol refer f = Inr refer'"
  by (auto simp: refer_symbol_def refer_ok_def Let_def assertR_def)

section \<open>Names of user-defined operators (sc1.c)\<close>

text \<open>\<open>sprintf("%x")\<close> prints as \<open>itoh\<close> does.\<close>

definition tag2str :: "cell \<Rightarrow> string result" where
  "tag2str tg =
     (let t = tg AND TAGMASK; dest = CHR ''0'' # itoh t
      in bindR (assertR (0 \<le> sint t)) (\<lambda>_.
           Inr (if isdigit (dest ! 1) then tl dest else dest)))"

definition operator_symname :: "string \<Rightarrow> cell \<Rightarrow> cell \<Rightarrow> nat \<Rightarrow> cell \<Rightarrow> string result" where
  "operator_symname opername tag1 tag2 numtags resulttag =
     bindR (assertR (1 \<le> numtags \<and> numtags \<le> 2)) (\<lambda>_.
       let opertok = (case opername of [c] \<Rightarrow> Some c | _ \<Rightarrow> None)
       in if opertok = Some (CHR ''='')
          then bindR (tag2str resulttag) (\<lambda>a. bindR (tag2str tag1) (\<lambda>b. Inr (a @ opername @ b)))
          else if numtags = 1 \<or> opertok = Some (CHR ''~'')
          then bindR (tag2str tag1) (\<lambda>a. Inr (opername @ a))
          else bindR (tag2str tag1) (\<lambda>a. bindR (tag2str tag2) (\<lambda>b. Inr (a @ opername @ b))))"

text \<open>\<open>parse_funcname\<close> returns the unary flag, the two tags and the operator; the copy loop has
  no other end than a digit, and the operator's buffer holds ten characters.\<close>

definition parse_funcname :: "string \<Rightarrow> (bool \<times> cell \<times> cell \<times> string) result" where
  "parse_funcname fname =
     (let (unary, tag1, ptr) =
            (case fname of
               c # _ \<Rightarrow> if c = CHR ''-'' then (True, 0, fname)
                        else let (v, r) = strtol16 fname in (length r = length fname, word_of_int v, r)
             | [] \<Rightarrow> let (v, r) = strtol16 fname in (length r = length fname, word_of_int v, r));
          nm = takeWhile (\<lambda>c. \<not> isdigit c) ptr;
          rest = dropWhile (\<lambda>c. \<not> isdigit c) ptr
      in bindR (assertR ((unary \<longrightarrow> tag1 = 0) \<and> ptr \<noteq> [])) (\<lambda>_.
           if rest = [] \<or> 10 \<le> length nm then Inl BufferOverflow
           else Inr (unary, tag1, word_of_int (fst (strtol16 rest)), nm)))"

definition find_tag_byval :: "constvalue list \<Rightarrow> cell \<Rightarrow> constvalue option" where
  "find_tag_byval tagname_tab tg =
     (case find_constval_byval tagname_tab (tg AND NOT PUBLICTAG) of
        Some p \<Rightarrow> Some p
      | None \<Rightarrow> find_constval_byval tagname_tab (tg OR PUBLICTAG))"

definition funcdisplayname :: "constvalue list \<Rightarrow> string \<Rightarrow> string result" where
  "funcdisplayname tagname_tab funcname =
     (if funcname = [] \<or> alpha (hd funcname) then Inr funcname
      else bindR (parse_funcname funcname) (\<lambda>(unary, tag0, tag1, opname).
        case find_tag_byval tagname_tab tag1 of
          None \<Rightarrow> Inl AssertFail
        | Some t1 \<Rightarrow>
            if unary then Inr (''operator'' @ opname @ ''('' @ cname t1 @ '':)'')
            else (case find_tag_byval tagname_tab tag0 of
                    None \<Rightarrow> Inl AssertFail
                  | Some t0 \<Rightarrow>
                      if opname = ''=''
                      then Inr (cname t0 @ '':operator'' @ opname @ ''('' @ cname t1 @ '':)'')
                      else Inr (''operator'' @ opname @ ''('' @ cname t0 @ '':,'' @ cname t1 @ '':)''))))"

section \<open>Properties\<close>

text \<open>\<open>refer_symbol\<close>: on a well-formed referrer list (a slot to grow from, nobody listed
  twice) recording a user succeeds without an assertion failing, whatever spots are free or
  the list is full; afterwards exactly the old referrers and the new one are listed, the list
  is well formed again, and recording the same user once more changes nothing.\<close>
theorem refer_symbol_adds_one_referrer:
  assumes "refer_ok refer"
  shows "\<exists>refer'. refer_symbol refer f = Inr refer' \<and> refer_ok refer'
    \<and> {x. Some x \<in> set refer'} = insert f {x. Some x \<in> set refer} \<and> refer_symbol refer' f = Inr refer'"
proof -
  obtain refer' where r: "refer_symbol refer f = Inr refer'" using refer_symbol_succeeds [OF assms] ..
  have "Some f \<in> set refer'" by (simp add: refer_symbol_set [OF r])
  then have "refer_symbol refer' f = Inr refer'" by (simp add: refer_symbol_def)
  then show ?thesis using r refer_symbol_ok [OF r assms] refer_symbol_set [OF r] by auto
qed

theorem refer_symbol_adds_one_referrer_witness:
  "\<exists>refer'. refer_symbol [Some 1, Some 4] 7 = Inr refer' \<and> refer_ok refer'
    \<and> {x. Some x \<in> set refer'} = insert 7 {x. Some x \<in> set [Some 1, Some 4]}
    \<and> refer_symbol refer' 7 = Inr refer'"
  by (rule refer_symbol_adds_one_referrer) (simp add: refer_ok_def)

text \<open>\<open>append_constval\<close>, \<open>find_constval\<close>: appending constants with distinct names (of
  fewer than 31 characters) or indices that the table does not have yet makes each of them findable
  under its own name and index, leaves every other search as it was, and the result of a search
  does not depend on the order of the insertions.\<close>
theorem constant_table_finds_what_was_appended:
  assumes "\<forall>(k, p) \<in> set kps. names_const k p \<and> find_constval t (fst k) (snd k) = None"
    and "distinct (map fst kps)" and "set kps' = set kps" and "distinct (map fst kps')"
  shows "find_constval (foldl (\<lambda>t (k, p). add_const k p t) t kps') nm ix =
    (case map_of kps (nm, ix) of Some p \<Rightarrow> Some p | None \<Rightarrow> find_constval t nm ix)"
proof -
  have "constab.ins_all kvs t = foldl (\<lambda>t (k, p). add_const k p t) t kvs" for kvs
    by (induction kvs t rule: constab.ins_all.induct) simp_all
  then show ?thesis
    using constab.ins_all_order [where t = t and kvs = kps and kvs' = kps' and k = "(nm, ix)"]
      constab.ins_all_lookup [where t = t and kvs = kps and k' = "(nm, ix)"] assms
    by (simp cong: option.case_cong)
qed

theorem constant_table_finds_what_was_appended_witness:
  "find_constval (foldl (\<lambda>t (k, p). add_const k p t) []
     [((''b'', 0), \<lparr>cname = ''b'', cvalue = 2, cindex = 0\<rparr>), ((''a'', 0), \<lparr>cname = ''a'', cvalue = 1, cindex = 0\<rparr>)]) ''a'' 0
   = (case map_of [((''a'', 0), \<lparr>cname = ''a'', cvalue = 1, cindex = 0\<rparr>), ((''b'', 0), \<lparr>cname = ''b'', cvalue = 2, cindex = 0\<rparr>)] (''a'', 0) of
        Some p \<Rightarrow> Some p | None \<Rightarrow> find_constval [] ''a'' 0)"
  using constant_table_finds_what_was_appended
        [where t = "[]" and kps = "[((''a'', 0), \<lparr>cname = ''a'', cvalue = 1, cindex = 0\<rparr>),
           ((''b'', 0), \<lparr>cname = ''b'', cvalue = 2, cindex = 0\<rparr>)]"
         and kps' = "[((''b'', 0), \<lparr>cname = ''b'', cvalue = 2, cindex = 0\<rparr>),
           ((''a'', 0), \<lparr>cname = ''a'', cvalue = 1, cindex = 0\<rparr>)]" and nm = "''a''" and ix = 0]
  by (auto simp: names_const_def sNAMEMAX_def)

text \<open>\<open>insert_constval\<close>: the lexer keeps names of up to \<open>sNAMEMAX\<close> (31) characters and the
  table's buffer holds them, but the routine's assertion rejects a name of exactly 31
  characters: declaring such a tag stops the compiler.\<close>
theorem insert_constval_rejects_longest_name:
  "append_constval t (replicate sNAMEMAX c) val ix = Inl AssertFail"
  by (simp add: append_constval_def insert_constval_def)

end
