(* ===== verification/ScStage.thy ===== *)
theory ScStage
  imports ScTypes
begin

text \<open>
  The staging buffer of sc7.c: growth, marks, \<open>stgwrite\<close> (staged and direct), deletion,
  switching, and the reversal of argument code in \<open>stgstring\<close>. The state record holds the
  global variables of scvars.c that the back end (sc4.c, sc7.c) reads and writes. The lemmas
  show that, staged or not, writing appends exactly the given text, that fixed-size limits
  are enforced, and (in \<open>ScReorder\<close>) that arguments leave the buffer in reversed order.
\<close>

section \<open>State\<close>

datatype status = StatIDLE | StatFIRST | StatWRITE | StatSKIP

datatype seg = NoSeg | CSEG | DSEG

record cstate =
  stgbuf :: string
  stgmax :: nat
  stgidx :: nat
  staging :: bool
  outf :: string
  code_idx :: cell
  sc_status :: status
  sc_debug :: nat
  curseg :: seg
  glb_declared :: cell
  litidx :: cell
  sc_labnum :: nat
  sc_asmfile :: bool
  sc_listing :: bool
  ntv_funcid :: cell
  sc_dataalign :: nat
  sc_stksize :: cell
  sc_ctrlchar :: char
  curfunc :: "nat option"
  tagname_tab :: "constvalue list"

type_synonym act = "cstate \<Rightarrow> cstate result"

text \<open>Bits of \<open>sc_debug\<close> (sc.h).\<close>

definition dbg_bit :: "nat \<Rightarrow> cstate \<Rightarrow> bool" where
  "dbg_bit m s \<longleftrightarrow> sc_debug s AND m \<noteq> 0"

abbreviation sCHKBOUNDS :: nat where "sCHKBOUNDS \<equiv> 1"
abbreviation sSYMBOLIC :: nat where "sSYMBOLIC \<equiv> 2"
abbreviation sNOOPTIMIZE :: nat where "sNOOPTIMIZE \<equiv> 4"

abbreviation sSTARTREORDER :: char where "sSTARTREORDER \<equiv> CHR 0x01"
abbreviation sENDREORDER :: char where "sENDREORDER \<equiv> CHR 0x02"
definition sEXPRSTART :: nat where "sEXPRSTART = 128"
definition sMAXARGS :: nat where "sMAXARGS = 127"
definition sSTG_GROW :: nat where "sSTG_GROW = 512"
definition sSTG_MAX :: nat where "sSTG_MAX = 20480"

section \<open>The buffer\<close>

text \<open>\<open>stgbuf\<close> lists the bytes of the block that have been written; the empty list is the null
  pointer. \<open>cbuf\<close> is the block read as a C string.\<close>

definition array_put :: "nat \<Rightarrow> char \<Rightarrow> string \<Rightarrow> string" where
  "array_put i c xs =
     (if i < length xs then xs[i := c] else xs @ replicate (i - length xs) NUL @ [c])"

definition cbuf :: "cstate \<Rightarrow> string" where
  "cbuf s = takeWhile (\<lambda>c. c \<noteq> NUL) (stgbuf s)"

definition grow_stgbuffer :: "nat \<Rightarrow> act" where
  "grow_stgbuffer requiredsize s =
     bindR (assertR (stgmax s < requiredsize)) (\<lambda>_.
       if requiredsize > sSTG_MAX then Inl (Fatal 102)
       else Inr (s\<lparr>stgmax := requiredsize + sSTG_GROW,
                   stgbuf := (if stgbuf s = [] then [NUL] else stgbuf s)\<rparr>))"

definition check_stgbuffer :: "nat \<Rightarrow> act" where
  "check_stgbuffer index s = (if index \<ge> stgmax s then grow_stgbuffer (index + 1) s else Inr s)"

definition stgbuffer_cleanup :: "cstate \<Rightarrow> cstate" where
  "stgbuffer_cleanup s = (if stgbuf s \<noteq> [] then s\<lparr>stgbuf := [], stgmax := 0\<rparr> else s)"

definition stg_put :: "char \<Rightarrow> act" where
  "stg_put c s =
     bindR (check_stgbuffer (stgidx s) s) (\<lambda>s1.
       Inr (s1\<lparr>stgbuf := array_put (stgidx s1) c (stgbuf s1), stgidx := stgidx s1 + 1\<rparr>))"

definition stgmark :: "char \<Rightarrow> act" where
  "stgmark mark s = (if staging s then stg_put mark s else Inr s)"

definition filewrite :: "string \<Rightarrow> cstate \<Rightarrow> cstate" where
  "filewrite str s = (if sc_status s = StatWRITE then s\<lparr>outf := outf s @ str\<rparr> else s)"

text \<open>\<open>stgwrite\<close>: staged, the string joins an unfinished line (the terminating zero is
  overwritten) and is terminated again; direct, it is added to the pending line, and a
  finished line goes to the file.\<close>

definition stg_rejoin :: "cstate \<Rightarrow> cstate" where
  "stg_rejoin s =
     (if stgidx s \<ge> 2 \<and> stgbuf s ! (stgidx s - 1) = NUL \<and> stgbuf s ! (stgidx s - 2) \<noteq> NL
      then s\<lparr>stgidx := stgidx s - 1\<rparr> else s)"

definition stgwrite_direct :: "string \<Rightarrow> act" where
  "stgwrite_direct st s =
     bindR (check_stgbuffer (length (cbuf s) + length st + 1) s) (\<lambda>s1.
       let line = cbuf s1 @ st;
           s2 = s1\<lparr>stgbuf := line @ NUL # drop (length line + 1) (stgbuf s1)\<rparr>
       in Inr (if line \<noteq> [] \<and> last line = NL
               then (filewrite line s2)\<lparr>stgbuf := array_put 0 NUL (stgbuf s2)\<rparr>
               else s2))"

definition stgwrite :: "string \<Rightarrow> act" where
  "stgwrite st s =
     bindR (check_stgbuffer 0 s) (\<lambda>s1.
       if staging s1 then block (map stg_put (st @ [NUL])) (stg_rejoin s1)
       else stgwrite_direct st s1)"

definition stgdel :: "nat \<Rightarrow> cell \<Rightarrow> cstate \<Rightarrow> cstate" where
  "stgdel index code_index s =
     (if staging s then s\<lparr>stgidx := index, code_idx := code_index\<rparr> else s)"

text \<open>\<open>stgget\<close> stores the two marks only while staging; it returns the staging flag.\<close>

definition stgget :: "cstate \<Rightarrow> (nat \<times> cell) option" where
  "stgget s = (if staging s then Some (stgidx s, code_idx s) else None)"

definition stgset :: "bool \<Rightarrow> act" where
  "stgset onoff s =
     bindR (let s1 = s\<lparr>staging := onoff\<rparr>
            in if onoff
               then bindR (assertR (stgidx s1 = 0)) (\<lambda>_.
                      bindR (check_stgbuffer 0 (s1\<lparr>stgidx := 0\<rparr>)) (\<lambda>s2.
                        Inr (if cbuf s2 \<noteq> [] then filewrite (cbuf s2) s2 else s2)))
               else Inr s1)
       (\<lambda>s3. if stgbuf s3 = [] then Inl BufferOverflow
             else Inr (s3\<lparr>stgbuf := array_put 0 NUL (stgbuf s3)\<rparr>))"

definition add_code_idx :: "cell \<Rightarrow> act" where
  "add_code_idx n s = Inr (s\<lparr>code_idx := code_idx s + n\<rparr>)"

section \<open>What writing does\<close>

text \<open>The text the compiler has produced so far: what is in the file, and after it the
  staged characters without their string terminators, or the pending line.\<close>

definition staged :: "cstate \<Rightarrow> string" where
  "staged s = filter (\<lambda>c. c \<noteq> NUL) (take (stgidx s) (stgbuf s))"

definition text_of :: "cstate \<Rightarrow> string" where
  "text_of s = outf s @ (if staging s then staged s else cbuf s)"

text \<open>The buffer invariant: the block is allocated, terminated, and as long as \<open>stgidx\<close> says.\<close>

definition stg_ok :: "cstate \<Rightarrow> bool" where
  "stg_ok s \<longleftrightarrow> (stgbuf s = [] \<longrightarrow> stgmax s = 0) \<and> stgidx s \<le> length (stgbuf s)
     \<and> (staging s \<longrightarrow> stgbuf s \<noteq> []) \<and> (\<not> staging s \<longrightarrow> stgbuf s \<noteq> [] \<longrightarrow> NUL \<in> set (stgbuf s))"

text \<open>Everything but the buffer and the file is untouched by a write.\<close>

definition same_globals :: "cstate \<Rightarrow> cstate \<Rightarrow> bool" where
  "same_globals s t \<longleftrightarrow>
     t\<lparr>stgbuf := stgbuf s, stgmax := stgmax s, stgidx := stgidx s, outf := outf s\<rparr> = s"

lemma same_globals_refl [simp]: "same_globals s s"
  by (simp add: same_globals_def)

lemma same_globals_fields:
  "same_globals s t \<Longrightarrow> staging t = staging s \<and> code_idx t = code_idx s \<and> sc_status t = sc_status s
     \<and> sc_debug t = sc_debug s \<and> curseg t = curseg s \<and> glb_declared t = glb_declared s
     \<and> litidx t = litidx s \<and> sc_labnum t = sc_labnum s \<and> sc_asmfile t = sc_asmfile s
     \<and> sc_listing t = sc_listing s \<and> ntv_funcid t = ntv_funcid s \<and> sc_dataalign t = sc_dataalign s
     \<and> sc_stksize t = sc_stksize s \<and> sc_ctrlchar t = sc_ctrlchar s
     \<and> curfunc t = curfunc s \<and> tagname_tab t = tagname_tab s"
  unfolding same_globals_def by (cases s; cases t) simp

lemma same_globals_trans: "same_globals s t \<Longrightarrow> same_globals t u \<Longrightarrow> same_globals s u"
  unfolding same_globals_def by (cases s; cases t; cases u) simp

lemma same_globals_buffer [simp]:
  "same_globals s (t\<lparr>stgbuf := b\<rparr>) = same_globals s t"
  "same_globals s (t\<lparr>stgmax := m\<rparr>) = same_globals s t"
  "same_globals s (t\<lparr>stgidx := i\<rparr>) = same_globals s t"
  "same_globals s (t\<lparr>outf := f\<rparr>) = same_globals s t"
  by (simp_all add: same_globals_def)

lemma check_stgbuffer_ok:
  assumes "check_stgbuffer i s = Inr t" and "stg_ok s"
  shows "stg_ok t \<and> stgidx t = stgidx s \<and> outf t = outf s \<and> same_globals s t \<and> i < stgmax t
    \<and> stgbuf t = (if stgbuf s = [] then [NUL] else stgbuf s)"
  using assms
  by (auto simp: check_stgbuffer_def grow_stgbuffer_def bindR_Inr_iff stg_ok_def same_globals_def
      split: if_splits)

lemma stg_put_ok:
  assumes "stg_put c s = Inr t" and "stg_ok s" and "staging s"
  shows "stg_ok t \<and> stgidx t = stgidx s + 1 \<and> outf t = outf s \<and> same_globals s t
    \<and> take (stgidx t) (stgbuf t) = take (stgidx s) (stgbuf s) @ [c]"
proof -
  obtain s1 where s1: "check_stgbuffer (stgidx s) s = Inr s1"
    and t: "t = s1\<lparr>stgbuf := array_put (stgidx s1) c (stgbuf s1), stgidx := stgidx s1 + 1\<rparr>"
    using assms(1) by (auto simp: stg_put_def)
  note c = check_stgbuffer_ok [OF s1 assms(2)]
  have ne: "stgbuf s \<noteq> []" and le: "stgidx s \<le> length (stgbuf s)" using assms by (auto simp: stg_ok_def)
  have "take (stgidx s + 1) (array_put (stgidx s) c (stgbuf s)) = take (stgidx s) (stgbuf s) @ [c]"
    using le by (auto simp: array_put_def take_Suc_conv_app_nth)
  moreover have "stgidx s + 1 \<le> length (array_put (stgidx s) c (stgbuf s))"
    using le by (auto simp: array_put_def)
  ultimately show ?thesis
    using c ne assms(3) same_globals_fields [of s s1] by (auto simp: t stg_ok_def)
qed

lemma stg_puts_ok:
  "block (map stg_put st) s = Inr t \<Longrightarrow> stg_ok s \<Longrightarrow> staging s \<Longrightarrow>
   stg_ok t \<and> stgidx t = stgidx s + length st \<and> outf t = outf s \<and> same_globals s t
   \<and> take (stgidx t) (stgbuf t) = take (stgidx s) (stgbuf s) @ st"
proof (induction st arbitrary: s)
  case (Cons c st)
  then obtain s1 where s1: "stg_put c s = Inr s1" "block (map stg_put st) s1 = Inr t" by auto
  note p = stg_put_ok [OF s1(1) Cons.prems(2,3)]
  have "staging s1" using p same_globals_fields [of s s1] Cons.prems(3) by auto
  with Cons.IH [OF s1(2)] p show ?case by (auto intro: same_globals_trans)
qed simp

lemma stg_rejoin_ok:
  assumes "stg_ok s" and "staging s"
  shows "stg_ok (stg_rejoin s) \<and> outf (stg_rejoin s) = outf s \<and> same_globals s (stg_rejoin s)
    \<and> staged (stg_rejoin s) = staged s"
proof (cases "stgidx s \<ge> 2 \<and> stgbuf s ! (stgidx s - 1) = NUL \<and> stgbuf s ! (stgidx s - 2) \<noteq> NL")
  case True
  then obtain k where k: "stgidx s = Suc k" by (cases "stgidx s") auto
  have "k < length (stgbuf s)" using assms(1) k by (simp add: stg_ok_def)
  moreover have "stgbuf s ! k = NUL" using True k by simp
  ultimately have "take (stgidx s) (stgbuf s) = take k (stgbuf s) @ [NUL]"
    by (simp add: k take_Suc_conv_app_nth)
  then have "staged s = staged (s\<lparr>stgidx := k\<rparr>)" by (simp add: staged_def)
  moreover have "stg_rejoin s = s\<lparr>stgidx := k\<rparr>"
    unfolding stg_rejoin_def using True by (simp only: k diff_Suc_1) simp
  moreover have "stg_ok (s\<lparr>stgidx := k\<rparr>)" using assms(1) k by (simp add: stg_ok_def)
  ultimately show ?thesis by simp
next
  case False
  then have "stg_rejoin s = s" by (auto simp: stg_rejoin_def)
  then show ?thesis using assms by simp
qed

lemma takeWhile_prefix_NUL:
  "NUL \<notin> set line \<Longrightarrow> takeWhile (\<lambda>c. c \<noteq> NUL) (line @ NUL # r) = line"
  by (induction line) auto

lemma cbuf_no_NUL: "NUL \<notin> set (cbuf s)"
  by (auto simp: cbuf_def dest: set_takeWhileD)

lemma stgwrite_direct_ok:
  assumes w: "stgwrite_direct st s = Inr t" and ok: "stg_ok s" and d: "\<not> staging s"
    and st: "NUL \<notin> set st" and wr: "sc_status s = StatWRITE"
  shows "stg_ok t \<and> same_globals s t \<and> text_of t = text_of s @ st"
proof -
  obtain s1 where s1: "check_stgbuffer (length (cbuf s) + length st + 1) s = Inr s1"
    and t0: "(let line = cbuf s1 @ st;
           s2 = s1\<lparr>stgbuf := line @ NUL # drop (length line + 1) (stgbuf s1)\<rparr>
       in Inr (if line \<noteq> [] \<and> last line = NL
               then (filewrite line s2)\<lparr>stgbuf := array_put 0 NUL (stgbuf s2)\<rparr>
               else s2)) = (Inr t :: cstate result)"
    using w [unfolded stgwrite_direct_def] by (rule bindR_InrE)
  note c = check_stgbuffer_ok [OF s1 ok]
  note g = same_globals_fields [of s s1]
  have cb: "cbuf s1 = cbuf s" using c by (auto simp: cbuf_def)
  define line where "line = cbuf s @ st"
  have nn: "NUL \<notin> set line" using st cbuf_no_NUL [of s] by (simp add: line_def)
  define s2 where "s2 = s1\<lparr>stgbuf := line @ NUL # drop (length line + 1) (stgbuf s1)\<rparr>"
  have t': "t = (if line \<noteq> [] \<and> last line = NL
      then (filewrite line s2)\<lparr>stgbuf := array_put 0 NUL (stgbuf s2)\<rparr> else s2)"
    using t0 unfolding Let_def line_def s2_def cb by auto
  have st1: "staging s1 = False" "sc_status s1 = StatWRITE" using c g d wr by auto
  have idx: "stgidx s1 \<le> length (stgbuf s2)" using c by (auto simp: s2_def stg_ok_def)
  show ?thesis
  proof (cases "line \<noteq> [] \<and> last line = NL")
    case True
    have b: "stgbuf t = array_put 0 NUL (stgbuf s2)" using True by (simp add: t')
    have b0: "array_put 0 NUL (stgbuf s2) = NUL # tl (stgbuf s2)"
      by (cases "stgbuf s2") (auto simp: array_put_def s2_def)
    have "outf t = outf s @ line" using True c st1 by (simp add: t' filewrite_def s2_def)
    moreover have "cbuf t = []" by (simp add: cbuf_def b b0)
    moreover have "same_globals s t" using True c st1 by (simp add: t' filewrite_def s2_def)
    moreover have "stgidx t = stgidx s1" using True st1 by (simp add: t' filewrite_def s2_def)
    moreover have "stg_ok t"
    proof -
      have "length (stgbuf t) = length (stgbuf s2)" by (cases "stgbuf s2") (auto simp: b array_put_def s2_def)
      moreover have "NUL \<in> set (stgbuf t)" "stgbuf t \<noteq> []" by (simp_all add: b b0)
      moreover have "stgidx t = stgidx s1" by fact
      ultimately show ?thesis using idx by (simp add: stg_ok_def)
    qed
    ultimately show ?thesis
      using d g c same_globals_fields [of s t] by (simp add: text_of_def line_def)
  next
    case False
    then have ts: "t = s2" by (auto simp: t')
    have "cbuf s2 = line" using nn by (simp add: cbuf_def s2_def takeWhile_prefix_NUL)
    then show ?thesis
      using c d st1 idx by (auto simp: ts text_of_def line_def stg_ok_def s2_def)
  qed
qed

text \<open>The effect of one write, in both modes.\<close>

lemma stgwrite_ok:
  assumes w: "stgwrite st s = Inr t" and ok: "stg_ok s" and st: "NUL \<notin> set st"
    and wr: "sc_status s = StatWRITE"
  shows "stg_ok t \<and> same_globals s t \<and> text_of t = text_of s @ st"
proof -
  obtain s1 where s1: "check_stgbuffer 0 s = Inr s1"
    and w1: "(if staging s1 then block (map stg_put (st @ [NUL])) (stg_rejoin s1)
       else stgwrite_direct st s1) = Inr t"
    using w by (auto simp: stgwrite_def)
  note c = check_stgbuffer_ok [OF s1 ok]
  note g = same_globals_fields [of s s1]
  have tx: "text_of s1 = text_of s"
    using c g ok by (auto simp: text_of_def staged_def cbuf_def stg_ok_def)
  show ?thesis
  proof (cases "staging s1")
    case True
    have ok1: "stg_ok s1" using c by simp
    note r = stg_rejoin_ok [OF ok1 True]
    have str: "staging (stg_rejoin s1)" using r True same_globals_fields [of s1 "stg_rejoin s1"] by auto
    have w2: "block (map stg_put (st @ [NUL])) (stg_rejoin s1) = Inr t" using w1 True by simp
    note p = stg_puts_ok [OF w2 _ str]
    have "staged t = staged s1 @ st"
      using p r st by (auto simp: staged_def filter_id_conv)
    moreover have "same_globals s t" using c r p by (meson same_globals_trans)
    ultimately show ?thesis
      using p r tx True c same_globals_fields [of s1 t] same_globals_trans [of s1 "stg_rejoin s1" t]
      by (auto simp: text_of_def)
  next
    case False
    then show ?thesis
      using stgwrite_direct_ok [of st s1 t] w1 c g st wr tx same_globals_trans by auto
  qed
qed

text \<open>The buffer never grows past its limit: every index the code writes is below
  \<open>sSTG_MAX + sSTG_GROW\<close>, and reaching the limit is the fatal error 102.\<close>

lemma check_stgbuffer_limit:
  "stgmax s \<le> sSTG_MAX + sSTG_GROW \<Longrightarrow> check_stgbuffer i s = Inr t \<Longrightarrow>
   stgmax t \<le> sSTG_MAX + sSTG_GROW \<and> i < stgmax t"
  by (auto simp: check_stgbuffer_def grow_stgbuffer_def bindR_Inr_iff split: if_splits)

lemma check_stgbuffer_fails:
  "check_stgbuffer i s = Inl e \<Longrightarrow> e = Fatal 102 \<and> sSTG_MAX \<le> i"
  by (auto simp: check_stgbuffer_def grow_stgbuffer_def assertR_def split: if_splits)

lemma stg_puts_fails:
  "block (map stg_put st) s = Inl e \<Longrightarrow> e = Fatal 102 \<and> sSTG_MAX < stgidx s + length st"
proof (induction st arbitrary: s)
  case (Cons c st)
  show ?case
  proof (cases "check_stgbuffer (stgidx s) s")
    case (Inl e')
    then show ?thesis using Cons.prems check_stgbuffer_fails [OF Inl] by (auto simp: stg_put_def)
  next
    case (Inr s1)
    have "stgidx s1 = stgidx s"
      using Inr by (auto simp: check_stgbuffer_def grow_stgbuffer_def bindR_Inr_iff split: if_splits)
    moreover define s2 where "s2 = s1\<lparr>stgbuf := array_put (stgidx s1) c (stgbuf s1), stgidx := stgidx s1 + 1\<rparr>"
    moreover have "stg_put c s = Inr s2" using Inr by (simp add: stg_put_def s2_def)
    moreover have "block (map stg_put st) s2 = Inl e" using Cons.prems calculation(3) by simp
    ultimately show ?thesis using Cons.IH [of s2] by simp
  qed
qed simp

lemma stgwrite_fails:
  assumes w: "stgwrite st s = Inl e"
  shows "e = Fatal 102 \<and> sSTG_MAX \<le> (if staging s then stgidx s else length (cbuf s)) + length st + 1"
proof (cases "check_stgbuffer 0 s")
  case (Inl e')
  then show ?thesis using w check_stgbuffer_fails [OF Inl] by (simp add: stgwrite_def sSTG_MAX_def)
next
  case (Inr s1)
  have c: "stgidx s1 = stgidx s" "staging s1 = staging s" "cbuf s1 = cbuf s"
    using Inr by (auto simp: check_stgbuffer_def grow_stgbuffer_def bindR_Inr_iff cbuf_def split: if_splits)
  show ?thesis
  proof (cases "staging s")
    case True
    have w2: "block (map stg_put (st @ [NUL])) (stg_rejoin s1) = Inl e" using w Inr c True by (simp add: stgwrite_def)
    show ?thesis using stg_puts_fails [OF w2] c True by (auto simp: stg_rejoin_def split: if_splits)
  next
    case False
    have "stgwrite_direct st s1 = Inl e" using w Inr c False by (simp add: stgwrite_def)
    then have "check_stgbuffer (length (cbuf s1) + length st + 1) s1 = Inl e"
      by (cases "check_stgbuffer (length (cbuf s1) + length st + 1) s1")
         (auto simp: stgwrite_direct_def Let_def split: if_splits)
    then show ?thesis using check_stgbuffer_fails c False by fastforce
  qed
qed

lemma stgwrites_ok:
  "block (map stgwrite sts) s = Inr t \<Longrightarrow> stg_ok s \<Longrightarrow> sc_status s = StatWRITE \<Longrightarrow>
   \<forall>st \<in> set sts. NUL \<notin> set st \<Longrightarrow> stg_ok t \<and> same_globals s t \<and> text_of t = text_of s @ concat sts"
proof (induction sts arbitrary: s)
  case (Cons st sts)
  obtain s1 where s1: "stgwrite st s = Inr s1" "block (map stgwrite sts) s1 = Inr t" using Cons.prems(1) by auto
  have o: "stg_ok s1 \<and> same_globals s s1 \<and> text_of s1 = text_of s @ st"
    using stgwrite_ok [OF s1(1) Cons.prems(2)] Cons.prems(3,4) by auto
  then have "sc_status s1 = StatWRITE" using same_globals_fields [of s s1] Cons.prems(3) by simp
  with Cons.IH [OF s1(2)] o Cons.prems(4) show ?case by (auto intro: same_globals_trans)
qed simp

section \<open>Properties\<close>

text \<open>C31 (\<open>stgwrite\<close>): in the writing pass, whether the compiler is staging an expression or
  writing lines directly, a sequence of writes adds exactly the concatenation of the strings to
  the program text, wherever the pieces are cut; the buffer stays well formed and no other
  global of the compiler changes.\<close>
theorem stgwrite_appends_text:
  assumes "block (map stgwrite sts) s = Inr t" and "stg_ok s" and "sc_status s = StatWRITE"
    and "\<forall>st \<in> set sts. NUL \<notin> set st"
  shows "stg_ok t \<and> same_globals s t \<and> text_of t = text_of s @ concat sts"
  by (rule stgwrites_ok [OF assms])

definition idle_state :: "bool \<Rightarrow> cstate" where
  "idle_state onoff = \<lparr>stgbuf = [NUL], stgmax = 600, stgidx = 0, staging = onoff, outf = [], code_idx = 0,
     sc_status = StatWRITE, sc_debug = 1, curseg = NoSeg, glb_declared = 0, litidx = 0, sc_labnum = 0,
     sc_asmfile = False, sc_listing = False, ntv_funcid = 0, sc_dataalign = 4, sc_stksize = 4096,
     sc_ctrlchar = CHR 0x5C, curfunc = None, tagname_tab = []\<rparr>"

theorem stgwrite_appends_text_witness:
  "\<exists>t. block (map stgwrite [''ab'', nl]) (idle_state True) = Inr t \<and> text_of t = text_of (idle_state True) @ concat [''ab'', nl]"
proof -
  obtain t where "block (map stgwrite [''ab'', nl]) (idle_state True) = Inr t"
    by (simp add: idle_state_def stgwrite_def check_stgbuffer_def stg_rejoin_def stg_put_def array_put_def)
  then show ?thesis
    using stgwrite_appends_text [of "[''ab'', nl]" "idle_state True" t] by (auto simp: stg_ok_def idle_state_def)
qed

text \<open>the limit of the staging buffer: the only way a write fails is the fatal error 102,
  and only when the text pending in the buffer with the new text and its terminator reaches
  \<open>sSTG_MAX\<close> characters; what succeeds never takes the block past \<open>sSTG_MAX + sSTG_GROW\<close>, and
  the last position written is inside the block.\<close>
theorem stgwrite_limit:
  "(\<forall>e. stgwrite st s = Inl e \<longrightarrow> e = Fatal 102
      \<and> sSTG_MAX \<le> (if staging s then stgidx s else length (cbuf s)) + length st + 1)
   \<and> (\<forall>i t. check_stgbuffer i s = Inr t \<and> stgmax s \<le> sSTG_MAX + sSTG_GROW
      \<longrightarrow> i < stgmax t \<and> stgmax t \<le> sSTG_MAX + sSTG_GROW)"
  using stgwrite_fails check_stgbuffer_limit by blast

theorem stgwrite_limit_witness:
  "stgwrite ''x'' (idle_state True\<lparr>stgidx := 20480, stgbuf := replicate 20480 CHR ''a''\<rparr>) = Inl (Fatal 102)"
proof -
  have "\<exists>e. stgwrite ''x'' (idle_state True\<lparr>stgidx := 20480, stgbuf := replicate 20480 CHR ''a''\<rparr>) = Inl e"
    by (simp add: idle_state_def stgwrite_def check_stgbuffer_def stg_rejoin_def stg_put_def grow_stgbuffer_def
        sSTG_MAX_def)
  then show ?thesis
    using stgwrite_limit [of "''x''" "idle_state True\<lparr>stgidx := 20480, stgbuf := replicate 20480 CHR ''a''\<rparr>"] by auto
qed

end
