(* ===== verification/ScEmit.thy ===== *)
theory ScEmit
  imports ScStage
begin

text \<open>
  The code generator of sc4.c: one definition per routine, each the block of \<open>stgwrite\<close>
  calls and the advance of \<open>code_idx\<close> that the source has, in its order. Routines that mark
  a symbol as used return the symbol's new value with the state. The leader with the state
  selectors and jump tables (\<open>writeleader\<close>) is in ScLeader.
\<close>

abbreviation skip :: act where "skip \<equiv> Inr"

definition whenA :: "bool \<Rightarrow> act \<Rightarrow> act" where
  "whenA b a = (if b then a else skip)"

definition assertA :: "bool \<Rightarrow> act" where
  "assertA b s = bindR (assertR b) (\<lambda>_. Inr s)"

section \<open>Values and segments\<close>

definition outval :: "cell \<Rightarrow> bool \<Rightarrow> act" where
  "outval val newline = block [stgwrite (itoh val), whenA newline (stgwrite nl)]"

definition begcseg :: act where
  "begcseg s =
     (if curseg s \<noteq> CSEG
      then block [stgwrite nl, stgwrite (''CODE'' @ tab @ ''; ''), \<lambda>s. outval (code_idx s) True s,
                  \<lambda>s. Inr (s\<lparr>curseg := CSEG\<rparr>)] s
      else Inr s)"

definition begdseg :: act where
  "begdseg s =
     (if curseg s \<noteq> DSEG
      then block [stgwrite nl, stgwrite (''DATA'' @ tab @ ''; ''),
                  \<lambda>s. outval (glb_declared s - litidx s) True s,
                  \<lambda>s. Inr (s\<lparr>curseg := DSEG\<rparr>)] s
      else Inr s)"

definition setline :: "bool \<Rightarrow> act" where
  "setline chkbounds s =
     (if dbg_bit sSYMBOLIC s \<or> (chkbounds \<and> dbg_bit sCHKBOUNDS s)
      then block [stgwrite (tab @ ''break'' @ tab @ ''; ''), \<lambda>s. outval (code_idx s) True s,
                  add_code_idx (opcodes 1)] s
      else Inr s)"

text \<open>The two listing routines write to the file directly, only in the first pass.\<close>

definition direct_write :: "string \<Rightarrow> cstate \<Rightarrow> cstate" where
  "direct_write str s = s\<lparr>outf := outf s @ str\<rparr>"

definition setfiledirect :: "string \<Rightarrow> cstate \<Rightarrow> cstate" where
  "setfiledirect nm s =
     (if sc_status s = StatFIRST \<and> sc_listing s
      then direct_write nl (direct_write nm (direct_write ''#file '' s)) else s)"

fun decimal :: "nat \<Rightarrow> string" where
  "decimal n = (if n < 10 then [char_of (48 + n)] else decimal (n div 10) @ [char_of (48 + n mod 10)])"

declare decimal.simps [simp del]

definition setlinedirect :: "int \<Rightarrow> cstate \<Rightarrow> cstate" where
  "setlinedirect line s =
     (if sc_status s = StatFIRST \<and> sc_listing s
      then direct_write (''#line '' @ (if line < 0 then ''-'' else []) @ decimal (nat \<bar>line\<bar>) @ nl) s
      else s)"

definition setlabel :: "nat \<Rightarrow> act" where
  "setlabel number =
     block [stgwrite ''l.'', stgwrite (itoh (of_nat number)),
            \<lambda>s. if \<not> staging s
                then block [stgwrite (tab @ tab @ ''; ''), \<lambda>s. outval (code_idx s) False s] s
                else Inr s,
            stgwrite nl]"

datatype optmark = sEXPR | sPARM | sLDECL

text \<open>The name is read for \<open>sLDECL\<close> only; \<open>None\<close> is the null pointer.\<close>

fun markexpr :: "optmark \<Rightarrow> string option \<Rightarrow> cell \<Rightarrow> act" where
  "markexpr sEXPR nm offset = stgwrite (tab @ '';$exp'' @ nl)"
| "markexpr sPARM nm offset = stgwrite (tab @ '';$par'' @ nl)"
| "markexpr sLDECL None offset = (\<lambda>s. Inl AssertFail)"
| "markexpr sLDECL (Some nm) offset =
     block [stgwrite (tab @ '';$lcl ''), stgwrite nm, stgwrite '' '', outval offset True]"

definition startfunc :: "string \<Rightarrow> act" where
  "startfunc fname =
     block [stgwrite (tab @ ''proc''),
            \<lambda>s. if sc_asmfile s
                then bindR (funcdisplayname (tagname_tab s) fname) (\<lambda>symname.
                       block [stgwrite (tab @ ''; ''), stgwrite symname] s)
                else Inr s,
            stgwrite nl,
            add_code_idx (opcodes 1)]"

definition endfunc :: act where
  "endfunc = stgwrite nl"

text \<open>The assertion of \<open>alignframe\<close>: the argument has exactly one bit set.\<close>

definition bit_count :: "cell \<Rightarrow> nat" where
  "bit_count w = length (filter (bit w) [0..<32])"

definition alignframe :: "cell \<Rightarrow> act" where
  "alignframe numbytes =
     block [assertA (bit_count numbytes = 1),
            stgwrite (tab @ ''lctrl 4'' @ nl),
            stgwrite (tab @ ''const.alt ''),
            outval (NOT (numbytes - 1)) True,
            stgwrite (tab @ ''and'' @ nl),
            stgwrite (tab @ ''sctrl 4'' @ nl),
            stgwrite (tab @ ''sctrl 5'' @ nl),
            add_code_idx (opcodes 5 + opargs 4)]"

section \<open>Loading and storing\<close>

definition sCHARBYTES :: cell where "sCHARBYTES = 8 div 8"

text \<open>Routines that change a symbol: \<open>with_sym\<close> passes the symbol of an expression value
  (the assertion that there is one), and returns the value with the changed symbol.\<close>

definition with_sym :: "(symbol \<Rightarrow> cstate \<Rightarrow> (symbol \<times> cstate) result) \<Rightarrow> lvalue \<Rightarrow> cstate \<Rightarrow> (lvalue \<times> cstate) result" where
  "with_sym f lval s =
     (case lsym lval of
        None \<Rightarrow> Inl AssertFail
      | Some sy \<Rightarrow> bindR (f sy s) (\<lambda>(sy', s'). Inr (lval\<lparr>lsym := Some sy'\<rparr>, s')))"

definition keep_val :: "lvalue \<Rightarrow> act \<Rightarrow> cstate \<Rightarrow> (lvalue \<times> cstate) result" where
  "keep_val lval a s = bindR (a s) (\<lambda>s'. Inr (lval, s'))"

definition rvalue :: "lvalue \<Rightarrow> cstate \<Rightarrow> (lvalue \<times> cstate) result" where
  "rvalue lval =
     (if lident lval = iARRAYCELL
      then keep_val lval (block [stgwrite (tab @ ''load.i'' @ nl), add_code_idx (opcodes 1)])
      else if lident lval = iARRAYCHAR
      then keep_val lval (block [stgwrite (tab @ ''lodb.i ''), outval sCHARBYTES True,
                                 add_code_idx (opcodes 1 + opargs 1)])
      else if lident lval = iREFERENCE
      then with_sym (\<lambda>sy s.
             bindR (block [assertA (svclass sy = sLOCAL),
                           if svclass sy = sLOCAL then stgwrite (tab @ ''lref.s.pri '')
                           else stgwrite (tab @ ''lref.pri ''),
                           outval (saddr sy) True] s) (\<lambda>s1.
             bindR (markusage (curfunc s1) uREAD sy) (\<lambda>sy'.
             bindR (add_code_idx (opcodes 1 + opargs 1) s1) (\<lambda>s2. Inr (sy', s2))))) lval
      else with_sym (\<lambda>sy s.
             bindR (block [if svclass sy = sLOCAL then stgwrite (tab @ ''load.s.pri '')
                           else stgwrite (tab @ ''load.pri ''),
                           outval (saddr sy) True] s) (\<lambda>s1.
             bindR (markusage (curfunc s1) uREAD sy) (\<lambda>sy'.
             bindR (add_code_idx (opcodes 1 + opargs 1) s1) (\<lambda>s2. Inr (sy', s2))))) lval)"

datatype regid = sPRI | sALT

definition address :: "symbol \<Rightarrow> regid \<Rightarrow> cstate \<Rightarrow> (symbol \<times> cstate) result" where
  "address sy reg s =
     bindR (block [if sident sy = iREFARRAY \<or> sident sy = iREFERENCE
                   then (case reg of sPRI \<Rightarrow> stgwrite (tab @ ''load.s.pri '')
                                   | sALT \<Rightarrow> stgwrite (tab @ ''load.s.alt ''))
                   else (case reg of
                           sPRI \<Rightarrow> if svclass sy = sLOCAL then stgwrite (tab @ ''addr.pri '')
                                   else stgwrite (tab @ ''const.pri '')
                         | sALT \<Rightarrow> if svclass sy = sLOCAL then stgwrite (tab @ ''addr.alt '')
                                   else stgwrite (tab @ ''const.alt '')),
                   outval (saddr sy) True] s) (\<lambda>s1.
     bindR (markusage (curfunc s1) uREAD sy) (\<lambda>sy'.
     bindR (add_code_idx (opcodes 1 + opargs 1) s1) (\<lambda>s2. Inr (sy', s2))))"

definition store :: "lvalue \<Rightarrow> cstate \<Rightarrow> (lvalue \<times> cstate) result" where
  "store lval =
     (if lident lval = iARRAYCELL
      then keep_val lval (block [stgwrite (tab @ ''stor.i'' @ nl), add_code_idx (opcodes 1)])
      else if lident lval = iARRAYCHAR
      then keep_val lval (block [stgwrite (tab @ ''strb.i ''), outval sCHARBYTES True,
                                 add_code_idx (opcodes 1 + opargs 1)])
      else if lident lval = iREFERENCE
      then with_sym (\<lambda>sy s.
             bindR (block [if svclass sy = sLOCAL then stgwrite (tab @ ''sref.s.pri '')
                           else stgwrite (tab @ ''sref.pri ''),
                           outval (saddr sy) True,
                           add_code_idx (opcodes 1 + opargs 1)] s) (\<lambda>s1. Inr (sy, s1))) lval
      else with_sym (\<lambda>sy s.
             bindR (markusage (curfunc s) uWRITTEN sy) (\<lambda>sy'.
             bindR (block [if svclass sy = sLOCAL then stgwrite (tab @ ''stor.s.pri '')
                           else stgwrite (tab @ ''stor.pri ''),
                           outval (saddr sy) True,
                           add_code_idx (opcodes 1 + opargs 1)] s) (\<lambda>s1. Inr (sy', s1)))) lval)"

definition storereg :: "cell \<Rightarrow> regid \<Rightarrow> act" where
  "storereg addr reg =
     block [if reg = sPRI then stgwrite (tab @ ''stor.pri '') else stgwrite (tab @ ''stor.alt ''),
            outval addr True,
            add_code_idx (opcodes 1 + opargs 1)]"

definition memcopy :: "cell \<Rightarrow> act" where
  "memcopy n = block [stgwrite (tab @ ''movs ''), outval n True, add_code_idx (opcodes 1 + opargs 1)]"

text \<open>The instruction that brings an array's address into ALT, shared by \<open>copyarray\<close> and
  \<open>fillarray\<close>.\<close>

definition array_alt :: "symbol \<Rightarrow> act" where
  "array_alt sy =
     (if sident sy = iREFARRAY
      then block [assertA (svclass sy = sLOCAL), stgwrite (tab @ ''load.s.alt '')]
      else if svclass sy = sLOCAL then stgwrite (tab @ ''addr.alt '')
      else stgwrite (tab @ ''const.alt ''))"

definition copyarray :: "symbol \<Rightarrow> cell \<Rightarrow> cstate \<Rightarrow> (symbol \<times> cstate) result" where
  "copyarray sy n s =
     bindR (block [array_alt sy, outval (saddr sy) True] s) (\<lambda>s1.
     bindR (markusage (curfunc s1) uWRITTEN sy) (\<lambda>sy'.
     bindR (block [add_code_idx (opcodes 1 + opargs 1), memcopy n] s1) (\<lambda>s2. Inr (sy', s2))))"

definition ldconst :: "cell \<Rightarrow> regid \<Rightarrow> act" where
  "ldconst val reg =
     (case reg of
        sPRI \<Rightarrow> if val = 0 then block [stgwrite (tab @ ''zero.pri'' @ nl), add_code_idx (opcodes 1)]
                else block [stgwrite (tab @ ''const.pri ''), outval val True,
                            add_code_idx (opcodes 1 + opargs 1)]
      | sALT \<Rightarrow> if val = 0 then block [stgwrite (tab @ ''zero.alt'' @ nl), add_code_idx (opcodes 1)]
                else block [stgwrite (tab @ ''const.alt ''), outval val True,
                            add_code_idx (opcodes 1 + opargs 1)])"

definition fillarray :: "symbol \<Rightarrow> cell \<Rightarrow> cell \<Rightarrow> cstate \<Rightarrow> (symbol \<times> cstate) result" where
  "fillarray sy n val s =
     bindR (block [ldconst val sPRI, array_alt sy, outval (saddr sy) True] s) (\<lambda>s1.
     bindR (markusage (curfunc s1) uWRITTEN sy) (\<lambda>sy'.
     bindR (block [assertA (0 < sint n), stgwrite (tab @ ''fill ''), outval n True,
                   add_code_idx (opcodes 2 + opargs 2)] s1) (\<lambda>s2. Inr (sy', s2))))"

section \<open>Registers and stack\<close>

definition moveto1 :: act where
  "moveto1 = block [stgwrite (tab @ ''move.pri'' @ nl), add_code_idx (opcodes 1 + opargs 0)]"

definition pushreg :: "regid \<Rightarrow> act" where
  "pushreg reg =
     block [case reg of sPRI \<Rightarrow> stgwrite (tab @ ''push.pri'' @ nl)
                      | sALT \<Rightarrow> stgwrite (tab @ ''push.alt'' @ nl),
            add_code_idx (opcodes 1)]"

definition pushval :: "cell \<Rightarrow> act" where
  "pushval val = block [stgwrite (tab @ ''push.c ''), outval val True, add_code_idx (opcodes 1 + opargs 1)]"

definition popreg :: "regid \<Rightarrow> act" where
  "popreg reg =
     block [case reg of sPRI \<Rightarrow> stgwrite (tab @ ''pop.pri'' @ nl)
                      | sALT \<Rightarrow> stgwrite (tab @ ''pop.alt'' @ nl),
            add_code_idx (opcodes 1)]"

definition swap1 :: act where
  "swap1 = block [stgwrite (tab @ ''swap.pri'' @ nl), add_code_idx (opcodes 1)]"

section \<open>Control flow and calls\<close>

definition ffswitch :: "cell \<Rightarrow> act" where
  "ffswitch label = block [stgwrite (tab @ ''switch ''), outval label True, add_code_idx (opcodes 1 + opargs 1)]"

definition ffcase :: "cell \<Rightarrow> string \<Rightarrow> bool \<Rightarrow> act" where
  "ffcase val labelname newtable =
     block [whenA newtable (block [stgwrite (tab @ ''casetbl'' @ nl), add_code_idx (opcodes 1)]),
            stgwrite (tab @ ''case ''), outval val False, stgwrite '' '', stgwrite labelname,
            stgwrite nl, add_code_idx (opcodes 0 + opargs 2)]"

definition ffcall :: "symbol \<Rightarrow> string option \<Rightarrow> cell \<Rightarrow> cstate \<Rightarrow> (symbol \<times> cstate) result" where
  "ffcall sy label numargs s =
     bindR (assertR (sident sy = iFUNCTN)) (\<lambda>_.
     bindR (if sc_asmfile s then funcdisplayname (tagname_tab s) (sname sy) else Inr []) (\<lambda>symname.
       if has_usage sy uNATIVE
       then bindR (assertR (label = None)) (\<lambda>_.
              let reserve = (sc_status s = StatWRITE \<and> \<not> has_usage sy uREAD \<and> 0 \<le> sint (saddr sy));
                  sy' = (if reserve then sy\<lparr>saddr := ntv_funcid s\<rparr> else sy);
                  s1 = (if reserve then s\<lparr>ntv_funcid := ntv_funcid s + 1\<rparr> else s)
              in bindR (block [stgwrite (tab @ ''sysreq.c ''), outval (saddr sy') False,
                               \<lambda>s. if sc_asmfile s
                                   then block [stgwrite (tab @ ''; ''), stgwrite symname] s else Inr s,
                               stgwrite (nl @ tab @ ''stack ''), outval ((numargs + 1) * cell_bytes) True,
                               add_code_idx (opcodes 2 + opargs 2)] s1) (\<lambda>s2. Inr (sy', s2)))
       else bindR (block [stgwrite (tab @ ''call ''),
                          case label of Some l \<Rightarrow> block [stgwrite ''l.'', stgwrite l]
                                      | None \<Rightarrow> stgwrite (sname sy),
                          \<lambda>s. if sc_asmfile s \<and> (label \<noteq> None \<or>
                                   (\<forall>c \<in> set (take 1 (sname sy)). \<not> isalpha c \<and> c \<noteq> CHR ''_'' \<and> c \<noteq> sc_ctrlchar s))
                              then block [stgwrite (tab @ ''; ''), stgwrite symname] s else Inr s,
                          stgwrite nl,
                          add_code_idx (opcodes 1 + opargs 1)] s) (\<lambda>s1. Inr (sy, s1))))"

definition ffret :: act where
  "ffret = block [stgwrite (tab @ ''retn'' @ nl), add_code_idx (opcodes 1)]"

definition ffabort :: "cell \<Rightarrow> act" where
  "ffabort reason = block [stgwrite (tab @ ''halt ''), outval reason True, add_code_idx (opcodes 1 + opargs 1)]"

definition ffbounds :: "cell \<Rightarrow> act" where
  "ffbounds n s =
     (if dbg_bit sCHKBOUNDS s
      then block [stgwrite (tab @ ''bounds ''), outval n True, add_code_idx (opcodes 1 + opargs 1)] s
      else Inr s)"

definition jumplabel :: "cell \<Rightarrow> act" where
  "jumplabel number = block [stgwrite (tab @ ''jump ''), outval number True, add_code_idx (opcodes 1 + opargs 1)]"

definition defstorage :: act where
  "defstorage = stgwrite ''dump ''"

definition modstk :: "cell \<Rightarrow> act" where
  "modstk delta =
     whenA (delta \<noteq> 0) (block [stgwrite (tab @ ''stack ''), outval delta True, add_code_idx (opcodes 1 + opargs 1)])"

definition setstk :: "cell \<Rightarrow> act" where
  "setstk val =
     block [stgwrite (tab @ ''lctrl 5'' @ nl),
            assertA (sint val \<le> 0),
            whenA (sint val < 0) (block [stgwrite (tab @ ''add.c ''), outval val True,
                                         add_code_idx (opcodes 1 + opargs 1)]),
            stgwrite (tab @ ''sctrl 4'' @ nl),
            add_code_idx (opcodes 2 + opargs 2)]"

definition modheap :: "cell \<Rightarrow> act" where
  "modheap delta =
     whenA (delta \<noteq> 0) (block [stgwrite (tab @ ''heap ''), outval delta True, add_code_idx (opcodes 1 + opargs 1)])"

definition setheap_pri :: act where
  "setheap_pri =
     block [stgwrite (tab @ ''heap ''), outval cell_bytes True,
            stgwrite (tab @ ''stor.i'' @ nl),
            stgwrite (tab @ ''move.pri'' @ nl),
            add_code_idx (opcodes 3 + opargs 1)]"

definition setheap :: "cell \<Rightarrow> act" where
  "setheap val =
     block [stgwrite (tab @ ''const.pri ''), outval val True, add_code_idx (opcodes 1 + opargs 1),
            setheap_pri]"

section \<open>Address arithmetic (32-bit cells, 8-bit packed characters)\<close>

definition cell2addr :: act where
  "cell2addr = block [stgwrite (tab @ ''shl.c.pri 2'' @ nl), add_code_idx (opcodes 1 + opargs 1)]"

definition cell2addr_alt :: act where
  "cell2addr_alt = block [stgwrite (tab @ ''shl.c.alt 2'' @ nl), add_code_idx (opcodes 1 + opargs 1)]"

definition addr2cell :: act where
  "addr2cell = block [stgwrite (tab @ ''shr.c.pri 2'' @ nl), add_code_idx (opcodes 1 + opargs 1)]"

text \<open>\<open>char2addr\<close> generates code for 16-bit characters only.\<close>

definition char2addr :: act where
  "char2addr = skip"

definition charalign :: act where
  "charalign = block [stgwrite (tab @ ''align.pri ''), outval sCHARBYTES True, add_code_idx (opcodes 1 + opargs 1)]"

definition addconst :: "cell \<Rightarrow> act" where
  "addconst val =
     whenA (val \<noteq> 0) (block [stgwrite (tab @ ''add.c ''), outval val True, add_code_idx (opcodes 1 + opargs 1)])"

section \<open>Operators\<close>

definition os_mult :: act where
  "os_mult = block [stgwrite (tab @ ''smul'' @ nl), add_code_idx (opcodes 1)]"

definition os_div :: act where
  "os_div = block [stgwrite (tab @ ''sdiv.alt'' @ nl), add_code_idx (opcodes 1)]"

definition os_mod :: act where
  "os_mod = block [stgwrite (tab @ ''sdiv.alt'' @ nl), stgwrite (tab @ ''move.pri'' @ nl), add_code_idx (opcodes 2)]"

definition ob_add :: act where
  "ob_add = block [stgwrite (tab @ ''add'' @ nl), add_code_idx (opcodes 1)]"

definition ob_sub :: act where
  "ob_sub = block [stgwrite (tab @ ''sub.alt'' @ nl), add_code_idx (opcodes 1)]"

definition ob_sal :: act where
  "ob_sal = block [stgwrite (tab @ ''xchg'' @ nl), stgwrite (tab @ ''shl'' @ nl), add_code_idx (opcodes 2)]"

definition os_sar :: act where
  "os_sar = block [stgwrite (tab @ ''xchg'' @ nl), stgwrite (tab @ ''sshr'' @ nl), add_code_idx (opcodes 2)]"

definition ou_sar :: act where
  "ou_sar = block [stgwrite (tab @ ''xchg'' @ nl), stgwrite (tab @ ''shr'' @ nl), add_code_idx (opcodes 2)]"

definition ob_or :: act where
  "ob_or = block [stgwrite (tab @ ''or'' @ nl), add_code_idx (opcodes 1)]"

definition ob_xor :: act where
  "ob_xor = block [stgwrite (tab @ ''xor'' @ nl), add_code_idx (opcodes 1)]"

definition ob_and :: act where
  "ob_and = block [stgwrite (tab @ ''and'' @ nl), add_code_idx (opcodes 1)]"

definition ob_eq :: act where
  "ob_eq = block [stgwrite (tab @ ''eq'' @ nl), add_code_idx (opcodes 1)]"

definition ob_ne :: act where
  "ob_ne = block [stgwrite (tab @ ''neq'' @ nl), add_code_idx (opcodes 1)]"

definition relop_prefix :: act where
  "relop_prefix = block [stgwrite (tab @ ''push.pri'' @ nl), stgwrite (tab @ ''move.pri'' @ nl), add_code_idx (opcodes 2)]"

definition relop_suffix :: act where
  "relop_suffix =
     block [stgwrite (tab @ ''swap.alt'' @ nl), stgwrite (tab @ ''and'' @ nl),
            stgwrite (tab @ ''pop.alt'' @ nl), add_code_idx (opcodes 3)]"

definition os_lt :: act where
  "os_lt = block [stgwrite (tab @ ''xchg'' @ nl), stgwrite (tab @ ''sless'' @ nl), add_code_idx (opcodes 2)]"

definition os_le :: act where
  "os_le = block [stgwrite (tab @ ''xchg'' @ nl), stgwrite (tab @ ''sleq'' @ nl), add_code_idx (opcodes 2)]"

definition os_gt :: act where
  "os_gt = block [stgwrite (tab @ ''xchg'' @ nl), stgwrite (tab @ ''sgrtr'' @ nl), add_code_idx (opcodes 2)]"

definition os_ge :: act where
  "os_ge = block [stgwrite (tab @ ''xchg'' @ nl), stgwrite (tab @ ''sgeq'' @ nl), add_code_idx (opcodes 2)]"

definition lneg :: act where
  "lneg = block [stgwrite (tab @ ''not'' @ nl), add_code_idx (opcodes 1)]"

definition neg :: act where
  "neg = block [stgwrite (tab @ ''neg'' @ nl), add_code_idx (opcodes 1)]"

definition invert :: act where
  "invert = block [stgwrite (tab @ ''invert'' @ nl), add_code_idx (opcodes 1)]"

definition nooperation :: act where
  "nooperation = block [stgwrite (tab @ ''nop'' @ nl), add_code_idx (opcodes 1)]"

definition inc :: "lvalue \<Rightarrow> act" where
  "inc lval =
     (if lident lval = iARRAYCELL
      then block [stgwrite (tab @ ''inc.i'' @ nl), add_code_idx (opcodes 1)]
      else if lident lval = iARRAYCHAR
      then block [stgwrite (tab @ ''push.pri'' @ nl),
                  stgwrite (tab @ ''push.alt'' @ nl),
                  stgwrite (tab @ ''move.alt'' @ nl),
                  stgwrite (tab @ ''lodb.i ''), outval sCHARBYTES True,
                  stgwrite (tab @ ''inc.pri'' @ nl),
                  stgwrite (tab @ ''strb.i ''), outval sCHARBYTES True,
                  stgwrite (tab @ ''pop.alt'' @ nl),
                  stgwrite (tab @ ''pop.pri'' @ nl),
                  add_code_idx (opcodes 8 + opargs 2)]
      else (case lsym lval of
              None \<Rightarrow> (\<lambda>s. Inl AssertFail)
            | Some sy \<Rightarrow>
                if lident lval = iREFERENCE
                then block [stgwrite (tab @ ''push.pri'' @ nl),
                            assertA (svclass sy = sLOCAL),
                            if svclass sy = sLOCAL then stgwrite (tab @ ''lref.s.pri '')
                            else stgwrite (tab @ ''lref.pri ''),
                            outval (saddr sy) True,
                            stgwrite (tab @ ''inc.pri'' @ nl),
                            if svclass sy = sLOCAL then stgwrite (tab @ ''sref.s.pri '')
                            else stgwrite (tab @ ''sref.pri ''),
                            outval (saddr sy) True,
                            stgwrite (tab @ ''pop.pri'' @ nl),
                            add_code_idx (opcodes 5 + opargs 2)]
                else block [if svclass sy = sLOCAL then stgwrite (tab @ ''inc.s '')
                            else stgwrite (tab @ ''inc ''),
                            outval (saddr sy) True,
                            add_code_idx (opcodes 1 + opargs 1)]))"

definition dec :: "lvalue \<Rightarrow> act" where
  "dec lval =
     (if lident lval = iARRAYCELL
      then block [stgwrite (tab @ ''dec.i'' @ nl), add_code_idx (opcodes 1)]
      else if lident lval = iARRAYCHAR
      then block [stgwrite (tab @ ''push.pri'' @ nl),
                  stgwrite (tab @ ''push.alt'' @ nl),
                  stgwrite (tab @ ''move.alt'' @ nl),
                  stgwrite (tab @ ''lodb.i ''), outval sCHARBYTES True,
                  stgwrite (tab @ ''dec.pri'' @ nl),
                  stgwrite (tab @ ''strb.i ''), outval sCHARBYTES True,
                  stgwrite (tab @ ''pop.alt'' @ nl),
                  stgwrite (tab @ ''pop.pri'' @ nl),
                  add_code_idx (opcodes 8 + opargs 2)]
      else (case lsym lval of
              None \<Rightarrow> (\<lambda>s. Inl AssertFail)
            | Some sy \<Rightarrow>
                if lident lval = iREFERENCE
                then block [stgwrite (tab @ ''push.pri'' @ nl),
                            assertA (svclass sy = sLOCAL),
                            if svclass sy = sLOCAL then stgwrite (tab @ ''lref.s.pri '')
                            else stgwrite (tab @ ''lref.pri ''),
                            outval (saddr sy) True,
                            stgwrite (tab @ ''dec.pri'' @ nl),
                            if svclass sy = sLOCAL then stgwrite (tab @ ''sref.s.pri '')
                            else stgwrite (tab @ ''sref.pri ''),
                            outval (saddr sy) True,
                            stgwrite (tab @ ''pop.pri'' @ nl),
                            add_code_idx (opcodes 5 + opargs 2)]
                else block [if svclass sy = sLOCAL then stgwrite (tab @ ''dec.s '')
                            else stgwrite (tab @ ''dec ''),
                            outval (saddr sy) True,
                            add_code_idx (opcodes 1 + opargs 1)]))"

definition jmp_ne0 :: "cell \<Rightarrow> act" where
  "jmp_ne0 number = block [stgwrite (tab @ ''jnz ''), outval number True, add_code_idx (opcodes 1 + opargs 1)]"

definition jmp_eq0 :: "cell \<Rightarrow> act" where
  "jmp_eq0 number = block [stgwrite (tab @ ''jzer ''), outval number True, add_code_idx (opcodes 1 + opargs 1)]"

section \<open>End of the program (\<open>writetrailer\<close>)\<close>

text \<open>Padding loops: \<open>nop\<close> until the code is aligned, zero cells until the data is. Both stop
  because the alignment is a multiple of the cell size; the fuel is the alignment.\<close>

fun pad_code :: "nat \<Rightarrow> cstate \<Rightarrow> cstate result option" where
  "pad_code 0 s = None"
| "pad_code (Suc n) s =
     (if unat (code_idx s) mod sc_dataalign s \<noteq> 0
      then (case nooperation s of Inl e \<Rightarrow> Some (Inl e) | Inr s' \<Rightarrow> pad_code n s')
      else Some (Inr s))"

fun pad_data :: "nat \<Rightarrow> cstate \<Rightarrow> cstate result option" where
  "pad_data 0 s = None"
| "pad_data (Suc n) s =
     (if unat (glb_declared s * cell_bytes) mod sc_dataalign s \<noteq> 0
      then (case stgwrite ''0 '' s of
              Inl e \<Rightarrow> Some (Inl e)
            | Inr s' \<Rightarrow> pad_data n (s'\<lparr>glb_declared := glb_declared s' + 1\<rparr>))
      else Some (Inr s))"

definition thenO :: "cstate result option \<Rightarrow> (cstate \<Rightarrow> cstate result option) \<Rightarrow> cstate result option" where
  "thenO r f = (case r of None \<Rightarrow> None | Some (Inl e) \<Rightarrow> Some (Inl e) | Some (Inr s) \<Rightarrow> f s)"

definition writetrailer :: "nat \<Rightarrow> cstate \<Rightarrow> cstate result option" where
  "writetrailer fuel s0 =
     thenO (Some (assertA (sc_dataalign s0 mod 4 = 0 \<and> sc_dataalign s0 \<noteq> 0) s0)) (\<lambda>s.
     thenO (if unat (code_idx s) mod sc_dataalign s \<noteq> 0
            then thenO (Some (begcseg s)) (pad_code fuel) else Some (Inr s)) (\<lambda>s.
     thenO (Some (assertA (litidx s = 0) s)) (\<lambda>s.
     thenO (if unat (glb_declared s * cell_bytes) mod sc_dataalign s \<noteq> 0
            then thenO (Some (block [begdseg, defstorage] s)) (pad_data fuel) else Some (Inr s)) (\<lambda>s.
     Some (block [stgwrite (nl @ ''STKSIZE ''),
                  outval (sc_stksize s - of_nat (unat (sc_stksize s) mod sc_dataalign s)) True] s)))))"

end
