(* ===== verification/ScSym.thy ===== *)
theory ScSym
  imports ScTypes
begin

text \<open>
  The symbol tables of sc2.c: the name hash, searching, sorted and unsorted insertion,
  deletion of one symbol and of a nesting level. A table is the list of symbols behind its
  root node. The lemmas show that the hash never hides a symbol, that the global table stays
  sorted by name, that a new symbol is found, and that the inner of two local names wins.
\<close>

section \<open>The name hash\<close>

definition namehash :: "string \<Rightarrow> cell result" where
  "namehash name =
     (let len = length name
      in if len = 0 then Inr 0
         else bindR (assertR (len < 256)) (\<lambda>_.
           Inr (push_bit 24 (of_nat len) + push_bit 16 (of_nat (code_of (name ! 0)))
                + push_bit 8 (of_nat (code_of (name ! (len - 1))))
                + of_nat (code_of (name ! (len div 2))))))"

section \<open>Searching\<close>

fun find_sym :: "symbol list \<Rightarrow> cell \<Rightarrow> string \<Rightarrow> int \<Rightarrow> bool \<Rightarrow> symbol option" where
  "find_sym [] h name fnumber includechildren = None"
| "find_sym (p # ps) h name fnumber includechildren =
     (if h = shash p \<and> strcmp name (sname p) = 0
         \<and> (sparent p = None \<or> includechildren)
         \<and> (fnumber < 0 \<or> sfnumber p < 0 \<or> sfnumber p = fnumber)
      then Some p else find_sym ps h name fnumber includechildren)"

definition find_symbol :: "symbol list \<Rightarrow> string \<Rightarrow> int \<Rightarrow> bool \<Rightarrow> symbol option result" where
  "find_symbol table name fnumber includechildren =
     bindR (namehash name) (\<lambda>h. Inr (find_sym table h name fnumber includechildren))"

fun find_symbol_child :: "symbol list \<Rightarrow> nat \<Rightarrow> symbol option" where
  "find_symbol_child [] parent = None"
| "find_symbol_child (p # ps) parent =
     (if sparent p = Some parent then Some p else find_symbol_child ps parent)"

record symtabs =
  glbtab :: "symbol list"
  loctab :: "symbol list"
  fcurrent :: int
  next_id :: nat

definition findglb :: "symtabs \<Rightarrow> string \<Rightarrow> symbol option result" where
  "findglb t name = find_symbol (glbtab t) name (fcurrent t) False"

definition findloc :: "symtabs \<Rightarrow> string \<Rightarrow> symbol option result" where
  "findloc t name = find_symbol (loctab t) name (-1) False"

definition not_const :: "symbol option \<Rightarrow> bool" where
  "not_const s = (case s of None \<Rightarrow> True | Some p \<Rightarrow> sident p \<noteq> iCONSTEXPR)"

definition findconst :: "symtabs \<Rightarrow> string \<Rightarrow> symbol option result" where
  "findconst t name =
     bindR (find_symbol (loctab t) name (-1) True) (\<lambda>s1.
     bindR (if not_const s1 then find_symbol (glbtab t) name (fcurrent t) True else Inr s1) (\<lambda>s2.
       if not_const s2 then Inr None
       else bindR (assertR (case s2 of None \<Rightarrow> True
                            | Some p \<Rightarrow> sparent p = None \<or> has_usage p 0x40)) (\<lambda>_. Inr s2)))"

definition finddepend :: "symtabs \<Rightarrow> nat \<Rightarrow> symbol option" where
  "finddepend t parent =
     (case find_symbol_child (loctab t) parent of
        Some p \<Rightarrow> Some p
      | None \<Rightarrow> find_symbol_child (glbtab t) parent)"

section \<open>Insertion\<close>

fun insert_sorted :: "symbol \<Rightarrow> symbol list \<Rightarrow> symbol list" where
  "insert_sorted entry [] = [entry]"
| "insert_sorted entry (p # ps) =
     (if strcmp (sname entry) (sname p) > 0 then p # insert_sorted entry ps else entry # p # ps)"

definition add_symbol :: "symbol \<Rightarrow> bool \<Rightarrow> symbol list \<Rightarrow> symbol list" where
  "add_symbol entry dosort table = (if dosort then insert_sorted entry table else entry # table)"

definition addsym :: "cell \<Rightarrow> string \<Rightarrow> cell \<Rightarrow> ident \<Rightarrow> vclass \<Rightarrow> cell \<Rightarrow> byte \<Rightarrow> symtabs \<Rightarrow> (symbol \<times> symtabs) result" where
  "addsym codeidx name ad idn vcl tg usg t =
     bindR (if (idn = iFUNCTN \<or> idn = iCONSTEXPR) \<and> vcl = sGLOBAL
            then bindR (findglb t name) (\<lambda>r. assertR (r = None)) else Inr ()) (\<lambda>_.
     bindR (if idn = iLABEL then bindR (findloc t name) (\<lambda>r. assertR (r = None)) else Inr ()) (\<lambda>_.
     bindR (if length name > sNAMEMAX then Inl BufferOverflow else namehash name) (\<lambda>h.
       let entry = \<lparr>sid = next_id t, sparent = None, sname = name, shash = h, saddr = ad,
                    scodeaddr = codeidx, svclass = vcl, sident = idn, susage = usg,
                    scompound = 0, stag = tg, sidxtag = 0, slength = 0, slevel = 0,
                    sstates = None, sfnumber = -1, srefer = [None]\<rparr>
       in Inr (entry,
               if vcl = sGLOBAL
               then t\<lparr>glbtab := add_symbol entry True (glbtab t), next_id := next_id t + 1\<rparr>
               else t\<lparr>loctab := add_symbol entry False (loctab t), next_id := next_id t + 1\<rparr>))))"

text \<open>\<open>addvariable\<close>: an array has one symbol per dimension, each the parent of the next; the
  fields of a dimension are stored in the symbol after it was inserted.\<close>

definition change_sym :: "nat \<Rightarrow> (symbol \<Rightarrow> symbol) \<Rightarrow> symtabs \<Rightarrow> symtabs" where
  "change_sym i f t =
     t\<lparr>glbtab := map (\<lambda>p. if sid p = i then f p else p) (glbtab t),
       loctab := map (\<lambda>p. if sid p = i then f p else p) (loctab t)\<rparr>"

fun add_dims :: "(string \<Rightarrow> symtabs \<Rightarrow> (symbol \<times> symtabs) result) \<Rightarrow> string \<Rightarrow> nat option \<Rightarrow>
    (cell \<times> cell) list \<Rightarrow> symtabs \<Rightarrow> (nat option \<times> symtabs) result" where
  "add_dims add name parent [] t = Inr (None, t)"
| "add_dims add name parent ((len, itag) # ds) t =
     bindR (add name t) (\<lambda>(top, t1).
     let t2 = change_sym (sid top)
                (\<lambda>p. p\<lparr>slength := len, slevel := int (length ds), sidxtag := itag, sparent := parent\<rparr>) t1
     in bindR (add_dims add name (Some (sid top)) ds t2) (\<lambda>(_, t3). Inr (Some (sid top), t3)))"

definition addvariable :: "cell \<Rightarrow> nat option \<Rightarrow> string \<Rightarrow> cell \<Rightarrow> ident \<Rightarrow> vclass \<Rightarrow> cell \<Rightarrow>
    (cell \<times> cell) list \<Rightarrow> symtabs \<Rightarrow> (nat option \<times> symtabs) result" where
  "addvariable codeidx curfn name ad idn vcl tg dims t =
     bindR (if vcl = sGLOBAL
            then bindR (findglb t name) (\<lambda>r. assertR (case r of None \<Rightarrow> True
                   | Some p \<Rightarrow> \<not> has_usage p uDEFINE \<or> (sident p = iFUNCTN \<and> curfn = Some (sid p))))
            else Inr ()) (\<lambda>_.
     let add = (\<lambda>nm t. addsym codeidx nm ad idn vcl tg uDEFINE t)
     in if idn = iARRAY \<or> idn = iREFARRAY then add_dims add name None dims t
        else bindR (add name t) (\<lambda>(s, t1). Inr (Some (sid s), t1)))"

section \<open>Deletion\<close>

fun delete_symbol :: "nat \<Rightarrow> symbol list \<Rightarrow> symbol list result" where
  "delete_symbol i [] = Inl AssertFail"
| "delete_symbol i (p # ps) =
     (if sid p = i then Inr ps else bindR (delete_symbol i ps) (\<lambda>r. Inr (p # r)))"

text \<open>The walk from a reference array to the function or array it belongs to. A parent that is
  in neither table any more has been freed.\<close>

fun by_id :: "symbol list \<Rightarrow> nat \<Rightarrow> symbol option" where
  "by_id [] i = None"
| "by_id (p # ps) i = (if sid p = i then Some p else by_id ps i)"

fun root_parent :: "nat \<Rightarrow> symbol list \<Rightarrow> nat option \<Rightarrow> symbol option result" where
  "root_parent fuel tbl None = Inr None"
| "root_parent 0 tbl (Some i) = Inl UseAfterFree"
| "root_parent (Suc n) tbl (Some i) =
     (case by_id tbl i of
        None \<Rightarrow> Inl UseAfterFree
      | Some p \<Rightarrow>
          if sident p = iFUNCTN then Inr (Some p)
          else bindR (assertR (sident p = iREFARRAY)) (\<lambda>_. root_parent n tbl (sparent p)))"

definition must_delete :: "bool \<Rightarrow> bool \<Rightarrow> symbol list \<Rightarrow> symbol \<Rightarrow> bool result" where
  "must_delete delete_labels delete_functions live sy =
     (case sident sy of
        iLABEL \<Rightarrow> Inr delete_labels
      | iVARIABLE \<Rightarrow> Inr delete_functions
      | iARRAY \<Rightarrow> Inr delete_functions
      | iREFERENCE \<Rightarrow> Inr True
      | iREFARRAY \<Rightarrow>
          bindR (root_parent (length live) live (sparent sy)) (\<lambda>par.
          bindR (assertR (case par of None \<Rightarrow> True
                   | Some p \<Rightarrow> sident p = iFUNCTN \<and> sparent p = None)) (\<lambda>_.
            Inr (if par = None then True else delete_functions)))
      | iCONSTEXPR \<Rightarrow> Inr (delete_functions \<or> \<not> has_usage sy uPREDEF)
      | iFUNCTN \<Rightarrow> bindR (assertR (sparent sy = None)) (\<lambda>_. Inr (delete_functions \<or> has_usage sy uNATIVE))
      | _ \<Rightarrow> Inl AssertFail)"

definition keep_symbol :: "symbol \<Rightarrow> symbol" where
  "keep_symbol sy =
     (let s1 = (if sident sy = iFUNCTN \<and> \<not> has_usage sy uDEFINE
                then sy\<lparr>susage := susage sy OR uMISSING\<rparr> else sy);
          s2 = (if sident s1 = iFUNCTN \<or> sident s1 = iVARIABLE \<or> sident s1 = iARRAY
                then s1\<lparr>susage := susage s1 AND NOT uDEFINE\<rparr> else s1);
          s3 = s2\<lparr>sstates := map_option (map (\<lambda>st. st\<lparr>cvalue := 0\<rparr>)) (sstates s2)\<rparr>
      in if sident s3 = iFUNCTN \<and> \<not> (sname s3 \<noteq> [] \<and> alpha (hd (sname s3)))
         then s3\<lparr>susage := susage s3 AND NOT uPROTOTYPED\<rparr> else s3)"

text \<open>\<open>kept\<close> are the symbols the walk has passed.\<close>

fun delete_from :: "symbol list \<Rightarrow> symbol list \<Rightarrow> int \<Rightarrow> bool \<Rightarrow> bool \<Rightarrow> symbol list result" where
  "delete_from kept [] level dl df = Inr kept"
| "delete_from kept (sy # rest) level dl df =
     (if scompound sy < level then Inr (kept @ sy # rest)
      else bindR (must_delete dl df (kept @ sy # rest) sy) (\<lambda>del.
             if del then delete_from kept rest level dl df
             else delete_from (kept @ [keep_symbol sy]) rest level dl df))"

definition delete_symbols :: "symbol list \<Rightarrow> int \<Rightarrow> bool \<Rightarrow> bool \<Rightarrow> symbol list result" where
  "delete_symbols table level delete_labels delete_functions =
     delete_from [] table level delete_labels delete_functions"

section \<open>Tables in order\<close>

text \<open>What every insertion keeps: hashes belong to names; the global table is sorted.\<close>

definition hash_ok :: "symbol list \<Rightarrow> bool" where
  "hash_ok tbl \<longleftrightarrow> (\<forall>p \<in> set tbl. namehash (sname p) = Inr (shash p))"

definition name_le :: "symbol \<Rightarrow> symbol \<Rightarrow> bool" where
  "name_le p q \<longleftrightarrow> strcmp (sname p) (sname q) \<le> 0"

definition name_sorted :: "symbol list \<Rightarrow> bool" where
  "name_sorted tbl \<longleftrightarrow> sorted_wrt name_le tbl"

lemma set_insert_sorted: "set (insert_sorted e tbl) = insert e (set tbl)"
  by (induction tbl) auto

lemma insert_sorted_sorted: "name_sorted tbl \<Longrightarrow> name_sorted (insert_sorted e tbl)"
proof (induction tbl)
  case (Cons p ps)
  show ?case
  proof (cases "strcmp (sname e) (sname p) > 0")
    case True
    then have "name_le p e" using strcmp_antisym [of "sname p" "sname e"] by (simp add: name_le_def)
    with True Cons show ?thesis by (auto simp: name_sorted_def set_insert_sorted)
  next
    case False
    then have "name_le e p" by (simp add: name_le_def)
    moreover have "\<forall>q \<in> set ps. name_le p q" using Cons.prems by (simp add: name_sorted_def)
    ultimately have "\<forall>q \<in> set ps. name_le e q" by (auto simp: name_le_def intro: strcmp_le_trans)
    with False \<open>name_le e p\<close> Cons.prems show ?thesis by (simp add: name_sorted_def)
  qed
qed (simp add: name_sorted_def)

text \<open>With correct hashes the search is the search by name.\<close>

definition visible :: "string \<Rightarrow> int \<Rightarrow> bool \<Rightarrow> symbol \<Rightarrow> bool" where
  "visible name fnumber includechildren p \<longleftrightarrow> sname p = name \<and> (sparent p = None \<or> includechildren)
     \<and> (fnumber < 0 \<or> sfnumber p < 0 \<or> sfnumber p = fnumber)"

lemma find_symbol_by_name:
  assumes "hash_ok tbl" and "length name < 256"
  shows "find_symbol tbl name fn ic = Inr (List.find (visible name fn ic) tbl)"
proof -
  obtain h where h: "namehash name = Inr h" using assms(2) by (cases "name = []") (auto simp: namehash_def Let_def)
  have "find_sym tbl h name fn ic = List.find (visible name fn ic) tbl"
    using assms(1) h by (induction tbl) (auto simp: hash_ok_def visible_def)
  then show ?thesis by (simp add: find_symbol_def h)
qed

lemma addsym_hash_ok:
  assumes "addsym ci name ad idn vcl tg usg t = Inr (e, t')" and "hash_ok (glbtab t)" and "hash_ok (loctab t)"
  shows "hash_ok (glbtab t') \<and> hash_ok (loctab t')"
  using assms
  by (auto simp: addsym_def bindR_Inr_iff Let_def add_symbol_def hash_ok_def set_insert_sorted
      split: if_splits)

lemma addsym_sorted:
  assumes "addsym ci name ad idn vcl tg usg t = Inr (e, t')" and "name_sorted (glbtab t)"
  shows "name_sorted (glbtab t')"
  using assms
  by (auto simp: addsym_def bindR_Inr_iff Let_def add_symbol_def insert_sorted_sorted split: if_splits)

text \<open>The global table keeps the contract of a keyed table, at a given file number: what
  \<open>addsym\<close> inserts is what \<open>findglb\<close> finds, and nothing else changes.\<close>

definition lookup_sym :: "int \<Rightarrow> symbol list \<Rightarrow> string \<Rightarrow> symbol option" where
  "lookup_sym fn tbl name = (case find_symbol tbl name fn False of Inl _ \<Rightarrow> None | Inr r \<Rightarrow> r)"

definition names_symbol :: "string \<Rightarrow> symbol \<Rightarrow> bool" where
  "names_symbol name sy \<longleftrightarrow> sname sy = name \<and> namehash name = Inr (shash sy)
     \<and> sparent sy = None \<and> sfnumber sy = -1"

lemma find_insert_sorted:
  "\<not> P sy \<Longrightarrow> List.find P (insert_sorted sy tbl) = List.find P tbl"
  by (induction tbl) auto

lemma find_insert_sorted_new:
  "P sy \<Longrightarrow> List.find P tbl = None \<Longrightarrow> List.find P (insert_sorted sy tbl) = Some sy"
  by (induction tbl) (auto split: if_splits)

lemma namehash_bound: "namehash name = Inr h \<Longrightarrow> length name < 256"
  by (auto simp: namehash_def Let_def bindR_Inr_iff split: if_splits)

lemma namehash_None: "\<not> length name < 256 \<Longrightarrow> namehash name = Inl AssertFail"
  by (auto simp: namehash_def Let_def)

lemma lookup_sym_by_name:
  assumes "hash_ok tbl"
  shows "lookup_sym fn tbl name = (if length name < 256 then List.find (visible name fn False) tbl else None)"
proof (cases "length name < 256")
  case True
  then show ?thesis by (simp add: lookup_sym_def find_symbol_by_name [OF assms])
next
  case False
  then show ?thesis by (simp add: lookup_sym_def find_symbol_def namehash_None)
qed

interpretation glb: keyed_table hash_ok names_symbol "\<lambda>_ sy t. add_symbol sy True t" "lookup_sym fn" for fn
proof unfold_locales
  fix t name sy
  assume h: "hash_ok t" and f: "names_symbol name sy"
  show ok: "hash_ok (add_symbol sy True t)"
    using h f by (auto simp: hash_ok_def add_symbol_def set_insert_sorted names_symbol_def)
  fix name'
  assume n: "lookup_sym fn t name = None"
  have b: "length name < 256" using f by (auto simp: names_symbol_def dest: namehash_bound)
  have v: "visible name fn False sy" and nv: "name' \<noteq> name \<Longrightarrow> \<not> visible name' fn False sy"
    using f by (auto simp: visible_def names_symbol_def)
  show "lookup_sym fn (add_symbol sy True t) name' = (if name' = name then Some sy else lookup_sym fn t name')"
    using n b v nv unfolding lookup_sym_by_name [OF ok] lookup_sym_by_name [OF h]
    by (simp add: add_symbol_def find_insert_sorted find_insert_sorted_new)
qed

section \<open>What deletion leaves\<close>

text \<open>The kinds of symbols a table holds besides reference arrays, whose fate depends on the
  symbol they belong to; functions have no parent.\<close>

definition plain_symbol :: "symbol \<Rightarrow> bool" where
  "plain_symbol p \<longleftrightarrow> sident p \<in> {iLABEL, iVARIABLE, iARRAY, iREFERENCE, iCONSTEXPR, iFUNCTN}
     \<and> (sident p = iFUNCTN \<longrightarrow> sparent p = None)"

definition deleted :: "bool \<Rightarrow> bool \<Rightarrow> symbol \<Rightarrow> bool" where
  "deleted dl df p \<longleftrightarrow>
     (case sident p of
        iLABEL \<Rightarrow> dl
      | iCONSTEXPR \<Rightarrow> df \<or> \<not> has_usage p uPREDEF
      | iFUNCTN \<Rightarrow> df \<or> has_usage p uNATIVE
      | iREFERENCE \<Rightarrow> True
      | _ \<Rightarrow> df)"

lemma must_delete_plain: "plain_symbol p \<Longrightarrow> must_delete dl df live p = Inr (deleted dl df p)"
  by (auto simp: plain_symbol_def must_delete_def deleted_def)

lemma delete_from_plain:
  "\<forall>p \<in> set (takeWhile (\<lambda>p. level \<le> scompound p) tbl). plain_symbol p \<Longrightarrow>
   delete_from kept tbl level dl df =
     Inr (kept @ map keep_symbol (filter (\<lambda>p. \<not> deleted dl df p) (takeWhile (\<lambda>p. level \<le> scompound p) tbl))
          @ dropWhile (\<lambda>p. level \<le> scompound p) tbl)"
  by (induction tbl arbitrary: kept) (simp_all add: must_delete_plain)

section \<open>Properties\<close>

text \<open>C28 (\<open>addsym\<close>, \<open>findglb\<close>): in a global table with correct hashes in name order, adding a
  symbol under a new name of at most 31 characters passes every assertion; \<open>findglb\<close> then
  returns exactly that symbol under its name, finds under every other name what it found
  before, the table still has correct hashes and is still in name order (public functions are
  written in that order), and the local table is untouched.\<close>
theorem addsym_found_by_findglb:
  assumes "hash_ok (glbtab t)" and "name_sorted (glbtab t)" and "findglb t name = Inr None"
    and "length name \<le> sNAMEMAX" and "idn \<noteq> iLABEL"
  shows "\<exists>e t'. addsym ci name ad idn sGLOBAL tg usg t = Inr (e, t')
    \<and> sname e = name \<and> saddr e = ad \<and> sident e = idn \<and> findglb t' name = Inr (Some e)
    \<and> (\<forall>n. n = name \<or> findglb t' n = findglb t n)
    \<and> hash_ok (glbtab t') \<and> name_sorted (glbtab t') \<and> loctab t' = loctab t"
proof -
  obtain h where h: "namehash name = Inr h"
    using assms(4) by (cases "name = []") (auto simp: namehash_def Let_def sNAMEMAX_def)
  define e where "e = \<lparr>sid = next_id t, sparent = None, sname = name, shash = h, saddr = ad,
    scodeaddr = ci, svclass = sGLOBAL, sident = idn, susage = usg, scompound = 0, stag = tg,
    sidxtag = 0, slength = 0, slevel = 0, sstates = None, sfnumber = -1, srefer = [None]\<rparr>"
  define t' where t': "t' = t\<lparr>glbtab := add_symbol e True (glbtab t), next_id := next_id t + 1\<rparr>"
  have a: "addsym ci name ad idn sGLOBAL tg usg t = Inr (e, t')"
    using assms(3-5) h by (simp add: addsym_def Let_def e_def t')
  have e: "names_symbol name e" "saddr e = ad" "sident e = idn"
    using h by (simp_all add: names_symbol_def e_def)
  have ok: "hash_ok (glbtab t')" "name_sorted (glbtab t')"
    using assms(1,2) glb.ok_ins [OF assms(1) e(1)] by (auto simp: t' add_symbol_def insert_sorted_sorted)
  have f: "findglb u n = (if length n < 256 then Inr (lookup_sym (fcurrent t) (glbtab u) n) else Inl AssertFail)"
    if "fcurrent u = fcurrent t" "hash_ok (glbtab u)" for u n
    using that
    by (cases "length n < 256")
       (simp_all add: findglb_def lookup_sym_by_name find_symbol_by_name, simp add: find_symbol_def namehash_None)
  have n: "lookup_sym (fcurrent t) (glbtab t) name = None" using assms(3) by (simp add: findglb_def lookup_sym_def)
  have "lookup_sym (fcurrent t) (glbtab t') k
      = (if k = name then Some e else lookup_sym (fcurrent t) (glbtab t) k)" for k
    using glb.lookup_ins [OF assms(1) e(1) n] by (simp add: t')
  then show ?thesis
    using a e ok f [of t'] f [of t] assms(1,4) by (auto simp: t' names_symbol_def sNAMEMAX_def)
qed

theorem addsym_found_by_findglb_witness:
  "\<exists>e t'. addsym 0 ''main'' 16 iFUNCTN sGLOBAL 0 uDEFINE \<lparr>glbtab = [], loctab = [], fcurrent = 0, next_id = 0\<rparr> = Inr (e, t')
    \<and> sname e = ''main'' \<and> saddr e = 16 \<and> sident e = iFUNCTN \<and> findglb t' ''main'' = Inr (Some e)
    \<and> (\<forall>n. n = ''main'' \<or> findglb t' n = findglb \<lparr>glbtab = [], loctab = [], fcurrent = 0, next_id = 0\<rparr> n)
    \<and> hash_ok (glbtab t') \<and> name_sorted (glbtab t') \<and> loctab t' = loctab \<lparr>glbtab = [], loctab = [], fcurrent = 0, next_id = 0\<rparr>"
  by (rule addsym_found_by_findglb)
     (simp_all add: hash_ok_def name_sorted_def findglb_def find_symbol_def namehash_def Let_def sNAMEMAX_def)

text \<open>C29 (\<open>delete_symbols\<close>): on a table whose symbols at or below the nesting level are
  variables, arrays, references, constants, labels and functions, no assertion fails. Leaving a
  block (\<open>delete_functions\<close> and \<open>delete_labels\<close> set) removes exactly the symbols in front of the
  first one of an outer level, and the others are not touched; between the two passes
  (\<open>delete_functions\<close> clear, level 0) what stays is the variables and arrays, the non-native
  functions and the predefined constants, in their order, with the definition flags reset.\<close>
theorem delete_symbols_scope:
  assumes "\<forall>p \<in> set (takeWhile (\<lambda>p. level \<le> scompound p) tbl). plain_symbol p"
  shows "delete_symbols tbl level True True = Inr (dropWhile (\<lambda>p. level \<le> scompound p) tbl)
    \<and> delete_symbols tbl level True False =
        Inr (map keep_symbol (filter (\<lambda>p. sident p \<in> {iVARIABLE, iARRAY}
               \<or> (sident p = iFUNCTN \<and> \<not> has_usage p uNATIVE)
               \<or> (sident p = iCONSTEXPR \<and> has_usage p uPREDEF)) (takeWhile (\<lambda>p. level \<le> scompound p) tbl))
             @ dropWhile (\<lambda>p. level \<le> scompound p) tbl)"
proof -
  let ?pre = "takeWhile (\<lambda>p. level \<le> scompound p) tbl"
  have "filter (\<lambda>p. \<not> deleted True True p) ?pre = []"
    using assms by (auto simp: filter_empty_conv deleted_def plain_symbol_def)
  moreover have "filter (\<lambda>p. \<not> deleted True False p) ?pre = filter (\<lambda>p. sident p \<in> {iVARIABLE, iARRAY}
               \<or> (sident p = iFUNCTN \<and> \<not> has_usage p uNATIVE)
               \<or> (sident p = iCONSTEXPR \<and> has_usage p uPREDEF)) ?pre"
    using assms by (intro filter_cong) (auto simp: deleted_def plain_symbol_def)
  ultimately show ?thesis
    using delete_from_plain [OF assms, of "[]" True True] delete_from_plain [OF assms, of "[]" True False]
    by (simp add: delete_symbols_def)
qed

theorem delete_symbols_scope_witness:
  "\<exists>v f :: symbol. scompound v = 2 \<and> scompound f = 0 \<and>
     delete_symbols [v, f] 1 True True = Inr (dropWhile (\<lambda>p. 1 \<le> scompound p) [v, f])"
proof (intro exI conjI)
  let ?v = "\<lparr>sid = 0, sparent = None, sname = ''i'', shash = 0, saddr = 0, scodeaddr = 0, svclass = sLOCAL,
    sident = iVARIABLE, susage = uDEFINE, scompound = 2, stag = 0, sidxtag = 0, slength = 0, slevel = 0,
    sstates = None, sfnumber = -1, srefer = [None]\<rparr>"
  let ?f = "?v\<lparr>sident := iFUNCTN, scompound := 0\<rparr>"
  show "delete_symbols [?v, ?f] 1 True True = Inr (dropWhile (\<lambda>p. 1 \<le> scompound p) [?v, ?f])"
    by (rule conjunct1 [OF delete_symbols_scope]) (simp add: plain_symbol_def)
qed simp_all

end
