(* ===== verification/ScCompact.thy ===== *)
theory ScCompact
  imports ScTypes
begin

text \<open>
  The compact encoding of the binary file: \<open>write_encoded\<close> of sc6.c, which writes a cell as one
  to five bytes of seven bits, and \<open>expand\<close> of amxmodx/amx.cpp, which the host runs to expand
  the code in place, from the end backward, with a queue of spare cells. The lemmas show that
  each encoding is a group of bytes of its own, that a group decodes to its cell, and that the
  in-place expansion gives back every cell.
\<close>

section \<open>\<open>write_encoded\<close> (sc6.c)\<close>

definition ENC_MAX :: nat where "ENC_MAX = 5"
definition ENC_MASK :: byte where "ENC_MASK = 0x0f"
definition AMX_COMPACTMARGIN :: int where "AMX_COMPACTMARGIN = 64"

definition groups :: "cell \<Rightarrow> byte list" where
  "groups p = map (\<lambda>i. ucast (drop_bit (7 * i) p AND 0x7f)) [0..<ENC_MAX]"

fun skip_zeros :: "byte list \<Rightarrow> nat \<Rightarrow> nat" where
  "skip_zeros t (Suc (Suc i)) =
     (if t ! Suc i = 0 \<and> t ! i AND 0x40 = 0 then skip_zeros t (Suc i) else Suc (Suc i))"
| "skip_zeros t i = i"

fun skip_ones :: "byte list \<Rightarrow> nat \<Rightarrow> nat" where
  "skip_ones t (Suc (Suc i)) =
     (if t ! Suc i = 0x7f \<and> t ! i AND 0x40 \<noteq> 0 then skip_ones t (Suc i) else Suc (Suc i))"
| "skip_ones t i = i"

definition enc_length :: "byte list \<Rightarrow> nat" where
  "enc_length t =
     (let i1 = skip_zeros t ENC_MAX;
          i2 = (if i1 = ENC_MAX \<and> t ! (i1 - 1) = ENC_MASK \<and> t ! (i1 - 2) AND 0x40 \<noteq> 0 then i1 - 1 else i1)
      in skip_ones t i2)"

text \<open>High byte first, the continuation bit on all bytes but the last.\<close>

definition encode_cell :: "cell \<Rightarrow> byte list" where
  "encode_cell p =
     (let t = groups p
      in map (\<lambda>i. if i = 0 then t ! i else t ! i OR 0x80) (rev [0..<enc_length t]))"

definition cell_bytes_le :: "cell \<Rightarrow> byte list" where
  "cell_bytes_le c = map (\<lambda>i. ucast (drop_bit (8 * i) c)) [0..<4]"

record binfile =
  bin_out :: "byte list"
  bytes_in :: int
  bytes_out :: int
  sc_compress :: bool

definition write_cell :: "cell \<Rightarrow> binfile \<Rightarrow> binfile result" where
  "write_cell c fb =
     (if sc_compress fb
      then (let bs = encode_cell c;
                fb' = fb\<lparr>bin_out := bin_out fb @ bs, bytes_out := bytes_out fb + int (length bs),
                         bytes_in := bytes_in fb + 4\<rparr>
            in bindR (assertR (bs \<noteq> [])) (\<lambda>_.
                 if bytes_out fb' - bytes_in fb' \<ge> AMX_COMPACTMARGIN - 2 then Inl CompactErr else Inr fb'))
      else bindR (assertR (length (bin_out fb) mod 4 = 0)) (\<lambda>_.
             Inr (fb\<lparr>bin_out := bin_out fb @ cell_bytes_le c\<rparr>)))"

definition write_encoded :: "cell list \<Rightarrow> binfile \<Rightarrow> binfile result" where
  "write_encoded cs = block (map write_cell cs)"

section \<open>\<open>expand\<close> (amxmodx/amx.cpp)\<close>

text \<open>One group, read from its last byte backward: the do-while loop with its assertions.\<close>

fun take_group :: "byte list \<Rightarrow> nat \<Rightarrow> cell \<Rightarrow> nat \<Rightarrow> (cell \<times> nat \<times> nat) result" where
  "take_group code 0 c shift = Inl AssertFail"
| "take_group code (Suc k) c shift =
     bindR (assertR (shift < 32 \<and> (shift > 0 \<or> code ! k AND 0x80 = 0))) (\<lambda>_.
       let c' = c OR push_bit shift (ucast (code ! k AND 0x7f))
       in if k > 0 \<and> code ! (k - 1) AND 0x80 \<noteq> 0 then take_group code k c' (shift + 7)
          else Inr (c', shift + 7, k))"

function sign_fill :: "cell \<Rightarrow> nat \<Rightarrow> cell" where
  "sign_fill c shift = (if shift < 32 then sign_fill (c OR push_bit shift 0xff) (shift + 8) else c)"
  by pat_completeness auto
termination by (relation "measure (\<lambda>(_, shift). 32 - shift)") auto

declare sign_fill.simps [simp del]

definition poke_cell :: "nat \<Rightarrow> cell \<Rightarrow> byte list \<Rightarrow> byte list result" where
  "poke_cell loc c code =
     (if loc + 4 \<le> length code then Inr (take loc code @ cell_bytes_le c @ drop (loc + 4) code)
      else Inl BufferOverflow)"

text \<open>The ring buffer of spare cells is a queue; its capacity is the assertion's.\<close>

fun flush_spare :: "(nat \<times> cell) list \<Rightarrow> nat \<Rightarrow> byte list \<Rightarrow> ((nat \<times> cell) list \<times> byte list) result" where
  "flush_spare [] codesize code = Inr ([], code)"
| "flush_spare ((loc, c) # q) codesize code =
     (if loc > codesize then bindR (poke_cell loc c code) (flush_spare q codesize)
      else Inr ((loc, c) # q, code))"

definition store_expanded :: "nat \<Rightarrow> nat \<Rightarrow> cell \<Rightarrow> (nat \<times> cell) list \<Rightarrow> byte list \<Rightarrow> ((nat \<times> cell) list \<times> byte list) result" where
  "store_expanded memloc codesize c q code =
     (if memloc > codesize \<or> (memloc = codesize \<and> memloc = 0)
      then bindR (poke_cell memloc c code) (\<lambda>code'. Inr (q, code'))
      else bindR (assertR (int (length q) < AMX_COMPACTMARGIN)) (\<lambda>_. Inr (q @ [(memloc, c)], code)))"

lemma take_group_shorter: "take_group code n c shift = Inr (c', sh', k) \<Longrightarrow> k < n"
  by (induction code n c shift rule: take_group.induct)
     (auto simp: bindR_Inr_iff Let_def less_Suc_eq split: if_splits)

function expand_loop :: "nat \<Rightarrow> nat \<Rightarrow> (nat \<times> cell) list \<Rightarrow> byte list \<Rightarrow> (nat \<times> byte list) result" where
  "expand_loop 0 memsize q code = Inr (memsize, code)"
| "expand_loop (Suc n) memsize q code =
     (case take_group code (Suc n) 0 0 of
        Inl e \<Rightarrow> Inl e
      | Inr (c, shift, k) \<Rightarrow>
          (let c' = (if code ! k AND 0x40 \<noteq> 0 then sign_fill c shift else c)
           in case bindR (flush_spare q k code) (\<lambda>(q1, code1).
                   bindR (assertR (4 \<le> memsize)) (\<lambda>_. store_expanded (memsize - 4) k c' q1 code1)) of
                Inl e \<Rightarrow> Inl e
              | Inr (q2, code2) \<Rightarrow> expand_loop k (memsize - 4) q2 code2))"
  by pat_completeness auto
termination
  by (relation "measure (\<lambda>(n, _). n)") (auto dest: take_group_shorter simp del: take_group.simps)

definition expand :: "byte list \<Rightarrow> nat \<Rightarrow> nat \<Rightarrow> byte list result" where
  "expand code codesize memsize =
     bindR (assertR (memsize mod 4 = 0)) (\<lambda>_.
     bindR (expand_loop codesize memsize [] code) (\<lambda>(m, code').
     bindR (assertR (m = 0)) (\<lambda>_. Inr code')))"

section \<open>A group decodes to its cell\<close>

lemma bit_groups:
  assumes "i < ENC_MAX"
  shows "bit (groups p ! i) j \<longleftrightarrow> j < 7 \<and> bit p (7 * i + j)"
proof -
  have "bit (0x7f :: cell) j \<longleftrightarrow> j < 7"
  proof -
    have "(0x7f :: cell) = mask 7" by (simp add: mask_eq_exp_minus_1)
    then show ?thesis by (simp only: bit_mask_iff) auto
  qed
  then show ?thesis
    using assms by (auto simp: groups_def bit_simps ENC_MAX_def)
qed

lemma byte_bit6: "(b :: byte) AND 0x40 = 0 \<longleftrightarrow> \<not> bit b 6"
proof -
  have "(0x40 :: byte) = 2 ^ 6" by simp
  then show ?thesis by (simp only: and_exp_eq_0_iff_not_bit)
qed

text \<open>\<open>n\<close> groups are enough when the rest of the cell is copies of the last group's sign.\<close>

definition enough :: "cell \<Rightarrow> nat \<Rightarrow> bool" where
  "enough p n \<longleftrightarrow> 0 < n \<and> n \<le> ENC_MAX \<and> (\<forall>k. 7 * n \<le> k \<and> k < 32 \<longrightarrow> bit p k = bit p (7 * n - 1))"

lemma enough_shrink:
  assumes e: "enough p (Suc (Suc i))"
    and g: "\<And>j. j < 7 \<Longrightarrow> 7 * Suc i + j < 32 \<Longrightarrow> bit p (7 * Suc i + j) = b"
    and s: "bit p (7 * i + 6) = b"
  shows "enough p (Suc i)"
  unfolding enough_def
proof (intro conjI allI impI)
  show "Suc i \<le> ENC_MAX" using e by (simp add: enough_def)
  fix k assume k: "7 * Suc i \<le> k \<and> k < 32"
  have "bit p k = b"
  proof (cases "k < 7 * Suc (Suc i)")
    case True
    then obtain j where "k = 7 * Suc i + j" "j < 7"
      using k by (metis le_add_diff_inverse mult_Suc_right nat_add_left_cancel_less add.commute)
    then show ?thesis using g k by simp
  next
    case False
    then have "bit p k = bit p (7 * Suc (Suc i) - 1)" using e k by (simp add: enough_def)
    then show ?thesis using g [of 6] False k by simp
  qed
  then show "bit p k = bit p (7 * Suc i - 1)" using s by (simp add: add.commute)
qed simp

lemma bit_0x7f: "bit (0x7f :: byte) j \<longleftrightarrow> j < 7"
proof -
  have "(0x7f :: byte) = mask 7" by (simp add: mask_eq_exp_minus_1)
  then show ?thesis by (simp only: bit_mask_iff) auto
qed

lemma bit_ENC_MASK: "bit ENC_MASK j \<longleftrightarrow> j < 4"
proof -
  have "(0x0f :: byte) = mask 4" by (simp add: mask_eq_exp_minus_1)
  then show ?thesis unfolding ENC_MASK_def by (simp only: bit_mask_iff) auto
qed

lemma skip_zeros_enough: "enough p n \<Longrightarrow> enough p (skip_zeros (groups p) n)"
proof (induction "groups p" n rule: skip_zeros.induct)
  case (1 i)
  have i: "Suc i < ENC_MAX" using 1(2) by (simp add: enough_def)
  show ?case
  proof (cases "groups p ! Suc i = 0 \<and> groups p ! i AND 0x40 = 0")
    case True
    have "\<not> bit p (7 * Suc i + j)" if "j < 7" for j
      using bit_groups [OF i, of p j] True that by simp
    moreover have "\<not> bit p (7 * i + 6)" using bit_groups [of i p 6] i True by (simp add: byte_bit6)
    ultimately have "enough p (Suc i)" using enough_shrink [OF 1(2), of False] by simp
    then show ?thesis using True 1(1) by simp
  qed (use 1(2) in auto)
qed auto

lemma skip_ones_enough: "enough p n \<Longrightarrow> enough p (skip_ones (groups p) n)"
proof (induction "groups p" n rule: skip_ones.induct)
  case (1 i)
  have i: "Suc i < ENC_MAX" using 1(2) by (simp add: enough_def)
  show ?case
  proof (cases "groups p ! Suc i = 0x7f \<and> groups p ! i AND 0x40 \<noteq> 0")
    case True
    have "bit p (7 * Suc i + j)" if j: "j < 7" for j
    proof -
      have "bit (groups p ! Suc i) j" unfolding conjunct1 [OF True] using j by (simp only: bit_0x7f)
      then show ?thesis unfolding bit_groups [OF i] by simp
    qed
    moreover have "bit p (7 * i + 6)" using bit_groups [of i p 6] i True by (simp add: byte_bit6)
    ultimately have "enough p (Suc i)" using enough_shrink [OF 1(2), of True] by simp
    then show ?thesis using True 1(1) by simp
  qed (use 1(2) in auto)
qed auto

lemma enc_length_enough: "enough p (enc_length (groups p))"
proof -
  define i1 where "i1 = skip_zeros (groups p) ENC_MAX"
  have i1: "enough p i1"
    unfolding i1_def by (rule skip_zeros_enough) (auto simp: enough_def ENC_MAX_def)
  define i2 where "i2 = (if i1 = ENC_MAX \<and> groups p ! (i1 - 1) = ENC_MASK \<and> groups p ! (i1 - 2) AND 0x40 \<noteq> 0
    then i1 - 1 else i1)"
  have "enough p i2"
  proof (cases "i1 = ENC_MAX \<and> groups p ! (i1 - 1) = ENC_MASK \<and> groups p ! (i1 - 2) AND 0x40 \<noteq> 0")
    case True
    have m: "i1 = 5" using True by (simp add: ENC_MAX_def)
    have g4: "groups p ! 4 = ENC_MASK" and g3: "bit (groups p ! 3) 6"
      using True by (simp_all add: m byte_bit6)
    have hi: "bit p (28 + j)" if "j < 4" for j
      using bit_groups [of 4 p j] that by (simp add: g4 bit_ENC_MASK ENC_MAX_def)
    have lo: "bit p 27" using bit_groups [of 3 p 6] g3 by (simp add: ENC_MAX_def)
    have "enough p (Suc 3)"
      by (rule enough_shrink [where b = True]) (use i1 m hi lo in \<open>simp_all add: eval_nat_numeral\<close>)
    moreover have "i2 = 4" unfolding i2_def if_P [OF True] using m by simp
    ultimately show ?thesis by simp
  next
    case False
    show ?thesis unfolding i2_def if_not_P [OF False] by (rule i1)
  qed
  then have "enough p (skip_ones (groups p) i2)" by (rule skip_ones_enough)
  then show ?thesis unfolding enc_length_def Let_def i1_def [symmetric] i2_def [symmetric] .
qed

lemma length_encode_cell: "length (encode_cell p) = enc_length (groups p)"
  by (simp add: encode_cell_def Let_def)

lemma encode_cell_bounds: "0 < length (encode_cell p) \<and> length (encode_cell p) \<le> 5"
  using enc_length_enough [of p] by (simp add: length_encode_cell enough_def ENC_MAX_def)

lemma encode_cell_nth:
  assumes "i < length (encode_cell p)"
  shows "encode_cell p ! i =
    (let j = length (encode_cell p) - 1 - i in if j = 0 then groups p ! j else groups p ! j OR 0x80)"
  using assms by (simp add: encode_cell_def Let_def rev_nth)

lemma bit_sign_fill: "k < 32 \<Longrightarrow> bit (sign_fill c shift) k \<longleftrightarrow> bit c k \<or> shift \<le> k"
proof (induction c shift rule: sign_fill.induct)
  case (1 c shift)
  have ff: "bit (0xff :: cell) j \<longleftrightarrow> j < 8" for j
  proof -
    have "(0xff :: cell) = mask 8" by (simp add: mask_eq_exp_minus_1)
    then show ?thesis by (simp only: bit_mask_iff) auto
  qed
  show ?case
  proof (cases "shift < 32")
    case True
    have "bit (c OR push_bit shift 0xff) k \<longleftrightarrow> bit c k \<or> (shift \<le> k \<and> k < shift + 8)"
      using 1(2) ff [of "k - shift"] by (auto simp: bit_simps)
    then show ?thesis using 1(1) [OF True 1(2)] True by (auto simp: sign_fill.simps [of c shift])
  next
    case False
    then show ?thesis using 1(2) by (auto simp: sign_fill.simps [of c shift])
  qed
qed

lemma and_7f: "bit (b AND 0x7f :: byte) j \<longleftrightarrow> j < 7 \<and> bit b j"
  by (auto simp: bit_and_iff bit_0x7f simp del: bit_numeral_word_iff)

lemma bit_0x80: "bit (0x80 :: byte) j \<longleftrightarrow> j = 7"
proof -
  have "(0x80 :: byte) = 2 ^ 7" by simp
  then show ?thesis by (simp only: bit_exp_iff) auto
qed

lemma byte_bit7: "(b :: byte) AND 0x80 = 0 \<longleftrightarrow> \<not> bit b 7"
proof -
  have "(0x80 :: byte) = 2 ^ 7" by simp
  then show ?thesis by (simp only: and_exp_eq_0_iff_not_bit)
qed

text \<open>The bytes of a cell's encoding, wherever they stand in the block.\<close>

lemma encode_bits:
  assumes "i < length (encode_cell p)"
  shows "j < 7 \<Longrightarrow> bit (encode_cell p ! i) j \<longleftrightarrow> bit p (7 * (length (encode_cell p) - 1 - i) + j)"
    and "bit (encode_cell p ! i) 7 \<longleftrightarrow> i + 1 < length (encode_cell p)"
proof -
  define jj where "jj = length (encode_cell p) - 1 - i"
  have jj: "jj < ENC_MAX" using encode_cell_bounds [of p] assms unfolding ENC_MAX_def jj_def by arith
  have jj0: "jj = 0 \<longleftrightarrow> \<not> i + 1 < length (encode_cell p)" using assms by (auto simp: jj_def)
  have n: "encode_cell p ! i = (if jj = 0 then groups p ! jj else groups p ! jj OR 0x80)"
    using encode_cell_nth [OF assms] by (simp only: jj_def Let_def)
  show "bit (encode_cell p ! i) j \<longleftrightarrow> bit p (7 * (length (encode_cell p) - 1 - i) + j)" if "j < 7"
    using that bit_groups [OF jj, of p j] unfolding n jj_def [symmetric]
    by (cases "jj = 0") (simp_all add: bit_or_iff bit_0x80 del: bit_numeral_word_iff)
  show "bit (encode_cell p ! i) 7 \<longleftrightarrow> i + 1 < length (encode_cell p)"
    using bit_groups [OF jj, of p 7] jj0 unfolding n
    by (cases "jj = 0") (simp_all add: bit_or_iff bit_0x80 del: bit_numeral_word_iff)
qed

lemma take_group_encoded:
  assumes at: "\<And>i. i < length (encode_cell p) \<Longrightarrow> code ! (a + i) = encode_cell p ! i"
    and stop: "a = 0 \<or> code ! (a - 1) AND 0x80 = 0"
  shows "0 < r \<Longrightarrow> r \<le> length (encode_cell p) \<Longrightarrow>
    take_group code (a + r) (take_bit (7 * (length (encode_cell p) - r)) p) (7 * (length (encode_cell p) - r))
      = Inr (take_bit (7 * length (encode_cell p)) p, 7 * length (encode_cell p), a)"
proof (induction r)
  case (Suc r)
  let ?n = "length (encode_cell p)"
  let ?sh = "7 * (?n - Suc r)"
  have r: "r < ?n" using Suc.prems by simp
  have b: "code ! (a + r) = encode_cell p ! r" using at r by simp
  have sh: "?sh < 32" using encode_cell_bounds [of p] r by arith
  have first: "?sh > 0 \<or> code ! (a + r) AND 0x80 = 0"
    using encode_bits(2) [OF r] r by (auto simp: b byte_bit7)
  define x :: cell where "x = ucast (code ! (a + r) AND 0x7f)"
  have x: "bit x j \<longleftrightarrow> j < 7 \<and> bit p (?sh + j)" for j
    using encode_bits(1) [OF r, of j]
    by (auto simp: x_def b bit_ucast_iff and_7f simp del: bit_numeral_word_iff)
  have c': "take_bit ?sh p OR push_bit ?sh x = take_bit (7 * (?n - r)) p"
  proof (rule bit_word_eqI)
    fix k assume k: "k < LENGTH(32)"
    have e: "7 * (?n - r) = ?sh + 7" using r by simp
    show "bit (take_bit ?sh p OR push_bit ?sh x) k = bit (take_bit (7 * (?n - r)) p) k"
      unfolding e using k x [of "k - ?sh"] by (auto simp: bit_simps)
  qed
  note c'' = c' [unfolded x_def]
  show ?case
  proof (cases "r = 0")
    case True
    then have "\<not> (a + r > 0 \<and> code ! (a + r - 1) AND 0x80 \<noteq> 0)" using stop by auto
    moreover have "7 * (?n - Suc 0) + 7 = 7 * ?n" using r by simp
    ultimately show ?thesis using first sh c'' True by (auto simp: Let_def)
  next
    case False
    have "code ! (a + r - 1) AND 0x80 \<noteq> 0"
      using at [of "r - 1"] encode_bits(2) [of "r - 1" p] r False by (simp add: byte_bit7)
    moreover have "7 * (?n - r) = ?sh + 7" using r by simp
    ultimately show ?thesis using first sh c'' False Suc.IH r by (auto simp: Let_def)
  qed
qed simp

lemma decode_cell:
  fixes p defines "n \<equiv> length (encode_cell p)"
  assumes b: "b = encode_cell p ! 0"
  shows "(if b AND 0x40 \<noteq> 0 then sign_fill (take_bit (7 * n) p) (7 * n) else take_bit (7 * n) p) = p"
proof (rule bit_word_eqI)
  have n: "0 < n" using encode_cell_bounds [of p] by (simp add: n_def)
  have sgn: "b AND 0x40 \<noteq> 0 \<longleftrightarrow> bit p (7 * n - 1)"
  proof -
    have "bit b 6 \<longleftrightarrow> bit p (7 * (n - 1) + 6)" using encode_bits(1) [of 0 p 6] n by (simp add: b n_def)
    moreover have "7 * (n - 1) + 6 = 7 * n - 1" using n by simp
    ultimately show ?thesis by (simp add: byte_bit6)
  qed
  fix k assume k: "k < LENGTH(32)"
  have e: "7 * n \<le> k \<Longrightarrow> bit p k = bit p (7 * n - 1)"
    using enc_length_enough [of p] k by (simp add: enough_def length_encode_cell n_def)
  show "bit (if b AND 0x40 \<noteq> 0 then sign_fill (take_bit (7 * n) p) (7 * n) else take_bit (7 * n) p) k = bit p k"
    unfolding sgn using k e by (cases "7 * n \<le> k") (auto simp: bit_sign_fill bit_take_bit_iff)
qed

section \<open>In-place expansion\<close>

definition enc_cells :: "cell list \<Rightarrow> byte list" where
  "enc_cells cs = concat (map encode_cell cs)"

definition enc_size :: "cell list \<Rightarrow> nat \<Rightarrow> nat" where
  "enc_size cs k = length (enc_cells (take k cs))"

lemma enc_cells_snoc: "enc_cells (cs @ [c]) = enc_cells cs @ encode_cell c"
  by (simp add: enc_cells_def)

lemma enc_size_0 [simp]: "enc_size cs 0 = 0"
  by (simp add: enc_size_def enc_cells_def)

lemma enc_size_Suc: "k < length cs \<Longrightarrow> enc_size cs (Suc k) = enc_size cs k + length (encode_cell (cs ! k))"
  by (simp add: enc_size_def take_Suc_conv_app_nth enc_cells_snoc)

definition stored :: "cell list \<Rightarrow> nat \<Rightarrow> byte list \<Rightarrow> bool" where
  "stored cs j code \<longleftrightarrow> (\<forall>i < 4. code ! (4 * j + i) = cell_bytes_le (cs ! j) ! i)"

definition spare :: "cell list \<Rightarrow> nat \<Rightarrow> nat \<times> cell" where
  "spare cs j = (4 * j, cs ! j)"

definition in_cell :: "nat \<Rightarrow> nat \<Rightarrow> bool" where
  "in_cell j i \<longleftrightarrow> 4 * j \<le> i \<and> i < 4 * j + 4"

lemma poke_cell_nth:
  assumes "4 * j + 4 \<le> length code"
  shows "\<exists>code'. poke_cell (4 * j) (cs ! j) code = Inr code' \<and> length code' = length code
    \<and> stored cs j code' \<and> (\<forall>i. \<not> in_cell j i \<longrightarrow> code' ! i = code ! i)"
  using assms
  by (auto simp: poke_cell_def cell_bytes_le_def stored_def in_cell_def nth_append)

lemma stored_cong:
  "stored cs j code \<Longrightarrow> (\<And>i. in_cell j i \<Longrightarrow> code' ! i = code ! i) \<Longrightarrow> stored cs j code'"
  by (simp add: stored_def in_cell_def)

lemma in_cell_inj: "in_cell j i \<Longrightarrow> in_cell j' i \<Longrightarrow> j = j'"
  by (auto simp: in_cell_def)

lemma flush_spare_ok:
  "k \<le> m \<Longrightarrow> 4 * m \<le> length code \<Longrightarrow>
   \<exists>m' code'. flush_spare (map (spare cs) (rev [k..<m])) cz code = Inr (map (spare cs) (rev [k..<m']), code')
     \<and> k \<le> m' \<and> m' \<le> m \<and> length code' = length code \<and> (m' = k \<or> 4 * (m' - 1) \<le> cz)
     \<and> (\<forall>j. m' \<le> j \<and> j < m \<longrightarrow> stored cs j code' \<and> cz < 4 * j)
     \<and> (\<forall>i. (\<forall>j. m' \<le> j \<and> j < m \<longrightarrow> \<not> in_cell j i) \<longrightarrow> code' ! i = code ! i)"
proof (induction "m - k" arbitrary: m code)
  case 0
  then have "m = k" by simp
  then show ?case by (intro exI [of _ k] exI [of _ code]) auto
next
  case (Suc d)
  then obtain m1 where m1: "m = Suc m1" "k \<le> m1" by (cases m) auto
  show ?case
  proof (cases "4 * m1 > cz")
    case False
    then show ?thesis using m1 by (intro exI [of _ m] exI [of _ code]) (auto simp: spare_def)
  next
    case True
    obtain code1 where c1: "poke_cell (4 * m1) (cs ! m1) code = Inr code1" "length code1 = length code"
      "stored cs m1 code1" "\<And>i. \<not> in_cell m1 i \<Longrightarrow> code1 ! i = code ! i"
      using poke_cell_nth [of m1 code cs] Suc.prems(2) m1 by auto
    have "d = m1 - k" "4 * m1 \<le> length code1" using Suc.hyps(2) m1 Suc.prems(2) c1(2) by auto
    from Suc.hyps(1) [OF this(1) m1(2) this(2)] obtain m' code' where
      f: "flush_spare (map (spare cs) (rev [k..<m1])) cz code1 = Inr (map (spare cs) (rev [k..<m']), code')"
      and m': "k \<le> m'" "m' \<le> m1" "m' = k \<or> 4 * (m' - 1) \<le> cz"
      and l: "length code' = length code1"
      and st: "\<And>j. m' \<le> j \<Longrightarrow> j < m1 \<Longrightarrow> stored cs j code' \<and> cz < 4 * j"
      and pr: "\<And>i. (\<forall>j. m' \<le> j \<and> j < m1 \<longrightarrow> \<not> in_cell j i) \<Longrightarrow> code' ! i = code1 ! i" by blast
    have "stored cs m1 code'"
      by (rule stored_cong [OF c1(3)]) (use in_cell_inj in \<open>blast intro!: pr\<close>)
    then have "stored cs j code' \<and> cz < 4 * j" if "m' \<le> j" "j < m" for j
      using st [of j] that m1(1) True by (cases "j = m1") auto
    moreover have "code' ! i = code ! i" if "\<forall>j. m' \<le> j \<and> j < m \<longrightarrow> \<not> in_cell j i" for i
    proof -
      have "code' ! i = code1 ! i" using that m1 by (intro pr) auto
      also have "\<dots> = code ! i" using that m1 m' by (intro c1(4)) auto
      finally show ?thesis .
    qed
    moreover have "flush_spare (map (spare cs) (rev [k..<m])) cz code = Inr (map (spare cs) (rev [k..<m']), code')"
      using f c1(1) m1 True by (simp add: spare_def)
    ultimately show ?thesis using m' m1 l c1(2) by (intro exI [of _ m'] exI [of _ code']) auto
  qed
qed

text \<open>The state of the expansion when \<open>k\<close> cells are left: their encodings are untouched, cells
  \<open>k\<close> to \<open>m - 1\<close> wait in the queue, the cells from \<open>m\<close> on are in place.\<close>

definition expand_inv :: "cell list \<Rightarrow> nat \<Rightarrow> nat \<Rightarrow> byte list \<Rightarrow> bool" where
  "expand_inv cs k m code \<longleftrightarrow> k \<le> m \<and> m \<le> length cs \<and> (m = k \<or> 4 * (m - 1) \<le> enc_size cs k)
     \<and> (k = 0 \<longrightarrow> m = 0)
     \<and> enc_size cs k \<le> length code \<and> 4 * length cs \<le> length code
     \<and> take (enc_size cs k) code = enc_cells (take k cs)
     \<and> (\<forall>j. m \<le> j \<and> j < length cs \<longrightarrow> stored cs j code)"

lemma expand_group:
  assumes inv: "expand_inv cs (Suc k) m code" and k: "k < length cs"
  shows "take_group code (enc_size cs (Suc k)) 0 0
      = Inr (take_bit (7 * length (encode_cell (cs ! k))) (cs ! k), 7 * length (encode_cell (cs ! k)), enc_size cs k)
    \<and> code ! enc_size cs k = encode_cell (cs ! k) ! 0
    \<and> take (enc_size cs k) code = enc_cells (take k cs)"
proof -
  let ?e = "encode_cell (cs ! k)"
  have l: "length (enc_cells (take k cs)) = enc_size cs k" by (simp add: enc_size_def)
  have tk: "take (enc_size cs (Suc k)) code = enc_cells (take k cs) @ ?e"
    using inv k by (simp add: expand_inv_def take_Suc_conv_app_nth enc_cells_snoc)
  have e: "enc_size cs (Suc k) = enc_size cs k + length ?e" using k by (rule enc_size_Suc)
  have at: "code ! (enc_size cs k + i) = ?e ! i" if "i < length ?e" for i
  proof -
    have "code ! (enc_size cs k + i) = take (enc_size cs (Suc k)) code ! (enc_size cs k + i)"
      using that e by simp
    then show ?thesis by (simp add: tk nth_append l)
  qed
  have pre: "take (enc_size cs k) code = enc_cells (take k cs)"
    using arg_cong [OF tk, of "take (enc_size cs k)"] by (simp add: e l min_def)
  have stop: "enc_size cs k = 0 \<or> code ! (enc_size cs k - 1) AND 0x80 = 0"
  proof (cases k)
    case (Suc k1)
    let ?f = "encode_cell (cs ! k1)"
    have f: "0 < length ?f" using encode_cell_bounds [of "cs ! k1"] by simp
    have e1: "enc_size cs k = enc_size cs k1 + length ?f" using Suc k by (simp add: enc_size_Suc)
    have "code ! (enc_size cs k - 1) = enc_cells (take k cs) ! (enc_size cs k - 1)"
      using f e1 by (simp flip: pre)
    also have "enc_cells (take k cs) = enc_cells (take k1 cs) @ ?f"
      using Suc k by (simp add: take_Suc_conv_app_nth enc_cells_snoc)
    also have "enc_size cs k - 1 = enc_size cs k1 + (length ?f - 1)"
      using f unfolding e1 by arith
    also have "(enc_cells (take k1 cs) @ ?f) ! \<dots> = ?f ! (length ?f - 1)"
      unfolding enc_size_def by (rule nth_append_length_plus)
    finally show ?thesis using encode_bits(2) [of "length ?f - 1" "cs ! k1"] f by (simp add: byte_bit7 e1)
  qed simp
  have "0 < length ?e" using encode_cell_bounds [of "cs ! k"] by simp
  then show ?thesis
    using take_group_encoded [OF at stop, of "length ?e"] at [of 0] pre by (simp add: e)
qed

lemma expand_step:
  assumes inv: "expand_inv cs (Suc k) m code" and k: "k < length cs"
    and margin: "int (enc_size cs k) - 4 * int k < AMX_COMPACTMARGIN - 2"
  shows "\<exists>m' code' q1 code1. flush_spare (map (spare cs) (rev [Suc k..<m])) (enc_size cs k) code = Inr (q1, code1)
    \<and> store_expanded (4 * k) (enc_size cs k) (cs ! k) q1 code1 = Inr (map (spare cs) (rev [k..<m']), code')
    \<and> expand_inv cs k m' code' \<and> length code' = length code"
proof -
  let ?E = "enc_size cs k"
  have E: "?E \<le> enc_size cs (Suc k)" using enc_size_Suc [OF k] by simp
  have i: "Suc k \<le> m" "m \<le> length cs" "enc_size cs (Suc k) \<le> length code" "4 * length cs \<le> length code"
    "\<And>j. m \<le> j \<Longrightarrow> j < length cs \<Longrightarrow> stored cs j code" using inv by (auto simp: expand_inv_def)
  have len: "4 * m \<le> length code" using i(2,4) by linarith
  obtain m1 code1 where
    f: "flush_spare (map (spare cs) (rev [Suc k..<m])) ?E code = Inr (map (spare cs) (rev [Suc k..<m1]), code1)"
    and m1: "Suc k \<le> m1" "m1 \<le> m" "m1 = Suc k \<or> 4 * (m1 - 1) \<le> ?E" and l1: "length code1 = length code"
    and st: "\<And>j. m1 \<le> j \<Longrightarrow> j < m \<Longrightarrow> stored cs j code1 \<and> ?E < 4 * j"
    and pr: "\<And>i. (\<forall>j. m1 \<le> j \<and> j < m \<longrightarrow> \<not> in_cell j i) \<Longrightarrow> code1 ! i = code ! i"
    using flush_spare_ok [OF i(1) len, of cs ?E] by blast
  have tk1: "take ?E code1 = enc_cells (take k cs)"
  proof -
    have "take ?E code1 = take ?E code"
      using i(3) E l1 by (intro nth_equalityI) (auto intro!: pr dest: st simp: in_cell_def)
    then show ?thesis using expand_group [OF inv k] by simp
  qed
  have st1: "stored cs j code1" if "m1 \<le> j" "j < length cs" for j
  proof (cases "j < m")
    case False
    then have "stored cs j code" using i(5) that by simp
    then show ?thesis
      by (rule stored_cong) (use False in_cell_inj in \<open>blast intro!: pr\<close>)
  qed (use st that in simp)
  show ?thesis
  proof (cases "?E < 4 * k \<or> (4 * k = ?E \<and> k = 0)")
    case True
    have m1k: "m1 = Suc k" using m1 True by auto
    obtain code2 where c2: "poke_cell (4 * k) (cs ! k) code1 = Inr code2" "length code2 = length code1"
      "stored cs k code2" "\<And>i. \<not> in_cell k i \<Longrightarrow> code2 ! i = code1 ! i"
      using poke_cell_nth [of k code1 cs] k i(4) l1 by auto
    have "stored cs j code2" if "k \<le> j" "j < length cs" for j
    proof (cases "j = k")
      case False
      then have "stored cs j code1" using st1 that m1k by simp
      then show ?thesis by (rule stored_cong) (use False in_cell_inj in \<open>blast intro!: c2(4)\<close>)
    qed (use c2 in simp)
    moreover have "take ?E code2 = enc_cells (take k cs)"
    proof -
      have "take ?E code2 = take ?E code1"
        using True i(3) E l1 c2(2) by (intro nth_equalityI) (auto intro!: c2(4) simp: in_cell_def)
      then show ?thesis using tk1 by simp
    qed
    ultimately have "expand_inv cs k k code2"
      using i(3,4) E l1 c2(2) k by (simp add: expand_inv_def)
    moreover have "store_expanded (4 * k) ?E (cs ! k) [] code1 = Inr ([], code2)"
      using True c2(1) by (auto simp: store_expanded_def)
    ultimately show ?thesis
      using f m1k c2(2) l1 by (intro exI [of _ k] exI [of _ code2] exI [of _ "[]"] exI [of _ code1]) simp
  next
    case False
    let ?q = "map (spare cs) (rev [Suc k..<m1])"
    have "length ?q = m1 - Suc k" by simp
    moreover have "int (4 * (m1 - 1)) < 4 * int k + 62 \<or> m1 = Suc k"
      using m1(3) margin by (auto simp: AMX_COMPACTMARGIN_def)
    ultimately have "int (length ?q) < AMX_COMPACTMARGIN" by (auto simp: AMX_COMPACTMARGIN_def)
    moreover have "?q @ [(4 * k, cs ! k)] = map (spare cs) (rev [k..<m1])"
      using m1(1) by (simp add: spare_def upt_conv_Cons)
    ultimately have "store_expanded (4 * k) ?E (cs ! k) ?q code1 = Inr (map (spare cs) (rev [k..<m1]), code1)"
      using False by (auto simp: store_expanded_def)
    moreover have "expand_inv cs k m1 code1"
      using False m1 i E l1 tk1 st1 by (cases "k = 0") (auto simp: expand_inv_def)
    ultimately show ?thesis using f l1 by blast
  qed
qed

lemma expand_loop_ok:
  "expand_inv cs k m code \<Longrightarrow> k \<le> length cs \<Longrightarrow>
   \<forall>j \<le> length cs. int (enc_size cs j) - 4 * int j < AMX_COMPACTMARGIN - 2 \<Longrightarrow>
   \<exists>code'. expand_loop (enc_size cs k) (4 * k) (map (spare cs) (rev [k..<m])) code = Inr (0, code')
     \<and> length code' = length code \<and> (\<forall>j < length cs. stored cs j code')"
proof (induction k arbitrary: m code)
  case 0
  then show ?case by (auto simp: expand_inv_def)
next
  case (Suc k)
  have k: "k < length cs" using Suc.prems(2) by simp
  have mk: "int (enc_size cs k) - 4 * int k < AMX_COMPACTMARGIN - 2" using Suc.prems(3) k by simp
  obtain m' code' q1 code1 where
    fl: "flush_spare (map (spare cs) (rev [Suc k..<m])) (enc_size cs k) code = Inr (q1, code1)"
    and se: "store_expanded (4 * k) (enc_size cs k) (cs ! k) q1 code1 = Inr (map (spare cs) (rev [k..<m']), code')"
    and inv: "expand_inv cs k m' code'" and l: "length code' = length code"
    using expand_step [OF Suc.prems(1) k mk] by blast
  note g = expand_group [OF Suc.prems(1) k]
  obtain e where e: "enc_size cs (Suc k) = Suc e"
    using enc_size_Suc [OF k] encode_cell_bounds [of "cs ! k"] by (metis add_gr_0 gr0_conv_Suc)
  have "expand_loop (enc_size cs (Suc k)) (4 * Suc k) (map (spare cs) (rev [Suc k..<m])) code
      = expand_loop (enc_size cs k) (4 * k) (map (spare cs) (rev [k..<m'])) code'"
    unfolding e expand_loop.simps(2) using g decode_cell [OF refl, of "cs ! k"] fl se
    by (simp add: e Let_def del: take_group.simps)
  then show ?case using Suc.IH [OF inv _ Suc.prems(3)] k l by simp
qed

lemma write_encoded_compact:
  "write_encoded cs fb = Inr fb' \<Longrightarrow> sc_compress fb \<Longrightarrow> bytes_out fb - bytes_in fb < AMX_COMPACTMARGIN - 2 \<Longrightarrow>
   bin_out fb' = bin_out fb @ enc_cells cs \<and> sc_compress fb'
   \<and> (\<forall>k \<le> length cs. bytes_out fb + int (enc_size cs k) - (bytes_in fb + 4 * int k) < AMX_COMPACTMARGIN - 2)"
proof (induction cs arbitrary: fb)
  case Nil
  then show ?case by (simp add: write_encoded_def enc_cells_def)
next
  case (Cons c cs)
  obtain fb1 where w: "write_cell c fb = Inr fb1" "write_encoded cs fb1 = Inr fb'"
    using Cons.prems(1) by (auto simp: write_encoded_def)
  have f1: "bin_out fb1 = bin_out fb @ encode_cell c" "sc_compress fb1"
    "bytes_out fb1 = bytes_out fb + int (length (encode_cell c))" "bytes_in fb1 = bytes_in fb + 4"
    "bytes_out fb1 - bytes_in fb1 < AMX_COMPACTMARGIN - 2"
    using w(1) Cons.prems(2) by (auto simp: write_cell_def Let_def bindR_Inr_iff split: if_splits)
  have es: "enc_size (c # cs) (Suc k) = length (encode_cell c) + enc_size cs k" for k
    by (simp add: enc_size_def enc_cells_def)
  have ih: "bytes_out fb1 + int (enc_size cs k) - (bytes_in fb1 + 4 * int k) < AMX_COMPACTMARGIN - 2"
    if "k \<le> length cs" for k using Cons.IH [OF w(2) f1(2,5)] that by blast
  have "bytes_out fb + int (enc_size (c # cs) k) - (bytes_in fb + 4 * int k) < AMX_COMPACTMARGIN - 2"
    if "k \<le> length (c # cs)" for k
  proof (cases k)
    case 0
    then show ?thesis using Cons.prems(3) by simp
  next
    case (Suc k1)
    then show ?thesis using ih [of k1] that f1(3,4) by (simp add: es)
  qed
  then show ?case using Cons.IH [OF w(2) f1(2,5)] f1 by (simp add: enc_cells_def)
qed

lemma stored_all:
  assumes "\<forall>j < length cs. stored cs j code" and "4 * length cs \<le> length code"
  shows "take (4 * length cs) code = concat (map cell_bytes_le cs)"
  using assms
proof (induction cs arbitrary: code)
  case (Cons c cs)
  have l: "length (cell_bytes_le c) = 4" by (simp add: cell_bytes_le_def)
  have "take 4 code = cell_bytes_le c"
    using Cons.prems by (intro nth_equalityI) (force simp: stored_def l)+
  moreover have "take (4 * length cs) (drop 4 code) = concat (map cell_bytes_le cs)"
  proof (rule Cons.IH)
    show "\<forall>j < length cs. stored cs j (drop 4 code)"
    proof (intro allI impI)
      fix j assume "j < length cs"
      then have "stored (c # cs) (Suc j) code" using Cons.prems(1) by simp
      then show "stored cs j (drop 4 code)"
        using Cons.prems(2) by (simp add: stored_def add.assoc add.commute [of 4])
    qed
  qed (use Cons.prems(2) in simp)
  moreover have "take (4 * length (c # cs)) code = take 4 code @ take (4 * length cs) (drop 4 code)"
    by (simp add: take_add)
  ultimately show ?case by simp
qed simp

lemma expand_written:
  assumes "write_encoded cs \<lparr>bin_out = [], bytes_in = 0, bytes_out = 0, sc_compress = True\<rparr> = Inr fb"
    and "take (length (bin_out fb)) code = bin_out fb" and "length (bin_out fb) \<le> length code"
    and "4 * length cs \<le> length code"
  shows "\<exists>code'. expand code (length (bin_out fb)) (4 * length cs) = Inr code'
    \<and> length code' = length code \<and> take (4 * length cs) code' = concat (map cell_bytes_le cs)"
proof -
  have w: "bin_out fb = enc_cells cs"
    "\<forall>k \<le> length cs. int (enc_size cs k) - 4 * int k < AMX_COMPACTMARGIN - 2"
    using write_encoded_compact [OF assms(1)] by (auto simp: AMX_COMPACTMARGIN_def)
  have n: "length (enc_cells cs) = enc_size cs (length cs)" by (simp add: enc_size_def)
  have "expand_inv cs (length cs) (length cs) code"
    using assms(2-4) by (auto simp: expand_inv_def w(1) n)
  from expand_loop_ok [OF this _ w(2)] obtain code' where
    "expand_loop (enc_size cs (length cs)) (4 * length cs) [] code = Inr (0, code')"
    "length code' = length code" "\<forall>j < length cs. stored cs j code'" by auto
  then show ?thesis using stored_all [of cs code'] assms(4) by (auto simp: expand_def w(1) n)
qed

section \<open>Properties\<close>

text \<open>C6 (\<open>write_encoded\<close> against \<open>expand\<close>): whenever the compiler writes the cells of a program
  in compact form without giving up (the encoding never runs ahead of the cells by the margin
  less two bytes), the host that loads these bytes into a block with room for the cells and
  expands them in place, from the end backward, passes every assertion of \<open>expand\<close>, the queue
  of spare cells never overflows, and the block then holds the cells themselves, in order.\<close>
theorem expand_undoes_write_encoded:
  assumes "write_encoded cs \<lparr>bin_out = [], bytes_in = 0, bytes_out = 0, sc_compress = True\<rparr> = Inr fb"
    and "take (length (bin_out fb)) code = bin_out fb" and "length (bin_out fb) \<le> length code"
    and "4 * length cs \<le> length code"
  shows "\<exists>code'. expand code (length (bin_out fb)) (4 * length cs) = Inr code'
    \<and> length code' = length code \<and> take (4 * length cs) code' = concat (map cell_bytes_le cs)"
  by (rule expand_written [OF assms])

theorem expand_undoes_write_encoded_witness:
  "\<exists>fb code'. write_encoded [0x2E, 0xFFFFFFFC, 0x80000000] \<lparr>bin_out = [], bytes_in = 0, bytes_out = 0, sc_compress = True\<rparr> = Inr fb
    \<and> expand (bin_out fb @ replicate 12 0) (length (bin_out fb)) (4 * length [0x2E, 0xFFFFFFFC, 0x80000000 :: cell]) = Inr code'
    \<and> take (4 * length [0x2E, 0xFFFFFFFC, 0x80000000 :: cell]) code' = concat (map cell_bytes_le [0x2E, 0xFFFFFFFC, 0x80000000])"
proof -
  have f: "write_encoded [0x2E, 0xFFFFFFFC, 0x80000000] \<lparr>bin_out = [], bytes_in = 0, bytes_out = 0, sc_compress = True\<rparr>
      = Inr \<lparr>bin_out = [0x2E, 0x7C, 0x88, 0x80, 0x80, 0x80, 0], bytes_in = 12, bytes_out = 7, sc_compress = True\<rparr>"
    by code_simp
  from expand_undoes_write_encoded [OF f, of "[0x2E, 0x7C, 0x88, 0x80, 0x80, 0x80, 0] @ replicate 12 0"] f
  show ?thesis by fastforce
qed

end
