(* ===== verification/ScAsm.thy ===== *)
theory ScAsm
  imports ScSym ScCompact ScStage
begin

text \<open>
  The assembler of sc6.c: the per-instruction routines, the instruction table and its binary
  search, the reading of a line, and the passes of \<open>assemble\<close> over the assembler file: the pass
  that finds the label addresses and the passes that write the code and the data. The header
  and the name tables at the head of the output file are not modelled. The lemmas show that the search
  finds every instruction and only those, and how a line is taken apart.
\<close>

section \<open>Lines\<close>

definition skipwhitespace :: "string \<Rightarrow> string" where
  "skipwhitespace str = dropWhile isspace str"

definition stripcomment :: "string \<Rightarrow> string" where
  "stripcomment str =
     (if CHR '';'' \<in> set str then takeWhile (\<lambda>c. c \<noteq> CHR '';'') str @ nl else str)"

section \<open>Instruction routines\<close>

text \<open>What the routines read besides their arguments: the number of labels, the label table
  (absent in the first pass) and the global symbols.\<close>

record asmenv =
  ae_labnum :: nat
  ae_lbltab :: "(nat \<Rightarrow> cell) option"
  ae_syms :: symtabs

text \<open>A routine returns the cells it hands to \<open>write_encoded\<close>, none when there is no output
  file, and the number of bytes of the instruction.\<close>

type_synonym proc = "asmenv \<Rightarrow> bool \<Rightarrow> string \<Rightarrow> cell \<Rightarrow> (cell list \<times> cell) result"

definition noop :: proc where
  "noop env fbin params opcode = Inr ([], 0)"

definition parm0 :: proc where
  "parm0 env fbin params opcode = Inr (if fbin then [opcode] else [], opcodes 1)"

definition parm1 :: proc where
  "parm1 env fbin params opcode =
     bindR (getparam params) (\<lambda>(p, _).
       Inr (if fbin then [opcode, p] else [], opcodes 1 + opargs 1))"

lemma getparam_from_length: "getparam_from r s = Inr (v, rest) \<Longrightarrow> length rest < length s"
proof (induction r s rule: getparam_from.induct)
  case (1 r s)
  then obtain v1 rest1 where h: "hex2long s = Inr (v1, rest1)"
    by (cases "hex2long s") (auto simp: getparam_from.simps [of r s])
  have l: "length rest1 < length s" using hex2long_length [OF h] .
  show ?case
  proof (cases rest1)
    case Nil
    then show ?thesis using 1(2) h l by (simp add: getparam_from.simps [of r s])
  next
    case (Cons c cs)
    show ?thesis
    proof (cases "c = CHR ''+''")
      case True
      then have "getparam_from (r + v1) cs = Inr (v, rest)"
        using 1(2) h Cons by (simp add: getparam_from.simps [of r s])
      then have "length rest < length cs" using 1(1) [OF h refl Cons True] by simp
      then show ?thesis using l Cons by simp
    next
      case False
      then show ?thesis using 1(2) h l Cons by (simp add: getparam_from.simps [of r s])
    qed
  qed
qed

function dump_loop :: "string \<Rightarrow> (cell list \<times> nat) result" where
  "dump_loop params =
     (if params = [] then Inr ([], 0)
      else case getparam params of
             Inl e \<Rightarrow> Inl e
           | Inr (p, rest) \<Rightarrow>
               bindR (dump_loop (dropWhile isspace rest)) (\<lambda>(ps, num). Inr (p # ps, num + 1)))"
  by pat_completeness auto
termination
  by (relation "measure length")
     (auto simp: getparam_def dest!: getparam_from_length intro: le_less_trans [OF dropWhile_length])

declare dump_loop.simps [simp del]

definition do_dump :: proc where
  "do_dump env fbin params opcode =
     bindR (dump_loop params) (\<lambda>(ps, num).
       Inr (if fbin then ps else [], of_nat num * cell_bytes))"

text \<open>The label number an operand names, with the routine's assertion.\<close>

definition label_index :: "asmenv \<Rightarrow> cell \<Rightarrow> nat result" where
  "label_index env v =
     bindR (assertR (0 \<le> sint v \<and> sint v < int (ae_labnum env))) (\<lambda>_. Inr (unat v))"

definition label_addr :: "asmenv \<Rightarrow> nat \<Rightarrow> cell result" where
  "label_addr env i =
     (case ae_lbltab env of None \<Rightarrow> Inl AssertFail | Some lbl \<Rightarrow> Inr (lbl i))"

definition do_call :: proc where
  "do_call env fbin params opcode =
     (let name = takeWhile (\<lambda>c. \<not> isspace c) params
      in bindR (assertR (dropWhile (\<lambda>c. \<not> isspace c) params \<noteq> [] \<and> length name \<le> sNAMEMAX)) (\<lambda>_.
         bindR (if take 2 name = ''l.''
                then bindR (hex2long (drop 2 name)) (\<lambda>(v, _).
                     bindR (label_index env v) (\<lambda>i.
                       if fbin then label_addr env i else Inr 0))
                else bindR (findglb (ae_syms env) name) (\<lambda>sy.
                       case sy of
                         None \<Rightarrow> Inl AssertFail
                       | Some p \<Rightarrow>
                           bindR (assertR ((sident p = iFUNCTN \<or> sident p = iREFFUNC) \<and> svclass p = sGLOBAL))
                             (\<lambda>_. Inr (saddr p)))) (\<lambda>p.
           Inr (if fbin then [opcode, p] else [], opcodes 1 + opargs 1))))"

definition do_jump :: proc where
  "do_jump env fbin params opcode =
     bindR (hex2long params) (\<lambda>(v, _).
     bindR (label_index env v) (\<lambda>i.
       if fbin then bindR (label_addr env i) (\<lambda>p. Inr ([opcode, p], opcodes 1 + opargs 1))
       else Inr ([], opcodes 1 + opargs 1)))"

definition do_switch :: proc where
  "do_switch env fbin params opcode =
     bindR (hex2long params) (\<lambda>(v, _).
     bindR (label_index env v) (\<lambda>i.
       if fbin then bindR (label_addr env i) (\<lambda>p. Inr ([opcode, p], opcodes 1 + opargs 1))
       else Inr ([], opcodes 1 + opargs 1)))"

definition do_case :: proc where
  "do_case env fbin params opcode =
     bindR (hex2long params) (\<lambda>(v, rest).
     bindR (hex2long rest) (\<lambda>(l, _).
     bindR (label_index env l) (\<lambda>i.
       if fbin then bindR (label_addr env i) (\<lambda>p. Inr ([v, p], opcodes 0 + opargs 2))
       else Inr ([], opcodes 0 + opargs 2))))"

section \<open>The instruction table\<close>

record opcode_entry =
  op_code :: cell
  op_name :: "string option"
  op_seg :: seg
  op_func :: proc

definition entry :: "cell \<Rightarrow> string option \<Rightarrow> seg \<Rightarrow> proc \<Rightarrow> opcode_entry" where
  "entry c n s f = \<lparr>op_code = c, op_name = n, op_seg = s, op_func = f\<rparr>"

definition opcodelist :: "opcode_entry list" where
  "opcodelist =
     [entry 0 None NoSeg noop, entry 78 (Some ''add'') CSEG parm0, entry 87 (Some ''add.c'') CSEG parm1,
      entry 14 (Some ''addr.alt'') CSEG parm1, entry 13 (Some ''addr.pri'') CSEG parm1,
      entry 30 (Some ''align.alt'') CSEG parm1, entry 29 (Some ''align.pri'') CSEG parm1,
      entry 81 (Some ''and'') CSEG parm0, entry 121 (Some ''bounds'') CSEG parm1,
      entry 137 (Some ''break'') CSEG parm0, entry 49 (Some ''call'') CSEG do_call,
      entry 50 (Some ''call.pri'') CSEG parm0, entry 0 (Some ''case'') CSEG do_case,
      entry 130 (Some ''casetbl'') CSEG parm0, entry 118 (Some ''cmps'') CSEG parm1,
      entry 0 (Some ''code'') NoSeg noop, entry 12 (Some ''const.alt'') CSEG parm1,
      entry 11 (Some ''const.pri'') CSEG parm1, entry 0 (Some ''data'') NoSeg noop,
      entry 114 (Some ''dec'') CSEG parm1, entry 113 (Some ''dec.alt'') CSEG parm0,
      entry 116 (Some ''dec.i'') CSEG parm0, entry 112 (Some ''dec.pri'') CSEG parm0,
      entry 115 (Some ''dec.s'') CSEG parm1, entry 0 (Some ''dump'') DSEG do_dump,
      entry 95 (Some ''eq'') CSEG parm0, entry 106 (Some ''eq.c.alt'') CSEG parm1,
      entry 105 (Some ''eq.c.pri'') CSEG parm1, entry 119 (Some ''fill'') CSEG parm1,
      entry 100 (Some ''geq'') CSEG parm0, entry 99 (Some ''grtr'') CSEG parm0,
      entry 120 (Some ''halt'') CSEG parm1, entry 45 (Some ''heap'') CSEG parm1,
      entry 27 (Some ''idxaddr'') CSEG parm0, entry 28 (Some ''idxaddr.b'') CSEG parm1,
      entry 109 (Some ''inc'') CSEG parm1, entry 108 (Some ''inc.alt'') CSEG parm0,
      entry 111 (Some ''inc.i'') CSEG parm0, entry 107 (Some ''inc.pri'') CSEG parm0,
      entry 110 (Some ''inc.s'') CSEG parm1, entry 86 (Some ''invert'') CSEG parm0,
      entry 55 (Some ''jeq'') CSEG do_jump, entry 60 (Some ''jgeq'') CSEG do_jump,
      entry 59 (Some ''jgrtr'') CSEG do_jump, entry 58 (Some ''jleq'') CSEG do_jump,
      entry 57 (Some ''jless'') CSEG do_jump, entry 56 (Some ''jneq'') CSEG do_jump,
      entry 54 (Some ''jnz'') CSEG do_jump, entry 52 (Some ''jrel'') CSEG parm1,
      entry 64 (Some ''jsgeq'') CSEG do_jump, entry 63 (Some ''jsgrtr'') CSEG do_jump,
      entry 62 (Some ''jsleq'') CSEG do_jump, entry 61 (Some ''jsless'') CSEG do_jump,
      entry 51 (Some ''jump'') CSEG do_jump, entry 128 (Some ''jump.pri'') CSEG parm0,
      entry 53 (Some ''jzer'') CSEG do_jump, entry 31 (Some ''lctrl'') CSEG parm1,
      entry 98 (Some ''leq'') CSEG parm0, entry 97 (Some ''less'') CSEG parm0,
      entry 25 (Some ''lidx'') CSEG parm0, entry 26 (Some ''lidx.b'') CSEG parm1,
      entry 2 (Some ''load.alt'') CSEG parm1, entry 9 (Some ''load.i'') CSEG parm0,
      entry 1 (Some ''load.pri'') CSEG parm1, entry 4 (Some ''load.s.alt'') CSEG parm1,
      entry 3 (Some ''load.s.pri'') CSEG parm1, entry 10 (Some ''lodb.i'') CSEG parm1,
      entry 6 (Some ''lref.alt'') CSEG parm1, entry 5 (Some ''lref.pri'') CSEG parm1,
      entry 8 (Some ''lref.s.alt'') CSEG parm1, entry 7 (Some ''lref.s.pri'') CSEG parm1,
      entry 34 (Some ''move.alt'') CSEG parm0, entry 33 (Some ''move.pri'') CSEG parm0,
      entry 117 (Some ''movs'') CSEG parm1, entry 85 (Some ''neg'') CSEG parm0,
      entry 96 (Some ''neq'') CSEG parm0, entry 134 (Some ''nop'') CSEG parm0,
      entry 84 (Some ''not'') CSEG parm0, entry 82 (Some ''or'') CSEG parm0,
      entry 43 (Some ''pop.alt'') CSEG parm0, entry 42 (Some ''pop.pri'') CSEG parm0,
      entry 46 (Some ''proc'') CSEG parm0, entry 40 (Some ''push'') CSEG parm1,
      entry 37 (Some ''push.alt'') CSEG parm0, entry 39 (Some ''push.c'') CSEG parm1,
      entry 36 (Some ''push.pri'') CSEG parm0, entry 38 (Some ''push.r'') CSEG parm1,
      entry 41 (Some ''push.s'') CSEG parm1, entry 133 (Some ''pushaddr'') CSEG parm1,
      entry 47 (Some ''ret'') CSEG parm0, entry 48 (Some ''retn'') CSEG parm0,
      entry 32 (Some ''sctrl'') CSEG parm1, entry 73 (Some ''sdiv'') CSEG parm0,
      entry 74 (Some ''sdiv.alt'') CSEG parm0, entry 104 (Some ''sgeq'') CSEG parm0,
      entry 103 (Some ''sgrtr'') CSEG parm0, entry 65 (Some ''shl'') CSEG parm0,
      entry 69 (Some ''shl.c.alt'') CSEG parm1, entry 68 (Some ''shl.c.pri'') CSEG parm1,
      entry 66 (Some ''shr'') CSEG parm0, entry 71 (Some ''shr.c.alt'') CSEG parm1,
      entry 70 (Some ''shr.c.pri'') CSEG parm1, entry 94 (Some ''sign.alt'') CSEG parm0,
      entry 93 (Some ''sign.pri'') CSEG parm0, entry 102 (Some ''sleq'') CSEG parm0,
      entry 101 (Some ''sless'') CSEG parm0, entry 72 (Some ''smul'') CSEG parm0,
      entry 88 (Some ''smul.c'') CSEG parm1, entry 20 (Some ''sref.alt'') CSEG parm1,
      entry 19 (Some ''sref.pri'') CSEG parm1, entry 22 (Some ''sref.s.alt'') CSEG parm1,
      entry 21 (Some ''sref.s.pri'') CSEG parm1, entry 67 (Some ''sshr'') CSEG parm0,
      entry 44 (Some ''stack'') CSEG parm1, entry 0 (Some ''stksize'') NoSeg noop,
      entry 16 (Some ''stor.alt'') CSEG parm1, entry 23 (Some ''stor.i'') CSEG parm0,
      entry 15 (Some ''stor.pri'') CSEG parm1, entry 18 (Some ''stor.s.alt'') CSEG parm1,
      entry 17 (Some ''stor.s.pri'') CSEG parm1, entry 24 (Some ''strb.i'') CSEG parm1,
      entry 79 (Some ''sub'') CSEG parm0, entry 80 (Some ''sub.alt'') CSEG parm0,
      entry 132 (Some ''swap.alt'') CSEG parm0, entry 131 (Some ''swap.pri'') CSEG parm0,
      entry 129 (Some ''switch'') CSEG do_switch, entry 123 (Some ''sysreq.c'') CSEG parm1,
      entry 135 (Some ''sysreq.d'') CSEG parm1, entry 122 (Some ''sysreq.pri'') CSEG parm0,
      entry 76 (Some ''udiv'') CSEG parm0, entry 77 (Some ''udiv.alt'') CSEG parm0,
      entry 75 (Some ''umul'') CSEG parm0, entry 35 (Some ''xchg'') CSEG parm0,
      entry 83 (Some ''xor'') CSEG parm0, entry 91 (Some ''zero'') CSEG parm1,
      entry 90 (Some ''zero.alt'') CSEG parm0, entry 89 (Some ''zero.pri'') CSEG parm0,
      entry 92 (Some ''zero.s'') CSEG parm1]"

section \<open>\<open>findopcode\<close>\<close>

definition MAX_INSTR_LEN :: nat where "MAX_INSTR_LEN = 30"

text \<open>\<open>stricmp\<close> against an entry's name; entry 0 has none.\<close>

definition cmp_name :: "string \<Rightarrow> nat \<Rightarrow> int result" where
  "cmp_name str i =
     (case op_name (opcodelist ! i) of None \<Rightarrow> Inl AssertFail | Some n \<Rightarrow> Inr (stricmp str n))"

function find_between :: "string \<Rightarrow> nat \<Rightarrow> nat \<Rightarrow> nat result" where
  "find_between str low high =
     (if low < high
      then (let mid = (low + high) div 2
            in bindR (cmp_name str mid) (\<lambda>cmp.
                 if cmp > 0 then find_between str (mid + 1) high else find_between str low mid))
      else bindR (assertR (low = high)) (\<lambda>_. Inr low))"
  by pat_completeness auto
termination by (relation "measure (\<lambda>(_, low, high). high - low)") auto

declare find_between.simps [simp del]

definition findopcode :: "string \<Rightarrow> nat result" where
  "findopcode instr =
     (if length instr \<ge> MAX_INSTR_LEN then Inr 0
      else bindR (find_between instr 1 (length opcodelist - 1)) (\<lambda>low.
           bindR (cmp_name instr low) (\<lambda>cmp. Inr (if cmp = 0 then low else 0))))"

section \<open>The table is in order\<close>

definition opname :: "nat \<Rightarrow> string" where
  "opname i = the (op_name (opcodelist ! i))"

definition ascending :: "string list \<Rightarrow> bool" where
  "ascending ns \<longleftrightarrow> list_all (\<lambda>(a, b). strcmp a b < 0) (zip ns (tl ns))"

lemma ascending_Cons2: "ascending (a # b # ns) \<longleftrightarrow> strcmp a b < 0 \<and> ascending (b # ns)"
  by (simp add: ascending_def)

lemma ascending_sorted: "ascending ns \<Longrightarrow> sorted_wrt (\<lambda>a b. strcmp a b < 0) ns"
proof (induction ns rule: induct_list012)
  case (3 a b ns)
  then have ab: "strcmp a b < 0" and s: "sorted_wrt (\<lambda>a b. strcmp a b < 0) (b # ns)"
    by (simp_all add: ascending_Cons2)
  then show ?case using strcmp_less_trans [OF ab] by auto
qed simp_all

definition table_names :: "string list" where
  "table_names = map (the \<circ> op_name) (tl opcodelist)"

lemma length_opcodelist: "length opcodelist = 138"
  by (simp add: opcodelist_def)

lemma table_names_all: "list_all (\<lambda>e. op_name e \<noteq> None) (tl opcodelist)"
  by (simp add: opcodelist_def entry_def)

lemma table_names_lower: "map (map tolower) table_names = table_names"
  by code_simp

lemma table_names_ascending: "ascending table_names"
  by code_simp

lemma opname_table:
  assumes "0 < i" and "i < length opcodelist"
  shows "op_name (opcodelist ! i) = Some (opname i)" and "opname i = table_names ! (i - 1)"
    and "map tolower (opname i) = opname i"
proof -
  obtain j where j: "i = Suc j" "j < length (tl opcodelist)" using assms by (cases i) auto
  have e: "opcodelist ! i = tl opcodelist ! j" using j by (simp add: nth_tl)
  show "op_name (opcodelist ! i) = Some (opname i)"
    using table_names_all j(2) by (auto simp: opname_def e list_all_length)
  show t: "opname i = table_names ! (i - 1)"
    unfolding opname_def e table_names_def using j by simp
  have "map (map tolower) table_names ! j = table_names ! j" by (simp add: table_names_lower)
  moreover have "j < length table_names" using j by (simp add: table_names_def)
  ultimately show "map tolower (opname i) = opname i" using t j by simp
qed

lemma opname_less:
  assumes "0 < i" and "i < j" and "j < length opcodelist"
  shows "strcmp (opname i) (opname j) < 0"
proof -
  have "length table_names = length opcodelist - 1" by (simp add: table_names_def)
  then show ?thesis
    using assms opname_table(2) [of i] opname_table(2) [of j]
      sorted_wrt_nth_less [OF ascending_sorted [OF table_names_ascending], of "i - 1" "j - 1"] by simp
qed

lemma cmp_name_entry:
  "0 < i \<Longrightarrow> i < length opcodelist \<Longrightarrow> cmp_name str i = Inr (strcmp (map tolower str) (opname i))"
  using opname_table [of i] by (simp add: cmp_name_def stricmp_def)

text \<open>The binary search stops at the first entry that is not below the name.\<close>

lemma find_between_ok:
  assumes "0 < low" and "low \<le> high" and "high < length opcodelist"
  shows "\<exists>r. find_between str low high = Inr r \<and> low \<le> r \<and> r \<le> high
    \<and> (\<forall>i. low \<le> i \<and> i < r \<longrightarrow> strcmp (map tolower str) (opname i) > 0)
    \<and> (r < high \<longrightarrow> strcmp (map tolower str) (opname r) \<le> 0)"
  using assms
proof (induction str low high rule: find_between.induct)
  case (1 str low high)
  let ?k = "map tolower str"
  show ?case
  proof (cases "low < high")
    case False
    have "find_between str low high = Inr low" using False 1(4) by (subst find_between.simps) simp
    then show ?thesis using 1(4) False by auto
  next
    case True
    define mid where "mid = (low + high) div 2"
    have m: "low \<le> mid" "mid < high" using True by (auto simp: mid_def)
    have c: "cmp_name str mid = Inr (strcmp ?k (opname mid))" using m 1(3,5) by (intro cmp_name_entry) auto
    show ?thesis
    proof (cases "strcmp ?k (opname mid) > 0")
      case up: True
      have "0 < mid + 1" "mid + 1 \<le> high" using m by auto
      from 1(1) [OF True mid_def up this 1(5)] obtain r where
        r: "find_between str (mid + 1) high = Inr r" "mid + 1 \<le> r" "r \<le> high"
        "\<And>i. mid + 1 \<le> i \<Longrightarrow> i < r \<Longrightarrow> strcmp ?k (opname i) > 0"
        "r < high \<Longrightarrow> strcmp ?k (opname r) \<le> 0" by blast
      have "strcmp ?k (opname i) > 0" if "low \<le> i" "i < r" for i
      proof (cases "mid < i")
        case False
        have "0 < i" using that 1(3) by simp
        then have "i = mid \<or> strcmp (opname i) (opname mid) < 0"
          using opname_less [of i mid] False m 1(5) by (cases "i = mid") auto
        then show ?thesis
          using up strcmp_less_trans [of "opname i" "opname mid" ?k] strcmp_antisym [of ?k] by auto
      qed (use r(4) that in simp)
      moreover have "find_between str low high = Inr r"
        using r(1) True c up by (simp add: find_between.simps [of str low high] Let_def flip: mid_def)
      ultimately show ?thesis using r m by (intro exI [of _ r]) auto
    next
      case down: False
      have "mid < length opcodelist" using m 1(5) by simp
      from 1(2) [OF True mid_def down 1(3) m(1) this] obtain r where
        r: "find_between str low mid = Inr r" "low \<le> r" "r \<le> mid"
        "\<And>i. low \<le> i \<Longrightarrow> i < r \<Longrightarrow> strcmp ?k (opname i) > 0"
        "r < mid \<Longrightarrow> strcmp ?k (opname r) \<le> 0" by blast
      have "find_between str low high = Inr r"
        using r(1) True c down by (simp add: find_between.simps [of str low high] Let_def flip: mid_def)
      moreover have "strcmp ?k (opname r) \<le> 0" using r(3,5) down by (cases "r = mid") auto
      ultimately show ?thesis using r m by (intro exI [of _ r]) auto
    qed
  qed
qed

lemma findopcode_total: "\<exists>i. findopcode str = Inr i \<and> i < length opcodelist"
  using find_between_ok [of 1 "length opcodelist - 1" str]
  by (auto simp: findopcode_def length_opcodelist cmp_name_entry)

lemma findopcode_iff:
  assumes "0 < i" and "i < length opcodelist"
  shows "findopcode str = Inr i \<longleftrightarrow> length str < MAX_INSTR_LEN \<and> map tolower str = opname i"
proof (cases "length str < MAX_INSTR_LEN")
  case True
  let ?k = "map tolower str"
  obtain r where r: "find_between str 1 (length opcodelist - 1) = Inr r" "1 \<le> r" "r \<le> length opcodelist - 1"
    "\<And>i. 1 \<le> i \<Longrightarrow> i < r \<Longrightarrow> strcmp ?k (opname i) > 0"
    "r < length opcodelist - 1 \<Longrightarrow> strcmp ?k (opname r) \<le> 0"
    using find_between_ok [of 1 "length opcodelist - 1" str] by (auto simp: length_opcodelist)
  have f: "findopcode str = Inr (if ?k = opname r then r else 0)"
    using True r by (auto simp: findopcode_def cmp_name_entry length_opcodelist)
  have "r = i" if "?k = opname i"
  proof (rule ccontr)
    assume "r \<noteq> i"
    then consider "i < r" | "r < i" by linarith
    then show False
    proof cases
      case 1
      then show False using r(4) [of i] assms that by simp
    next
      case 2
      then have "strcmp ?k (opname r) \<le> 0" using r(5) assms by simp
      moreover have "strcmp (opname r) (opname i) < 0" using opname_less [of r i] 2 r(2) assms by simp
      ultimately have "strcmp ?k (opname i) < 0" by (rule strcmp_le_less_trans)
      then show False using that by simp
    qed
  qed
  then show ?thesis using f True assms by auto
qed (use assms in \<open>simp add: findopcode_def\<close>)

section \<open>Reading a line\<close>

text \<open>What \<open>assemble\<close> makes of a line in both kinds of passes: nothing, a label, or an
  instruction with its operands.\<close>

datatype asm_line = EmptyLine | LabelLine string | InstrLine string string

definition scan_line :: "string \<Rightarrow> asm_line" where
  "scan_line line =
     (let instr = skipwhitespace (stripcomment line)
      in if instr = [] then EmptyLine
         else if tolower (hd instr) = CHR ''l'' \<and> take 1 (tl instr) = ''.'' then LabelLine (drop 2 instr)
         else InstrLine (takeWhile (\<lambda>c. \<not> isspace c) instr)
                (skipwhitespace (dropWhile (\<lambda>c. \<not> isspace c) instr)))"

section \<open>The first pass: label addresses\<close>

type_synonym pass1 = "cell \<times> (nat \<Rightarrow> cell)"

definition relocate_line :: "asmenv \<Rightarrow> string \<Rightarrow> pass1 \<Rightarrow> pass1 result" where
  "relocate_line env line st =
     (case scan_line line of
        EmptyLine \<Rightarrow> Inr st
      | LabelLine num \<Rightarrow>
          bindR (hex2long num) (\<lambda>(v, _).
          bindR (label_index env v) (\<lambda>i. Inr (fst st, (snd st)(i := fst st))))
      | InstrLine instr params \<Rightarrow>
          bindR (assertR (instr \<noteq> [])) (\<lambda>_.
          bindR (findopcode instr) (\<lambda>i.
            let e = opcodelist ! i
            in if op_name e = None then Inl (Fatal 104)
               else if op_seg e = CSEG
               then bindR (op_func e (env\<lparr>ae_lbltab := None\<rparr>) False params (op_code e)) (\<lambda>(_, n).
                      Inr (fst st + n, snd st))
               else Inr st)))"

definition relocate :: "asmenv \<Rightarrow> string list \<Rightarrow> pass1 \<Rightarrow> pass1 result" where
  "relocate env lines = block (map (relocate_line env) lines)"

section \<open>The writing passes\<close>

definition write_line :: "asmenv \<Rightarrow> seg \<Rightarrow> string \<Rightarrow> binfile \<Rightarrow> binfile result" where
  "write_line env pass line fb =
     (case scan_line line of
        EmptyLine \<Rightarrow> Inr fb
      | LabelLine num \<Rightarrow> Inr fb
      | InstrLine instr params \<Rightarrow>
          bindR (assertR (instr \<noteq> [])) (\<lambda>_.
          bindR (findopcode instr) (\<lambda>i.
            let e = opcodelist ! i
            in bindR (assertR (op_name e \<noteq> None)) (\<lambda>_.
                 if op_seg e = pass
                 then bindR (op_func e env True params (op_code e)) (\<lambda>(cs, _). write_encoded cs fb)
                 else Inr fb))))"

text \<open>The label table is uninitialised memory (\<open>garbage\<close>) until the first pass has met each
  label; without labels there is no first pass and no table.\<close>

definition write_segments :: "(nat \<Rightarrow> cell) \<Rightarrow> nat \<Rightarrow> symtabs \<Rightarrow> string list \<Rightarrow> binfile \<Rightarrow> binfile result" where
  "write_segments garbage labnum syms lines fb =
     (let env = \<lparr>ae_labnum = labnum, ae_lbltab = None, ae_syms = syms\<lparr>fcurrent := -1\<rparr>\<rparr>
      in bindR (if labnum > 0
                then bindR (relocate env lines (0, garbage)) (\<lambda>(_, lbl). Inr (env\<lparr>ae_lbltab := Some lbl\<rparr>))
                else Inr env) (\<lambda>env2.
         bindR (block (map (write_line env2 CSEG) lines) (fb\<lparr>bytes_in := 0, bytes_out := 0\<rparr>)) (\<lambda>fb1.
         bindR (block (map (write_line env2 DSEG) lines) fb1) (\<lambda>fb2.
           if bytes_out fb2 - bytes_in fb2 > 0 then Inl (Fatal 106) else Inr fb2))))"

text \<open>When compact encoding fails the assembly is restarted without it.\<close>

definition write_program :: "(nat \<Rightarrow> cell) \<Rightarrow> nat \<Rightarrow> symtabs \<Rightarrow> string list \<Rightarrow> binfile \<Rightarrow> binfile result" where
  "write_program garbage labnum syms lines fb =
     (case write_segments garbage labnum syms lines fb of
        Inl CompactErr \<Rightarrow>
          bindR (assertR (sc_compress fb)) (\<lambda>_.
            write_segments garbage labnum syms lines (fb\<lparr>sc_compress := False\<rparr>))
      | r \<Rightarrow> r)"

section \<open>Both passes count the same bytes\<close>

text \<open>The routines of code instructions.\<close>

definition code_procs :: "proc set" where
  "code_procs = {parm0, parm1, do_call, do_jump, do_switch, do_case}"

lemma opcodelist_procs: "\<forall>e \<in> set opcodelist. op_seg e = CSEG \<longrightarrow> op_func e \<in> code_procs"
  by (simp add: opcodelist_def entry_def code_procs_def)

lemma code_proc_size:
  assumes "f \<in> code_procs" and "f (env\<lparr>ae_lbltab := l\<rparr>) False params c = Inr (x, n)"
    and "f (env\<lparr>ae_lbltab := l'\<rparr>) True params c = Inr (cs, m)"
  shows "n = of_nat (4 * length cs)"
  using assms unfolding code_procs_def
  by (auto simp: parm0_def parm1_def do_call_def do_jump_def do_switch_def do_case_def opcodes_def opargs_def
      bindR_Inr_iff Let_def split: prod.splits if_splits)

lemma write_encoded_plain:
  "write_encoded cs fb = Inr fb' \<Longrightarrow> \<not> sc_compress fb \<Longrightarrow>
   bin_out fb' = bin_out fb @ concat (map cell_bytes_le cs) \<and> \<not> sc_compress fb'"
proof (induction cs arbitrary: fb)
  case (Cons c cs)
  then obtain fb1 where w: "write_cell c fb = Inr fb1" "write_encoded cs fb1 = Inr fb'"
    by (auto simp: write_encoded_def)
  then have "bin_out fb1 = bin_out fb @ cell_bytes_le c" "\<not> sc_compress fb1"
    using Cons.prems(2) by (auto simp: write_cell_def bindR_Inr_iff)
  with Cons.IH [OF w(2)] show ?case by simp
qed (simp add: write_encoded_def)

lemma length_cells_le: "length (concat (map cell_bytes_le cs)) = 4 * length cs"
  by (induction cs) (simp_all add: cell_bytes_le_def)

lemma write_line_size:
  assumes r: "relocate_line env line (ci, lbl) = Inr (ci', lbl')"
    and w: "write_line (env\<lparr>ae_lbltab := l\<rparr>) CSEG line fb = Inr fb'" and p: "\<not> sc_compress fb"
  shows "\<not> sc_compress fb' \<and> (\<exists>bs. bin_out fb' = bin_out fb @ bs \<and> ci' = ci + of_nat (length bs))"
proof (cases "scan_line line")
  case EmptyLine
  then show ?thesis using assms by (simp add: relocate_line_def write_line_def)
next
  case (LabelLine num)
  then show ?thesis using assms by (auto simp: relocate_line_def write_line_def bindR_Inr_iff)
next
  case (InstrLine instr params)
  obtain i where i: "findopcode instr = Inr i" "i < length opcodelist" using findopcode_total by blast
  define e where "e = opcodelist ! i"
  have e: "e \<in> set opcodelist" using i by (simp add: e_def)
  have nz: "instr \<noteq> []" "op_name e \<noteq> None"
    using r i InstrLine by (auto simp: relocate_line_def bindR_Inr_iff Let_def e_def split: if_splits)
  show ?thesis
  proof (cases "op_seg e = CSEG")
    case False
    then show ?thesis using assms i InstrLine nz
      by (auto simp: relocate_line_def write_line_def bindR_Inr_iff Let_def e_def split: if_splits)
  next
    case True
    obtain x n where f1: "op_func e (env\<lparr>ae_lbltab := None\<rparr>) False params (op_code e) = Inr (x, n)" "ci' = ci + n"
      using r i InstrLine nz True by (auto simp: relocate_line_def bindR_Inr_iff Let_def e_def)
    obtain cs m where f2: "op_func e (env\<lparr>ae_lbltab := l\<rparr>) True params (op_code e) = Inr (cs, m)"
      "write_encoded cs fb = Inr fb'"
      using w i InstrLine nz True by (auto simp: write_line_def bindR_Inr_iff Let_def e_def)
    have "n = of_nat (4 * length cs)"
      using code_proc_size [where f = "op_func e" and env = env and l = None and l' = l, OF _ f1(1) f2(1)]
        opcodelist_procs e True by blast
    then show ?thesis
      using write_encoded_plain [OF f2(2) p] f1(2) by (auto simp: length_cells_le)
  qed
qed

lemma write_lines_size:
  "relocate env lines (ci, lbl) = Inr (ci', lbl') \<Longrightarrow>
   block (map (write_line (env\<lparr>ae_lbltab := l\<rparr>) CSEG) lines) fb = Inr fb' \<Longrightarrow> \<not> sc_compress fb \<Longrightarrow>
   \<not> sc_compress fb' \<and> (\<exists>bs. bin_out fb' = bin_out fb @ bs \<and> ci' = ci + of_nat (length bs))"
proof (induction lines arbitrary: ci lbl fb)
  case (Cons line lines)
  obtain st where st: "relocate_line env line (ci, lbl) = Inr st" "relocate env lines st = Inr (ci', lbl')"
    using Cons.prems(1) by (auto simp: relocate_def)
  obtain ci1 lbl1 where c1: "st = (ci1, lbl1)" by (cases st)
  obtain fb1 where fb1: "write_line (env\<lparr>ae_lbltab := l\<rparr>) CSEG line fb = Inr fb1"
    "block (map (write_line (env\<lparr>ae_lbltab := l\<rparr>) CSEG) lines) fb1 = Inr fb'" using Cons.prems(2) by auto
  obtain bs where bs: "\<not> sc_compress fb1" "bin_out fb1 = bin_out fb @ bs" "ci1 = ci + of_nat (length bs)"
    using write_line_size [OF st(1) [unfolded c1] fb1(1) Cons.prems(3)] by blast
  obtain bs' where bs': "\<not> sc_compress fb'" "bin_out fb' = bin_out fb1 @ bs'" "ci' = ci1 + of_nat (length bs')"
    using Cons.IH [OF st(2) [unfolded c1] fb1(2) bs(1)] by blast
  show ?case using bs bs' by (auto simp: add.assoc)
qed (simp add: relocate_def)

section \<open>Properties\<close>

text \<open>C27 (\<open>findopcode\<close>): the binary search over the instruction table ends for every text, inside
  the table and without an assertion failing; it returns entry \<open>j\<close> exactly when the text has
  fewer than \<open>MAX_INSTR_LEN\<close> characters and equals that entry's name up to case, so the table is
  in order, its names are distinct, and no other text is taken for an instruction.\<close>
theorem findopcode_exact:
  "\<exists>i. findopcode str = Inr i \<and> i < length opcodelist
    \<and> (\<forall>j n. 0 < j \<and> op_name (opcodelist ! j) = Some n \<and> j < length opcodelist \<longrightarrow>
         (i = j \<longleftrightarrow> length str < MAX_INSTR_LEN \<and> stricmp str n = 0))"
proof -
  obtain i where i: "findopcode str = Inr i" "i < length opcodelist" using findopcode_total by blast
  have "i = j \<longleftrightarrow> length str < MAX_INSTR_LEN \<and> stricmp str n = 0"
    if "0 < j" "op_name (opcodelist ! j) = Some n" "j < length opcodelist" for j n
    using findopcode_iff [OF that(1,3), of str] opname_table [OF that(1,3)] that(2) i(1)
    by (auto simp: stricmp_def)
  then show ?thesis using i by blast
qed

theorem findopcode_exact_witness: "findopcode ''Push.C'' = Inr 84 \<and> op_name (opcodelist ! 84) = Some ''push.c''"
proof -
  have n: "op_name (opcodelist ! 84) = Some ''push.c''" by (simp add: opcodelist_def entry_def)
  have "stricmp ''Push.C'' ''push.c'' = 0" by code_simp
  then show ?thesis
    using findopcode_exact [of "''Push.C''"] n by (force simp: length_opcodelist MAX_INSTR_LEN_def)
qed

text \<open>C14 (the passes of \<open>assemble\<close>): take the lines up to any point of the program. If the
  first pass has counted \<open>ci\<close> code bytes there, then the writing pass, whatever the label table
  it runs with, has by then written exactly \<open>ci\<close> bytes (counted modulo \<open>2^32\<close>) of uncompressed
  code: every label address the first pass records is the offset of the code that follows the
  label in the file.\<close>
theorem first_pass_counts_written_bytes:
  assumes "relocate env lines (0, lbl) = Inr (ci, lbl')"
    and "block (map (write_line (env\<lparr>ae_lbltab := l\<rparr>) CSEG) lines) fb = Inr fb'" and "\<not> sc_compress fb"
  shows "\<exists>bs. bin_out fb' = bin_out fb @ bs \<and> ci = of_nat (length bs)"
  using write_lines_size [OF assms] by auto

theorem first_pass_counts_written_bytes_witness:
  "\<exists>bs fb'. block (map (write_line \<lparr>ae_labnum = 0, ae_lbltab = Some (\<lambda>_. 0), ae_syms = \<lparr>glbtab = [], loctab = [], fcurrent = -1, next_id = 0\<rparr>\<rparr> CSEG)
      [tab @ ''push.c 2a'' @ nl, tab @ ''proc'' @ nl]) \<lparr>bin_out = [], bytes_in = 0, bytes_out = 0, sc_compress = False\<rparr> = Inr fb'
    \<and> bin_out fb' = bs \<and> (12 :: cell) = of_nat (length bs)"
proof -
  let ?syms = "\<lparr>glbtab = [], loctab = [], fcurrent = -1, next_id = 0\<rparr>"
  let ?env = "\<lparr>ae_labnum = 0, ae_lbltab = None, ae_syms = ?syms\<rparr>"
  let ?lines = "[tab @ ''push.c 2a'' @ nl, tab @ ''proc'' @ nl]"
  have "case relocate ?env ?lines (0, \<lambda>_. 0) of Inl _ \<Rightarrow> False | Inr x \<Rightarrow> fst x = 12" by code_simp
  then obtain l where r: "relocate ?env ?lines (0, \<lambda>_. 0) = Inr (12, l)" by (auto split: sum.splits)
  have "case block (map (write_line (?env\<lparr>ae_lbltab := Some (\<lambda>_. 0)\<rparr>) CSEG) ?lines)
      \<lparr>bin_out = [], bytes_in = 0, bytes_out = 0, sc_compress = False\<rparr> of Inl _ \<Rightarrow> False | Inr x \<Rightarrow> True" by code_simp
  then obtain fb' where w: "block (map (write_line (?env\<lparr>ae_lbltab := Some (\<lambda>_. 0)\<rparr>) CSEG) ?lines)
      \<lparr>bin_out = [], bytes_in = 0, bytes_out = 0, sc_compress = False\<rparr> = Inr fb'" by (auto split: sum.splits)
  show ?thesis using first_pass_counts_written_bytes [OF r w] w by fastforce
qed

end
