(* ===== verification/ScGen.thy ===== *)
theory ScGen
  imports ScEmit ScAsm
begin

text \<open>
  The code generator against the assembler. The compiler counts code bytes in \<open>code_idx\<close> while
  it writes assembler text; the assembler counts them again when it relocates labels. This
  theory proves that they agree: \<open>emits\<close> describes what a routine of sc4.c adds to the text and
  to the count, \<open>asm_ok\<close> the texts for which the assembler's first pass advances by a given
  count, \<open>gen_step\<close> is the step relation of calls to the code generator, and the simulation
  lemma runs the first pass beside it.
\<close>

section \<open>What a routine adds\<close>

type_synonym emission = "(string \<times> cell) set"

definition same_flags :: "cstate \<Rightarrow> cstate \<Rightarrow> bool" where
  "same_flags s t \<longleftrightarrow> sc_status t = sc_status s \<and> staging t = staging s \<and> sc_asmfile t = sc_asmfile s
     \<and> sc_debug t = sc_debug s \<and> tagname_tab t = tagname_tab s \<and> sc_ctrlchar t = sc_ctrlchar s"

lemma same_flags_trans: "same_flags s t \<Longrightarrow> same_flags t u \<Longrightarrow> same_flags s u"
  by (simp add: same_flags_def)

text \<open>Text that can stand in a line.\<close>

definition line_text :: "string \<Rightarrow> bool" where
  "line_text x \<longleftrightarrow> NL \<notin> set x \<and> NUL \<notin> set x"

definition ready :: "cstate \<Rightarrow> bool" where
  "ready s \<longleftrightarrow> stg_ok s \<and> sc_status s = StatWRITE \<and> (\<forall>p \<in> set (tagname_tab s). line_text (cname p))"

definition emits :: "act \<Rightarrow> emission \<Rightarrow> bool" where
  "emits a out \<longleftrightarrow> (\<forall>s t. ready s \<longrightarrow> a s = Inr t \<longrightarrow> ready t \<and> same_flags s t
     \<and> (\<exists>tx n. (tx, n) \<in> out \<and> text_of t = text_of s @ tx \<and> code_idx t = code_idx s + n))"

definition then_out :: "emission \<Rightarrow> emission \<Rightarrow> emission" where
  "then_out A B = {(x @ y, m + n) | x y m n. (x, m) \<in> A \<and> (y, n) \<in> B}"

lemma then_out_single [simp]: "then_out {(x, m)} {(y, n)} = {(x @ y, m + n)}"
  by (auto simp: then_out_def)

lemma then_out_insert: "(x, m) \<in> A \<Longrightarrow> (y, n) \<in> B \<Longrightarrow> (x @ y, m + n) \<in> then_out A B"
  by (auto simp: then_out_def)

lemma emitsE:
  assumes "emits a out" and "ready s" and "a s = Inr t"
  obtains tx n where "ready t" and "same_flags s t" and "(tx, n) \<in> out"
    and "text_of t = text_of s @ tx" and "code_idx t = code_idx s + n"
  using assms unfolding emits_def by blast

lemma emits_mono: "emits a A \<Longrightarrow> A \<subseteq> B \<Longrightarrow> emits a B"
  unfolding emits_def by blast

lemma emits_stgwrite [emit_simps]: "NUL \<notin> set st \<Longrightarrow> emits (stgwrite st) {(st, 0)}"
  unfolding emits_def ready_def same_flags_def
  using stgwrite_ok same_globals_fields by fastforce

lemma emits_add [emit_simps]: "emits (add_code_idx n) {([], n)}"
  by (simp add: emits_def ready_def same_flags_def add_code_idx_def stg_ok_def text_of_def staged_def cbuf_def)

lemma emits_skip [emit_simps]: "emits Inr {([], 0)}"
  by (simp add: emits_def ready_def same_flags_def)

lemma emits_fail [emit_simps]: "emits (\<lambda>s. Inl e) A"
  by (simp add: emits_def)

lemma emits_assert [emit_simps]: "emits (assertA b) {([], 0)}"
  by (auto simp: emits_def assertA_def bindR_Inr_iff same_flags_def)

lemma emits_nil [emit_simps]: "emits (block []) {([], 0)}"
  by (simp add: emits_def ready_def same_flags_def)

lemma emits_bind:
  assumes a: "emits a A" and f: "emits b B"
  shows "emits (\<lambda>s. bindR (a s) b) (then_out A B)"
  unfolding emits_def
proof (intro allI impI)
  fix s u assume r: "ready s" and run: "bindR (a s) b = Inr u"
  obtain t where t: "a s = Inr t" "b t = Inr u" using run by (rule bindR_InrE)
  obtain x m where x: "ready t" "same_flags s t" "(x, m) \<in> A" "text_of t = text_of s @ x" "code_idx t = code_idx s + m"
    using emitsE [OF a r t(1)] .
  obtain y n where y: "ready u" "same_flags t u" "(y, n) \<in> B" "text_of u = text_of t @ y" "code_idx u = code_idx t + n"
    using emitsE [OF f x(1) t(2)] .
  have "(x @ y, m + n) \<in> then_out A B" using x(3) y(3) by (rule then_out_insert)
  moreover have "text_of u = text_of s @ (x @ y)" unfolding y(4) x(4) by (rule append_assoc)
  moreover have "code_idx u = code_idx s + (m + n)" unfolding y(5) x(5) by (rule add.assoc)
  moreover note y(1) same_flags_trans [OF x(2) y(2)]
  ultimately show "ready u \<and> same_flags s u \<and> (\<exists>tx k. (tx, k) \<in> then_out A B \<and> text_of u = text_of s @ tx
      \<and> code_idx u = code_idx s + k)" by blast
qed

lemma emits_block [emit_simps]:
  assumes "emits a A" and "emits (block as) B"
  shows "emits (block (a # as)) (then_out A B)"
  using emits_bind [OF assms] by (simp add: emits_def)

lemma emits_if: "(b \<Longrightarrow> emits a A) \<Longrightarrow> (\<not> b \<Longrightarrow> emits c A) \<Longrightarrow> emits (if b then a else c) A"
  by simp

lemma emits_if_state:
  assumes "emits a A" and "emits c A"
  shows "emits (\<lambda>s. if b s then a s else c s) A"
  unfolding emits_def
proof (intro allI impI)
  fix s t assume r: "ready s" and run: "(if b s then a s else c s) = Inr t"
  show "ready t \<and> same_flags s t \<and> (\<exists>tx n. (tx, n) \<in> A \<and> text_of t = text_of s @ tx \<and> code_idx t = code_idx s + n)"
  proof (cases "b s")
    case True
    then have "a s = Inr t" using run by simp
    from emitsE [OF assms(1) r this] show ?thesis by blast
  next
    case False
    then have "c s = Inr t" using run by simp
    from emitsE [OF assms(2) r this] show ?thesis by blast
  qed
qed

text \<open>An action whose argument is read from the state.\<close>

lemma emits_reads: "(\<And>v. emits (a v) A) \<Longrightarrow> emits (\<lambda>s. a (f s) s) A"
  unfolding emits_def by blast

lemma emits_outval:
  "emits (outval v True) {(itoh v @ nl, 0)}" "emits (outval v False) {(itoh v, 0)}"
proof -
  have n: "NUL \<notin> set (itoh v)" by (rule itoh_no_char) (simp_all add: isdigit_def code_of_def)
  have w: "emits (stgwrite (itoh v)) {(itoh v, 0)}" by (rule emits_stgwrite [OF n])
  show "emits (outval v True) {(itoh v @ nl, 0)}"
    using emits_block [OF w emits_block [OF emits_stgwrite [of nl] emits_nil]]
    by (simp add: outval_def whenA_def)
  show "emits (outval v False) {(itoh v, 0)}"
    using emits_block [OF w emits_block [OF emits_skip emits_nil]]
    by (simp add: outval_def whenA_def)
qed

section \<open>What the assembler's first pass makes of it\<close>

definition asm_ok :: "asmenv \<Rightarrow> emission" where
  "asm_ok env = {(tx, n). \<exists>ls. (\<forall>l \<in> set ls. NL \<notin> set l \<and> NUL \<notin> set l)
     \<and> tx = concat (map (\<lambda>l. l @ nl) ls)
     \<and> (\<forall>ci lbl. relocate env (map (\<lambda>l. l @ nl) ls) (ci, lbl) = Inr (ci + n, lbl))}"

lemma asm_ok_nil: "([], 0) \<in> asm_ok env"
  by (auto simp: asm_ok_def relocate_def intro: exI [of _ "[]"])

lemma asm_ok_append:
  assumes "(x, m) \<in> asm_ok env" and "(y, n) \<in> asm_ok env"
  shows "(x @ y, m + n) \<in> asm_ok env"
proof -
  obtain ls where ls: "\<forall>l \<in> set ls. NL \<notin> set l \<and> NUL \<notin> set l" "x = concat (map (\<lambda>l. l @ nl) ls)"
    "\<And>ci lbl. relocate env (map (\<lambda>l. l @ nl) ls) (ci, lbl) = Inr (ci + m, lbl)"
    using assms(1) by (auto simp: asm_ok_def)
  obtain ks where ks: "\<forall>l \<in> set ks. NL \<notin> set l \<and> NUL \<notin> set l" "y = concat (map (\<lambda>l. l @ nl) ks)"
    "\<And>ci lbl. relocate env (map (\<lambda>l. l @ nl) ks) (ci, lbl) = Inr (ci + n, lbl)"
    using assms(2) by (auto simp: asm_ok_def)
  show ?thesis
    unfolding asm_ok_def
    using ls(1,2) ks(1,2) ls(3) [unfolded relocate_def] ks(3) [unfolded relocate_def]
    by (auto simp: relocate_def block_append intro!: exI [of _ "ls @ ks"])
qed

lemma asm_ok_then_out: "A \<subseteq> asm_ok env \<Longrightarrow> B \<subseteq> asm_ok env \<Longrightarrow> then_out A B \<subseteq> asm_ok env"
  by (auto simp: then_out_def intro: asm_ok_append)

lemma asm_ok_line:
  assumes "NL \<notin> set l" and "NUL \<notin> set l"
    and "\<And>ci lbl. relocate_line env (l @ nl) (ci, lbl) = Inr (ci + n, lbl)"
  shows "(l @ nl, n) \<in> asm_ok env"
  using assms by (auto simp: asm_ok_def relocate_def intro!: exI [of _ "[l]"])

text \<open>A line with an instruction name: what follows the name up to a comment is its operand.\<close>

definition plain_name :: "string \<Rightarrow> bool" where
  "plain_name n \<longleftrightarrow> n \<noteq> [] \<and> length n < MAX_INSTR_LEN \<and> list_all (\<lambda>c. \<not> isspace c \<and> c \<noteq> CHR '';'' \<and> c \<noteq> NUL) n
     \<and> \<not> (tolower (hd n) = CHR ''l'' \<and> take 1 (tl n) = ''.'')"

definition operand :: "string \<Rightarrow> string" where
  "operand r = skipwhitespace (stripcomment (r @ nl))"

lemma table_names_plain: "list_all plain_name table_names"
  by code_simp

lemma entry_plain:
  assumes "entry c (Some n) sg f \<in> set (tl opcodelist)"
  shows "plain_name n"
proof -
  have "n \<in> set table_names" using assms by (force simp: table_names_def entry_def)
  then show ?thesis using table_names_plain by (simp add: list_all_iff)
qed

lemma findopcode_entry:
  assumes e: "entry c (Some n) sg f \<in> set (tl opcodelist)"
  shows "\<exists>i. findopcode n = Inr i \<and> opcodelist ! i = entry c (Some n) sg f"
proof -
  obtain j where j: "j < length (tl opcodelist)" "tl opcodelist ! j = entry c (Some n) sg f"
    using e by (auto simp: in_set_conv_nth)
  then have i: "0 < Suc j" "Suc j < length opcodelist" and o: "opcodelist ! Suc j = entry c (Some n) sg f"
    by (auto simp: nth_tl)
  have n: "opname (Suc j) = n" by (simp add: opname_def o entry_def)
  have "findopcode n = Inr (Suc j)"
    using findopcode_iff [OF i, of n] opname_table(3) [OF i] entry_plain [OF e] by (simp add: n plain_name_def)
  then show ?thesis using o by blast
qed

lemma stripcomment_prefix:
  "CHR '';'' \<notin> set p \<Longrightarrow> stripcomment (p @ r) = p @ stripcomment r"
  by (induction p) (auto simp: stripcomment_def)

lemma stripcomment_blank_hd: "r = [] \<or> isspace (hd r) \<Longrightarrow> \<exists>c cs. stripcomment (r @ nl) = c # cs \<and> isspace c"
  by (cases r) (auto simp: stripcomment_def isspace_def code_of_def)

lemma scan_instr:
  assumes n: "plain_name n" and r: "r = [] \<or> isspace (hd r)"
  shows "scan_line (TAB # n @ r @ nl) = InstrLine n (operand r)"
proof -
  obtain c cs where c: "stripcomment (r @ nl) = c # cs" "isspace c" using stripcomment_blank_hd [OF r] by auto
  have sn: "CHR '';'' \<notin> set (TAB # n)" and na: "list_all (\<lambda>c. \<not> isspace c) n"
    using n by (auto simp: plain_name_def list_all_iff)
  obtain a as where a: "n = a # as" "\<not> isspace a" using n by (cases n) (auto simp: plain_name_def)
  have s: "stripcomment (TAB # n @ r @ nl) = TAB # n @ c # cs"
    using stripcomment_prefix [OF sn, of "r @ nl"] c by simp
  have "isspace TAB" by (simp add: isspace_def code_of_def)
  then have k: "skipwhitespace (TAB # n @ c # cs) = n @ c # cs" using a by (simp add: skipwhitespace_def)
  have t: "takeWhile (\<lambda>c. \<not> isspace c) (n @ c # cs) = n" "dropWhile (\<lambda>c. \<not> isspace c) (n @ c # cs) = c # cs"
    using na c(2) by simp_all
  have lab: "\<not> (tolower (hd (n @ c # cs)) = CHR ''l'' \<and> take 1 (tl (n @ c # cs)) = ''.'')"
  proof (cases as)
    case Nil
    have "\<not> isspace CHR ''.''" by (simp add: isspace_def code_of_def)
    then show ?thesis using Nil a c(2) by auto
  next
    case (Cons b bs)
    then show ?thesis using n a by (simp add: plain_name_def)
  qed
  show ?thesis
    unfolding scan_line_def s k Let_def t operand_def c using lab a by (simp del: One_nat_def)
qed

lemma asm_ok_instr:
  assumes e: "entry c (Some n) CSEG f \<in> set (tl opcodelist)" and r: "r = [] \<or> isspace (hd r)"
    and nl: "NL \<notin> set r" "NUL \<notin> set r"
    and run: "\<exists>cs. f (env\<lparr>ae_lbltab := None\<rparr>) False (operand r) c = Inr (cs, k)"
  shows "(TAB # n @ r @ nl, k) \<in> asm_ok env"
proof -
  have p: "plain_name n" using entry_plain [OF e] .
  obtain i where i: "findopcode n = Inr i" "opcodelist ! i = entry c (Some n) CSEG f"
    using findopcode_entry [OF e] by auto
  have "isspace NL" by (simp add: isspace_def code_of_def)
  then have "NL \<notin> set n" "NUL \<notin> set n" "n \<noteq> []"
    using p by (auto simp: plain_name_def list_all_iff)
  have "((TAB # n @ r) @ nl, k) \<in> asm_ok env"
  proof (rule asm_ok_line)
    show "NL \<notin> set (TAB # n @ r)" using \<open>NL \<notin> set n\<close> nl by simp
    show "NUL \<notin> set (TAB # n @ r)" using \<open>NUL \<notin> set n\<close> nl by simp
    show "relocate_line env ((TAB # n @ r) @ nl) (ci, lbl) = Inr (ci + k, lbl)" for ci lbl
      using scan_instr [OF p r] i \<open>n \<noteq> []\<close> run by (auto simp: relocate_line_def entry_def)
  qed
  then show ?thesis by simp
qed

section \<open>The instructions by operand kind\<close>

definition parm0_names :: "string list" where
  "parm0_names =
    [''add'', ''and'', ''break'', ''call.pri'', ''casetbl'', ''dec.alt'', ''dec.i'', ''dec.pri'',
     ''eq'', ''geq'', ''grtr'', ''idxaddr'', ''inc.alt'', ''inc.i'', ''inc.pri'', ''invert'',
     ''jump.pri'', ''leq'', ''less'', ''lidx'', ''load.i'', ''move.alt'', ''move.pri'', ''neg'',
     ''neq'', ''nop'', ''not'', ''or'', ''pop.alt'', ''pop.pri'', ''proc'', ''push.alt'',
     ''push.pri'', ''ret'', ''retn'', ''sdiv'', ''sdiv.alt'', ''sgeq'', ''sgrtr'', ''shl'',
     ''shr'', ''sign.alt'', ''sign.pri'', ''sleq'', ''sless'', ''smul'', ''sshr'', ''stor.i'',
     ''sub'', ''sub.alt'', ''swap.alt'', ''swap.pri'', ''sysreq.pri'', ''udiv'', ''udiv.alt'',
     ''umul'', ''xchg'', ''xor'', ''zero.alt'', ''zero.pri'']"

definition parm1_names :: "string list" where
  "parm1_names =
    [''add.c'', ''addr.alt'', ''addr.pri'', ''align.alt'', ''align.pri'', ''bounds'', ''cmps'',
     ''const.alt'', ''const.pri'', ''dec'', ''dec.s'', ''eq.c.alt'', ''eq.c.pri'', ''fill'',
     ''halt'', ''heap'', ''idxaddr.b'', ''inc'', ''inc.s'', ''jrel'', ''lctrl'', ''lidx.b'',
     ''load.alt'', ''load.pri'', ''load.s.alt'', ''load.s.pri'', ''lodb.i'', ''lref.alt'',
     ''lref.pri'', ''lref.s.alt'', ''lref.s.pri'', ''movs'', ''push'', ''push.c'', ''push.r'',
     ''push.s'', ''pushaddr'', ''sctrl'', ''shl.c.alt'', ''shl.c.pri'', ''shr.c.alt'',
     ''shr.c.pri'', ''smul.c'', ''sref.alt'', ''sref.pri'', ''sref.s.alt'', ''sref.s.pri'',
     ''stack'', ''stor.alt'', ''stor.pri'', ''stor.s.alt'', ''stor.s.pri'', ''strb.i'',
     ''sysreq.c'', ''sysreq.d'', ''zero'', ''zero.s'']"

definition jump_names :: "string list" where
  "jump_names =
    [''jeq'', ''jgeq'', ''jgrtr'', ''jleq'', ''jless'', ''jneq'', ''jnz'', ''jsgeq'', ''jsgrtr'',
     ''jsleq'', ''jsless'', ''jump'', ''jzer'']"

lemma parm0_entry: "n \<in> set parm0_names \<Longrightarrow> \<exists>c. entry c (Some n) CSEG parm0 \<in> set (tl opcodelist)"
  unfolding parm0_names_def list.set insert_iff empty_iff
  by (elim disjE; simp add: opcodelist_def entry_def; blast)

lemma parm1_entry: "n \<in> set parm1_names \<Longrightarrow> \<exists>c. entry c (Some n) CSEG parm1 \<in> set (tl opcodelist)"
  unfolding parm1_names_def list.set insert_iff empty_iff
  by (elim disjE; simp add: opcodelist_def entry_def; blast)

lemma jump_entry: "n \<in> set jump_names \<Longrightarrow> \<exists>c. entry c (Some n) CSEG do_jump \<in> set (tl opcodelist)"
  unfolding jump_names_def list.set insert_iff empty_iff
  by (elim disjE; simp add: opcodelist_def entry_def; blast)

lemma operand_nil: "operand [] = []"
  by (simp add: operand_def stripcomment_def skipwhitespace_def isspace_def code_of_def)

lemma itoh_chars: "CHR '';'' \<notin> set (itoh v)" "NL \<notin> set (itoh v)" "NUL \<notin> set (itoh v)"
  by (rule itoh_no_char; simp add: isdigit_def code_of_def)+

lemma operand_itoh: "operand (CHR '' '' # itoh v @ r) = itoh v @ stripcomment (r @ nl)"
proof -
  obtain c cs where i: "itoh v = c # cs" using itoh_nonempty [of v] by (cases "itoh v") auto
  have "\<not> isspace c" using hex_digit_not_blank [OF itoh_hd [OF i]] by simp
  moreover have "isspace CHR '' ''" by (simp add: isspace_def)
  moreover have "stripcomment ((CHR '' '' # itoh v) @ r @ nl) = (CHR '' '' # itoh v) @ stripcomment (r @ nl)"
    by (rule stripcomment_prefix) (simp add: itoh_chars)
  ultimately show ?thesis by (simp add: operand_def skipwhitespace_def i)
qed

text \<open>What may follow a number: nothing, or a blank and a comment.\<close>

definition line_tail :: "string \<Rightarrow> bool" where
  "line_tail r \<longleftrightarrow> NL \<notin> set r \<and> NUL \<notin> set r \<and> (r = [] \<or> isspace (hd r))"

lemma tail_stops: "line_tail r \<Longrightarrow> stripcomment (r @ nl) = c # cs \<Longrightarrow> \<not> ishex c \<and> c \<noteq> CHR ''+''"
  using stripcomment_blank_hd [of r]
  by (auto simp: line_tail_def isspace_def ishex_def isdigit_def code_of_def)

lemma asm0:
  assumes "n \<in> set parm0_names" and "line_tail r"
  shows "(TAB # n @ r @ nl, 4) \<in> asm_ok env"
proof -
  obtain c where c: "entry c (Some n) CSEG parm0 \<in> set (tl opcodelist)" using parm0_entry [OF assms(1)] ..
  show ?thesis by (rule asm_ok_instr [OF c]) (use assms(2) in \<open>auto simp: line_tail_def parm0_def opcodes_def\<close>)
qed

lemma asm1:
  assumes "n \<in> set parm1_names" and "line_tail r"
  shows "(TAB # n @ CHR '' '' # itoh v @ r @ nl, 8) \<in> asm_ok env"
proof -
  obtain c where c: "entry c (Some n) CSEG parm1 \<in> set (tl opcodelist)" using parm1_entry [OF assms(1)] ..
  have "getparam (operand (CHR '' '' # itoh v @ r)) = Inr (v, stripcomment (r @ nl))"
    unfolding operand_itoh by (rule getparam_itoh) (use tail_stops [OF assms(2)] in auto)
  then have "(TAB # n @ (CHR '' '' # itoh v @ r) @ nl, 8) \<in> asm_ok env"
    by (intro asm_ok_instr [OF c])
       (use assms(2) in \<open>auto simp: line_tail_def parm1_def opcodes_def opargs_def isspace_def itoh_chars\<close>)
  then show ?thesis by simp
qed

text \<open>A label number the first pass accepts.\<close>

definition label_num :: "asmenv \<Rightarrow> cell \<Rightarrow> bool" where
  "label_num env v \<longleftrightarrow> 0 \<le> sint v \<and> sint v < int (ae_labnum env)"

lemma label_index_ok: "label_num env v \<Longrightarrow> label_index (env\<lparr>ae_lbltab := l\<rparr>) v = Inr (unat v)"
  by (simp add: label_index_def label_num_def)

lemma asm_jump:
  assumes "n \<in> set jump_names" and "line_tail r" and "label_num env v"
  shows "(TAB # n @ CHR '' '' # itoh v @ r @ nl, 8) \<in> asm_ok env"
proof -
  obtain c where c: "entry c (Some n) CSEG do_jump \<in> set (tl opcodelist)" using jump_entry [OF assms(1)] ..
  have "hex2long (operand (CHR '' '' # itoh v @ r)) = Inr (v, stripcomment (r @ nl))"
    unfolding operand_itoh by (rule hex2long_itoh) (use tail_stops [OF assms(2)] in auto)
  then have "(TAB # n @ (CHR '' '' # itoh v @ r) @ nl, 8) \<in> asm_ok env"
    by (intro asm_ok_instr [OF c])
       (use assms(2) label_index_ok [OF assms(3)] in
         \<open>auto simp: line_tail_def do_jump_def opcodes_def opargs_def isspace_def itoh_chars\<close>)
  then show ?thesis by simp
qed

section \<open>The routines of sc4.c\<close>

lemmas emits_intros = emits_block emits_stgwrite emits_outval emits_add emits_nil emits_assert

text \<open>\<open>emits_lines\<close> reduces a routine to the lines it writes.\<close>

lemma emits_lines: "emits a {(x, n)} \<Longrightarrow> (x, n) \<in> asm_ok env \<Longrightarrow> emits a (asm_ok env)"
  by (erule emits_mono) simp

lemmas line_defs = parm0_names_def parm1_names_def jump_names_def line_tail_def opcodes_def opargs_def itoh_chars

lemma gen_moveto1: "emits moveto1 (asm_ok env)"
  unfolding moveto1_def
  by (rule emits_mono, (rule emits_intros | (simp; fail))+) (use asm0 [of "''move.pri''" "[]" env] in \<open>simp add: line_defs\<close>)

lemma gen_swap1: "emits swap1 (asm_ok env)"
  unfolding swap1_def
  by (rule emits_mono, (rule emits_intros | (simp; fail))+) (use asm0 [of "''swap.pri''" "[]" env] in \<open>simp add: line_defs\<close>)

lemma gen_ffret: "emits ffret (asm_ok env)"
  unfolding ffret_def
  by (rule emits_mono, (rule emits_intros | (simp; fail))+) (use asm0 [of "''retn''" "[]" env] in \<open>simp add: line_defs\<close>)

lemma gen_os_mult: "emits os_mult (asm_ok env)"
  unfolding os_mult_def
  by (rule emits_mono, (rule emits_intros | (simp; fail))+) (use asm0 [of "''smul''" "[]" env] in \<open>simp add: line_defs\<close>)

lemma gen_os_div: "emits os_div (asm_ok env)"
  unfolding os_div_def
  by (rule emits_mono, (rule emits_intros | (simp; fail))+) (use asm0 [of "''sdiv.alt''" "[]" env] in \<open>simp add: line_defs\<close>)

lemma gen_os_mod: "emits os_mod (asm_ok env)"
  unfolding os_mod_def
  by (rule emits_mono, (rule emits_intros | (simp; fail))+) (use asm_ok_append [OF asm0 [of "''sdiv.alt''" "[]" env] asm0 [of "''move.pri''" "[]" env]] in \<open>simp add: line_defs\<close>)

lemma gen_ob_add: "emits ob_add (asm_ok env)"
  unfolding ob_add_def
  by (rule emits_mono, (rule emits_intros | (simp; fail))+) (use asm0 [of "''add''" "[]" env] in \<open>simp add: line_defs\<close>)

lemma gen_ob_sub: "emits ob_sub (asm_ok env)"
  unfolding ob_sub_def
  by (rule emits_mono, (rule emits_intros | (simp; fail))+) (use asm0 [of "''sub.alt''" "[]" env] in \<open>simp add: line_defs\<close>)

lemma gen_ob_sal: "emits ob_sal (asm_ok env)"
  unfolding ob_sal_def
  by (rule emits_mono, (rule emits_intros | (simp; fail))+) (use asm_ok_append [OF asm0 [of "''xchg''" "[]" env] asm0 [of "''shl''" "[]" env]] in \<open>simp add: line_defs\<close>)

lemma gen_os_sar: "emits os_sar (asm_ok env)"
  unfolding os_sar_def
  by (rule emits_mono, (rule emits_intros | (simp; fail))+) (use asm_ok_append [OF asm0 [of "''xchg''" "[]" env] asm0 [of "''sshr''" "[]" env]] in \<open>simp add: line_defs\<close>)

lemma gen_ou_sar: "emits ou_sar (asm_ok env)"
  unfolding ou_sar_def
  by (rule emits_mono, (rule emits_intros | (simp; fail))+) (use asm_ok_append [OF asm0 [of "''xchg''" "[]" env] asm0 [of "''shr''" "[]" env]] in \<open>simp add: line_defs\<close>)

lemma gen_ob_or: "emits ob_or (asm_ok env)"
  unfolding ob_or_def
  by (rule emits_mono, (rule emits_intros | (simp; fail))+) (use asm0 [of "''or''" "[]" env] in \<open>simp add: line_defs\<close>)

lemma gen_ob_xor: "emits ob_xor (asm_ok env)"
  unfolding ob_xor_def
  by (rule emits_mono, (rule emits_intros | (simp; fail))+) (use asm0 [of "''xor''" "[]" env] in \<open>simp add: line_defs\<close>)

lemma gen_ob_and: "emits ob_and (asm_ok env)"
  unfolding ob_and_def
  by (rule emits_mono, (rule emits_intros | (simp; fail))+) (use asm0 [of "''and''" "[]" env] in \<open>simp add: line_defs\<close>)

lemma gen_ob_eq: "emits ob_eq (asm_ok env)"
  unfolding ob_eq_def
  by (rule emits_mono, (rule emits_intros | (simp; fail))+) (use asm0 [of "''eq''" "[]" env] in \<open>simp add: line_defs\<close>)

lemma gen_ob_ne: "emits ob_ne (asm_ok env)"
  unfolding ob_ne_def
  by (rule emits_mono, (rule emits_intros | (simp; fail))+) (use asm0 [of "''neq''" "[]" env] in \<open>simp add: line_defs\<close>)

lemma gen_relop_prefix: "emits relop_prefix (asm_ok env)"
  unfolding relop_prefix_def
  by (rule emits_mono, (rule emits_intros | (simp; fail))+) (use asm_ok_append [OF asm0 [of "''push.pri''" "[]" env] asm0 [of "''move.pri''" "[]" env]] in \<open>simp add: line_defs\<close>)

lemma gen_relop_suffix: "emits relop_suffix (asm_ok env)"
  unfolding relop_suffix_def
  by (rule emits_mono, (rule emits_intros | (simp; fail))+) (use asm_ok_append [OF asm0 [of "''swap.alt''" "[]" env] asm_ok_append [OF asm0 [of "''and''" "[]" env] asm0 [of "''pop.alt''" "[]" env]]] in \<open>simp add: line_defs\<close>)

lemma gen_os_lt: "emits os_lt (asm_ok env)"
  unfolding os_lt_def
  by (rule emits_mono, (rule emits_intros | (simp; fail))+) (use asm_ok_append [OF asm0 [of "''xchg''" "[]" env] asm0 [of "''sless''" "[]" env]] in \<open>simp add: line_defs\<close>)

lemma gen_os_le: "emits os_le (asm_ok env)"
  unfolding os_le_def
  by (rule emits_mono, (rule emits_intros | (simp; fail))+) (use asm_ok_append [OF asm0 [of "''xchg''" "[]" env] asm0 [of "''sleq''" "[]" env]] in \<open>simp add: line_defs\<close>)

lemma gen_os_gt: "emits os_gt (asm_ok env)"
  unfolding os_gt_def
  by (rule emits_mono, (rule emits_intros | (simp; fail))+) (use asm_ok_append [OF asm0 [of "''xchg''" "[]" env] asm0 [of "''sgrtr''" "[]" env]] in \<open>simp add: line_defs\<close>)

lemma gen_os_ge: "emits os_ge (asm_ok env)"
  unfolding os_ge_def
  by (rule emits_mono, (rule emits_intros | (simp; fail))+) (use asm_ok_append [OF asm0 [of "''xchg''" "[]" env] asm0 [of "''sgeq''" "[]" env]] in \<open>simp add: line_defs\<close>)

lemma gen_lneg: "emits lneg (asm_ok env)"
  unfolding lneg_def
  by (rule emits_mono, (rule emits_intros | (simp; fail))+) (use asm0 [of "''not''" "[]" env] in \<open>simp add: line_defs\<close>)

lemma gen_neg: "emits neg (asm_ok env)"
  unfolding neg_def
  by (rule emits_mono, (rule emits_intros | (simp; fail))+) (use asm0 [of "''neg''" "[]" env] in \<open>simp add: line_defs\<close>)

lemma gen_invert: "emits invert (asm_ok env)"
  unfolding invert_def
  by (rule emits_mono, (rule emits_intros | (simp; fail))+) (use asm0 [of "''invert''" "[]" env] in \<open>simp add: line_defs\<close>)

lemma gen_nooperation: "emits nooperation (asm_ok env)"
  unfolding nooperation_def
  by (rule emits_mono, (rule emits_intros | (simp; fail))+) (use asm0 [of "''nop''" "[]" env] in \<open>simp add: line_defs\<close>)

lemma emits_weaken:
  assumes "\<And>s t. f s = Inr t \<Longrightarrow> g s = Inr t" and "emits g A"
  shows "emits f A"
  using assms unfolding emits_def by blast

lemma emits_fun_if: "emits (if b then f else g) A \<Longrightarrow> emits (\<lambda>s. if b then f s else g s) A"
  by (cases b) simp_all

lemma emits_whenA: "(b \<Longrightarrow> emits a (asm_ok env)) \<Longrightarrow> emits (whenA b a) (asm_ok env)"
  using emits_mono [OF emits_skip, of "asm_ok env"] by (simp add: whenA_def asm_ok_nil)

lemma emits_if_flag: "emits a (asm_ok env) \<Longrightarrow> emits (\<lambda>s. if b s then a s else Inr s) (asm_ok env)"
  using emits_if_state [of a "asm_ok env" Inr b] emits_mono [OF emits_skip, of "asm_ok env"] by (simp add: asm_ok_nil)

lemma emits_seq:
  assumes "emits a (asm_ok env)" and "emits (block as) (asm_ok env)"
  shows "emits (block (a # as)) (asm_ok env)"
  using emits_mono [OF emits_block [OF assms]] asm_ok_then_out by blast

lemma itoh_const: "itoh 2 = ''2''" "itoh 4 = ''4''" "itoh 5 = ''5''" "itoh 1 = ''1''"
  by code_simp+

lemma gen_memcopy: "emits (memcopy n) (asm_ok env)"
  unfolding memcopy_def
  by (rule emits_mono, (rule emits_intros | (simp; fail))+) (use asm1 [of "''movs''" "[]" "n" env] in \<open>simp add: line_defs\<close>)

lemma gen_pushval: "emits (pushval val) (asm_ok env)"
  unfolding pushval_def
  by (rule emits_mono, (rule emits_intros | (simp; fail))+) (use asm1 [of "''push.c''" "[]" "val" env] in \<open>simp add: line_defs\<close>)

lemma gen_ffabort: "emits (ffabort reason) (asm_ok env)"
  unfolding ffabort_def
  by (rule emits_mono, (rule emits_intros | (simp; fail))+) (use asm1 [of "''halt''" "[]" "reason" env] in \<open>simp add: line_defs\<close>)

lemma gen_jumplabel: "label_num env number \<Longrightarrow> emits (jumplabel number) (asm_ok env)"
  unfolding jumplabel_def
  by (rule emits_mono, (rule emits_intros | (simp; fail))+) (use asm_jump [of "''jump''" "[]" env "number"] in \<open>simp add: line_defs\<close>)

lemma gen_jmp_ne0: "label_num env number \<Longrightarrow> emits (jmp_ne0 number) (asm_ok env)"
  unfolding jmp_ne0_def
  by (rule emits_mono, (rule emits_intros | (simp; fail))+) (use asm_jump [of "''jnz''" "[]" env "number"] in \<open>simp add: line_defs\<close>)

lemma gen_jmp_eq0: "label_num env number \<Longrightarrow> emits (jmp_eq0 number) (asm_ok env)"
  unfolding jmp_eq0_def
  by (rule emits_mono, (rule emits_intros | (simp; fail))+) (use asm_jump [of "''jzer''" "[]" env "number"] in \<open>simp add: line_defs\<close>)

lemma gen_cell2addr: "emits cell2addr (asm_ok env)"
  unfolding cell2addr_def
  by (rule emits_mono, (rule emits_intros | (simp; fail))+) (use asm1 [of "''shl.c.pri''" "[]" "2" env] in \<open>simp add: line_defs itoh_const\<close>)

lemma gen_cell2addr_alt: "emits cell2addr_alt (asm_ok env)"
  unfolding cell2addr_alt_def
  by (rule emits_mono, (rule emits_intros | (simp; fail))+) (use asm1 [of "''shl.c.alt''" "[]" "2" env] in \<open>simp add: line_defs itoh_const\<close>)

lemma gen_addr2cell: "emits addr2cell (asm_ok env)"
  unfolding addr2cell_def
  by (rule emits_mono, (rule emits_intros | (simp; fail))+) (use asm1 [of "''shr.c.pri''" "[]" "2" env] in \<open>simp add: line_defs itoh_const\<close>)

lemma gen_charalign: "emits charalign (asm_ok env)"
  unfolding charalign_def
  by (rule emits_mono, (rule emits_intros | (simp; fail))+) (use asm1 [of "''align.pri''" "[]" "sCHARBYTES" env] in \<open>simp add: line_defs\<close>)

lemma gen_char2addr: "emits char2addr (asm_ok env)"
  unfolding char2addr_def by (rule emits_mono [OF emits_skip]) (simp add: asm_ok_nil)

lemma gen_modstk: "emits (modstk delta) (asm_ok env)"
  unfolding modstk_def
  by (rule emits_whenA, rule emits_mono, (rule emits_intros | (simp; fail))+) (use asm1 [of "''stack''" "[]" "delta" env] in \<open>simp add: line_defs\<close>)

lemma gen_modheap: "emits (modheap delta) (asm_ok env)"
  unfolding modheap_def
  by (rule emits_whenA, rule emits_mono, (rule emits_intros | (simp; fail))+) (use asm1 [of "''heap''" "[]" "delta" env] in \<open>simp add: line_defs\<close>)

lemma gen_addconst: "emits (addconst val) (asm_ok env)"
  unfolding addconst_def
  by (rule emits_whenA, rule emits_mono, (rule emits_intros | (simp; fail))+) (use asm1 [of "''add.c''" "[]" "val" env] in \<open>simp add: line_defs\<close>)

lemma emits_nil_ok: "emits (block []) (asm_ok env)"
  by (rule emits_mono [OF emits_nil]) (simp add: asm_ok_nil)

lemma emits_append:
  assumes "emits (block as) (asm_ok env)" and "emits (block bs) (asm_ok env)"
  shows "emits (block (as @ bs)) (asm_ok env)"
proof -
  have "block (as @ bs) = (\<lambda>s. bindR (block as s) (block bs))" by (rule ext) (rule block_append)
  then show ?thesis using emits_mono [OF emits_bind [OF assms]] asm_ok_then_out by auto
qed

text \<open>The block of a one-operand instruction, and the lines of one instruction each.\<close>

lemma block_parm1:
  assumes "n \<in> set parm1_names"
  shows "emits (block [stgwrite (TAB # n @ '' ''), outval v True, add_code_idx (opcodes 1 + opargs 1)]) (asm_ok env)"
proof -
  obtain c where "entry c (Some n) CSEG parm1 \<in> set (tl opcodelist)" using parm1_entry [OF assms] ..
  from entry_plain [OF this] have "NUL \<notin> set n" by (auto simp: plain_name_def list_all_iff)
  then show ?thesis
    by - (rule emits_mono, (rule emits_intros | (simp; fail))+, use asm1 [OF assms, of "[]" v env] in
      \<open>simp add: line_tail_def opcodes_def opargs_def\<close>)
qed

lemma block_parm0:
  assumes "n \<in> set parm0_names"
  shows "emits (block [stgwrite (TAB # n @ nl), add_code_idx (opcodes 1)]) (asm_ok env)"
proof -
  obtain c where "entry c (Some n) CSEG parm0 \<in> set (tl opcodelist)" using parm0_entry [OF assms] ..
  from entry_plain [OF this] have "NUL \<notin> set n" by (auto simp: plain_name_def list_all_iff)
  then show ?thesis
    by - (rule emits_mono, (rule emits_intros | (simp; fail))+, use asm0 [OF assms, of "[]" env] in
      \<open>simp add: line_tail_def opcodes_def opargs_def\<close>)
qed

lemma gen_storereg: "emits (storereg addr reg) (asm_ok env)"
  using block_parm1 [of "''stor.pri''" addr env] block_parm1 [of "''stor.alt''" addr env]
  by (simp add: storereg_def parm1_names_def)

lemma gen_ldconst: "emits (ldconst val reg) (asm_ok env)"
  using block_parm1 [of "''const.pri''" val env] block_parm1 [of "''const.alt''" val env]
    block_parm0 [of "''zero.pri''" env] block_parm0 [of "''zero.alt''" env]
  by (simp add: ldconst_def parm1_names_def parm0_names_def split: regid.splits)

lemma gen_pushreg: "emits (pushreg reg) (asm_ok env)"
  using block_parm0 [of "''push.pri''" env] block_parm0 [of "''push.alt''" env]
  by (simp add: pushreg_def parm0_names_def split: regid.splits)

lemma gen_popreg: "emits (popreg reg) (asm_ok env)"
  using block_parm0 [of "''pop.pri''" env] block_parm0 [of "''pop.alt''" env]
  by (simp add: popreg_def parm0_names_def split: regid.splits)

lemma gen_ffbounds: "emits (ffbounds n) (asm_ok env)"
proof -
  have "emits (block [stgwrite (tab @ ''bounds ''), outval n True, add_code_idx (opcodes 1 + opargs 1)]) (asm_ok env)"
    using block_parm1 [of "''bounds''" n env] by (simp add: parm1_names_def)
  from emits_if_flag [OF this] show ?thesis by (simp add: ffbounds_def [abs_def])
qed

lemma gen_setstk: "emits (setstk val) (asm_ok env)"
proof (cases "sint val < 0")
  case True
  have "emits (block [stgwrite (tab @ ''lctrl 5'' @ nl), assertA (sint val \<le> 0),
      block [stgwrite (tab @ ''add.c ''), outval val True, add_code_idx (opcodes 1 + opargs 1)],
      stgwrite (tab @ ''sctrl 4'' @ nl), add_code_idx (opcodes 2 + opargs 2)]) (asm_ok env)"
    by (rule emits_mono, (rule emits_intros | (simp; fail))+) (use asm_ok_append [OF asm1 [of "''lctrl''" "[]" "5" env] asm_ok_append [OF asm1 [of "''add.c''" "[]" "val" env] asm1 [of "''sctrl''" "[]" "4" env]]] in \<open>simp add: line_defs itoh_const\<close>)
  then show ?thesis using True by (simp add: setstk_def whenA_def)
next
  case False
  have "emits (block [stgwrite (tab @ ''lctrl 5'' @ nl), assertA (sint val \<le> 0), skip,
      stgwrite (tab @ ''sctrl 4'' @ nl), add_code_idx (opcodes 2 + opargs 2)]) (asm_ok env)"
    by (rule emits_mono, (rule emits_intros emits_skip | (simp; fail))+) (use asm_ok_append [OF asm1 [of "''lctrl''" "[]" "5" env] asm1 [of "''sctrl''" "[]" "4" env]] in \<open>simp add: line_defs itoh_const\<close>)
  then show ?thesis using False by (simp add: setstk_def whenA_def)
qed

lemma gen_setheap_pri: "emits setheap_pri (asm_ok env)"
  unfolding setheap_pri_def
  by (rule emits_mono, (rule emits_intros | (simp; fail))+) (use asm_ok_append [OF asm1 [of "''heap''" "[]" "cell_bytes" env] asm_ok_append [OF asm0 [of "''stor.i''" "[]" env] asm0 [of "''move.pri''" "[]" env]]] in \<open>simp add: line_defs\<close>)

lemma gen_setheap: "emits (setheap val) (asm_ok env)"
  using emits_append [OF block_parm1 [of "''const.pri''" val env] emits_seq [OF gen_setheap_pri emits_nil_ok]]
  by (simp add: setheap_def parm1_names_def)

lemma gen_alignframe: "emits (alignframe numbytes) (asm_ok env)"
  unfolding alignframe_def
  by (rule emits_mono, (rule emits_intros | (simp; fail))+) (use asm_ok_append [OF asm1 [of "''lctrl''" "[]" "4" env] asm_ok_append [OF asm1 [of "''const.alt''" "[]" "NOT (numbytes - 1)" env] asm_ok_append [OF asm0 [of "''and''" "[]" env] asm_ok_append [OF asm1 [of "''sctrl''" "[]" "4" env] asm1 [of "''sctrl''" "[]" "5" env]]]]] in \<open>simp add: line_defs itoh_const\<close>)

section \<open>Lines with names, labels and comments\<close>

lemma asm_ok_comment:
  assumes "NL \<notin> set x" and "NUL \<notin> set x"
  shows "(TAB # CHR '';'' # x @ nl, 0) \<in> asm_ok env"
proof -
  have "scan_line ((TAB # CHR '';'' # x) @ nl) = EmptyLine"
    by (simp add: scan_line_def stripcomment_def skipwhitespace_def isspace_def code_of_def)
  then have "((TAB # CHR '';'' # x) @ nl, 0) \<in> asm_ok env"
    using assms by (intro asm_ok_line) (simp_all add: relocate_line_def)
  then show ?thesis by simp
qed

lemma asm_ok_blank: "(nl, 0) \<in> asm_ok env"
proof -
  have "scan_line ([] @ nl) = EmptyLine"
    by (simp add: scan_line_def stripcomment_def skipwhitespace_def isspace_def code_of_def)
  then have "([] @ nl, 0) \<in> asm_ok env" by (intro asm_ok_line) (simp_all add: relocate_line_def)
  then show ?thesis by simp
qed

lemma findopcode_any_case:
  assumes e: "entry c (Some n) sg f \<in> set (tl opcodelist)" and n': "map tolower n' = n"
  shows "\<exists>i. findopcode n' = Inr i \<and> opcodelist ! i = entry c (Some n) sg f"
proof -
  obtain j where j: "j < length (tl opcodelist)" "tl opcodelist ! j = entry c (Some n) sg f"
    using e by (auto simp: in_set_conv_nth)
  then have i: "0 < Suc j" "Suc j < length opcodelist" and o: "opcodelist ! Suc j = entry c (Some n) sg f"
    by (auto simp: nth_tl)
  have "opname (Suc j) = n" by (simp add: opname_def o entry_def)
  moreover have "length n' = length n" using n' by auto
  ultimately have "findopcode n' = Inr (Suc j)"
    using findopcode_iff [OF i, of n'] n' entry_plain [OF e] by (simp add: plain_name_def)
  then show ?thesis using o by blast
qed

text \<open>A segment line: the name in capitals, no code.\<close>

lemma asm_ok_segment:
  assumes n: "n = ''CODE'' \<or> n = ''DATA''" and x: "NL \<notin> set x" "NUL \<notin> set x"
  shows "(n @ tab @ CHR '';'' # x @ nl, 0) \<in> asm_ok env"
proof -
  have s: "scan_line ((n @ tab @ CHR '';'' # x) @ nl) = InstrLine n []"
    using n by (auto simp: scan_line_def stripcomment_def skipwhitespace_def isspace_def code_of_def tolower_def isupper_def)
  have "map tolower ''CODE'' = ''code''" "map tolower ''DATA'' = ''data''" by code_simp+
  moreover have "entry 0 (Some ''code'') NoSeg noop \<in> set (tl opcodelist)"
    "entry 0 (Some ''data'') NoSeg noop \<in> set (tl opcodelist)" by (simp_all add: opcodelist_def entry_def)
  ultimately obtain i m where i: "findopcode n = Inr i" "opcodelist ! i = entry 0 (Some m) NoSeg noop"
    using n findopcode_any_case [of 0 "''code''" NoSeg noop "''CODE''"]
      findopcode_any_case [of 0 "''data''" NoSeg noop "''DATA''"] by auto
  have "((n @ tab @ CHR '';'' # x) @ nl, 0) \<in> asm_ok env"
    by (rule asm_ok_line) (use n x s i in \<open>auto simp: relocate_line_def entry_def\<close>)
  then show ?thesis by simp
qed

lemma asm_switch:
  assumes "line_tail r" and "label_num env v"
  shows "(TAB # ''switch'' @ CHR '' '' # itoh v @ r @ nl, 8) \<in> asm_ok env"
proof -
  have c: "entry 129 (Some ''switch'') CSEG do_switch \<in> set (tl opcodelist)" by (simp add: opcodelist_def entry_def)
  have "hex2long (operand (CHR '' '' # itoh v @ r)) = Inr (v, stripcomment (r @ nl))"
    unfolding operand_itoh by (rule hex2long_itoh) (use tail_stops [OF assms(1)] in auto)
  then have "(TAB # ''switch'' @ (CHR '' '' # itoh v @ r) @ nl, 8) \<in> asm_ok env"
    by (intro asm_ok_instr [OF c])
       (use assms(1) label_index_ok [OF assms(2)] in
         \<open>auto simp: line_tail_def do_switch_def opcodes_def opargs_def isspace_def itoh_chars\<close>)
  then show ?thesis by simp
qed

lemma asm_case:
  assumes "label_num env l"
  shows "(TAB # ''case'' @ CHR '' '' # itoh v @ CHR '' '' # itoh l @ nl, 8) \<in> asm_ok env"
proof -
  have c: "entry 0 (Some ''case'') CSEG do_case \<in> set (tl opcodelist)" by (simp add: opcodelist_def entry_def)
  have sp: "stripcomment ((CHR '' '' # itoh l) @ nl) = (CHR '' '' # itoh l) @ stripcomment nl"
    by (rule stripcomment_prefix) (simp add: itoh_chars)
  have nl: "stripcomment nl = nl" by (simp add: stripcomment_def)
  have "hex2long (operand (CHR '' '' # itoh v @ CHR '' '' # itoh l)) = Inr (v, CHR '' '' # itoh l @ nl)"
  proof -
    have o: "operand (CHR '' '' # itoh v @ CHR '' '' # itoh l) = itoh v @ CHR '' '' # itoh l @ nl"
      using sp unfolding operand_itoh nl by simp
    show ?thesis unfolding o by (rule hex2long_itoh) (simp add: ishex_def isdigit_def code_of_def)
  qed
  moreover have "hex2long (CHR '' '' # itoh l @ nl) = Inr (l, nl)"
    using hex2long_blanks [of "'' ''" "itoh l @ nl"] hex2long_itoh [of nl l]
    by (simp add: blank_def ishex_def isdigit_def code_of_def)
  ultimately have "(TAB # ''case'' @ (CHR '' '' # itoh v @ CHR '' '' # itoh l) @ nl, 8) \<in> asm_ok env"
    by (intro asm_ok_instr [OF c])
       (use label_index_ok [OF assms] in
         \<open>auto simp: do_case_def opcodes_def opargs_def isspace_def itoh_chars\<close>)
  then show ?thesis by simp
qed

text \<open>A name \<open>do_call\<close> accepts: a function's, or a label's after \<open>l.\<close>\<close>

definition call_target :: "asmenv \<Rightarrow> string \<Rightarrow> bool" where
  "call_target env name \<longleftrightarrow> name \<noteq> [] \<and> length name \<le> sNAMEMAX
     \<and> list_all (\<lambda>c. \<not> isspace c \<and> c \<noteq> CHR '';'' \<and> c \<noteq> NUL) name
     \<and> ((\<exists>v. name = ''l.'' @ itoh v \<and> label_num env v)
        \<or> (take 2 name \<noteq> ''l.'' \<and> (\<exists>p. findglb (ae_syms env) name = Inr (Some p)
             \<and> (sident p = iFUNCTN \<or> sident p = iREFFUNC) \<and> svclass p = sGLOBAL)))"

lemma asm_call:
  assumes t: "call_target env name" and r: "line_tail r"
  shows "(TAB # ''call'' @ CHR '' '' # name @ r @ nl, 8) \<in> asm_ok env"
proof -
  have c: "entry 49 (Some ''call'') CSEG do_call \<in> set (tl opcodelist)" by (simp add: opcodelist_def entry_def)
  have na: "list_all (\<lambda>c. \<not> isspace c) name" "CHR '';'' \<notin> set name" "NL \<notin> set name" "NUL \<notin> set name"
  proof -
    have "isspace NL" by (simp add: isspace_def code_of_def)
    moreover have "list_all (\<lambda>c. \<not> isspace c \<and> c \<noteq> CHR '';'' \<and> c \<noteq> NUL) name"
      using t by (simp add: call_target_def)
    ultimately show "list_all (\<lambda>c. \<not> isspace c) name" "CHR '';'' \<notin> set name" "NL \<notin> set name" "NUL \<notin> set name"
      by (auto simp: list_all_iff)
  qed
  obtain d ds where d: "stripcomment (r @ nl) = d # ds" "isspace d"
    using stripcomment_blank_hd [of r] r by (auto simp: line_tail_def)
  have "stripcomment ((CHR '' '' # name) @ r @ nl) = (CHR '' '' # name) @ d # ds"
    using stripcomment_prefix [of "CHR '' '' # name" "r @ nl"] na(2) d(1) by simp
  then have op: "operand (CHR '' '' # name @ r) = name @ d # ds"
    using na(1) t by (cases name) (auto simp: operand_def skipwhitespace_def isspace_def call_target_def)
  have tk: "takeWhile (\<lambda>c. \<not> isspace c) (name @ d # ds) = name"
    "dropWhile (\<lambda>c. \<not> isspace c) (name @ d # ds) = d # ds" using na(1) d(2) by simp_all
  have "\<exists>cs. do_call (env\<lparr>ae_lbltab := None\<rparr>) False (name @ d # ds) 49 = Inr (cs, 8)"
  proof (cases "take 2 name = ''l.''")
    case True
    then obtain v where v: "name = ''l.'' @ itoh v" "label_num env v" using t by (auto simp: call_target_def)
    have "hex2long (drop 2 name) = Inr (v, [])" using hex2long_itoh [of "[]" v] v(1) by simp
    then show ?thesis using True t label_index_ok [OF v(2)]
      by (simp add: do_call_def tk Let_def call_target_def opcodes_def opargs_def)
  next
    case False
    then obtain p where "findglb (ae_syms env) name = Inr (Some p)"
      "sident p = iFUNCTN \<or> sident p = iREFFUNC" "svclass p = sGLOBAL"
      using t by (auto simp: call_target_def)
    then show ?thesis using False t
      by (simp add: do_call_def tk Let_def call_target_def opcodes_def opargs_def)
  qed
  then have "(TAB # ''call'' @ (CHR '' '' # name @ r) @ nl, 8) \<in> asm_ok env"
    by (intro asm_ok_instr [OF c]) (use r na in \<open>auto simp: op line_tail_def isspace_def\<close>)
  then show ?thesis by simp
qed

section \<open>Routines whose text depends on the state\<close>

lemma then_out_range [simp]:
  "then_out {(x, m)} (range (\<lambda>v. (g v, k v))) = range (\<lambda>v. (x @ g v, m + k v))"
  "then_out (range (\<lambda>v. (g v, k v))) {(y, n)} = range (\<lambda>v. (g v @ y, k v + n))"
  by (auto simp: then_out_def image_def)

lemma emits_outval_state:
  "emits (\<lambda>s. outval (f s) True s) (range (\<lambda>v. (itoh v @ nl, 0)))"
  "emits (\<lambda>s. outval (f s) False s) (range (\<lambda>v. (itoh v, 0)))"
  by (rule emits_reads, rule emits_mono [OF emits_outval(1)], blast)
     (rule emits_reads, rule emits_mono [OF emits_outval(2)], blast)

lemma emits_curseg: "emits (\<lambda>s. Inr (s\<lparr>curseg := g\<rparr>)) {([], 0)}"
  by (simp add: emits_def ready_def same_flags_def stg_ok_def text_of_def staged_def cbuf_def)

lemmas emits_intros2 = emits_intros emits_outval_state emits_curseg

lemma gen_begcseg: "emits begcseg (asm_ok env)"
proof -
  have "emits (block [stgwrite nl, stgwrite (''CODE'' @ tab @ ''; ''), \<lambda>s. outval (code_idx s) True s,
      \<lambda>s. Inr (s\<lparr>curseg := CSEG\<rparr>)]) (asm_ok env)"
    by (rule emits_mono, (rule emits_intros2 | (simp; fail))+)
       (use asm_ok_append [OF asm_ok_blank asm_ok_segment [of "''CODE''" "CHR '' '' # itoh v" env for v]] in
         \<open>auto simp: itoh_chars\<close>)
  from emits_if_flag [OF this] show ?thesis by (simp add: begcseg_def [abs_def])
qed

lemma gen_begdseg: "emits begdseg (asm_ok env)"
proof -
  have "emits (block [stgwrite nl, stgwrite (''DATA'' @ tab @ ''; ''), \<lambda>s. outval (glb_declared s - litidx s) True s,
      \<lambda>s. Inr (s\<lparr>curseg := DSEG\<rparr>)]) (asm_ok env)"
    by (rule emits_mono, (rule emits_intros2 | (simp; fail))+)
       (use asm_ok_append [OF asm_ok_blank asm_ok_segment [of "''DATA''" "CHR '' '' # itoh v" env for v]] in
         \<open>auto simp: itoh_chars\<close>)
  from emits_if_flag [OF this] show ?thesis by (simp add: begdseg_def [abs_def])
qed

lemma comment_tail: "NL \<notin> set x \<Longrightarrow> NUL \<notin> set x \<Longrightarrow> line_tail (tab @ ''; '' @ x)"
  by (simp add: line_tail_def isspace_def code_of_def)

lemma gen_setline: "emits (setline chk) (asm_ok env)"
proof -
  have "emits (block [stgwrite (tab @ ''break'' @ tab @ ''; ''), \<lambda>s. outval (code_idx s) True s,
      add_code_idx (opcodes 1)]) (asm_ok env)"
    by (rule emits_mono, (rule emits_intros2 | (simp; fail))+)
       (use asm0 [of "''break''" "tab @ ''; '' @ itoh v" env for v] in
         \<open>auto simp: itoh_chars comment_tail [simplified] opcodes_def parm0_names_def\<close>)
  from emits_if_flag [OF this] show ?thesis by (simp add: setline_def [abs_def])
qed

lemma gen_endfunc: "emits endfunc (asm_ok env)"
  unfolding endfunc_def by (rule emits_mono [OF emits_stgwrite]) (simp_all add: asm_ok_blank)

lemma gen_markexpr:
  assumes "\<And>n. nm = Some n \<Longrightarrow> line_text n"
  shows "emits (markexpr m nm offset) (asm_ok env)"
proof -
  have c: "(TAB # CHR '';'' # x @ nl, 0) \<in> asm_ok env" if "line_text x" for x
    using asm_ok_comment that by (simp add: line_text_def)
  show ?thesis
  proof (cases m)
    case sEXPR
    then show ?thesis
      using emits_mono [OF emits_stgwrite [of "tab @ '';$exp'' @ nl"], of "asm_ok env"] c [of "''$exp''"]
      by (simp add: line_text_def)
  next
    case sPARM
    then show ?thesis
      using emits_mono [OF emits_stgwrite [of "tab @ '';$par'' @ nl"], of "asm_ok env"] c [of "''$par''"]
      by (simp add: line_text_def)
  next
    case sLDECL
    show ?thesis
    proof (cases nm)
      case None
      then show ?thesis using sLDECL by (simp add: emits_fail)
    next
      case (Some n)
      have n: "NUL \<notin> set n" "line_text (''$lcl '' @ n @ '' '' @ itoh offset)"
        using assms [OF Some] by (simp_all add: line_text_def itoh_chars)
      have "emits (block [stgwrite (tab @ '';$lcl ''), stgwrite n, stgwrite '' '', outval offset True]) (asm_ok env)"
        by (rule emits_mono, (rule emits_intros | (simp add: n; fail))+) (use c [OF n(2)] in simp)
      then show ?thesis using sLDECL Some by simp
    qed
  qed
qed

end
