(* ===== verification/ScGenCalls.thy ===== *)
theory ScGenCalls
  imports ScGen
begin

text \<open>
  The remaining routines of sc4.c against the assembler (those that name functions or change
  symbols), the step relation of calls to the code generator, and the simulation: the
  assembler's first pass, run over the text the calls wrote, finds the code index and the label
  addresses of the code generator.
\<close>

section \<open>Display names\<close>

lemma set_hex_run: "set (snd (hex_run r s)) \<subseteq> set s"
  by (induction r s rule: hex_run.induct) (auto split: option.splits)

lemma set_strip_0x: "set (strip_0x s) \<subseteq> set s"
  by (auto simp: strip_0x_def split: list.splits if_splits)

lemma set_strtol16: "set (snd (strtol16 s)) \<subseteq> set s"
proof -
  define s1 where "s1 = dropWhile isspace s"
  define s2 where "s2 = snd (case s1 of c # r \<Rightarrow> if c = CHR ''-'' then (True, r)
                         else if c = CHR ''+'' then (False, r) else (False, s1) | [] \<Rightarrow> (False, s1))"
  have "set s1 \<subseteq> set s" by (auto simp: s1_def dest: set_dropWhileD)
  moreover have "set s2 \<subseteq> set s1" by (auto simp: s2_def split: list.splits)
  moreover have "set (strip_0x s2) \<subseteq> set s2" by (rule set_strip_0x)
  moreover have "set (snd (strtol16 s)) \<subseteq> set (strip_0x s2) \<union> set s"
    using set_hex_run [of 0 "strip_0x s2"]
    by (auto simp: strtol16_def Let_def s1_def [symmetric] s2_def split: prod.splits list.splits)
  ultimately show ?thesis by auto
qed

lemma parse_funcname_chars:
  assumes "parse_funcname f = Inr (u, t0, t1, op)"
  shows "set op \<subseteq> set f"
proof -
  define head where "head = (case f of
               c # _ \<Rightarrow> if c = CHR ''-'' then (True, 0, f)
                        else let (v, r) = strtol16 f in (length r = length f, word_of_int v, r)
             | [] \<Rightarrow> let (v, r) = strtol16 f in (length r = length f, word_of_int v :: cell, r))"
  have "set (snd (snd head)) \<subseteq> set f"
    using set_strtol16 [of f] by (auto simp: head_def split: list.splits prod.splits)
  moreover have "op = takeWhile (\<lambda>c. \<not> isdigit c) (snd (snd head))"
    using assms unfolding parse_funcname_def head_def [symmetric]
    by (cases head) (auto simp: Let_def bindR_Inr_iff split: if_splits)
  ultimately show ?thesis by (auto dest: set_takeWhileD)
qed

lemma find_byval_mem: "find_constval_byval tags v = Some p \<Longrightarrow> p \<in> set tags"
  by (induction tags) (auto split: if_splits)

lemma find_tag_byval_mem: "find_tag_byval tags v = Some p \<Longrightarrow> p \<in> set tags"
  by (auto simp: find_tag_byval_def split: option.splits dest: find_byval_mem)

lemma funcdisplayname_line_text:
  assumes "funcdisplayname tags f = Inr x" and "line_text f" and "\<forall>p \<in> set tags. line_text (cname p)"
  shows "line_text x"
proof (cases "f = [] \<or> alpha (hd f)")
  case True
  then show ?thesis using assms by (auto simp: funcdisplayname_def)
next
  case False
  then obtain u t0 t1 op where p: "parse_funcname f = Inr (u, t0, t1, op)"
    using assms(1) by (auto simp: funcdisplayname_def bindR_Inr_iff)
  have op: "line_text op" using parse_funcname_chars [OF p] assms(2) by (auto simp: line_text_def)
  show ?thesis
    using assms(1) False op find_tag_byval_mem assms(3)
    by (fastforce simp: funcdisplayname_def p line_text_def split: option.splits if_splits)
qed

section \<open>Routines that name functions or change symbols\<close>

lemma block_fun: "block [] = Inr" "block (a # as) = (\<lambda>s. bindR (a s) (block as))"
  by (simp_all add: fun_eq_iff)

lemma emits_from:
  assumes "\<And>s t. ready s \<Longrightarrow> f s = Inr t \<Longrightarrow> \<exists>g s1. emits g A \<and> g s1 = Inr t \<and> ready s1 \<and> same_flags s s1
    \<and> text_of s1 = text_of s \<and> code_idx s1 = code_idx s"
  shows "emits f A"
  unfolding emits_def
proof (intro allI impI)
  fix s t assume r: "ready s" and "f s = Inr t"
  from assms [OF this] obtain g s1 where g: "emits g A" "g s1 = Inr t" "ready s1" "same_flags s s1"
    "text_of s1 = text_of s" "code_idx s1 = code_idx s" by blast
  from emitsE [OF g(1,3,2)] g(4-6)
  show "ready t \<and> same_flags s t \<and> (\<exists>tx n. (tx, n) \<in> A \<and> text_of t = text_of s @ tx \<and> code_idx t = code_idx s + n)"
    by (metis same_flags_trans)
qed

lemma emits_same:
  assumes "\<And>s t. ready s \<Longrightarrow> f s = Inr t \<Longrightarrow> \<exists>g. emits g A \<and> g s = Inr t"
  shows "emits f A"
  by (rule emits_from) (use assms in \<open>fastforce simp: same_flags_def\<close>)

lemma gen_startfunc:
  assumes "line_text fname"
  shows "emits (startfunc fname) (asm_ok env)"
proof (rule emits_same)
  fix s t assume r: "ready s" and run: "startfunc fname s = Inr t"
  show "\<exists>g. emits g (asm_ok env) \<and> g s = Inr t"
  proof (cases "sc_asmfile s")
    case False
    have "emits (block [stgwrite (tab @ ''proc''), stgwrite nl, add_code_idx (opcodes 1)]) (asm_ok env)"
      by (rule emits_mono, (rule emits_intros | (simp; fail))+) (use asm0 [of "''proc''" "[]" env] in \<open>simp add: line_defs\<close>)
    moreover have "block [stgwrite (tab @ ''proc''), stgwrite nl, add_code_idx (opcodes 1)] s = Inr t"
    proof -
      obtain s1 where s1: "stgwrite (tab @ ''proc'') s = Inr s1"
        using run unfolding startfunc_def block.simps by (rule bindR_InrE)
      have "sc_asmfile s1 = sc_asmfile s"
        by (rule emitsE [OF emits_stgwrite r s1]) (simp_all add: same_flags_def)
      then show ?thesis using run s1 False by (simp add: startfunc_def)
    qed
    ultimately show ?thesis by blast
  next
    case True
    obtain s1 where s1: "stgwrite (tab @ ''proc'') s = Inr s1"
      using run unfolding startfunc_def block.simps by (rule bindR_InrE)
    have f: "sc_asmfile s1 = sc_asmfile s" "tagname_tab s1 = tagname_tab s"
      by (rule emitsE [OF emits_stgwrite r s1], simp, simp add: same_flags_def)+
    obtain x where x: "funcdisplayname (tagname_tab s) fname = Inr x"
      using run s1 f True by (cases "funcdisplayname (tagname_tab s) fname") (auto simp: startfunc_def)
    have lt: "line_text x" using funcdisplayname_line_text [OF x assms] r by (simp add: ready_def)
    then have xs: "NUL \<notin> set x" "NL \<notin> set x" by (simp_all add: line_text_def)
    have "emits (block [stgwrite (tab @ ''proc''), stgwrite (tab @ ''; ''), stgwrite x, stgwrite nl, add_code_idx (opcodes 1)]) (asm_ok env)"
      by (rule emits_mono, (rule emits_intros | (simp add: xs; fail))+)
         (use asm0 [of "''proc''" "tab @ ''; '' @ x" env] xs in \<open>simp add: comment_tail [simplified] opcodes_def parm0_names_def\<close>)
    moreover have "block [stgwrite (tab @ ''proc''), stgwrite (tab @ ''; ''), stgwrite x, stgwrite nl, add_code_idx (opcodes 1)] s = Inr t"
      using run s1 f True x by (simp add: startfunc_def bindR_assoc block_fun)
    ultimately show ?thesis by blast
  qed
qed

text \<open>The state a symbol-changing routine leaves.\<close>

definition forget :: "(cstate \<Rightarrow> ('a \<times> cstate) result) \<Rightarrow> act" where
  "forget f s = bindR (f s) (\<lambda>(_, t). Inr t)"

lemma forget_marked:
  assumes "emits a A" and "emits b B"
  shows "emits (forget (\<lambda>s. bindR (a s) (\<lambda>s1. bindR (m s1) (\<lambda>x. bindR (b s1) (\<lambda>s2. Inr (x, s2)))))) (then_out A B)"
  by (rule emits_weaken [OF _ emits_bind [OF assms]]) (auto simp: forget_def bindR_Inr_iff)

lemma forget_last: "emits a A \<Longrightarrow> emits (forget (\<lambda>s. bindR (a s) (\<lambda>s1. Inr (x, s1)))) A"
  by (rule emits_weaken) (auto simp: forget_def bindR_Inr_iff)

lemma forget_first:
  "emits a A \<Longrightarrow> emits (forget (\<lambda>s. bindR (m s) (\<lambda>x. bindR (a s) (\<lambda>s1. Inr (x, s1))))) A"
  by (rule emits_weaken) (auto simp: forget_def bindR_Inr_iff)

lemma forget_keep_val: "emits a A \<Longrightarrow> emits (forget (keep_val lval a)) A"
  by (rule emits_weaken) (auto simp: forget_def keep_val_def bindR_Inr_iff)

lemma forget_with_sym:
  assumes "\<And>sy. emits (forget (f sy)) A"
  shows "emits (forget (with_sym f lval)) A"
proof (cases "lsym lval")
  case None
  then show ?thesis by (simp add: emits_def forget_def with_sym_def)
next
  case (Some sy)
  show ?thesis
    by (rule emits_weaken [OF _ assms [of sy]]) (auto simp: forget_def with_sym_def Some bindR_Inr_iff)
qed

text \<open>The two-part block of a one-operand instruction: text first, count later.\<close>

lemma pair_parm1:
  assumes "n \<in> set parm1_names"
  shows "emits (block [stgwrite (TAB # n @ '' ''), outval v True]) {(TAB # n @ '' '' @ itoh v @ nl, 0)}"
    and "(TAB # n @ '' '' @ itoh v @ nl, 8) \<in> asm_ok env"
proof -
  obtain c where "entry c (Some n) CSEG parm1 \<in> set (tl opcodelist)" using parm1_entry [OF assms] ..
  from entry_plain [OF this] have "NUL \<notin> set n" by (auto simp: plain_name_def list_all_iff)
  then have "NUL \<notin> set (TAB # n @ '' '')" by simp
  from emits_block [OF emits_stgwrite [OF this] emits_block [OF emits_outval(1) emits_nil]]
  show "emits (block [stgwrite (TAB # n @ '' ''), outval v True]) {(TAB # n @ '' '' @ itoh v @ nl, 0)}" by simp
  show "(TAB # n @ '' '' @ itoh v @ nl, 8) \<in> asm_ok env"
    using asm1 [OF assms, of "[]" v env] by (simp add: line_tail_def)
qed

lemma marked_parm1:
  assumes "\<exists>n \<in> set parm1_names. a = stgwrite (TAB # n @ '' '')"
  shows "emits (forget (\<lambda>s. bindR (block [a, outval v True] s) (\<lambda>s1. bindR (m s1) (\<lambda>x.
    bindR (add_code_idx (opcodes 1 + opargs 1) s1) (\<lambda>s2. Inr (x, s2)))))) (asm_ok env)"
proof -
  obtain n where n: "n \<in> set parm1_names" and a: "a = stgwrite (TAB # n @ '' '')" using assms by blast
  show ?thesis
    by (rule emits_mono [OF forget_marked [OF pair_parm1(1) [OF n] emits_add, folded a]])
       (use pair_parm1(2) [OF n] in \<open>simp add: opcodes_def opargs_def\<close>)
qed

lemma block_parm1_if:
  assumes "\<exists>n \<in> set parm1_names. a = stgwrite (TAB # n @ '' '')"
  shows "emits (block [a, outval v True, add_code_idx (opcodes 1 + opargs 1)]) (asm_ok env)"
  using assms block_parm1 by blast

lemma emits_assert_first:
  assumes "emits (forget (\<lambda>s. bindR (block as s) (f s))) A"
  shows "emits (forget (\<lambda>s. bindR (block (assertA b # as) s) (f s))) A"
  by (rule emits_weaken [OF _ assms]) (auto simp: forget_def assertA_def bindR_Inr_iff)

lemma forget_if: "emits (forget f) A \<Longrightarrow> emits (forget g) A \<Longrightarrow> emits (forget (if b then f else g)) A"
  by simp

lemma gen_rvalue: "emits (forget (rvalue lval)) (asm_ok env)"
proof -
  have ref: "emits (forget (\<lambda>s. bindR (block [assertA (svclass sy = sLOCAL),
        if svclass sy = sLOCAL then stgwrite (tab @ ''lref.s.pri '') else stgwrite (tab @ ''lref.pri ''),
        outval (saddr sy) True] s) (\<lambda>s1. bindR (markusage (curfunc s1) uREAD sy) (\<lambda>sy'.
        bindR (add_code_idx (opcodes 1 + opargs 1) s1) (\<lambda>s2. Inr (sy', s2)))))) (asm_ok env)" for sy
    by (rule emits_assert_first, rule marked_parm1) (simp add: parm1_names_def)
  have var: "emits (forget (\<lambda>s. bindR (block [
        if svclass sy = sLOCAL then stgwrite (tab @ ''load.s.pri '') else stgwrite (tab @ ''load.pri ''),
        outval (saddr sy) True] s) (\<lambda>s1. bindR (markusage (curfunc s1) uREAD sy) (\<lambda>sy'.
        bindR (add_code_idx (opcodes 1 + opargs 1) s1) (\<lambda>s2. Inr (sy', s2)))))) (asm_ok env)" for sy
    by (rule marked_parm1) (simp add: parm1_names_def)
  have arr: "emits (block [stgwrite (tab @ ''load.i'' @ nl), add_code_idx (opcodes 1)]) (asm_ok env)"
    "emits (block [stgwrite (tab @ ''lodb.i ''), outval sCHARBYTES True, add_code_idx (opcodes 1 + opargs 1)]) (asm_ok env)"
    using block_parm0 [of "''load.i''" env] block_parm1 [of "''lodb.i''" sCHARBYTES env]
    by (simp_all add: parm0_names_def parm1_names_def)
  show ?thesis
    unfolding rvalue_def
    by (rule forget_if [OF forget_keep_val [OF arr(1)] forget_if [OF forget_keep_val [OF arr(2)]
         forget_if [OF forget_with_sym forget_with_sym]]], rule ref, rule var)
qed

lemma gen_address: "emits (forget (address sy reg)) (asm_ok env)"
proof -
  have f: "forget (address sy reg) = forget (\<lambda>s. bindR (block [if sident sy = iREFARRAY \<or> sident sy = iREFERENCE
                   then (case reg of sPRI \<Rightarrow> stgwrite (tab @ ''load.s.pri '')
                                   | sALT \<Rightarrow> stgwrite (tab @ ''load.s.alt ''))
                   else (case reg of
                           sPRI \<Rightarrow> if svclass sy = sLOCAL then stgwrite (tab @ ''addr.pri '')
                                   else stgwrite (tab @ ''const.pri '')
                         | sALT \<Rightarrow> if svclass sy = sLOCAL then stgwrite (tab @ ''addr.alt '')
                                   else stgwrite (tab @ ''const.alt '')),
                   outval (saddr sy) True] s) (\<lambda>s1. bindR (markusage (curfunc s1) uREAD sy) (\<lambda>sy'.
        bindR (add_code_idx (opcodes 1 + opargs 1) s1) (\<lambda>s2. Inr (sy', s2)))))"
    by (simp add: fun_eq_iff forget_def address_def)
  show ?thesis unfolding f by (rule marked_parm1) (simp add: parm1_names_def split: regid.splits)
qed

lemma gen_store: "emits (forget (store lval)) (asm_ok env)"
proof -
  have ref: "emits (forget (\<lambda>s. bindR (block [
        if svclass sy = sLOCAL then stgwrite (tab @ ''sref.s.pri '') else stgwrite (tab @ ''sref.pri ''),
        outval (saddr sy) True, add_code_idx (opcodes 1 + opargs 1)] s) (\<lambda>s1. Inr (sy, s1)))) (asm_ok env)" for sy
    by (rule forget_last, rule block_parm1_if) (simp add: parm1_names_def)
  have var: "emits (forget (\<lambda>s. bindR (markusage (curfunc s) uWRITTEN sy) (\<lambda>sy'. bindR (block [
        if svclass sy = sLOCAL then stgwrite (tab @ ''stor.s.pri '') else stgwrite (tab @ ''stor.pri ''),
        outval (saddr sy) True, add_code_idx (opcodes 1 + opargs 1)] s) (\<lambda>s1. Inr (sy', s1))))) (asm_ok env)" for sy
    by (rule forget_first, rule block_parm1_if) (simp add: parm1_names_def)
  have arr: "emits (block [stgwrite (tab @ ''stor.i'' @ nl), add_code_idx (opcodes 1)]) (asm_ok env)"
    "emits (block [stgwrite (tab @ ''strb.i ''), outval sCHARBYTES True, add_code_idx (opcodes 1 + opargs 1)]) (asm_ok env)"
    using block_parm0 [of "''stor.i''" env] block_parm1 [of "''strb.i''" sCHARBYTES env]
    by (simp_all add: parm0_names_def parm1_names_def)
  show ?thesis
    unfolding store_def
    by (rule forget_if [OF forget_keep_val [OF arr(1)] forget_if [OF forget_keep_val [OF arr(2)]
         forget_if [OF forget_with_sym forget_with_sym]]], rule ref, rule var)
qed

text \<open>The instruction that brings an array's address into ALT, its operand apart.\<close>

lemma array_alt_name:
  "\<exists>n \<in> set parm1_names. \<forall>s u. array_alt sy s = Inr u \<longrightarrow> stgwrite (TAB # n @ '' '') s = Inr u"
proof -
  define n where "n = (if sident sy = iREFARRAY then ''load.s.alt''
      else if svclass sy = sLOCAL then ''addr.alt'' else ''const.alt'')"
  have "stgwrite (TAB # n @ '' '') s = Inr u" if "array_alt sy s = Inr u" for s u
    using that by (auto simp: array_alt_def assertA_def bindR_Inr_iff n_def split: if_splits)
  moreover have "n \<in> set parm1_names" by (simp add: n_def parm1_names_def)
  ultimately show ?thesis by blast
qed

lemma gen_array_alt:
  "\<exists>n \<in> set parm1_names. emits (block [array_alt sy, outval v True]) {(TAB # n @ '' '' @ itoh v @ nl, 0)}"
proof -
  obtain n where n: "n \<in> set parm1_names"
    "\<And>s u. array_alt sy s = Inr u \<Longrightarrow> stgwrite (TAB # n @ '' '') s = Inr u" using array_alt_name by blast
  have "emits (block [array_alt sy, outval v True]) {(TAB # n @ '' '' @ itoh v @ nl, 0)}"
    by (rule emits_weaken [OF _ pair_parm1(1) [OF n(1)]]) (auto simp: bindR_Inr_iff dest: n(2))
  then show ?thesis using n(1) by blast
qed

lemma gen_copyarray: "emits (forget (copyarray sy n)) (asm_ok env)"
proof -
  obtain k where k: "k \<in> set parm1_names"
    "emits (block [array_alt sy, outval (saddr sy) True]) {(TAB # k @ '' '' @ itoh (saddr sy) @ nl, 0)}"
    using gen_array_alt by blast
  have m: "emits (block [add_code_idx (opcodes 1 + opargs 1), memcopy n]) {(TAB # ''movs '' @ itoh n @ nl, 16)}"
    unfolding memcopy_def by (rule emits_mono, (rule emits_intros | (simp; fail))+) (simp add: opcodes_def opargs_def)
  have f: "forget (copyarray sy n) = forget (\<lambda>s. bindR (block [array_alt sy, outval (saddr sy) True] s) (\<lambda>s1.
     bindR (markusage (curfunc s1) uWRITTEN sy) (\<lambda>sy'.
     bindR (block [add_code_idx (opcodes 1 + opargs 1), memcopy n] s1) (\<lambda>s2. Inr (sy', s2)))))"
    by (simp add: fun_eq_iff forget_def copyarray_def)
  show ?thesis
    unfolding f
    by (rule emits_mono [OF forget_marked [OF k(2) m]])
       (use asm_ok_append [OF pair_parm1(2) [OF k(1)] pair_parm1(2) [of "''movs''" n env]] in \<open>simp add: parm1_names_def\<close>)
qed

lemma if_emits: "emits f A \<Longrightarrow> emits g A \<Longrightarrow> emits (if b then f else g) A"
  by simp

lemma gen_inc: "emits (inc lval) (asm_ok env)"
proof -
  have cell: "emits (block [stgwrite (tab @ ''inc.i'' @ nl), add_code_idx (opcodes 1)]) (asm_ok env)"
    using block_parm0 [of "''inc.i''" env] by (simp add: parm0_names_def)
  have char: "emits (block [stgwrite (tab @ ''push.pri'' @ nl), stgwrite (tab @ ''push.alt'' @ nl),
      stgwrite (tab @ ''move.alt'' @ nl), stgwrite (tab @ ''lodb.i ''), outval sCHARBYTES True,
      stgwrite (tab @ ''inc.pri'' @ nl), stgwrite (tab @ ''strb.i ''), outval sCHARBYTES True,
      stgwrite (tab @ ''pop.alt'' @ nl), stgwrite (tab @ ''pop.pri'' @ nl), add_code_idx (opcodes 8 + opargs 2)]) (asm_ok env)"
    by (rule emits_mono, (rule emits_intros | (simp; fail))+) (use asm_ok_append [OF asm0 [of "''push.pri''" "[]" env] asm_ok_append [OF asm0 [of "''push.alt''" "[]" env] asm_ok_append [OF asm0 [of "''move.alt''" "[]" env] asm_ok_append [OF asm1 [of "''lodb.i''" "[]" "sCHARBYTES" env] asm_ok_append [OF asm0 [of "''inc.pri''" "[]" env] asm_ok_append [OF asm1 [of "''strb.i''" "[]" "sCHARBYTES" env] asm_ok_append [OF asm0 [of "''pop.alt''" "[]" env] asm0 [of "''pop.pri''" "[]" env]]]]]]]] in \<open>simp add: line_defs\<close>)
  have ref: "emits (block [stgwrite (tab @ ''push.pri'' @ nl), assertA (svclass sy = sLOCAL),
      stgwrite (tab @ ''lref.s.pri ''), outval (saddr sy) True, stgwrite (tab @ ''inc.pri'' @ nl),
      stgwrite (tab @ ''sref.s.pri ''), outval (saddr sy) True, stgwrite (tab @ ''pop.pri'' @ nl),
      add_code_idx (opcodes 5 + opargs 2)]) (asm_ok env)" for sy
    by (rule emits_mono, (rule emits_intros | (simp; fail))+) (use asm_ok_append [OF asm0 [of "''push.pri''" "[]" env] asm_ok_append [OF asm1 [of "''lref.s.pri''" "[]" "saddr sy" env] asm_ok_append [OF asm0 [of "''inc.pri''" "[]" env] asm_ok_append [OF asm1 [of "''sref.s.pri''" "[]" "saddr sy" env] asm0 [of "''pop.pri''" "[]" env]]]]] in \<open>simp add: line_defs\<close>)
  have ref': "emits (block [stgwrite (tab @ ''push.pri'' @ nl), assertA (svclass sy = sLOCAL),
      if svclass sy = sLOCAL then stgwrite (tab @ ''lref.s.pri '') else stgwrite (tab @ ''lref.pri ''),
      outval (saddr sy) True, stgwrite (tab @ ''inc.pri'' @ nl),
      if svclass sy = sLOCAL then stgwrite (tab @ ''sref.s.pri '') else stgwrite (tab @ ''sref.pri ''),
      outval (saddr sy) True, stgwrite (tab @ ''pop.pri'' @ nl), add_code_idx (opcodes 5 + opargs 2)]) (asm_ok env)" for sy
  proof (cases "svclass sy = sLOCAL")
    case True
    show ?thesis using ref [of sy] by (simp only: True if_True simp_thms)
  next
    case False
    show ?thesis by (rule emits_weaken [OF _ emits_fail]) (auto simp: False bindR_Inr_iff assertA_def)
  qed
  have var: "emits (block [if svclass sy = sLOCAL then stgwrite (tab @ ''inc.s '') else stgwrite (tab @ ''inc ''),
      outval (saddr sy) True, add_code_idx (opcodes 1 + opargs 1)]) (asm_ok env)" for sy
    by (rule block_parm1_if) (simp add: parm1_names_def)
  show ?thesis
  proof (cases "lsym lval")
    case None
    then show ?thesis unfolding inc_def option.case None by (intro if_emits cell char emits_fail)
  next
    case (Some sy)
    show ?thesis unfolding inc_def option.case Some by (intro if_emits cell char ref' var)
  qed
qed

lemma gen_dec: "emits (dec lval) (asm_ok env)"
proof -
  have cell: "emits (block [stgwrite (tab @ ''dec.i'' @ nl), add_code_idx (opcodes 1)]) (asm_ok env)"
    using block_parm0 [of "''dec.i''" env] by (simp add: parm0_names_def)
  have char: "emits (block [stgwrite (tab @ ''push.pri'' @ nl), stgwrite (tab @ ''push.alt'' @ nl),
      stgwrite (tab @ ''move.alt'' @ nl), stgwrite (tab @ ''lodb.i ''), outval sCHARBYTES True,
      stgwrite (tab @ ''dec.pri'' @ nl), stgwrite (tab @ ''strb.i ''), outval sCHARBYTES True,
      stgwrite (tab @ ''pop.alt'' @ nl), stgwrite (tab @ ''pop.pri'' @ nl), add_code_idx (opcodes 8 + opargs 2)]) (asm_ok env)"
    by (rule emits_mono, (rule emits_intros | (simp; fail))+) (use asm_ok_append [OF asm0 [of "''push.pri''" "[]" env] asm_ok_append [OF asm0 [of "''push.alt''" "[]" env] asm_ok_append [OF asm0 [of "''move.alt''" "[]" env] asm_ok_append [OF asm1 [of "''lodb.i''" "[]" "sCHARBYTES" env] asm_ok_append [OF asm0 [of "''dec.pri''" "[]" env] asm_ok_append [OF asm1 [of "''strb.i''" "[]" "sCHARBYTES" env] asm_ok_append [OF asm0 [of "''pop.alt''" "[]" env] asm0 [of "''pop.pri''" "[]" env]]]]]]]] in \<open>simp add: line_defs\<close>)
  have ref: "emits (block [stgwrite (tab @ ''push.pri'' @ nl), assertA (svclass sy = sLOCAL),
      stgwrite (tab @ ''lref.s.pri ''), outval (saddr sy) True, stgwrite (tab @ ''dec.pri'' @ nl),
      stgwrite (tab @ ''sref.s.pri ''), outval (saddr sy) True, stgwrite (tab @ ''pop.pri'' @ nl),
      add_code_idx (opcodes 5 + opargs 2)]) (asm_ok env)" for sy
    by (rule emits_mono, (rule emits_intros | (simp; fail))+) (use asm_ok_append [OF asm0 [of "''push.pri''" "[]" env] asm_ok_append [OF asm1 [of "''lref.s.pri''" "[]" "saddr sy" env] asm_ok_append [OF asm0 [of "''dec.pri''" "[]" env] asm_ok_append [OF asm1 [of "''sref.s.pri''" "[]" "saddr sy" env] asm0 [of "''pop.pri''" "[]" env]]]]] in \<open>simp add: line_defs\<close>)
  have ref': "emits (block [stgwrite (tab @ ''push.pri'' @ nl), assertA (svclass sy = sLOCAL),
      if svclass sy = sLOCAL then stgwrite (tab @ ''lref.s.pri '') else stgwrite (tab @ ''lref.pri ''),
      outval (saddr sy) True, stgwrite (tab @ ''dec.pri'' @ nl),
      if svclass sy = sLOCAL then stgwrite (tab @ ''sref.s.pri '') else stgwrite (tab @ ''sref.pri ''),
      outval (saddr sy) True, stgwrite (tab @ ''pop.pri'' @ nl), add_code_idx (opcodes 5 + opargs 2)]) (asm_ok env)" for sy
  proof (cases "svclass sy = sLOCAL")
    case True
    show ?thesis using ref [of sy] by (simp only: True if_True simp_thms)
  next
    case False
    show ?thesis by (rule emits_weaken [OF _ emits_fail]) (auto simp: False bindR_Inr_iff assertA_def)
  qed
  have var: "emits (block [if svclass sy = sLOCAL then stgwrite (tab @ ''dec.s '') else stgwrite (tab @ ''dec ''),
      outval (saddr sy) True, add_code_idx (opcodes 1 + opargs 1)]) (asm_ok env)" for sy
    by (rule block_parm1_if) (simp add: parm1_names_def)
  show ?thesis
  proof (cases "lsym lval")
    case None
    then show ?thesis unfolding dec_def option.case None by (intro if_emits cell char emits_fail)
  next
    case (Some sy)
    show ?thesis unfolding dec_def option.case Some by (intro if_emits cell char ref' var)
  qed
qed

lemma gen_fillarray: "emits (forget (fillarray sy n val)) (asm_ok env)"
proof -
  obtain k where k: "k \<in> set parm1_names"
    "emits (block [array_alt sy, outval (saddr sy) True]) {(TAB # k @ '' '' @ itoh (saddr sy) @ nl, 0)}"
    using gen_array_alt by blast
  have m: "emits (block [assertA (0 < sint n), stgwrite (tab @ ''fill ''), outval n True, add_code_idx (opcodes 2 + opargs 2)])
      {(TAB # ''fill '' @ itoh n @ nl, 16)}"
    by (rule emits_mono, (rule emits_intros | (simp; fail))+) (simp add: opcodes_def opargs_def)
  have f: "forget (fillarray sy n val) = forget (\<lambda>s. bindR (block [ldconst val sPRI, array_alt sy, outval (saddr sy) True] s) (\<lambda>s1.
     bindR (markusage (curfunc s1) uWRITTEN sy) (\<lambda>sy'.
     bindR (block [assertA (0 < sint n), stgwrite (tab @ ''fill ''), outval n True, add_code_idx (opcodes 2 + opargs 2)] s1)
       (\<lambda>s2. Inr (sy', s2)))))"
    by (simp add: fun_eq_iff forget_def fillarray_def)
  have two: "(TAB # k @ '' '' @ itoh (saddr sy) @ nl @ TAB # ''fill '' @ itoh n @ nl, 16) \<in> asm_ok env"
    using asm_ok_append [OF pair_parm1(2) [OF k(1)] pair_parm1(2) [of "''fill''" n env]] by (simp add: parm1_names_def)
  have "(x @ TAB # k @ '' '' @ itoh (saddr sy) @ nl @ TAB # ''fill '' @ itoh n @ nl, j + 16) \<in> asm_ok env"
    if "(x, j) \<in> asm_ok env" for x j using asm_ok_append [OF that two] .
  then show ?thesis
    unfolding f
    by (intro emits_mono [OF forget_marked [OF emits_block [OF gen_ldconst k(2)] m]]) (auto simp: then_out_def)
qed

lemma gen_ffswitch: "label_num env label \<Longrightarrow> emits (ffswitch label) (asm_ok env)"
  unfolding ffswitch_def
  by (rule emits_mono, (rule emits_intros | (simp; fail))+) (use asm_switch [of "[]" env label] in \<open>simp add: line_defs\<close>)

lemma gen_ffcase:
  assumes "label_num env l"
  shows "emits (ffcase val (itoh l) newtable) (asm_ok env)"
proof -
  have tb: "emits (whenA newtable (block [stgwrite (tab @ ''casetbl'' @ nl), add_code_idx (opcodes 1)])) (asm_ok env)"
    by (rule emits_whenA) (use block_parm0 [of "''casetbl''" env] in \<open>simp add: parm0_names_def\<close>)
  have "emits (block [stgwrite (tab @ ''case ''), outval val False, stgwrite '' '', stgwrite (itoh l),
      stgwrite nl, add_code_idx (opcodes 0 + opargs 2)]) (asm_ok env)"
    by (rule emits_mono, (rule emits_intros | (simp add: itoh_chars; fail))+)
       (use asm_case [OF assms, of val] in \<open>simp add: opcodes_def opargs_def\<close>)
  from emits_seq [OF tb this] show ?thesis by (simp add: ffcase_def)
qed

lemma emits_note:
  assumes "line_text x"
  shows "emits (\<lambda>s. if b s then block [stgwrite (tab @ ''; ''), stgwrite x] s else Inr s) {([], 0), (tab @ ''; '' @ x, 0)}"
proof (rule emits_if_state)
  have n: "NUL \<notin> set x" using assms by (simp add: line_text_def)
  have "emits (block [stgwrite (tab @ ''; ''), stgwrite x]) {(tab @ ''; '' @ x, 0)}"
    by (rule emits_mono, (rule emits_intros | (simp add: n; fail))+)
  then show "emits (block [stgwrite (tab @ ''; ''), stgwrite x]) {([], 0), (tab @ ''; '' @ x, 0)}"
    by (rule emits_mono) simp
  show "emits Inr {([], 0), (tab @ ''; '' @ x, 0)}" by (rule emits_mono [OF emits_skip]) simp
qed

lemma note_tail: "line_text x \<Longrightarrow> r = [] \<or> r = tab @ ''; '' @ x \<Longrightarrow> line_tail r"
  using comment_tail [of x] by (auto simp: line_text_def line_tail_def)

lemma native_call_block:
  assumes "line_text x"
  shows "emits (block [stgwrite (tab @ ''sysreq.c ''), outval a False,
     \<lambda>s. if sc_asmfile s then block [stgwrite (tab @ ''; ''), stgwrite x] s else Inr s,
     stgwrite (nl @ tab @ ''stack ''), outval n True, add_code_idx (opcodes 2 + opargs 2)]) (asm_ok env)"
proof -
  have l: "(TAB # ''sysreq.c'' @ CHR '' '' # itoh a @ r @ nl @ TAB # ''stack '' @ itoh n @ nl, 16) \<in> asm_ok env"
    if "r = [] \<or> r = tab @ ''; '' @ x" for r
    using asm_ok_append [OF asm1 [of "''sysreq.c''" r a env] asm1 [of "''stack''" "[]" n env]] note_tail [OF assms that]
    by (simp add: line_defs)
  show ?thesis
    by (rule emits_mono, (rule emits_note [OF assms] emits_intros | (simp; fail))+)
       (use l [of "[]"] l [of "tab @ ''; '' @ x"] in \<open>auto simp: then_out_def opcodes_def opargs_def\<close>)
qed

lemma call_block:
  assumes x: "line_text x" and t: "call_target env name" and a: "emits a {(name, 0)}"
  shows "emits (block [stgwrite (tab @ ''call ''), a,
     \<lambda>s. if b s then block [stgwrite (tab @ ''; ''), stgwrite x] s else Inr s,
     stgwrite nl, add_code_idx (opcodes 1 + opargs 1)]) (asm_ok env)"
proof -
  have l: "(TAB # ''call'' @ CHR '' '' # name @ r @ nl, 8) \<in> asm_ok env"
    if "r = [] \<or> r = tab @ ''; '' @ x" for r
    using asm_call [OF t note_tail [OF x that]] .
  show ?thesis
    by (rule emits_mono, (rule emits_note [OF x] a emits_intros | (simp; fail))+)
       (use l [of "[]"] l [of "tab @ ''; '' @ x"] in \<open>auto simp: then_out_def opcodes_def opargs_def\<close>)
qed

text \<open>The name a call is written with.\<close>

definition call_name :: "symbol \<Rightarrow> string option \<Rightarrow> string" where
  "call_name sy label = (case label of Some l \<Rightarrow> ''l.'' @ l | None \<Rightarrow> sname sy)"

lemma emits_call_name:
  assumes "NUL \<notin> set (call_name sy label)"
  shows "emits (case label of Some l \<Rightarrow> block [stgwrite ''l.'', stgwrite l] | None \<Rightarrow> stgwrite (sname sy)) {(call_name sy label, 0)}"
proof (cases label)
  case None
  then show ?thesis using assms emits_stgwrite by (simp add: call_name_def)
next
  case (Some l)
  then have n: "NUL \<notin> set l" using assms by (simp add: call_name_def)
  have "emits (block [stgwrite ''l.'', stgwrite l]) {(''l.'' @ l, 0)}"
    by (rule emits_mono, (rule emits_intros | (simp add: n; fail))+)
  then show ?thesis using Some by (simp add: call_name_def)
qed

lemma gen_ffcall:
  assumes nm: "line_text (sname sy)" and t: "has_usage sy uNATIVE \<or> call_target env (call_name sy label)"
  shows "emits (forget (ffcall sy label numargs)) (asm_ok env)"
proof (rule emits_from)
  fix s t' assume r: "ready s" and run: "forget (ffcall sy label numargs) s = Inr t'"
  obtain x where x: "(if sc_asmfile s then funcdisplayname (tagname_tab s) (sname sy) else Inr []) = Inr x"
    using run by (cases "if sc_asmfile s then funcdisplayname (tagname_tab s) (sname sy) else Inr []")
      (auto simp: forget_def ffcall_def bindR_Inr_iff)
  have lt: "line_text x"
    using x funcdisplayname_line_text [OF _ nm] r by (auto simp: ready_def line_text_def split: if_splits)
  show "\<exists>g s1. emits g (asm_ok env) \<and> g s1 = Inr t' \<and> ready s1 \<and> same_flags s s1
      \<and> text_of s1 = text_of s \<and> code_idx s1 = code_idx s"
  proof (cases "has_usage sy uNATIVE")
    case True
    define reserve where "reserve \<longleftrightarrow> sc_status s = StatWRITE \<and> \<not> has_usage sy uREAD \<and> 0 \<le> sint (saddr sy)"
    define sy' where "sy' = (if reserve then sy\<lparr>saddr := ntv_funcid s\<rparr> else sy)"
    define s1 where "s1 = (if reserve then s\<lparr>ntv_funcid := ntv_funcid s + 1\<rparr> else s)"
    have "block [stgwrite (tab @ ''sysreq.c ''), outval (saddr sy') False,
       \<lambda>s. if sc_asmfile s then block [stgwrite (tab @ ''; ''), stgwrite x] s else Inr s,
       stgwrite (nl @ tab @ ''stack ''), outval ((numargs + 1) * cell_bytes) True, add_code_idx (opcodes 2 + opargs 2)] s1 = Inr t'"
      using run True x unfolding forget_def ffcall_def Let_def
      by (auto simp: bindR_Inr_iff reserve_def sy'_def s1_def simp del: block.simps)
    moreover have "ready s1" "same_flags s s1" "text_of s1 = text_of s" "code_idx s1 = code_idx s"
      using r by (auto simp: s1_def ready_def same_flags_def stg_ok_def text_of_def staged_def cbuf_def)
    ultimately show ?thesis using native_call_block [OF lt] by blast
  next
    case False
    then have ct: "call_target env (call_name sy label)" using t by simp
    have "NUL \<notin> set (call_name sy label)" using ct by (auto simp: call_target_def list_all_iff)
    note a = call_block [OF lt ct emits_call_name [OF this], of "\<lambda>s. sc_asmfile s \<and> (label \<noteq> None \<or>
         (\<forall>c \<in> set (take 1 (sname sy)). \<not> isalpha c \<and> c \<noteq> CHR ''_'' \<and> c \<noteq> sc_ctrlchar s))"]
    have "block [stgwrite (tab @ ''call ''),
       case label of Some l \<Rightarrow> block [stgwrite ''l.'', stgwrite l] | None \<Rightarrow> stgwrite (sname sy),
       \<lambda>s. if sc_asmfile s \<and> (label \<noteq> None \<or>
           (\<forall>c \<in> set (take 1 (sname sy)). \<not> isalpha c \<and> c \<noteq> CHR ''_'' \<and> c \<noteq> sc_ctrlchar s))
         then block [stgwrite (tab @ ''; ''), stgwrite x] s else Inr s,
       stgwrite nl, add_code_idx (opcodes 1 + opargs 1)] s = Inr t'"
      using run False x unfolding forget_def ffcall_def Let_def
      by (auto simp: bindR_Inr_iff simp del: block.simps)
    moreover have "same_flags s s" by (simp add: same_flags_def)
    ultimately show ?thesis using a r by blast
  qed
qed

section \<open>The step relation of the code generator\<close>

text \<open>A call of a routine that writes code, with what its operands must satisfy: jumps and cases
  name labels that exist, a call names a function of the global table or a label, names and
  comments fit in a line.\<close>

inductive gen_call :: "asmenv \<Rightarrow> act \<Rightarrow> bool" for env where
  rvalue: "gen_call env (forget (rvalue lval))"
| address: "gen_call env (forget (address sy reg))"
| store: "gen_call env (forget (store lval))"
| storereg: "gen_call env (storereg addr reg)"
| memcopy: "gen_call env (memcopy n)"
| copyarray: "gen_call env (forget (copyarray sy n))"
| fillarray: "gen_call env (forget (fillarray sy n val))"
| ldconst: "gen_call env (ldconst val reg)"
| moveto1: "gen_call env moveto1"
| pushreg: "gen_call env (pushreg reg)"
| pushval: "gen_call env (pushval val)"
| popreg: "gen_call env (popreg reg)"
| swap1: "gen_call env swap1"
| ffswitch: "label_num env label \<Longrightarrow> gen_call env (ffswitch label)"
| ffcase: "label_num env l \<Longrightarrow> gen_call env (ffcase val (itoh l) newtable)"
| ffcall: "line_text (sname sy) \<Longrightarrow> has_usage sy uNATIVE \<or> call_target env (call_name sy label) \<Longrightarrow>
    gen_call env (forget (ffcall sy label numargs))"
| ffret: "gen_call env ffret"
| ffabort: "gen_call env (ffabort reason)"
| ffbounds: "gen_call env (ffbounds n)"
| jumplabel: "label_num env number \<Longrightarrow> gen_call env (jumplabel number)"
| jmp_ne0: "label_num env number \<Longrightarrow> gen_call env (jmp_ne0 number)"
| jmp_eq0: "label_num env number \<Longrightarrow> gen_call env (jmp_eq0 number)"
| modstk: "gen_call env (modstk delta)"
| setstk: "gen_call env (setstk val)"
| modheap: "gen_call env (modheap delta)"
| setheap_pri: "gen_call env setheap_pri"
| setheap: "gen_call env (setheap val)"
| cell2addr: "gen_call env cell2addr"
| cell2addr_alt: "gen_call env cell2addr_alt"
| addr2cell: "gen_call env addr2cell"
| char2addr: "gen_call env char2addr"
| charalign: "gen_call env charalign"
| addconst: "gen_call env (addconst val)"
| os_mult: "gen_call env os_mult" | os_div: "gen_call env os_div" | os_mod: "gen_call env os_mod"
| ob_add: "gen_call env ob_add" | ob_sub: "gen_call env ob_sub" | ob_sal: "gen_call env ob_sal"
| os_sar: "gen_call env os_sar" | ou_sar: "gen_call env ou_sar" | ob_or: "gen_call env ob_or"
| ob_xor: "gen_call env ob_xor" | ob_and: "gen_call env ob_and" | ob_eq: "gen_call env ob_eq"
| ob_ne: "gen_call env ob_ne" | relop_prefix: "gen_call env relop_prefix"
| relop_suffix: "gen_call env relop_suffix" | os_lt: "gen_call env os_lt" | os_le: "gen_call env os_le"
| os_gt: "gen_call env os_gt" | os_ge: "gen_call env os_ge" | lneg: "gen_call env lneg"
| neg: "gen_call env neg" | invert: "gen_call env invert" | nooperation: "gen_call env nooperation"
| inc: "gen_call env (inc lval)"
| dec: "gen_call env (dec lval)"
| alignframe: "gen_call env (alignframe numbytes)"
| startfunc: "line_text fname \<Longrightarrow> gen_call env (startfunc fname)"
| endfunc: "gen_call env endfunc"
| setline: "gen_call env (setline chk)"
| begcseg: "gen_call env begcseg"
| begdseg: "gen_call env begdseg"
| markexpr: "(\<And>n. nm = Some n \<Longrightarrow> line_text n) \<Longrightarrow> gen_call env (markexpr m nm offset)"

lemma gen_call_emits: "gen_call env a \<Longrightarrow> emits a (asm_ok env)"
  by (induction rule: gen_call.induct)
     (simp_all add: gen_rvalue gen_address gen_store gen_storereg gen_memcopy gen_copyarray gen_fillarray
       gen_ldconst gen_moveto1 gen_pushreg gen_pushval gen_popreg gen_swap1 gen_ffswitch
       gen_ffcase gen_ffcall gen_ffret gen_ffabort gen_ffbounds gen_jumplabel gen_jmp_ne0
       gen_jmp_eq0 gen_modstk gen_setstk gen_modheap gen_setheap_pri gen_setheap gen_cell2addr
       gen_cell2addr_alt gen_addr2cell gen_char2addr gen_charalign gen_addconst gen_os_mult
       gen_os_div gen_os_mod gen_ob_add gen_ob_sub gen_ob_sal gen_os_sar gen_ou_sar gen_ob_or
       gen_ob_xor gen_ob_and gen_ob_eq gen_ob_ne gen_relop_prefix gen_relop_suffix gen_os_lt
       gen_os_le gen_os_gt gen_os_ge gen_lneg gen_neg gen_invert gen_nooperation gen_inc gen_dec
       gen_alignframe gen_startfunc gen_endfunc gen_setline gen_begcseg gen_begdseg gen_markexpr)

text \<open>Steps move the compiler's state and the addresses at which labels were set.\<close>

inductive gen_step :: "asmenv \<Rightarrow> cstate \<times> (nat \<Rightarrow> cell) \<Rightarrow> cstate \<times> (nat \<Rightarrow> cell) \<Rightarrow> bool" for env where
  call: "gen_call env a \<Longrightarrow> a s = Inr t \<Longrightarrow> gen_step env (s, lbl) (t, lbl)"
| label: "n < ae_labnum env \<Longrightarrow> setlabel n s = Inr t \<Longrightarrow> gen_step env (s, lbl) (t, lbl(n := code_idx s))"

inductive_simps gen_step_simps: "gen_step env (s, lbl) (t, lbl')"

abbreviation gen_run :: "asmenv \<Rightarrow> cstate \<times> (nat \<Rightarrow> cell) \<Rightarrow> cstate \<times> (nat \<Rightarrow> cell) \<Rightarrow> bool" where
  "gen_run env \<equiv> (gen_step env)\<^sup>*\<^sup>*"

definition simulated :: "asmenv \<Rightarrow> cstate \<times> (nat \<Rightarrow> cell) \<Rightarrow> cstate \<times> (nat \<Rightarrow> cell) \<Rightarrow> bool" where
  "simulated env x y \<longleftrightarrow> (\<exists>ls. list_all line_text ls
     \<and> text_of (fst y) = text_of (fst x) @ concat (map (\<lambda>l. l @ nl) ls)
     \<and> relocate env (map (\<lambda>l. l @ nl) ls) (code_idx (fst x), snd x) = Inr (code_idx (fst y), snd y))"

lemma simulated_refl: "simulated env x x"
  by (auto simp: simulated_def relocate_def intro: exI [of _ "[]"])

lemma simulated_trans:
  assumes "simulated env x y" and "simulated env y z"
  shows "simulated env x z"
proof -
  obtain ls where ls: "list_all line_text ls" "text_of (fst y) = text_of (fst x) @ concat (map (\<lambda>l. l @ nl) ls)"
    "relocate env (map (\<lambda>l. l @ nl) ls) (code_idx (fst x), snd x) = Inr (code_idx (fst y), snd y)"
    using assms(1) by (auto simp: simulated_def)
  obtain ks where ks: "list_all line_text ks" "text_of (fst z) = text_of (fst y) @ concat (map (\<lambda>l. l @ nl) ks)"
    "relocate env (map (\<lambda>l. l @ nl) ks) (code_idx (fst y), snd y) = Inr (code_idx (fst z), snd z)"
    using assms(2) by (auto simp: simulated_def)
  show ?thesis
    unfolding simulated_def
    using ls(1,2) ks(1,2) ls(3) [unfolded relocate_def] ks(3) [unfolded relocate_def]
    by (intro exI [of _ "ls @ ks"]) (simp add: relocate_def block_append)
qed

lemma call_simulated:
  assumes "gen_call env a" and "ready s" and "a s = Inr t"
  shows "ready t \<and> simulated env (s, lbl) (t, lbl)"
proof -
  obtain x n where x: "ready t" "(x, n) \<in> asm_ok env" "text_of t = text_of s @ x" "code_idx t = code_idx s + n"
    using emitsE [OF gen_call_emits [OF assms(1)] assms(2,3)] .
  then show ?thesis by (auto simp: simulated_def asm_ok_def list_all_iff line_text_def)
qed

lemma scan_label:
  assumes "r = [] \<or> (\<exists>x. r = tab @ tab @ ''; '' @ x)"
  shows "\<exists>r'. scan_line ((''l.'' @ itoh v @ r) @ nl) = LabelLine (itoh v @ r') \<and> (\<forall>c cs. r' = c # cs \<longrightarrow> \<not> ishex c)"
proof -
  have "CHR '';'' \<notin> set (''l.'' @ itoh v)" by (simp add: itoh_chars)
  from stripcomment_prefix [OF this, of "r @ nl"]
  have "stripcomment ((''l.'' @ itoh v @ r) @ nl) = (''l.'' @ itoh v) @ stripcomment (r @ nl)" by simp
  moreover have "\<exists>c cs. stripcomment (r @ nl) = c # cs \<and> \<not> ishex c"
    using assms by (auto simp: stripcomment_def ishex_def isdigit_def code_of_def)
  ultimately show ?thesis
    by (auto simp: scan_line_def skipwhitespace_def isspace_def code_of_def tolower_def isupper_def)
qed

lemma label_simulated:
  assumes n: "n < ae_labnum env" and big: "ae_labnum env \<le> 2 ^ 31" and s: "ready s" and run: "setlabel n s = Inr t"
  shows "ready t \<and> simulated env (s, lbl) (t, lbl(n := code_idx s))"
proof -
  have v: "unat (of_nat n :: cell) = n" "0 \<le> sint (of_nat n :: cell)" "sint (of_nat n :: cell) < int (ae_labnum env)"
    using n big by (simp_all add: unat_of_nat signed_of_nat signed_take_bit_int_eq_self take_bit_nat_eq_self)
  define out where "out = insert (''l.'' @ itoh (of_nat n) @ nl, 0 :: cell)
    (range (\<lambda>v. (''l.'' @ itoh (of_nat n) @ (tab @ tab @ ''; '' @ itoh v) @ nl, 0)))"
  have cmt: "emits (\<lambda>s. if \<not> staging s then block [stgwrite (tab @ tab @ ''; ''), \<lambda>s. outval (code_idx s) False s] s else Inr s)
      (insert ([], 0) (range (\<lambda>v. (tab @ tab @ ''; '' @ itoh v, 0))))"
  proof (rule emits_if_state)
    show "emits (block [stgwrite (tab @ tab @ ''; ''), \<lambda>s. outval (code_idx s) False s])
       (insert ([], 0) (range (\<lambda>v. (tab @ tab @ ''; '' @ itoh v, 0))))"
      by (rule emits_mono, (rule emits_intros2 | (simp; fail))+) auto
    show "emits Inr (insert ([], 0) (range (\<lambda>v. (tab @ tab @ ''; '' @ itoh v, 0))))"
      by (rule emits_mono [OF emits_skip]) simp
  qed
  have "emits (setlabel n) out"
    unfolding setlabel_def
    by (rule emits_mono, (rule cmt emits_intros2 | (simp add: itoh_chars; fail))+)
       (auto simp: then_out_def out_def)
  from emitsE [OF this s run] obtain x k where x: "ready t" "(x, k) \<in> out" "text_of t = text_of s @ x"
    "code_idx t = code_idx s + k" by blast
  obtain r where r: "x = (''l.'' @ itoh (of_nat n) @ r) @ nl" "k = 0" "r = [] \<or> (\<exists>x. r = tab @ tab @ ''; '' @ x)"
    "line_text r"
    using x(2) by (auto simp: out_def line_text_def itoh_chars)
  obtain r' where sc: "scan_line ((''l.'' @ itoh (of_nat n) @ r) @ nl) = LabelLine (itoh (of_nat n) @ r')"
    "\<And>c cs. r' = c # cs \<Longrightarrow> \<not> ishex c" using scan_label [OF r(3)] by blast
  have "relocate_line env ((''l.'' @ itoh (of_nat n) @ r) @ nl) (ci, l) = Inr (ci, l(n := ci))" for ci l
    using sc(1) hex2long_itoh [OF sc(2), where v = "of_nat n"] v by (simp add: relocate_line_def label_index_def)
  then have "simulated env (s, lbl) (t, lbl(n := code_idx s))"
    using x(3,4) r
    by (auto simp: simulated_def relocate_def line_text_def itoh_chars intro!: exI [of _ "[''l.'' @ itoh (of_nat n) @ r]"])
  then show ?thesis using x(1) by simp
qed

lemma step_simulated:
  "gen_step env x y \<Longrightarrow> ae_labnum env \<le> 2 ^ 31 \<Longrightarrow> ready (fst x) \<Longrightarrow> ready (fst y) \<and> simulated env x y"
  by (induction rule: gen_step.induct) (auto dest: call_simulated label_simulated)

lemma run_simulated:
  assumes "gen_run env x y" and "ae_labnum env \<le> 2 ^ 31" and "ready (fst x)"
  shows "ready (fst y) \<and> simulated env x y"
  using assms
proof (induction rule: rtranclp_induct)
  case (step y z)
  then show ?case using step_simulated simulated_trans by blast
qed (simp add: simulated_refl)

section \<open>Properties\<close>

text \<open>C1 (sc4.c against the first pass of sc6.c): let the compiler, in its writing pass, make any
  sequence of calls to the code generator and set any labels in between. The text this writes
  consists of whole lines, and when the assembler's first pass reads these lines starting from
  the same count and label table, no assertion of it fails, it arrives at exactly the code
  generator's code index, and each label gets the code index the generator had when it set the
  label. What is still in the staging buffer counts as written; the statement does not cover what the
  reordering and the optimiser do to staged lines afterwards, and to labels between them.\<close>
theorem generated_code_has_its_addresses:
  assumes "gen_run env (s, lbl) (t, lbl')" and "ae_labnum env \<le> 2 ^ 31" and "ready s"
  shows "\<exists>ls. list_all line_text ls \<and> text_of t = text_of s @ concat (map (\<lambda>l. l @ nl) ls)
    \<and> relocate env (map (\<lambda>l. l @ nl) ls) (code_idx s, lbl) = Inr (code_idx t, lbl')"
  using run_simulated [OF assms(1,2)] assms(3) by (simp add: simulated_def)

theorem generated_code_has_its_addresses_witness:
  "\<exists>t lbl' ls. gen_run \<lparr>ae_labnum = 1, ae_lbltab = None, ae_syms = \<lparr>glbtab = [], loctab = [], fcurrent = -1, next_id = 0\<rparr>\<rparr>
      (idle_state False, \<lambda>_. 0) (t, lbl') \<and> lbl' 0 = 8 \<and> code_idx t = 16
    \<and> list_all line_text ls \<and> text_of t = text_of (idle_state False) @ concat (map (\<lambda>l. l @ nl) ls)
    \<and> relocate \<lparr>ae_labnum = 1, ae_lbltab = None, ae_syms = \<lparr>glbtab = [], loctab = [], fcurrent = -1, next_id = 0\<rparr>\<rparr>
        (map (\<lambda>l. l @ nl) ls) (code_idx (idle_state False), \<lambda>_. 0) = Inr (code_idx t, lbl')"
proof -
  let ?env = "\<lparr>ae_labnum = 1, ae_lbltab = None, ae_syms = \<lparr>glbtab = [], loctab = [], fcurrent = -1, next_id = 0\<rparr>\<rparr>"
  have "case pushval 5 (idle_state False) of Inl _ \<Rightarrow> False | Inr s1 \<Rightarrow> code_idx s1 = 8 \<and>
      (case setlabel 0 s1 of Inl _ \<Rightarrow> False | Inr s2 \<Rightarrow>
        (case jumplabel 0 s2 of Inl _ \<Rightarrow> False | Inr s3 \<Rightarrow> code_idx s3 = 16))"
    by code_simp
  then obtain s1 s2 s3 where s: "pushval 5 (idle_state False) = Inr s1" "code_idx s1 = 8"
    "setlabel 0 s1 = Inr s2" "jumplabel 0 s2 = Inr s3" "code_idx s3 = 16"
    by (auto split: sum.splits)
  have a: "gen_step ?env (idle_state False, \<lambda>_. 0) (s1, \<lambda>_. 0)" by (rule gen_step.call [OF gen_call.pushval s(1)])
  have b: "gen_step ?env (s1, \<lambda>_. 0) (s2, (\<lambda>_. 0)(0 := code_idx s1))"
    by (rule gen_step.label [OF _ s(3)]) simp
  have c: "gen_step ?env (s2, (\<lambda>_. 0)(0 := code_idx s1)) (s3, (\<lambda>_. 0)(0 := code_idx s1))"
    by (rule gen_step.call [OF gen_call.jumplabel s(4)]) (simp add: label_num_def)
  have run: "gen_run ?env (idle_state False, \<lambda>_. 0) (s3, (\<lambda>_. 0)(0 := code_idx s1))"
    by (rule rtranclp.rtrancl_into_rtrancl [OF rtranclp.rtrancl_into_rtrancl [OF r_into_rtranclp [of "gen_step ?env", OF a] b] c])
  have "ready (idle_state False)" by (simp add: ready_def stg_ok_def idle_state_def)
  from generated_code_has_its_addresses [OF run _ this] obtain ls where
    "list_all line_text ls" "text_of s3 = text_of (idle_state False) @ concat (map (\<lambda>l. l @ nl) ls)"
    "relocate ?env (map (\<lambda>l. l @ nl) ls) (code_idx (idle_state False), \<lambda>_. 0)
      = Inr (code_idx s3, (\<lambda>_. 0)(0 := code_idx s1))" by auto
  then show ?thesis
    using run s(2,5) by (intro exI [of _ s3] exI [of _ "(\<lambda>_. 0)(0 := code_idx s1)"] exI [of _ ls]) simp
qed

end
