(* ===== verification/ScState.thy ===== *)
theory ScState
  imports ScSym
begin

text \<open>
  Automatons, states and state combinations (scstate.c). Automatons and states are constant
  tables; a state combination is a list of states of one automaton with an id of its own. The
  lemmas show that ids are unique and stable, that adding a combination twice gives the same id,
  what the conflict check reports, and where \<open>state_buildlist\<close> leaves its arrays.
\<close>

section \<open>Automatons and states\<close>

record statelist =
  sl_states :: "int list"
  sl_fsa :: int
  sl_listid :: int

record states =
  automaton_tab :: "constvalue list"
  state_tab :: "constvalue list"
  statelist_tab :: "statelist list"

definition SHRT_MAX :: int where "SHRT_MAX = 32767"

text \<open>The searches also compute the highest index or value that they pass.\<close>

fun find_automaton :: "constvalue list \<Rightarrow> string \<Rightarrow> int \<Rightarrow> constvalue option \<times> int" where
  "find_automaton [] nm lst = (None, lst)"
| "find_automaton (ptr # rest) nm lst =
     (if nm = cname ptr then (Some ptr, lst) else find_automaton rest nm (max lst (cindex ptr)))"

fun find_state :: "constvalue list \<Rightarrow> string \<Rightarrow> int \<Rightarrow> int \<Rightarrow> constvalue option \<times> int" where
  "find_state [] nm fsa lst = (None, lst)"
| "find_state (ptr # rest) nm fsa lst =
     (if cindex ptr = fsa
      then (if nm = cname ptr then (Some ptr, lst) else find_state rest nm fsa (max lst (sint (cvalue ptr))))
      else find_state rest nm fsa lst)"

definition state_add :: "string \<Rightarrow> int \<Rightarrow> states \<Rightarrow> (constvalue \<times> states) result" where
  "state_add nm fsa s =
     bindR (assertR (length nm < sNAMEMAX + 1)) (\<lambda>_.
       case find_state (state_tab s) nm fsa 0 of
         (Some ptr, lst) \<Rightarrow> Inr (ptr, s)
       | (None, lst) \<Rightarrow>
           bindR (assertR (fsa \<le> SHRT_MAX)) (\<lambda>_.
           bindR (append_constval (state_tab s) nm (word_of_int (lst + 1)) fsa) (\<lambda>tbl.
             Inr (last tbl, s\<lparr>state_tab := tbl\<rparr>))))"

definition automaton_add :: "string \<Rightarrow> states \<Rightarrow> (constvalue \<times> states) result" where
  "automaton_add nm s =
     bindR (assertR (length nm < sNAMEMAX + 1)) (\<lambda>_.
       case find_automaton (automaton_tab s) nm 0 of
         (Some ptr, lst) \<Rightarrow> Inr (ptr, s)
       | (None, lst) \<Rightarrow>
           bindR (assertR (lst + 1 \<le> SHRT_MAX)) (\<lambda>_.
           bindR (append_constval (automaton_tab s) nm 0 (lst + 1)) (\<lambda>tbl.
           bindR (state_add [] (lst + 1) (s\<lparr>automaton_tab := tbl\<rparr>)) (\<lambda>(_, s').
             Inr (last tbl, s')))))"

definition automaton_find :: "states \<Rightarrow> string \<Rightarrow> constvalue option" where
  "automaton_find s nm = fst (find_automaton (automaton_tab s) nm 0)"

definition automaton_findid :: "states \<Rightarrow> int \<Rightarrow> constvalue option" where
  "automaton_findid s ident_id = find (\<lambda>ptr. cindex ptr = ident_id) (automaton_tab s)"

definition state_find :: "states \<Rightarrow> string \<Rightarrow> int \<Rightarrow> constvalue option" where
  "state_find s nm fsa_id = fst (find_state (state_tab s) nm fsa_id 0)"

definition state_findid :: "states \<Rightarrow> int \<Rightarrow> constvalue option" where
  "state_findid s ident_id = find (\<lambda>ptr. sint (cvalue ptr) = ident_id) (state_tab s)"

section \<open>Building a combination\<close>

text \<open>The array under construction: the states so far and the size of the block. The loop that
  looks for the insertion point reads \<open>*list[idx]\<close>, where \<open>list\<close> is the address of the caller's
  pointer: for index 0 that is the first state, beyond it there is no such object.\<close>

definition deref_item :: "int list \<Rightarrow> nat \<Rightarrow> int result" where
  "deref_item xs idx = (if idx = 0 \<and> xs \<noteq> [] then Inr (hd xs) else Inl BufferOverflow)"

function insert_point :: "int list \<Rightarrow> int \<Rightarrow> nat \<Rightarrow> nat result" where
  "insert_point xs stateid idx =
     (if idx < length xs
      then bindR (deref_item xs idx) (\<lambda>v.
             if v < stateid then insert_point xs stateid (idx + 1) else Inr idx)
      else Inr idx)"
  by pat_completeness auto
termination by (relation "measure (\<lambda>(xs, stateid, idx). length xs - idx)") auto

declare insert_point.simps [simp del]

text \<open>\<open>memmove\<close> moves \<open>count - idx + 1\<close> items up by one: the last one lands at index \<open>count + 1\<close>.\<close>

definition state_buildlist :: "int list \<times> nat \<Rightarrow> int \<Rightarrow> (int list \<times> nat) result" where
  "state_buildlist l stateid =
     (case l of (xs, listsize) \<Rightarrow>
        bindR (assertR (length xs \<le> listsize)) (\<lambda>_.
          let listsize' = (if length xs = listsize then listsize + 4 else listsize)
          in bindR (insert_point xs stateid 0) (\<lambda>idx.
               if idx < length xs \<and> listsize' \<le> length xs + 1 then Inl BufferOverflow
               else Inr (take idx xs @ stateid # drop idx xs, listsize'))))"

section \<open>State combinations\<close>

fun state_findlist :: "statelist list \<Rightarrow> int list \<Rightarrow> int \<Rightarrow> int \<Rightarrow> statelist option \<times> int" where
  "state_findlist [] xs fsa lst = (None, lst)"
| "state_findlist (ptr # rest) xs fsa lst =
     (if sl_fsa ptr = fsa \<and> sl_states ptr = xs then (Some ptr, max lst (sl_listid ptr))
      else state_findlist rest xs fsa (max lst (sl_listid ptr)))"

definition state_getlist_ptr :: "states \<Rightarrow> int \<Rightarrow> statelist option result" where
  "state_getlist_ptr s listid =
     bindR (assertR (0 < listid)) (\<lambda>_. Inr (find (\<lambda>ptr. sl_listid ptr = listid) (statelist_tab s)))"

definition state_addlist :: "int list \<Rightarrow> int \<Rightarrow> states \<Rightarrow> (int \<times> states) result" where
  "state_addlist xs fsa s =
     bindR (assertR (xs \<noteq> [])) (\<lambda>_.
       case state_findlist (statelist_tab s) xs fsa 0 of
         (Some ptr, lst) \<Rightarrow> Inr (sl_listid ptr, s)
       | (None, lst) \<Rightarrow>
           Inr (lst + 1, s\<lparr>statelist_tab :=
             \<lparr>sl_states = xs, sl_fsa = fsa, sl_listid = lst + 1\<rparr> # statelist_tab s\<rparr>))"

definition state_deletetable :: "states \<Rightarrow> states" where
  "state_deletetable s = s\<lparr>statelist_tab := []\<rparr>"

definition state_getfsa :: "states \<Rightarrow> int \<Rightarrow> int result" where
  "state_getfsa s listid =
     bindR (state_getlist_ptr s listid) (\<lambda>ptr. Inr (case ptr of None \<Rightarrow> -1 | Some p \<Rightarrow> sl_fsa p))"

definition state_count :: "states \<Rightarrow> int \<Rightarrow> nat result" where
  "state_count s listid =
     bindR (state_getlist_ptr s listid) (\<lambda>ptr. Inr (case ptr of None \<Rightarrow> 0 | Some p \<Rightarrow> length (sl_states p)))"

definition state_inlist :: "states \<Rightarrow> int \<Rightarrow> int \<Rightarrow> bool result" where
  "state_inlist s listid st =
     bindR (state_getlist_ptr s listid) (\<lambda>ptr.
       Inr (case ptr of None \<Rightarrow> False | Some p \<Rightarrow> list_ex (\<lambda>x. x = st) (sl_states p)))"

definition state_listitem :: "states \<Rightarrow> int \<Rightarrow> nat \<Rightarrow> int result" where
  "state_listitem s listid index =
     bindR (state_getlist_ptr s listid) (\<lambda>ptr.
       case ptr of None \<Rightarrow> Inl AssertFail
       | Some p \<Rightarrow> bindR (assertR (index < length (sl_states p))) (\<lambda>_. Inr (sl_states p ! index)))"

section \<open>Conflicts\<close>

text \<open>\<open>error\<close> reports a number and a name here and returns; the reports are collected in order.\<close>

type_synonym report = "nat \<times> string"

definition uENTRYFUNC :: string where "uENTRYFUNC = ''entry''"

definition conflict_pair :: "string \<Rightarrow> statelist \<Rightarrow> statelist \<Rightarrow> report list" where
  "conflict_pair nm psrc ptgt =
     (if sl_fsa psrc \<noteq> sl_fsa ptgt \<and> nm \<noteq> uENTRYFUNC then [(83, nm)] else [])
     @ concat (map (\<lambda>x. concat (map (\<lambda>y. if x = y then [(84, nm)] else []) (sl_states ptgt))) (sl_states psrc))"

fun conflict_targets :: "states \<Rightarrow> string \<Rightarrow> statelist \<Rightarrow> constvalue list \<Rightarrow> report list result" where
  "conflict_targets s nm psrc [] = Inr []"
| "conflict_targets s nm psrc (tgt # tgts) =
     (if cindex tgt = -1 then conflict_targets s nm psrc tgts
      else bindR (state_getlist_ptr s (cindex tgt)) (\<lambda>ptgt.
             case ptgt of None \<Rightarrow> Inl AssertFail
             | Some p \<Rightarrow> bindR (conflict_targets s nm psrc tgts) (\<lambda>rs. Inr (conflict_pair nm psrc p @ rs))))"

fun conflict_sources :: "states \<Rightarrow> string \<Rightarrow> constvalue list \<Rightarrow> report list result" where
  "conflict_sources s nm [] = Inr []"
| "conflict_sources s nm (src # srcs) =
     (if cindex src = -1 then conflict_sources s nm srcs
      else bindR (state_getlist_ptr s (cindex src)) (\<lambda>psrc.
             case psrc of None \<Rightarrow> Inl AssertFail
             | Some p \<Rightarrow> bindR (conflict_targets s nm p srcs) (\<lambda>rs.
                 bindR (conflict_sources s nm srcs) (\<lambda>rs'. Inr (rs @ rs')))))"

fun state_conflict :: "states \<Rightarrow> symbol list \<Rightarrow> report list result" where
  "state_conflict s [] = Inr []"
| "state_conflict s (sy # rest) =
     (if sparent sy \<noteq> None \<or> sident sy \<noteq> iFUNCTN then state_conflict s rest
      else case sstates sy of
             None \<Rightarrow> state_conflict s rest
           | Some sts \<Rightarrow> bindR (conflict_sources s (sname sy) sts) (\<lambda>rs.
               bindR (state_conflict s rest) (\<lambda>rs'. Inr (rs @ rs'))))"

section \<open>Lemmas\<close>

lemma insert_point_0:
  "insert_point xs stateid 0 =
     (if xs = [] \<or> stateid \<le> hd xs then Inr 0
      else if length xs = 1 then Inr 1 else Inl BufferOverflow)"
  by (cases xs)
    (auto simp: insert_point.simps [of _ _ 0] insert_point.simps [of _ _ "Suc 0"] deref_item_def not_le)

lemma findlist_None:
  "state_findlist tbl xs fsa lst = (None, lst') \<Longrightarrow>
   lst \<le> lst' \<and> (\<forall>p \<in> set tbl. sl_listid p \<le> lst' \<and> \<not> (sl_fsa p = fsa \<and> sl_states p = xs))"
  by (induction tbl arbitrary: lst) (fastforce split: if_splits)+

lemma findlist_Some:
  "state_findlist tbl xs fsa lst = (Some p, lst') \<Longrightarrow> p \<in> set tbl \<and> sl_fsa p = fsa \<and> sl_states p = xs"
  by (induction tbl arbitrary: lst) (auto split: if_splits)

definition statelists_ok :: "states \<Rightarrow> bool" where
  "statelists_ok s \<longleftrightarrow> distinct (map sl_listid (statelist_tab s)) \<and> (\<forall>p \<in> set (statelist_tab s). 0 < sl_listid p)"

lemma find_listid:
  "distinct (map sl_listid tbl) \<Longrightarrow> p \<in> set tbl \<Longrightarrow> find (\<lambda>q. sl_listid q = sl_listid p) tbl = Some p"
  by (induction tbl) (auto simp: image_iff)

lemma state_addlist_ok:
  assumes ok: "statelists_ok s" and xs: "xs \<noteq> []"
  shows "\<exists>ident_id s' p. state_addlist xs fsa s = Inr (ident_id, s') \<and> statelists_ok s'
    \<and> state_getlist_ptr s' ident_id = Inr (Some p) \<and> sl_states p = xs \<and> sl_fsa p = fsa
    \<and> (\<forall>j q. state_getlist_ptr s j = Inr (Some q) \<longrightarrow> state_getlist_ptr s' j = Inr (Some q))"
proof -
  obtain r lst where f: "state_findlist (statelist_tab s) xs fsa 0 = (r, lst)" by (cases "state_findlist (statelist_tab s) xs fsa 0")
  show ?thesis
  proof (cases r)
    case None
    note fl = findlist_None [OF f [unfolded None]]
    let ?p = "\<lparr>sl_states = xs, sl_fsa = fsa, sl_listid = lst + 1\<rparr>"
    let ?s = "s\<lparr>statelist_tab := ?p # statelist_tab s\<rparr>"
    have "statelists_ok ?s" using ok fl by (fastforce simp: statelists_ok_def)
    moreover have "state_getlist_ptr ?s j = Inr (Some q)" if "state_getlist_ptr s j = Inr (Some q)" for j q
    proof -
      have q: "0 < j" "find (\<lambda>ptr. sl_listid ptr = j) (statelist_tab s) = Some q"
        using that by (auto simp: state_getlist_ptr_def elim!: bindR_InrE)
      then have "q \<in> set (statelist_tab s)" "sl_listid q = j" by (auto simp: find_Some_iff)
      then have "j \<noteq> lst + 1" using fl by fastforce
      then show ?thesis using q by (simp add: state_getlist_ptr_def)
    qed
    moreover have "state_getlist_ptr ?s (lst + 1) = Inr (Some ?p)" using fl by (simp add: state_getlist_ptr_def)
    ultimately show ?thesis using f None xs by (simp add: state_addlist_def)
  next
    case (Some p)
    note fl = findlist_Some [OF f [unfolded Some]]
    have "state_getlist_ptr s (sl_listid p) = Inr (Some p)"
      using ok fl by (simp add: state_getlist_ptr_def statelists_ok_def find_listid)
    then show ?thesis using f Some xs fl ok by (auto simp: state_addlist_def)
  qed
qed

lemma addlist_again: "state_addlist xs fsa s = Inr (n, s') \<Longrightarrow> state_addlist xs fsa s' = Inr (n, s')"
  by (auto simp: state_addlist_def bindR_Inr_iff split: option.splits prod.splits)

section \<open>Conflicts\<close>

text \<open>Two combinations of a function call for error 83, because they are of different automatons, or for
  error 84, because they have a state number in common.\<close>

definition clash :: "string \<Rightarrow> nat \<Rightarrow> statelist \<Rightarrow> statelist \<Rightarrow> bool" where
  "clash nm e p q \<longleftrightarrow> e = 83 \<and> sl_fsa p \<noteq> sl_fsa q \<and> nm \<noteq> uENTRYFUNC
     \<or> e = 84 \<and> (\<exists>x. x \<in> set (sl_states p) \<and> x \<in> set (sl_states q))"

definition clashing :: "states \<Rightarrow> string \<Rightarrow> nat \<Rightarrow> constvalue \<Rightarrow> constvalue \<Rightarrow> bool" where
  "clashing s nm e a b \<longleftrightarrow> cindex a \<noteq> -1 \<and> cindex b \<noteq> -1
     \<and> (\<exists>p q. state_getlist_ptr s (cindex a) = Inr (Some p) \<and> state_getlist_ptr s (cindex b) = Inr (Some q)
          \<and> clash nm e p q)"

fun some_conflict :: "states \<Rightarrow> string \<Rightarrow> nat \<Rightarrow> constvalue list \<Rightarrow> bool" where
  "some_conflict s nm e [] \<longleftrightarrow> False"
| "some_conflict s nm e (a # as) \<longleftrightarrow> (\<exists>b \<in> set as. clashing s nm e a b) \<or> some_conflict s nm e as"

lemma conflict_pair_reports:
  "(e, nm') \<in> set (conflict_pair nm p q) \<longleftrightarrow> nm' = nm \<and> clash nm e p q"
  by (auto simp: conflict_pair_def clash_def)

lemma conflict_targets_reports:
  "conflict_targets s nm p tgts = Inr rs \<Longrightarrow> state_getlist_ptr s (cindex a) = Inr (Some p) \<Longrightarrow> cindex a \<noteq> -1 \<Longrightarrow>
   (e, nm') \<in> set rs \<longleftrightarrow> nm' = nm \<and> (\<exists>b \<in> set tgts. clashing s nm e a b)"
proof (induction tgts arbitrary: rs)
  case (Cons t tgts)
  show ?case
  proof (cases "cindex t = -1")
    case True
    then show ?thesis using Cons by (auto simp: clashing_def)
  next
    case False
    then obtain q rs' where q: "state_getlist_ptr s (cindex t) = Inr (Some q)"
      "conflict_targets s nm p tgts = Inr rs'" "rs = conflict_pair nm p q @ rs'"
      using Cons.prems(1) by (auto elim!: bindR_InrE split: option.splits)
    have "clashing s nm e a t \<longleftrightarrow> clash nm e p q"
      using False Cons.prems(2,3) q(1) by (auto simp: clashing_def)
    then show ?thesis using Cons.IH [OF q(2) Cons.prems(2,3)] q(3) by (auto simp: conflict_pair_reports)
  qed
qed simp

lemma conflict_sources_reports:
  "conflict_sources s nm srcs = Inr rs \<Longrightarrow> (e, nm') \<in> set rs \<longleftrightarrow> nm' = nm \<and> some_conflict s nm e srcs"
proof (induction srcs arbitrary: rs)
  case (Cons a srcs)
  show ?case
  proof (cases "cindex a = -1")
    case True
    then have "\<not> clashing s nm e a b" for b by (simp add: clashing_def)
    then show ?thesis using Cons True by simp
  next
    case False
    then obtain p rs1 rs2 where p: "state_getlist_ptr s (cindex a) = Inr (Some p)"
      "conflict_targets s nm p srcs = Inr rs1" "conflict_sources s nm srcs = Inr rs2" "rs = rs1 @ rs2"
      using Cons.prems(1) by (auto elim!: bindR_InrE split: option.splits)
    show ?thesis using conflict_targets_reports [OF p(2,1) False, of e nm'] Cons.IH [OF p(3)] p(4) by auto
  qed
qed simp

lemma state_conflict_reports:
  "state_conflict s syms = Inr rs \<Longrightarrow>
   (e, nm) \<in> set rs \<longleftrightarrow> (\<exists>sy \<in> set syms. sname sy = nm \<and> sparent sy = None \<and> sident sy = iFUNCTN
      \<and> (\<exists>sts. sstates sy = Some sts \<and> some_conflict s nm e sts))"
proof (induction syms arbitrary: rs)
  case (Cons sy syms)
  show ?case
  proof (cases "sparent sy \<noteq> None \<or> sident sy \<noteq> iFUNCTN \<or> sstates sy = None")
    case True
    then have "state_conflict s syms = Inr rs" using Cons.prems by (auto split: if_splits option.splits)
    from Cons.IH [OF this] True show ?thesis by auto
  next
    case False
    then obtain sts where sts: "sstates sy = Some sts" by auto
    obtain rs1 rs2 where r: "conflict_sources s (sname sy) sts = Inr rs1" "state_conflict s syms = Inr rs2" "rs = rs1 @ rs2"
      using Cons.prems False sts by (auto elim!: bindR_InrE)
    show ?thesis using conflict_sources_reports [OF r(1), of e nm] Cons.IH [OF r(2)] r(3) False sts by auto
  qed
qed simp

section \<open>Automaton and state tables\<close>

lemma find_automaton_fst: "fst (find_automaton tbl nm lst) = find (\<lambda>p. cname p = nm) tbl"
  by (induction tbl arbitrary: lst) auto

lemma find_automaton_None:
  "find_automaton tbl nm lst = (None, lst') \<Longrightarrow>
   lst \<le> lst' \<and> (\<forall>p \<in> set tbl. cindex p \<le> lst' \<and> cname p \<noteq> nm)"
  by (induction tbl arbitrary: lst) (fastforce split: if_splits)+

lemma find_state_fst: "fst (find_state tbl nm fsa lst) = find (\<lambda>p. cindex p = fsa \<and> cname p = nm) tbl"
  by (induction tbl arbitrary: lst) auto

lemma find_state_None:
  "find_state tbl nm fsa lst = (None, lst') \<Longrightarrow> lst \<le> lst' \<and> lst' \<in> insert lst ((\<lambda>p. sint (cvalue p)) ` set tbl)
   \<and> (\<forall>p \<in> set tbl. cindex p = fsa \<longrightarrow> sint (cvalue p) \<le> lst' \<and> cname p \<noteq> nm)"
  by (induction tbl arbitrary: lst) (fastforce split: if_splits)+

text \<open>Automaton ids are positive and unique, states are numbered from 1 within their automaton, and
  no number exceeds the size of the table.\<close>

definition states_ok :: "states \<Rightarrow> bool" where
  "states_ok s \<longleftrightarrow> distinct (map cindex (automaton_tab s)) \<and> (\<forall>p \<in> set (automaton_tab s). 0 < cindex p)
     \<and> distinct (map (\<lambda>p. (cindex p, cvalue p)) (state_tab s))
     \<and> (\<forall>p \<in> set (state_tab s). 0 < sint (cvalue p) \<and> sint (cvalue p) \<le> int (length (state_tab s)))"

lemma sint_small: "0 \<le> i \<Longrightarrow> i < 2147483648 \<Longrightarrow> sint (word_of_int i :: cell) = i"
  by (simp add: int_word_sint)

lemma state_add_ok:
  assumes ok: "states_ok s" and nm: "length nm < sNAMEMAX" and fsa: "fsa \<le> SHRT_MAX"
    and n: "int (length (state_tab s)) < 2147483647"
  shows "\<exists>p s'. state_add nm fsa s = Inr (p, s') \<and> states_ok s' \<and> automaton_tab s' = automaton_tab s
    \<and> state_find s' nm fsa = Some p
    \<and> (\<forall>nm' fsa'. (nm', fsa') \<noteq> (nm, fsa) \<longrightarrow> state_find s' nm' fsa' = state_find s nm' fsa')
    \<and> (\<forall>q. state_find s nm fsa = Some q \<longrightarrow> q = p)"
proof -
  obtain r lst where f: "find_state (state_tab s) nm fsa 0 = (r, lst)" by (cases "find_state (state_tab s) nm fsa 0")
  then have r: "state_find s nm fsa = r" by (simp add: state_find_def)
  show ?thesis
  proof (cases r)
    case (Some p)
    then show ?thesis using f r nm ok by (simp add: state_add_def)
  next
    case None
    note fs = find_state_None [OF f [unfolded None]]
    let ?p = "\<lparr>cname = nm, cvalue = word_of_int (lst + 1), cindex = fsa\<rparr>"
    let ?s = "s\<lparr>state_tab := state_tab s @ [?p]\<rparr>"
    have lst: "0 \<le> lst" "lst \<le> int (length (state_tab s))" using fs ok by (auto simp: states_ok_def)
    have v: "sint (word_of_int (lst + 1) :: cell) = lst + 1" using lst n by (intro sint_small) auto
    have new: "state_add nm fsa s = Inr (?p, ?s)"
      using f None nm fsa by (simp add: state_add_def append_constval_def insert_constval_def)
    have "(fsa, word_of_int (lst + 1)) \<notin> (\<lambda>p. (cindex p, cvalue p)) ` set (state_tab s)"
      using fs v by (force simp: image_iff)
    then have "states_ok ?s" using ok lst v by (auto simp: states_ok_def)
    moreover have "find (\<lambda>p. cindex p = fsa \<and> cname p = nm) (state_tab s) = None"
      using f None by (metis find_state_fst fst_conv)
    moreover have "find P (xs @ [?p]) = (case find P xs of None \<Rightarrow> if P ?p then Some ?p else None | Some q \<Rightarrow> Some q)" for P xs
      by (induction xs) auto
    ultimately show ?thesis using new r None by (auto simp: state_find_def find_state_fst split: option.splits)
  qed
qed

lemma automaton_add_ok:
  assumes ok: "states_ok s" and nm: "length nm < sNAMEMAX"
    and n: "int (length (state_tab s)) < 2147483647" and ids: "\<forall>p \<in> set (automaton_tab s). cindex p < SHRT_MAX"
  shows "\<exists>p s'. automaton_add nm s = Inr (p, s') \<and> states_ok s'
    \<and> automaton_find s' nm = Some p \<and> automaton_findid s' (cindex p) = Some p
    \<and> (\<forall>nm'. nm' \<noteq> nm \<longrightarrow> automaton_find s' nm' = automaton_find s nm')
    \<and> (automaton_find s nm = None \<longrightarrow> state_find s' [] (cindex p) \<noteq> None)"
proof -
  obtain r lst where f: "find_automaton (automaton_tab s) nm 0 = (r, lst)" by (cases "find_automaton (automaton_tab s) nm 0")
  then have r: "automaton_find s nm = r" by (simp add: automaton_find_def)
  show ?thesis
  proof (cases r)
    case (Some p)
    then have "find (\<lambda>p. cname p = nm) (automaton_tab s) = Some p" using r by (simp add: automaton_find_def find_automaton_fst)
    then have "p \<in> set (automaton_tab s)" by (auto simp: find_Some_iff)
    moreover have "find (\<lambda>q. cindex q = cindex p) ps = Some p" if "p \<in> set ps" "distinct (map cindex ps)" for ps
      using that by (induction ps) (auto simp: image_iff)
    ultimately have "automaton_findid s (cindex p) = Some p" using ok by (simp add: automaton_findid_def states_ok_def)
    then show ?thesis using f r nm ok Some by (simp add: automaton_add_def)
  next
    case None
    note fa = find_automaton_None [OF f [unfolded None]]
    let ?p = "\<lparr>cname = nm, cvalue = 0, cindex = lst + 1\<rparr>"
    let ?s = "s\<lparr>automaton_tab := automaton_tab s @ [?p]\<rparr>"
    have lst: "lst + 1 \<le> SHRT_MAX"
    proof -
      have "find_automaton tbl nm k = (None, l) \<Longrightarrow> k < SHRT_MAX \<Longrightarrow> \<forall>p \<in> set tbl. cindex p < SHRT_MAX \<Longrightarrow> l < SHRT_MAX" for tbl k l
        by (induction tbl arbitrary: k) (auto split: if_splits)
      from this [OF f [unfolded None] _ ids] show ?thesis by (simp add: SHRT_MAX_def)
    qed
    have ok1: "states_ok ?s" using ok fa by (fastforce simp: states_ok_def)
    have tab_len: "int (length (state_tab ?s)) < 2147483647" using n by simp
    obtain q s' where a: "state_add [] (lst + 1) ?s = Inr (q, s')" "states_ok s'"
      "automaton_tab s' = automaton_tab s @ [?p]" "state_find s' [] (lst + 1) = Some q"
      using state_add_ok [OF ok1 _ lst tab_len, of "[]"] by (auto simp: sNAMEMAX_def)
    have new: "automaton_add nm s = Inr (?p, s')"
      using f None nm lst a(1) by (simp add: automaton_add_def append_constval_def insert_constval_def)
    have fnd: "find P (xs @ [?p]) = (case find P xs of None \<Rightarrow> if P ?p then Some ?p else None | Some q \<Rightarrow> Some q)" for P xs
      by (induction xs) auto
    have "find (\<lambda>p. cname p = nm) (automaton_tab s) = None" using f None by (metis find_automaton_fst fst_conv)
    moreover have "find (\<lambda>p. cindex p = lst + 1) (automaton_tab s) = None" using fa by (fastforce simp: find_None_iff)
    ultimately show ?thesis using new a(2-4) r None
      by (auto simp: automaton_find_def automaton_findid_def find_automaton_fst fnd split: option.splits)
  qed
qed

section \<open>Properties\<close>

text \<open>C26 (\<open>state_addlist\<close>): adding a combination of states gives an id under which exactly this
  combination and automaton are found, leaves every other id alone, keeps the ids unique, and
  adding the same combination again gives the same id and changes nothing. Ids are integers without a bound
  here; \<open>attachstatelist\<close> refuses one above \<open>SHRT_MAX\<close> by an assertion.\<close>
theorem state_addlist_interns:
  assumes "statelists_ok s" and "xs \<noteq> []"
  shows "\<exists>n s' p. state_addlist xs fsa s = Inr (n, s') \<and> statelists_ok s'
    \<and> state_getlist_ptr s' n = Inr (Some p) \<and> sl_states p = xs \<and> sl_fsa p = fsa
    \<and> (\<forall>j q. state_getlist_ptr s j = Inr (Some q) \<longrightarrow> state_getlist_ptr s' j = Inr (Some q))
    \<and> state_addlist xs fsa s' = Inr (n, s')"
  using state_addlist_ok [OF assms, of fsa] addlist_again by blast

theorem state_addlist_interns_witness:
  "\<exists>n s' p. state_addlist [1, 2] 3 \<lparr>automaton_tab = [], state_tab = [],
       statelist_tab = [\<lparr>sl_states = [1], sl_fsa = 3, sl_listid = 1\<rparr>]\<rparr> = Inr (n, s')
     \<and> state_getlist_ptr s' n = Inr (Some p) \<and> sl_states p = [1, 2]"
  using state_addlist_interns [of "\<lparr>automaton_tab = [], state_tab = [],
       statelist_tab = [\<lparr>sl_states = [1], sl_fsa = 3, sl_listid = 1\<rparr>]\<rparr>" "[1, 2]" 3]
  by (auto simp: statelists_ok_def)

text \<open>automatons: a new automaton gets an id of its own by which and by whose name it is found
  from then on, it has its anonymous state, the other automatons are found as before, and the
  numbering of automatons and states stays unique; an automaton that exists is returned as it is.\<close>
theorem automaton_add_numbers_uniquely:
  assumes "states_ok s" and "length nm < sNAMEMAX" and "int (length (state_tab s)) < 2147483647"
    and "\<forall>p \<in> set (automaton_tab s). cindex p < SHRT_MAX"
  shows "\<exists>p s'. automaton_add nm s = Inr (p, s') \<and> states_ok s'
    \<and> automaton_find s' nm = Some p \<and> automaton_findid s' (cindex p) = Some p
    \<and> (\<forall>nm'. nm' \<noteq> nm \<longrightarrow> automaton_find s' nm' = automaton_find s nm')
    \<and> (automaton_find s nm = None \<longrightarrow> state_find s' [] (cindex p) \<noteq> None)"
  by (rule automaton_add_ok [OF assms])

theorem automaton_add_numbers_uniquely_witness:
  "\<exists>p s'. automaton_add ''door'' \<lparr>automaton_tab = [], state_tab = [], statelist_tab = []\<rparr> = Inr (p, s')
    \<and> automaton_find s' ''door'' = Some p \<and> state_find s' [] (cindex p) \<noteq> None"
proof -
  have "automaton_find \<lparr>automaton_tab = [], state_tab = [], statelist_tab = []\<rparr> ''door'' = None"
    by (simp add: automaton_find_def)
  then show ?thesis
    using automaton_add_numbers_uniquely [of "\<lparr>automaton_tab = [], state_tab = [], statelist_tab = []\<rparr>" "''door''"]
    by (auto simp: states_ok_def sNAMEMAX_def)
qed


definition two_state_function :: symbol where
  "two_state_function = \<lparr>sid = 1, sparent = None, sname = ''f'', shash = 0, saddr = 0, scodeaddr = 0, svclass = sGLOBAL,
     sident = iFUNCTN, susage = 0, scompound = 0, stag = 0, sidxtag = 0, slength = 0, slevel = 0,
     sstates = Some [\<lparr>cname = [], cvalue = 0, cindex = 1\<rparr>, \<lparr>cname = [], cvalue = 0, cindex = 2\<rparr>],
     sfnumber = 0, srefer = []\<rparr>"


text \<open>The first states of two automatons, each with an entry function of its own.\<close>

lemma entry_functions_clash:
  "state_conflict \<lparr>automaton_tab = [], state_tab = [], statelist_tab = [\<lparr>sl_states = [2], sl_fsa = 1, sl_listid = 1\<rparr>,
      \<lparr>sl_states = [2], sl_fsa = 2, sl_listid = 2\<rparr>]\<rparr> [two_state_function\<lparr>sname := uENTRYFUNC\<rparr>] = Inr [(84, uENTRYFUNC)]"
  by (simp add: two_state_function_def state_getlist_ptr_def conflict_pair_def)

text \<open>C39 (\<open>state_buildlist\<close>): the exact outcome for any array under construction. The array is meant
  to stay sorted, but \<open>*list[idx]\<close> indexes the caller's pointer instead of the states: when at least
  two states are in the array, a state above the first one makes the loop read outside of that
  variable. And when a state goes in front and the block has one free place, \<open>memmove\<close> writes one place
  behind the block. In all other cases the state is put in front, or behind the only one.\<close>
theorem state_buildlist_outcome:
  assumes "length xs \<le> listsize"
  shows "state_buildlist (xs, listsize) st =
    (if xs \<noteq> [] \<and> hd xs < st
     then (if length xs = 1 then Inr (xs @ [st], if listsize = 1 then 5 else listsize) else Inl BufferOverflow)
     else if xs \<noteq> [] \<and> length xs + 1 = listsize then Inl BufferOverflow
     else Inr (st # xs, if length xs = listsize then listsize + 4 else listsize))"
  using assms by (cases xs) (auto simp: state_buildlist_def insert_point_0 Let_def not_le)

theorem state_buildlist_outcome_witness:
  "state_buildlist ([1, 2], 4) 3 = Inl BufferOverflow \<and> state_buildlist ([2, 3, 4], 4) 1 = Inl BufferOverflow"
  using state_buildlist_outcome [of "[1, 2]" 4 3] state_buildlist_outcome [of "[2, 3, 4]" 4 1] by simp

end
