(* ===== verification/ScLeader.thy ===== *)
theory ScLeader
  imports ScGenCalls ScState
begin

text \<open>
  The leader of the assembler file, \<open>writeleader\<close> of sc4.c: the exit point of the program, the
  exit point for calls in a wrong state, the state selectors of the automatons, and the stub and
  jump table of each function with states; with \<open>attachstatelist\<close> of sc1.c, which collects the
  states of a function. The lemmas show what a stub's jump table selects.
\<close>

section \<open>The states of a function\<close>

text \<open>\<open>sc_status\<close> and \<open>code_idx\<close> are arguments; the reports are number and name.\<close>

fun attach_found :: "constvalue list \<Rightarrow> int \<Rightarrow> cell \<Rightarrow> (bool \<times> constvalue list) option" where
  "attach_found [] state_id codeidx = None"
| "attach_found (st # sts) state_id codeidx =
     (if cindex st = state_id
      then Some (if cvalue st = 0 then (True, st\<lparr>cvalue := codeidx\<rparr> # sts) else (False, st # sts))
      else map_option (map_prod id (Cons st)) (attach_found sts state_id codeidx))"

definition attachstatelist :: "status \<Rightarrow> cell \<Rightarrow> symbol \<Rightarrow> int \<Rightarrow> (report list \<times> symbol) result" where
  "attachstatelist stat codeidx sy state_id =
     (let rs1 = (if has_usage sy uDEFINE \<and> (sstates sy = None \<or> state_id = 0) then [(21, sname sy)] else [])
      in if state_id = 0 then Inr (rs1, sy)
         else let old = (case sstates sy of None \<Rightarrow> [] | Some sts \<Rightarrow> sts)
              in bindR (assertR (state_id \<le> SHRT_MAX)) (\<lambda>_.
                 bindR (case attach_found old state_id codeidx of
                          None \<Rightarrow> bindR (append_constval old [] codeidx state_id) (\<lambda>sts. Inr ([], sts))
                        | Some (fresh, sts) \<Rightarrow> Inr (if fresh then [] else [(84, sname sy)], sts))
                   (\<lambda>(rs2, sts).
                     let rs3 = (if state_id = -1 \<and> stat \<noteq> StatFIRST \<and> list_all (\<lambda>st. cindex st = -1) sts
                                then [(85, sname sy)] else [])
                     in Inr (rs1 @ rs2 @ rs3, sy\<lparr>sstates := Some sts\<rparr>))))"

section \<open>Pieces of the leader\<close>

definition AMX_ERR_INVSTATE :: cell where "AMX_ERR_INVSTATE = 13"

definition getlabel :: "cstate \<Rightarrow> nat \<times> cstate" where
  "getlabel s = (sc_labnum s, s\<lparr>sc_labnum := sc_labnum s + 1\<rparr>)"

text \<open>A function that is used and has states.\<close>

definition state_function :: "symbol \<Rightarrow> bool" where
  "state_function sy \<longleftrightarrow> sident sy = iFUNCTN \<and> has_usage sy uREAD \<and> sstates sy \<noteq> None"

fun state_selectors :: "constvalue list \<Rightarrow> cstate \<Rightarrow> (constvalue list \<times> cstate) result" where
  "state_selectors [] s = Inr ([], s)"
| "state_selectors (fsa # fsas) s =
     bindR (block [defstorage, stgwrite (''0'' @ tab @ ''; automaton ''),
                   stgwrite (if cname fsa = [] then ''(anonymous)'' else cname fsa), stgwrite nl] s) (\<lambda>s1.
     bindR (state_selectors fsas (s1\<lparr>glb_declared := glb_declared s1 + 1\<rparr>)) (\<lambda>(fsas', s2).
       Inr (fsa\<lparr>cvalue := glb_declared s1 * cell_bytes\<rparr> # fsas', s2)))"

text \<open>The combination that decides which automaton the function belongs to: the position in the
  list and the id.\<close>

definition first_list :: "constvalue list \<Rightarrow> (nat \<times> int) result" where
  "first_list sts =
     (case sts of [] \<Rightarrow> Inl AssertFail
      | st # rest \<Rightarrow>
          bindR (assertR (cindex st = -1 \<or> 0 < cindex st)) (\<lambda>_.
            Inr (if cindex st = -1 \<and> rest \<noteq> [] then (1, cindex (hd rest)) else (0, cindex st))))"

fun label_lists :: "constvalue list \<Rightarrow> cstate \<Rightarrow> (constvalue list \<times> cstate) result" where
  "label_lists [] s = Inr ([], s)"
| "label_lists (st # sts) s =
     bindR (assertR (cname st = [])) (\<lambda>_.
       let (lbl, s1) = getlabel s
       in bindR (label_lists sts s1) (\<lambda>(sts', s2). Inr (st\<lparr>cname := itoh (of_nat lbl)\<rparr> # sts', s2)))"

fun count_states :: "states \<Rightarrow> constvalue list \<Rightarrow> nat \<Rightarrow> string \<Rightarrow> (nat \<times> string) result" where
  "count_states tbl [] n dflt = Inr (n, dflt)"
| "count_states tbl (st # sts) n dflt =
     (if cindex st = -1
      then bindR (assertR (length (cname st) < sNAMEMAX + 1)) (\<lambda>_. count_states tbl sts n (cname st))
      else bindR (state_count tbl (cindex st)) (\<lambda>k. count_states tbl sts (n + k) dflt))"

fun find_list :: "states \<Rightarrow> constvalue list \<Rightarrow> int \<Rightarrow> constvalue option result" where
  "find_list tbl [] v = Inr None"
| "find_list tbl (st # sts) v =
     (if cindex st = -1 then find_list tbl sts v
      else bindR (state_inlist tbl (cindex st) v) (\<lambda>b. if b then Inr (Some st) else find_list tbl sts v))"

text \<open>The cases of a jump table and the warnings 230 (state, function) of the states that have
  no case and no default.\<close>

type_synonym leader_report = "nat \<times> string \<times> string"

fun case_lines :: "states \<Rightarrow> int \<Rightarrow> string \<Rightarrow> constvalue list \<Rightarrow> string \<Rightarrow> nat \<Rightarrow> constvalue list \<Rightarrow> cstate
    \<Rightarrow> (leader_report list \<times> cstate) result" where
  "case_lines tbl fsa_id fname sts dflt nostate [] s = Inr ([], s)"
| "case_lines tbl fsa_id fname sts dflt nostate (state # rest) s =
     (if cindex state = fsa_id
      then bindR (find_list tbl sts (sint (cvalue state))) (\<lambda>r.
             case r of
               Some st \<Rightarrow>
                 bindR (ffcase (cvalue state) (cname st) False s) (case_lines tbl fsa_id fname sts dflt nostate rest)
             | None \<Rightarrow>
                 bindR (case_lines tbl fsa_id fname sts dflt nostate rest s) (\<lambda>(rs, s1).
                   Inr (if fst (strtol16 dflt) = int nostate then (230, cname state, fname) # rs else rs, s1)))
      else case_lines tbl fsa_id fname sts dflt nostate rest s)"

section \<open>The stub of a function\<close>

text \<open>The pointer to the automaton is not tested before it is used.\<close>

definition state_stub :: "states \<Rightarrow> nat \<Rightarrow> symbol \<Rightarrow> constvalue list \<Rightarrow> cstate
    \<Rightarrow> (leader_report list \<times> symbol \<times> cstate) result" where
  "state_stub tbl nostate sy sts s =
     bindR (first_list sts) (\<lambda>(i, listid).
       if listid = -1 then Inr ([], sy\<lparr>sstates := Some (sts[i := (sts ! i)\<lparr>cname := ''0''\<rparr>])\<rparr>, s)
       else bindR (label_lists sts s) (\<lambda>(sts', s1).
         if sname sy = uENTRYFUNC then Inr ([], sy\<lparr>sstates := Some sts'\<rparr>, s1)
         else bindR (assertR (0 < listid)) (\<lambda>_.
              bindR (state_getfsa tbl listid) (\<lambda>fsa_id.
              bindR (assertR (0 \<le> fsa_id)) (\<lambda>_.
              bindR (count_states tbl sts' 0 (itoh (of_nat nostate))) (\<lambda>(statecount, dflt).
              case automaton_findid tbl fsa_id of
                None \<Rightarrow> Inl BufferOverflow
              | Some fsa \<Rightarrow>
                  bindR (block [stgwrite (tab @ ''load.pri ''), outval (cvalue fsa) False, stgwrite (tab @ ''; ''),
                                stgwrite (sname sy), stgwrite nl, add_code_idx (opcodes 1 + opargs 1)] s1) (\<lambda>s2.
                  let (lbl_table, s3) = getlabel s2
                  in bindR (block [ffswitch (of_nat lbl_table), setlabel lbl_table,
                                   ffcase (of_nat statecount) dflt True] s3) (\<lambda>s4.
                     bindR (case_lines tbl fsa_id (sname sy) sts' dflt nostate (state_tab tbl) s4) (\<lambda>(rs, s5).
                     bindR (stgwrite nl s5) (\<lambda>s6.
                       Inr (rs, sy\<lparr>sstates := Some sts', saddr := code_idx s1\<rparr>, s6)))))))))))"

fun state_stubs :: "states \<Rightarrow> nat \<Rightarrow> symbol list \<Rightarrow> cstate \<Rightarrow> (leader_report list \<times> symbol list \<times> cstate) result" where
  "state_stubs tbl nostate [] s = Inr ([], [], s)"
| "state_stubs tbl nostate (sy # syms) s =
     bindR (if state_function sy then state_stub tbl nostate sy (the (sstates sy)) s else Inr ([], sy, s))
       (\<lambda>(rs, sy', s1).
     bindR (state_stubs tbl nostate syms s1) (\<lambda>(rs', syms', s2). Inr (rs @ rs', sy' # syms', s2)))"

section \<open>The leader\<close>

definition writeleader :: "symbol list \<Rightarrow> states \<Rightarrow> cstate
    \<Rightarrow> (leader_report list \<times> symbol list \<times> states \<times> cstate) result" where
  "writeleader root tbl s =
     bindR (assertR (code_idx s = 0)) (\<lambda>_.
     bindR (block [begcseg, stgwrite ('';program exit point'' @ nl), stgwrite (tab @ ''halt 0'' @ nl),
                   add_code_idx (opcodes 1 + opargs 1)] s) (\<lambda>s1.
       if \<not> list_ex state_function root then Inr ([], root, tbl, s1)
       else
         bindR (stgwrite (nl @ '';exit point for functions called from the wrong state'' @ nl) s1) (\<lambda>s2.
         let (lbl_nostate, s3) = getlabel s2
         in bindR (block [setlabel lbl_nostate, stgwrite (tab @ ''halt ''), outval AMX_ERR_INVSTATE True,
                          add_code_idx (opcodes 1 + opargs 1),
                          \<lambda>s. bindR (assertR (glb_declared s = 0)) (\<lambda>_. begdseg s)] s3) (\<lambda>s4.
            bindR (state_selectors (automaton_tab tbl) s4) (\<lambda>(fsas, s5).
            bindR (begcseg s5) (\<lambda>s6.
            bindR (state_stubs (tbl\<lparr>automaton_tab := fsas\<rparr>) lbl_nostate root s6) (\<lambda>(rs, root', s7).
              Inr (rs, root', tbl\<lparr>automaton_tab := fsas\<rparr>, s7))))))))"

section \<open>What the pieces compute\<close>

text \<open>The states of a combination, and the combination of a function that a state belongs to.\<close>

definition listed_states :: "states \<Rightarrow> int \<Rightarrow> int list" where
  "listed_states tbl listid =
     (case find (\<lambda>p. sl_listid p = listid) (statelist_tab tbl) of None \<Rightarrow> [] | Some p \<Rightarrow> sl_states p)"

definition listing :: "states \<Rightarrow> constvalue list \<Rightarrow> int \<Rightarrow> constvalue option" where
  "listing tbl sts v = find (\<lambda>st. cindex st \<noteq> -1 \<and> v \<in> set (listed_states tbl (cindex st))) sts"

definition all_listed :: "states \<Rightarrow> constvalue list \<Rightarrow> int list" where
  "all_listed tbl sts = concat (map (\<lambda>st. if cindex st = -1 then [] else listed_states tbl (cindex st)) sts)"

definition with_labels :: "constvalue list \<Rightarrow> nat \<Rightarrow> constvalue list" where
  "with_labels sts n = map2 (\<lambda>st k. st\<lparr>cname := itoh (of_nat k)\<rparr>) sts [n..<n + length sts]"

lemma with_labels_simps [simp]:
  "with_labels [] n = []" "with_labels (st # sts) n = st\<lparr>cname := itoh (of_nat n)\<rparr> # with_labels sts (n + 1)"
  by (simp_all add: with_labels_def upt_conv_Cons del: upt_Suc)

lemma with_labels_index: "map cindex (with_labels sts n) = map cindex sts"
  by (induction sts arbitrary: n) auto

lemma with_labels_mem: "st \<in> set (with_labels sts n) \<Longrightarrow> \<exists>k. n \<le> k \<and> k < n + length sts \<and> cname st = itoh (of_nat k)"
proof (induction sts arbitrary: n)
  case (Cons a sts)
  then consider "cname st = itoh (of_nat n)" | k where "n + 1 \<le> k" "k < n + 1 + length sts" "cname st = itoh (of_nat k)"
    by fastforce
  then show ?case
  proof cases
    case 2
    then show ?thesis by (intro exI [of _ k]) simp
  qed auto
qed simp

lemma all_listed_labels: "all_listed tbl (with_labels sts n) = all_listed tbl sts"
  by (induction sts arbitrary: n) (auto simp: all_listed_def)

lemma label_lists_ok:
  "label_lists sts s = Inr (sts', t) \<Longrightarrow> sts' = with_labels sts (sc_labnum s) \<and> t = s\<lparr>sc_labnum := sc_labnum s + length sts\<rparr>"
proof (induction sts arbitrary: s sts' t)
  case (Cons st sts)
  then obtain r u where r: "label_lists sts (s\<lparr>sc_labnum := sc_labnum s + 1\<rparr>) = Inr (r, u)"
    "sts' = st\<lparr>cname := itoh (of_nat (sc_labnum s))\<rparr> # r" "t = u"
    by (auto simp: getlabel_def bindR_Inr_iff)
  from Cons.IH [OF r(1)] r(2,3) show ?case by simp
qed simp

lemma find_list_listing: "find_list tbl sts v = Inr r \<Longrightarrow> r = listing tbl sts v"
proof (induction sts arbitrary: r)
  case (Cons st sts)
  then show ?case
    by (auto simp: listing_def state_inlist_def state_getlist_ptr_def listed_states_def bindR_Inr_iff list_ex_iff
        split: if_splits option.splits)
qed (simp add: listing_def)

lemma listing_None: "listing tbl sts v = None \<longleftrightarrow> v \<notin> set (all_listed tbl sts)"
  by (auto simp: listing_def find_None_iff all_listed_def)

lemma count_states_ok:
  "count_states tbl sts n d = Inr (k, d') \<Longrightarrow> k = n + length (all_listed tbl sts)
     \<and> d' = fold (\<lambda>st d. if cindex st = -1 then cname st else d) sts d"
proof (induction sts arbitrary: n d)
  case (Cons st sts)
  then show ?case
    by (fastforce simp: all_listed_def listed_states_def state_count_def state_getlist_ptr_def bindR_Inr_iff
        split: if_splits option.splits)
qed (simp add: all_listed_def)

lemma default_label:
  "distinct (map cindex (sts :: constvalue list)) \<Longrightarrow> fold (\<lambda>st d. if cindex st = -1 then cname st else d) sts d
     = (case find (\<lambda>st. cindex st = -1) sts of None \<Rightarrow> d | Some st \<Rightarrow> cname st)"
proof (induction sts arbitrary: d)
  case (Cons st sts)
  have f: "fold (\<lambda>st d. if cindex st = -1 then cname st else d) xs d = d" if "-1 \<notin> cindex ` set xs" for xs :: "constvalue list" and d
    using that by (induction xs arbitrary: d) auto
  have n: "find (\<lambda>st. cindex st = -1) xs = None" if "-1 \<notin> cindex ` set xs" for xs :: "constvalue list"
    using that by (induction xs) auto
  show ?case
  proof (cases "cindex st = -1")
    case True
    then have "-1 \<notin> cindex ` set sts" using Cons.prems by simp
    then show ?thesis using f n True by simp
  qed (use Cons in simp)
qed simp

section \<open>Jump tables\<close>

definition case_text :: "cell \<times> string \<Rightarrow> string" where
  "case_text c = tab @ ''case '' @ itoh (fst c) @ '' '' @ snd c @ nl"

definition jump_cases :: "states \<Rightarrow> int \<Rightarrow> constvalue list \<Rightarrow> constvalue list \<Rightarrow> (cell \<times> string) list" where
  "jump_cases tbl fsa sts qs =
     concat (map (\<lambda>q. if cindex q = fsa
                      then (case listing tbl sts (sint (cvalue q)) of None \<Rightarrow> [] | Some st \<Rightarrow> [(cvalue q, cname st)])
                      else []) qs)"

definition unimplemented :: "states \<Rightarrow> int \<Rightarrow> constvalue list \<Rightarrow> string \<Rightarrow> constvalue list \<Rightarrow> leader_report list" where
  "unimplemented tbl fsa sts fname qs =
     map (\<lambda>q. (230, cname q, fname)) (filter (\<lambda>q. cindex q = fsa \<and> listing tbl sts (sint (cvalue q)) = None) qs)"

lemma jump_cases_simps [simp]:
  "jump_cases tbl fsa sts [] = []"
  "jump_cases tbl fsa sts (q # qs) =
     (if cindex q = fsa
      then (case listing tbl sts (sint (cvalue q)) of None \<Rightarrow> [] | Some st \<Rightarrow> [(cvalue q, cname st)]) else [])
     @ jump_cases tbl fsa sts qs"
  by (simp_all add: jump_cases_def)

lemma unimplemented_simps [simp]:
  "unimplemented tbl fsa sts fname [] = []"
  "unimplemented tbl fsa sts fname (q # qs) =
     (if cindex q = fsa \<and> listing tbl sts (sint (cvalue q)) = None then [(230, cname q, fname)] else [])
     @ unimplemented tbl fsa sts fname qs"
  by (simp_all add: unimplemented_def)

lemma emits_ffcase:
  assumes "NUL \<notin> set l"
  shows "emits (ffcase v l False) {(case_text (v, l), 8)}"
    and "emits (ffcase v l True) {(tab @ ''casetbl'' @ nl @ case_text (v, l), 12)}"
proof -
  have e: "emits (block [stgwrite (tab @ ''case ''), outval v False, stgwrite '' '', stgwrite l, stgwrite nl,
      add_code_idx (opcodes 0 + opargs 2)]) {(case_text (v, l), 8)}"
    by (rule emits_mono, (rule emits_intros | (simp add: assms; fail))+) (simp add: case_text_def opcodes_def opargs_def)
  have tb: "emits (block [stgwrite (tab @ ''casetbl'' @ nl), add_code_idx (opcodes 1)]) {(tab @ ''casetbl'' @ nl, 4)}"
    by (rule emits_mono, (rule emits_intros | (simp; fail))+) (simp add: opcodes_def)
  show "emits (ffcase v l False) {(case_text (v, l), 8)}"
    using emits_block [OF emits_skip e] by (simp add: ffcase_def whenA_def)
  show "emits (ffcase v l True) {(tab @ ''casetbl'' @ nl @ case_text (v, l), 12)}"
    using emits_block [OF tb e] by (simp add: ffcase_def whenA_def)
qed

lemma listing_mem: "listing tbl sts v = Some st \<Longrightarrow> st \<in> set sts"
  by (auto simp: listing_def find_Some_iff)

lemma case_lines_ok:
  "case_lines tbl fsa fname sts dflt nostate qs s = Inr (rs, t) \<Longrightarrow> ready s \<Longrightarrow> \<forall>st \<in> set sts. NUL \<notin> set (cname st) \<Longrightarrow>
   ready t \<and> text_of t = text_of s @ concat (map case_text (jump_cases tbl fsa sts qs))
   \<and> rs = (if fst (strtol16 dflt) = int nostate then unimplemented tbl fsa sts fname qs else [])"
proof (induction qs arbitrary: s rs)
  case (Cons q qs)
  show ?case
  proof (cases "cindex q = fsa")
    case False
    with Cons.prems(1) have "case_lines tbl fsa fname sts dflt nostate qs s = Inr (rs, t)" by simp
    from Cons.IH [OF this Cons.prems(2,3)] False show ?thesis by simp
  next
    case True
    then obtain r where f: "find_list tbl sts (sint (cvalue q)) = Inr r" using Cons.prems(1) by (auto elim: bindR_InrE)
    have l: "listing tbl sts (sint (cvalue q)) = r" using find_list_listing [OF f] by simp
    show ?thesis
    proof (cases r)
      case None
      then obtain rs1 where r1: "case_lines tbl fsa fname sts dflt nostate qs s = Inr (rs1, t)"
        "rs = (if fst (strtol16 dflt) = int nostate then (230, cname q, fname) # rs1 else rs1)"
        using Cons.prems(1) True f by (auto simp: bindR_Inr_iff)
      from Cons.IH [OF r1(1) Cons.prems(2,3)] r1(2) True None l
      show ?thesis by simp
    next
      case (Some st)
      then obtain u where u: "ffcase (cvalue q) (cname st) False s = Inr u"
        "case_lines tbl fsa fname sts dflt nostate qs u = Inr (rs, t)"
        using Cons.prems(1) True f by (auto simp: bindR_Inr_iff)
      have n: "NUL \<notin> set (cname st)" using l Some Cons.prems(3) listing_mem by blast
      have "ready u" "text_of u = text_of s @ case_text (cvalue q, cname st)"
        using emitsE [OF emits_ffcase(1) [OF n] Cons.prems(2) u(1)] by auto
      with Cons.IH [OF u(2) _ Cons.prems(3)] True Some l
      show ?thesis by simp
    qed
  qed
qed simp

lemma jump_cases_keys:
  "map fst (jump_cases tbl fsa sts qs) =
     map cvalue (filter (\<lambda>q. cindex q = fsa \<and> listing tbl sts (sint (cvalue q)) \<noteq> None) qs)"
  by (induction qs) (auto split: option.splits)

lemma jump_cases_mem:
  "q \<in> set qs \<Longrightarrow> cindex q = fsa \<Longrightarrow> listing tbl sts (sint (cvalue q)) = Some st \<Longrightarrow>
   (cvalue q, cname st) \<in> set (jump_cases tbl fsa sts qs)"
  unfolding jump_cases_def by (simp add: bexI [of _ q])

lemma jump_cases_lookup:
  assumes d: "distinct (map cvalue (filter (\<lambda>q. cindex q = fsa) qs))" and q: "q \<in> set qs" "cindex q = fsa"
  shows "map_of (jump_cases tbl fsa sts qs) (cvalue q) = map_option cname (listing tbl sts (sint (cvalue q)))"
proof (cases "listing tbl sts (sint (cvalue q))")
  case None
  then have "cvalue q \<notin> set (map fst (jump_cases tbl fsa sts qs))" unfolding jump_cases_keys by auto
  then show ?thesis using None by (simp add: map_of_eq_None_iff)
next
  case (Some st)
  have "filter (\<lambda>q. cindex q = fsa \<and> listing tbl sts (sint (cvalue q)) \<noteq> None) qs
      = filter (\<lambda>q. listing tbl sts (sint (cvalue q)) \<noteq> None) (filter (\<lambda>q. cindex q = fsa) qs)"
    by (simp add: conj_commute)
  then have "distinct (map fst (jump_cases tbl fsa sts qs))"
    unfolding jump_cases_keys using distinct_map_filter [OF d] by simp
  moreover have "(cvalue q, cname st) \<in> set (jump_cases tbl fsa sts qs)"
    using jump_cases_mem [OF q Some] .
  ultimately show ?thesis using Some by (simp add: map_of_is_SomeI)
qed

text \<open>The announced number of cases is the number of cases.\<close>

lemma jump_cases_count:
  assumes d: "distinct (map cvalue (filter (\<lambda>q. cindex q = fsa) qs))" and l: "distinct (all_listed tbl sts)"
    and own: "set (all_listed tbl sts) \<subseteq> (\<lambda>q. sint (cvalue q)) ` {q \<in> set qs. cindex q = fsa}"
  shows "length (jump_cases tbl fsa sts qs) = length (all_listed tbl sts)"
proof -
  let ?P = "\<lambda>q. cindex q = fsa \<and> listing tbl sts (sint (cvalue q)) \<noteq> None"
  have f: "filter ?P qs = filter (\<lambda>q. listing tbl sts (sint (cvalue q)) \<noteq> None) (filter (\<lambda>q. cindex q = fsa) qs)"
    by (simp add: conj_commute)
  have dc: "distinct (map cvalue (filter ?P qs))" unfolding f using distinct_map_filter [OF d] .
  have di: "distinct (map (\<lambda>q. sint (cvalue q)) (filter ?P qs))"
  proof -
    have "inj_on (sint :: cell \<Rightarrow> int) A" for A by (rule inj_on_subset [OF inj_signed]) simp
    then have "distinct (map sint (map cvalue (filter ?P qs)))" by (intro iffD2 [OF distinct_map] conjI dc)
    then show ?thesis by (simp add: comp_def)
  qed
  have "set (map (\<lambda>q. sint (cvalue q)) (filter ?P qs)) = set (all_listed tbl sts)"
    using own by (auto simp: listing_None)
  then have "length (filter ?P qs) = length (all_listed tbl sts)"
    using distinct_card [OF di] distinct_card [OF l] by simp
  then show ?thesis using arg_cong [OF jump_cases_keys [of tbl fsa sts qs], of length] by simp
qed

section \<open>Label numbers\<close>

lemma hex_run_nibbles:
  "list_all (\<lambda>n. n < 16) ns \<Longrightarrow> hex_run r (map nibble_char ns) = (foldl (\<lambda>r n. 16 * r + int n) r ns, [])"
  by (induction ns arbitrary: r) (auto simp: hex_value_nibble_char)

lemma nibble_shift:
  assumes "n < 16"
  shows "push_bit 4 (w :: cell) OR of_nat n = 16 * w + of_nat n"
proof -
  have "take_bit 4 (of_nat n :: cell) = of_nat n"
    using assms by (simp add: take_bit_nat_eq_self flip: of_nat_take_bit)
  moreover have "push_bit 4 w AND take_bit 4 (of_nat n) = 0"
    by (rule bit_word_eqI) (simp add: bit_simps)
  ultimately have "push_bit 4 w AND of_nat n = 0" by simp
  then have "push_bit 4 w OR of_nat n = push_bit 4 w + of_nat n"
    using word_plus_and_or [of "push_bit 4 w" "of_nat n"] by simp
  then show ?thesis by (simp add: push_bit_eq_mult mult.commute)
qed

lemma foldl_nibbles_bound:
  "list_all (\<lambda>n. n < 16) ns \<Longrightarrow> 0 \<le> r \<Longrightarrow>
   0 \<le> foldl (\<lambda>r n. 16 * r + int n) r ns \<and> foldl (\<lambda>r n. 16 * r + int n) r ns < (r + 1) * 16 ^ length ns"
proof (induction ns arbitrary: r)
  case (Cons n ns)
  let ?y = "foldl (\<lambda>r n. 16 * r + int n) (16 * r + int n) ns"
  have y: "0 \<le> ?y" "?y < (16 * r + int n + 1) * 16 ^ length ns"
    using Cons.IH [of "16 * r + int n"] Cons.prems by simp_all
  have "(16 * r + int n + 1) * 16 ^ length ns \<le> (16 * (r + 1)) * 16 ^ length ns"
    using Cons.prems by (intro mult_right_mono) auto
  also have "\<dots> = (r + 1) * 16 ^ length (n # ns)" by simp
  finally have "?y < (r + 1) * 16 ^ length (n # ns)" using y(2) by linarith
  then show ?case using y(1) by simp
qed simp

lemma high_nonzero_length: "length (high_nonzero ns) \<le> length ns"
  by (induction ns rule: high_nonzero.induct) auto

lemma foldl_nibbles_word:
  "list_all (\<lambda>n. n < 16) ns \<Longrightarrow>
   (word_of_int (foldl (\<lambda>r n. 16 * r + int n) r ns) :: cell) = foldl (\<lambda>r n. push_bit 4 r OR of_nat n) (word_of_int r) ns"
proof (induction ns arbitrary: r)
  case (Cons n ns)
  have "push_bit 4 (word_of_int r :: cell) OR of_nat n = word_of_int (16 * r + int n)"
    using Cons.prems nibble_shift by simp
  with Cons show ?case by simp
qed simp

lemma strip_0x_itoh: "strip_0x (itoh v) = itoh v"
proof -
  have "tolower b \<noteq> CHR ''x''" if "b \<in> set (itoh v)" for b
    using itoh_hex_digits [OF that] by (auto simp: tolower_def isupper_def isdigit_def code_of_def)
  then show ?thesis by (auto simp: strip_0x_def split: list.splits)
qed

lemma strtol16_itoh: "fst (strtol16 (itoh v)) = uint v"
proof -
  let ?ns = "high_nonzero (rev (nibbles v))"
  let ?x = "foldl (\<lambda>r n. 16 * r + int n) 0 ?ns"
  have b: "list_all (\<lambda>n. n < 16) ?ns" by (simp add: list_all_iff high_nonzero_bound)
  obtain c cs where i: "itoh v = c # cs" using itoh_nonempty [of v] by (cases "itoh v") auto
  note c = itoh_hd [OF i]
  have hex: "ishex c" using c by (auto simp: ishex_def)
  have "fst (strtol16 (itoh v)) = fst (hex_run 0 (itoh v))"
    using hex_digit_not_blank [OF c] strip_0x_itoh [of v] hex i by (simp add: strtol16_def split: prod.splits)
  also have "\<dots> = ?x" by (simp add: itoh_def hex_run_nibbles [OF b])
  also have "?x = uint v"
  proof -
    have w: "word_of_int ?x = v"
      using foldl_nibbles_word [OF b, of 0] by (simp add: foldl_high_nonzero nibbles_assemble)
    have "length ?ns \<le> 8" using high_nonzero_length [of "rev (nibbles v)"] by (simp add: nibbles_def)
    then have "(16::int) ^ length ?ns \<le> 16 ^ 8" by (intro power_increasing) auto
    then have "0 \<le> ?x" "?x < 2 ^ 32" using foldl_nibbles_bound [OF b, of 0] by auto
    then have "uint (word_of_int ?x :: cell) = ?x" by (simp add: uint_word_of_int)
    then show ?thesis using w by simp
  qed
  finally show ?thesis .
qed

lemma strtol16_label: "k < 2 ^ 32 \<Longrightarrow> fst (strtol16 (itoh (of_nat k))) = int k"
  by (simp add: strtol16_itoh uint_nat unat_of_nat)

section \<open>What a stub does\<close>

text \<open>The text of a stub: the load of the state selector and the switch; then, behind the label of the table,
  the jump table, which announces how many cases follow.\<close>

definition stub_text :: "cell \<Rightarrow> string \<Rightarrow> nat \<Rightarrow> string" where
  "stub_text addr fname lbl =
     tab @ ''load.pri '' @ itoh addr @ tab @ ''; '' @ fname @ nl @ tab @ ''switch '' @ itoh (of_nat lbl) @ nl"

definition table_text :: "string \<Rightarrow> (cell \<times> string) list \<Rightarrow> string" where
  "table_text dflt cases = tab @ ''casetbl'' @ nl @ concat (map case_text ((of_nat (length cases), dflt) # cases)) @ nl"

text \<open>The label a switch over the table jumps to.\<close>

definition target :: "(cell \<times> string) list \<Rightarrow> string \<Rightarrow> cell \<Rightarrow> string" where
  "target cases dflt v = (case map_of cases v of None \<Rightarrow> dflt | Some l \<Rightarrow> l)"

definition fallback :: "constvalue list \<Rightarrow> constvalue option" where
  "fallback sts = find (\<lambda>st. cindex st = -1) sts"

text \<open>The combinations of a function are all of one automaton, no state is in two of them or twice in one.\<close>

definition function_states :: "states \<Rightarrow> int \<Rightarrow> constvalue list \<Rightarrow> bool" where
  "function_states tbl fsa sts \<longleftrightarrow> distinct (map cindex sts) \<and> (\<exists>st \<in> set sts. cindex st \<noteq> -1)
     \<and> (\<forall>st \<in> set sts. cindex st \<noteq> -1 \<longrightarrow> (\<exists>p. state_getlist_ptr tbl (cindex st) = Inr (Some p) \<and> sl_fsa p = fsa
          \<and> set (sl_states p) \<subseteq> (\<lambda>q. sint (cvalue q)) ` {q \<in> set (state_tab tbl). cindex q = fsa}))
     \<and> distinct (all_listed tbl sts)"

lemma ready_labels: "ready s \<Longrightarrow> ready (s\<lparr>sc_labnum := n\<rparr>)" "text_of (s\<lparr>sc_labnum := n\<rparr>) = text_of s"
  by (simp_all add: ready_def stg_ok_def text_of_def staged_def cbuf_def)

lemma emits_setlabel:
  "emits (setlabel n) (insert (''l.'' @ itoh (of_nat n) @ nl, 0)
     (range (\<lambda>v. (''l.'' @ itoh (of_nat n) @ (tab @ tab @ ''; '' @ itoh v) @ nl, 0))))"
proof -
  have cmt: "emits (\<lambda>s. if \<not> staging s then block [stgwrite (tab @ tab @ ''; ''), \<lambda>s. outval (code_idx s) False s] s else Inr s)
      (insert ([], 0) (range (\<lambda>v. (tab @ tab @ ''; '' @ itoh v, 0))))"
  proof (rule emits_if_state)
    show "emits (block [stgwrite (tab @ tab @ ''; ''), \<lambda>s. outval (code_idx s) False s])
       (insert ([], 0) (range (\<lambda>v. (tab @ tab @ ''; '' @ itoh v, 0))))"
      by (rule emits_mono, (rule emits_intros2 | (simp; fail))+) auto
    show "emits Inr (insert ([], 0) (range (\<lambda>v. (tab @ tab @ ''; '' @ itoh v, 0))))"
      by (rule emits_mono [OF emits_skip]) simp
  qed
  show ?thesis
    unfolding setlabel_def
    by (rule emits_mono, (rule cmt emits_intros2 | (simp add: itoh_chars; fail))+) (auto simp: then_out_def)
qed

lemma function_states_lists:
  assumes "function_states tbl fsa sts"
  shows "set (all_listed tbl sts) \<subseteq> (\<lambda>q. sint (cvalue q)) ` {q \<in> set (state_tab tbl). cindex q = fsa}"
proof
  fix v assume "v \<in> set (all_listed tbl sts)"
  then obtain st where st: "st \<in> set sts" "cindex st \<noteq> -1" "v \<in> set (listed_states tbl (cindex st))"
    by (auto simp: all_listed_def split: if_splits)
  then obtain p where p: "state_getlist_ptr tbl (cindex st) = Inr (Some p)"
    "set (sl_states p) \<subseteq> (\<lambda>q. sint (cvalue q)) ` {q \<in> set (state_tab tbl). cindex q = fsa}"
    using assms unfolding function_states_def by blast
  then have "v \<in> set (sl_states p)" using st(3) by (auto simp: state_getlist_ptr_def bindR_Inr_iff listed_states_def)
  then show "v \<in> (\<lambda>q. sint (cvalue q)) ` {q \<in> set (state_tab tbl). cindex q = fsa}" using p(2) by blast
qed

lemma first_list_state:
  assumes "first_list sts = Inr (i, listid)" and "function_states tbl fsa sts"
  shows "listid \<noteq> -1 \<and> state_getfsa tbl listid = Inr fsa"
proof -
  have d: "distinct (map cindex sts)" "\<exists>st \<in> set sts. cindex st \<noteq> -1" using assms(2) by (simp_all add: function_states_def)
  have "\<exists>st \<in> set sts. listid = cindex st \<and> cindex st \<noteq> -1"
  proof (cases sts)
    case Nil
    then show ?thesis using d by simp
  next
    case (Cons a rest)
    then show ?thesis
      using assms(1) d by (cases rest) (auto simp: first_list_def bindR_Inr_iff split: if_splits)
  qed
  then obtain st where st: "st \<in> set sts" "listid = cindex st" "cindex st \<noteq> -1" by blast
  then obtain p where "state_getlist_ptr tbl listid = Inr (Some p)" "sl_fsa p = fsa"
    using assms(2) unfolding function_states_def by blast
  then show ?thesis using st by (simp add: state_getfsa_def)
qed

text \<open>Writing text does not take labels.\<close>

definition keeps_labels :: "act \<Rightarrow> bool" where
  "keeps_labels a \<longleftrightarrow> (\<forall>s t. ready s \<longrightarrow> a s = Inr t \<longrightarrow> ready t \<and> sc_labnum t = sc_labnum s)"

lemma keeps_stgwrite: "NUL \<notin> set st \<Longrightarrow> keeps_labels (stgwrite st)"
  unfolding keeps_labels_def ready_def using stgwrite_ok same_globals_fields by fastforce

lemma keeps_add: "keeps_labels (add_code_idx n)"
  by (auto simp: keeps_labels_def add_code_idx_def ready_def stg_ok_def)

lemma keeps_block: "keeps_labels (block [])" "keeps_labels a \<Longrightarrow> keeps_labels (block as) \<Longrightarrow> keeps_labels (block (a # as))"
proof -
  show "keeps_labels (block [])" by (simp add: keeps_labels_def)
  assume a: "keeps_labels a" and b: "keeps_labels (block as)"
  show "keeps_labels (block (a # as))"
    unfolding keeps_labels_def
  proof (intro allI impI)
    fix s u assume r: "ready s" and run: "block (a # as) s = Inr u"
    then obtain t where t: "a s = Inr t" "block as t = Inr u" by (auto simp: bindR_Inr_iff)
    have "ready t \<and> sc_labnum t = sc_labnum s" using a r t(1) unfolding keeps_labels_def by blast
    then show "ready u \<and> sc_labnum u = sc_labnum s" using b t(2) unfolding keeps_labels_def by metis
  qed
qed

lemma keeps_labelsD: "keeps_labels a \<Longrightarrow> ready s \<Longrightarrow> a s = Inr t \<Longrightarrow> sc_labnum t = sc_labnum s"
  unfolding keeps_labels_def by blast

lemma keeps_outval: "keeps_labels (outval v False)"
  unfolding outval_def whenA_def
  by (intro keeps_block keeps_stgwrite) (simp_all add: itoh_chars keeps_labels_def)

lemma emits_stub_head:
  assumes "NUL \<notin> set fname"
  shows "emits (block [stgwrite (tab @ ''load.pri ''), outval addr False, stgwrite (tab @ ''; ''), stgwrite fname, stgwrite nl,
      add_code_idx (opcodes 1 + opargs 1)]) {(tab @ ''load.pri '' @ itoh addr @ tab @ ''; '' @ fname @ nl, 8)}"
  by (rule emits_mono, (rule emits_intros | (simp add: assms; fail))+) (simp add: opcodes_def opargs_def)

lemma emits_table_head:
  assumes "NUL \<notin> set dflt"
  shows "emits (block [ffswitch (of_nat lbl), setlabel lbl, ffcase n dflt True])
     ((\<lambda>mark. (tab @ ''switch '' @ itoh (of_nat lbl) @ nl @ ''l.'' @ itoh (of_nat lbl) @ mark @ nl @ tab @ ''casetbl'' @ nl
        @ case_text (n, dflt), 20)) ` UNIV)"
proof -
  have sw: "emits (ffswitch (of_nat lbl)) {(tab @ ''switch '' @ itoh (of_nat lbl) @ nl, 8)}"
    unfolding ffswitch_def
    by (rule emits_mono, (rule emits_intros | (simp; fail))+) (simp add: opcodes_def opargs_def)
  show ?thesis
    by (rule emits_mono [OF emits_block [OF sw emits_block [OF emits_setlabel emits_block [OF emits_ffcase(2) [OF assms] emits_nil]]]])
       (fastforce simp: then_out_def image_iff)
qed

lemma stub_runs:
  assumes run: "state_stub tbl nostate sy sts s = Inr (rs, sy', t)" and s: "ready s"
    and name: "NUL \<notin> set (sname sy)" "sname sy \<noteq> uENTRYFUNC" and ok: "function_states tbl fsa sts"
  defines "sts' \<equiv> with_labels sts (sc_labnum s)" and "lbl \<equiv> sc_labnum s + length sts"
  defines "dflt \<equiv> case fallback sts' of None \<Rightarrow> itoh (of_nat nostate) | Some st \<Rightarrow> cname st"
  shows "\<exists>f mark. automaton_findid tbl fsa = Some f \<and> ready t
    \<and> text_of t = text_of s @ stub_text (cvalue f) (sname sy) lbl @ ''l.'' @ itoh (of_nat lbl) @ mark @ nl @ tab @ ''casetbl'' @ nl
        @ concat (map case_text ((of_nat (length (all_listed tbl sts)), dflt) # jump_cases tbl fsa sts' (state_tab tbl))) @ nl
    \<and> sy' = sy\<lparr>sstates := Some sts', saddr := code_idx s\<rparr>
    \<and> rs = (if fst (strtol16 dflt) = int nostate then unimplemented tbl fsa sts' (sname sy) (state_tab tbl) else [])"
proof -
  obtain i listid where fl: "first_list sts = Inr (i, listid)" using run by (cases "first_list sts") (auto simp: state_stub_def)
  note first = first_list_state [OF fl ok]
  obtain a s1 where ll: "label_lists sts s = Inr (a, s1)" using run fl first by (cases "label_lists sts s") (auto simp: state_stub_def)
  have a: "a = sts'" and s1: "s1 = s\<lparr>sc_labnum := lbl\<rparr>" using label_lists_ok [OF ll] by (simp_all add: sts'_def lbl_def)
  have d: "distinct (map cindex sts')" using ok by (simp add: sts'_def with_labels_index function_states_def)
  obtain k d0 where cs: "count_states tbl sts' 0 (itoh (of_nat nostate)) = Inr (k, d0)"
    using run fl first ll a name(2) by (cases "count_states tbl sts' 0 (itoh (of_nat nostate))") (auto simp: state_stub_def bindR_Inr_iff)
  have k: "k = length (all_listed tbl sts)" "d0 = dflt"
    using count_states_ok [OF cs] default_label [OF d] by (simp_all add: sts'_def all_listed_labels dflt_def fallback_def)
  have "\<exists>f s2 s4 s5. automaton_findid tbl fsa = Some f
      \<and> block [stgwrite (tab @ ''load.pri ''), outval (cvalue f) False, stgwrite (tab @ ''; ''), stgwrite (sname sy), stgwrite nl,
          add_code_idx (opcodes 1 + opargs 1)] s1 = Inr s2
      \<and> block [ffswitch (of_nat (sc_labnum s2)), setlabel (sc_labnum s2), ffcase (of_nat k) dflt True] (s2\<lparr>sc_labnum := sc_labnum s2 + 1\<rparr>) = Inr s4
      \<and> case_lines tbl fsa (sname sy) sts' dflt nostate (state_tab tbl) s4 = Inr (rs, s5) \<and> stgwrite nl s5 = Inr t
      \<and> sy' = sy\<lparr>sstates := Some sts', saddr := code_idx s1\<rparr>"
    using run fl first ll a name(2) cs k(2)
    by (auto simp: state_stub_def getlabel_def bindR_Inr_iff simp del: block.simps split: option.splits)
  then obtain f s2 s4 s5 where st: "automaton_findid tbl fsa = Some f"
      "block [stgwrite (tab @ ''load.pri ''), outval (cvalue f) False, stgwrite (tab @ ''; ''), stgwrite (sname sy), stgwrite nl,
          add_code_idx (opcodes 1 + opargs 1)] s1 = Inr s2"
      "block [ffswitch (of_nat (sc_labnum s2)), setlabel (sc_labnum s2), ffcase (of_nat k) dflt True] (s2\<lparr>sc_labnum := sc_labnum s2 + 1\<rparr>) = Inr s4"
      "case_lines tbl fsa (sname sy) sts' dflt nostate (state_tab tbl) s4 = Inr (rs, s5)" "stgwrite nl s5 = Inr t"
      "sy' = sy\<lparr>sstates := Some sts', saddr := code_idx s1\<rparr>" by blast
  have names: "\<forall>st \<in> set sts'. NUL \<notin> set (cname st)"
    using with_labels_mem by (fastforce simp: sts'_def itoh_chars)
  have dn: "NUL \<notin> set dflt"
    using names by (auto simp: dflt_def fallback_def itoh_chars find_Some_iff split: option.splits)
  have r1: "ready s1" "text_of s1 = text_of s" using s ready_labels by (simp_all add: s1)
  have r2: "ready s2" "text_of s2 = text_of s1 @ tab @ ''load.pri '' @ itoh (cvalue f) @ tab @ ''; '' @ sname sy @ nl"
    using emitsE [OF emits_stub_head [OF name(1)] r1(1) st(2)] by auto
  have "keeps_labels (block [stgwrite (tab @ ''load.pri ''), outval (cvalue f) False, stgwrite (tab @ ''; ''), stgwrite (sname sy),
      stgwrite nl, add_code_idx (opcodes 1 + opargs 1)])"
    by (intro keeps_block keeps_stgwrite keeps_outval keeps_add) (simp_all add: name(1))
  from keeps_labelsD [OF this r1(1) st(2)] have l2: "sc_labnum s2 = lbl" by (simp add: s1)
  have r3: "ready (s2\<lparr>sc_labnum := lbl + 1\<rparr>)" "text_of (s2\<lparr>sc_labnum := lbl + 1\<rparr>) = text_of s2"
    using ready_labels r2(1) by simp_all
  obtain mark where r4: "ready s4" "text_of s4 = text_of s2 @ tab @ ''switch '' @ itoh (of_nat lbl) @ nl @ ''l.'' @ itoh (of_nat lbl) @ mark @ nl
      @ tab @ ''casetbl'' @ nl @ case_text (of_nat k, dflt)"
    using emitsE [OF emits_table_head [OF dn] r3(1) st(3) [unfolded l2]] r3(2) by auto
  note r5 = case_lines_ok [OF st(4) r4(1) names]
  have r6: "ready t" "text_of t = text_of s5 @ nl"
    using emitsE [OF emits_stgwrite [of nl] _ st(5)] r5 by auto
  show ?thesis
    using st(1,6) r6 r5 r4(2) r2(2) r1(2) k(1)
    by (intro exI [of _ f] exI [of _ mark]) (simp add: stub_text_def s1)
qed

text \<open>C15 (\<open>writeleader\<close>, \<open>ffswitch\<close>, \<open>ffcase\<close>): the stub of a function with states selects by the state of its
  automaton. Let the combinations of the function be of one automaton, with no state in two of them or twice in
  one. Then the jump table announces as many cases as it has; a switch over it goes, for each state of the
  automaton, to the label of the combination that lists the state, and for every other value, and for states that
  no combination lists, to the label of the fallback function, or to the exit for undefined states where there is none.
  In the last case every state that is not listed gets a warning 230. The function's address is that of the stub.\<close>
theorem state_function_dispatch:
  assumes "state_stub tbl nostate sy sts s = Inr (rs, sy', t)" and "ready s"
    and "NUL \<notin> set (sname sy)" and "sname sy \<noteq> uENTRYFUNC" and "function_states tbl fsa sts"
    and "states_ok tbl" and "nostate < sc_labnum s" and "sc_labnum s + length sts < 2 ^ 31"
  defines "sts' \<equiv> with_labels sts (sc_labnum s)"
  defines "dflt \<equiv> case fallback sts' of None \<Rightarrow> itoh (of_nat nostate) | Some st \<Rightarrow> cname st"
  shows "\<exists>f lbl mark cases. automaton_findid tbl fsa = Some f
    \<and> text_of t = text_of s @ stub_text (cvalue f) (sname sy) lbl @ ''l.'' @ itoh (of_nat lbl) @ mark @ nl @ table_text dflt cases
    \<and> (\<forall>q \<in> set (state_tab tbl). cindex q = fsa \<longrightarrow> target cases dflt (cvalue q) =
         (case listing tbl sts' (sint (cvalue q)) of None \<Rightarrow> dflt | Some st \<Rightarrow> cname st))
    \<and> (\<forall>v. v \<notin> cvalue ` {q \<in> set (state_tab tbl). cindex q = fsa} \<longrightarrow> target cases dflt v = dflt)
    \<and> rs = (if fallback sts' = None then unimplemented tbl fsa sts' (sname sy) (state_tab tbl) else [])
    \<and> sstates sy' = Some sts' \<and> saddr sy' = code_idx s"
proof -
  let ?cases = "jump_cases tbl fsa sts' (state_tab tbl)" and ?lbl = "sc_labnum s + length sts"
  obtain f mark where r: "automaton_findid tbl fsa = Some f"
    "text_of t = text_of s @ stub_text (cvalue f) (sname sy) ?lbl @ ''l.'' @ itoh (of_nat ?lbl) @ mark @ nl @ tab @ ''casetbl'' @ nl
        @ concat (map case_text ((of_nat (length (all_listed tbl sts)), dflt) # ?cases)) @ nl"
    "sy' = sy\<lparr>sstates := Some sts', saddr := code_idx s\<rparr>"
    "rs = (if fst (strtol16 dflt) = int nostate then unimplemented tbl fsa sts' (sname sy) (state_tab tbl) else [])"
    using stub_runs [OF assms(1-5)] unfolding sts'_def dflt_def by blast
  have "map (\<lambda>q. (cindex q, cvalue q)) (filter (\<lambda>q. cindex q = fsa) (state_tab tbl))
      = map (Pair fsa) (map cvalue (filter (\<lambda>q. cindex q = fsa) (state_tab tbl)))" by (simp add: comp_def)
  moreover have "distinct (map (\<lambda>q. (cindex q, cvalue q)) (filter (\<lambda>q. cindex q = fsa) (state_tab tbl)))"
    using assms(6) by (simp add: states_ok_def distinct_map_filter)
  ultimately have d: "distinct (map cvalue (filter (\<lambda>q. cindex q = fsa) (state_tab tbl)))" by (metis distinct_map)
  have n: "length ?cases = length (all_listed tbl sts)"
    using jump_cases_count [OF d, of tbl sts'] function_states_lists [OF assms(5)] assms(5)
    by (simp add: sts'_def all_listed_labels function_states_def)
  have "target ?cases dflt (cvalue q) = (case listing tbl sts' (sint (cvalue q)) of None \<Rightarrow> dflt | Some st \<Rightarrow> cname st)"
    if "q \<in> set (state_tab tbl)" "cindex q = fsa" for q
    using jump_cases_lookup [OF d that, of tbl sts'] by (simp add: target_def split: option.splits)
  moreover have "target ?cases dflt v = dflt" if "v \<notin> cvalue ` {q \<in> set (state_tab tbl). cindex q = fsa}" for v
  proof -
    have "v \<notin> set (map fst ?cases)" using that unfolding jump_cases_keys by auto
    then show ?thesis by (simp add: target_def map_of_eq_None_iff [THEN iffD2])
  qed
  moreover have "fst (strtol16 dflt) = int nostate \<longleftrightarrow> fallback sts' = None"
  proof (cases "fallback sts'")
    case None
    then show ?thesis using strtol16_label [of nostate] assms(7,8) by (simp add: dflt_def)
  next
    case (Some st)
    then have "st \<in> set sts'" by (auto simp: fallback_def find_Some_iff)
    then obtain k where "sc_labnum s \<le> k" "k < ?lbl" "cname st = itoh (of_nat k)"
      using with_labels_mem unfolding sts'_def by blast
    then show ?thesis using Some strtol16_label [of k] assms(7,8) by (simp add: dflt_def)
  qed
  ultimately show ?thesis
    using r n by (intro exI [of _ f] exI [of _ ?lbl] exI [of _ mark] exI [of _ ?cases]) (simp add: table_text_def)
qed

definition door_states :: states where
  "door_states = \<lparr>automaton_tab = [\<lparr>cname = [], cvalue = 0, cindex = 1\<rparr>],
     state_tab = [\<lparr>cname = [], cvalue = 1, cindex = 1\<rparr>, \<lparr>cname = ''open'', cvalue = 2, cindex = 1\<rparr>,
                  \<lparr>cname = ''shut'', cvalue = 3, cindex = 1\<rparr>],
     statelist_tab = [\<lparr>sl_states = [2], sl_fsa = 1, sl_listid = 1\<rparr>, \<lparr>sl_states = [3], sl_fsa = 1, sl_listid = 2\<rparr>]\<rparr>"

lemma door_function_states:
  "states_ok door_states" "function_states door_states 1 (the (sstates two_state_function))"
  "all_listed door_states (the (sstates two_state_function)) = [2, 3]"
proof -
  show "states_ok door_states" by (simp add: states_ok_def door_states_def)
  show "all_listed door_states (the (sstates two_state_function)) = [2, 3]"
    by (simp add: all_listed_def listed_states_def door_states_def two_state_function_def)
  moreover have "{2, 3} \<subseteq> (\<lambda>q. sint (cvalue q)) ` {q \<in> set (state_tab door_states). cindex q = 1}"
    by (force simp: door_states_def image_iff)
  ultimately show "function_states door_states 1 (the (sstates two_state_function))"
    by (simp add: function_states_def state_getlist_ptr_def door_states_def two_state_function_def)
qed

text \<open>The function implements both named states of its automaton, and the warning 230 comes for the anonymous
  state that every automaton has.\<close>
theorem state_function_dispatch_witness:
  "\<exists>sy' t cases. state_stub door_states 0 two_state_function (the (sstates two_state_function))
        (idle_state False\<lparr>sc_labnum := 1\<rparr>) = Inr ([(230, [], ''f'')], sy', t)
      \<and> target cases ''0'' 2 = ''1'' \<and> target cases ''0'' 3 = ''2'' \<and> target cases ''0'' 1 = ''0'' \<and> saddr sy' = 0"
proof -
  let ?sts = "the (sstates two_state_function)" and ?s = "idle_state False\<lparr>sc_labnum := 1\<rparr>"
  have "case state_stub door_states 0 two_state_function ?sts ?s of Inl _ \<Rightarrow> False | Inr (rs, _) \<Rightarrow> rs = [(230, [], ''f'')]"
    by code_simp
  then obtain sy' t where run: "state_stub door_states 0 two_state_function ?sts ?s = Inr ([(230, [], ''f'')], sy', t)"
    by (auto split: sum.splits)
  have i: "itoh (of_nat 0) = ''0''" "itoh (of_nat 1) = ''1''" "itoh (of_nat 2) = ''2''" by code_simp+
  have l: "with_labels ?sts 1 = [\<lparr>cname = ''1'', cvalue = 0, cindex = 1\<rparr>, \<lparr>cname = ''2'', cvalue = 0, cindex = 2\<rparr>]"
    using i by (simp add: two_state_function_def)
  let ?l = "[\<lparr>cname = ''1'', cvalue = 0, cindex = 1\<rparr>, \<lparr>cname = ''2'', cvalue = 0, cindex = 2\<rparr>]"
  have s: "ready ?s" "sc_labnum ?s = 1" "code_idx ?s = 0" by (simp_all add: ready_def stg_ok_def idle_state_def)
  have d: "(case fallback ?l of None \<Rightarrow> itoh (of_nat 0) | Some st \<Rightarrow> cname st) = ''0''"
    using i by (simp add: fallback_def)
  have n: "NUL \<notin> set (sname two_state_function)" "sname two_state_function \<noteq> uENTRYFUNC" "length ?sts = 2"
    by (simp_all add: two_state_function_def uENTRYFUNC_def)
  have "\<exists>f lbl mark cases. automaton_findid door_states 1 = Some f
      \<and> text_of t = text_of ?s @ stub_text (cvalue f) (sname two_state_function) lbl @ ''l.'' @ itoh (of_nat lbl) @ mark @ nl
          @ table_text ''0'' cases
      \<and> (\<forall>q \<in> set (state_tab door_states). cindex q = 1 \<longrightarrow> target cases ''0'' (cvalue q) =
           (case listing door_states ?l (sint (cvalue q)) of None \<Rightarrow> ''0'' | Some st \<Rightarrow> cname st))
      \<and> (\<forall>v. v \<notin> cvalue ` {q \<in> set (state_tab door_states). cindex q = 1} \<longrightarrow> target cases ''0'' v = ''0'')
      \<and> [(230, [], ''f'')] = (if fallback ?l = None then unimplemented door_states 1 ?l (sname two_state_function) (state_tab door_states) else [])
      \<and> sstates sy' = Some ?l \<and> saddr sy' = 0"
    using state_function_dispatch [OF run s(1) n(1,2) door_function_states(2,1)] unfolding s(2,3) l d n(3) by simp
  then obtain cases where c: "\<forall>q \<in> set (state_tab door_states). cindex q = 1 \<longrightarrow> target cases ''0'' (cvalue q) =
      (case listing door_states ?l (sint (cvalue q)) of None \<Rightarrow> ''0'' | Some st \<Rightarrow> cname st)" "saddr sy' = 0"
    by blast
  have "target cases ''0'' 2 = ''1''" "target cases ''0'' 3 = ''2''" "target cases ''0'' 1 = ''0''"
    using c(1) by (simp_all add: door_states_def listing_def listed_states_def)
  with run c(2) show ?thesis by blast
qed

text \<open>A state that a function names twice is counted twice and has one case: the table announces a case more than
  it has.\<close>

lemma state_named_twice:
  "state_buildlist ([2], 4) 2 = Inr ([2, 2], 4)"
  "count_states (door_states\<lparr>statelist_tab := [\<lparr>sl_states = [2, 2], sl_fsa = 1, sl_listid = 1\<rparr>]\<rparr>)
     [\<lparr>cname = ''1'', cvalue = 0, cindex = 1\<rparr>] 0 ''0'' = Inr (2, ''0'')"
  "jump_cases (door_states\<lparr>statelist_tab := [\<lparr>sl_states = [2, 2], sl_fsa = 1, sl_listid = 1\<rparr>]\<rparr>) 1
     [\<lparr>cname = ''1'', cvalue = 0, cindex = 1\<rparr>] (state_tab door_states) = [(2, ''1'')]"
  by code_simp+

end
