(* ===== verification/ScRules.thy ===== *)
theory ScRules
  imports ScStage
begin

text \<open>
  The rules of the peephole optimiser (sc7.scp): \<open>sequences_cmp\<close> is the table as it is compiled
  into the program, with byte pair compressed strings, \<open>sequences_table\<close> its pair table, and
  \<open>sequences_scpack\<close> the same table in plain text, the other branch of the conditional
  compilation. Rules that the source has commented out are left out.
\<close>

record sequence =
  seq_find :: string
  seq_replace :: string
  savesize :: cell

definition seqsize :: "cell \<Rightarrow> cell \<Rightarrow> cell" where "seqsize opc p = opcodes opc + opargs p"

definition pattern_rule :: "string \<Rightarrow> string \<Rightarrow> cell \<Rightarrow> sequence" where
  "pattern_rule f r n = \<lparr>seq_find = f, seq_replace = r, savesize = n\<rparr>"

lemma pattern_rule_simps [simp]:
  "seq_find (pattern_rule f r n) = f" "seq_replace (pattern_rule f r n) = r" "savesize (pattern_rule f r n) = n"
  by (simp_all add: pattern_rule_def)

definition sequences_table :: "(nat \<times> nat) list" where
  "sequences_table =
    [(32, 37), (114, 105), (112, 129), (46, 130), (128, 49), (132, 33), (97, 100), (46, 97), (135, 108),
     (136, 116), (111, 134), (108, 138), (50, 33), (115, 104), (128, 140), (137, 33), (46, 115), (117,
     141), (112, 145), (131, 133), (139, 144), (112, 143), (131, 142), (115, 116), (131, 33), (59, 36),
     (134, 100), (111, 149), (112, 155), (110, 151), (111, 157), (99, 158), (146, 152), (112, 33), (120,
     161), (101, 162), (153, 163), (148, 150), (137, 133), (46, 99), (122, 101), (168, 114), (154, 114),
     (110, 100), (101, 113), (147, 160), (51, 33), (128, 174), (103, 33), (133, 164), (104, 176), (99,
     178), (120, 179), (172, 33), (106, 169), (173, 165), (154, 33), (108, 167), (117, 171), (115, 175),
     (186, 187), (156, 184), (141, 185), (111, 188), (98, 191), (105, 100), (115, 103), (115, 108), (193,
     120), (182, 133), (114, 33), (166, 165), (190, 131), (137, 142), (171, 33), (97, 202), (169, 111),
     (139, 147), (159, 147), (139, 150), (105, 33), (146, 167), (101, 115), (210, 115), (114, 116), (148,
     147), (172, 133), (189, 139), (32, 140), (52, 33), (196, 170), (159, 183), (170, 183), (199, 192),
     (108, 196), (97, 198), (195, 211), (46, 208), (194, 212), (200, 216), (112, 223), (46, 98), (118,
     101), (153, 228), (111, 230), (109, 232), (146, 143), (204, 152), (99, 144), (159, 150), (97, 149),
     (203, 156), (224, 33), (159, 166), (194, 181), (195, 181), (201, 180), (226, 198), (156, 203), (128,
     217), (215, 225), (100, 101), (238, 239), (105, 110), (115, 119), (252, 250), (154, 167)]"

definition sequences_cmp :: "sequence list" where
  "sequences_cmp =
    [pattern_rule ([CHR 0x94, CHR 0xB7, CHR 0x9C]) ([CHR 0xA5, CHR 0x94, CHR 0xA6]) (seqsize 4 2 - seqsize 2 2),
     pattern_rule ([CHR 0x8B, CHR 0xB7, CHR 0x9C]) ([CHR 0xA5, CHR 0x8B, CHR 0xA6]) (seqsize 4 2 - seqsize 2 2),
     pattern_rule ([CHR 0x94, CHR 0xAD, CHR 0xCF, CHR 0x9C]) ([CHR 0xCF, CHR 0x94, CHR 0xA6]) (seqsize 4 2 - seqsize 2 2),
     pattern_rule ([CHR 0x8B, CHR 0xAD, CHR 0xCF, CHR 0x9C]) ([CHR 0xCF, CHR 0x8B, CHR 0xA6]) (seqsize 4 2 - seqsize 2 2),
     pattern_rule ([CHR 0xDC, CHR 0x9C]) ([CHR 0xAA, CHR 0xC7]) (seqsize 4 2 - seqsize 2 2),
     pattern_rule ([CHR 0xAA, CHR 0xAD, CHR 0xCF, CHR 0x9C]) ([CHR 0xAA, CHR 0xA6, CHR 0xCF]) (seqsize 4 2 - seqsize 2 2),
     pattern_rule ([CHR 0xDB, CHR 0x9C]) ([CHR 0xA5, CHR 0xF1]) (seqsize 4 2 - seqsize 2 2),
     pattern_rule ([CHR 0x9F, CHR 0xAD, CHR 0xCF, CHR 0x9C]) ([CHR 0xCF, CHR 0xF1]) (seqsize 4 2 - seqsize 2 2),
     pattern_rule ([CHR 0x94, CHR 0xAD, CHR 0xED, CHR 0x9C]) ([CHR 0xED, CHR 0x94, CHR 0xA6]) (seqsize 4 2 - seqsize 2 2),
     pattern_rule ([CHR 0x8B, CHR 0xAD, CHR 0xED, CHR 0x9C]) ([CHR 0xED, CHR 0x8B, CHR 0xA6]) (seqsize 4 2 - seqsize 2 2),
     pattern_rule ([CHR 0xAA, CHR 0xAD, CHR 0xED, CHR 0x9C]) ([CHR 0xAA, CHR 0xA6, CHR 0xED]) (seqsize 4 2 - seqsize 2 2),
     pattern_rule ([CHR 0xAA, CHR 0xAD, CHR 0xEB, CHR 0x9C]) ([CHR 0xAA, CHR 0xA6, CHR 0xEB]) (seqsize 4 1 - seqsize 2 1),
     pattern_rule ([CHR 0xE9, CHR 0x98, CHR 0xA0, CHR 0xD5, CHR 0x9C]) ([CHR 0xD5]) (seqsize 4 1 - seqsize 1 1),
     pattern_rule ([CHR 0xE9, CHR 0x98, CHR 0xA0, CHR 0xCD, CHR 0x9C]) ([CHR 0xCD]) (seqsize 4 1 - seqsize 1 1),
     pattern_rule ([CHR 0xE9, CHR 0x98, CHR 0xA0, CHR 0xCE, CHR 0x9C]) ([CHR 0xCE]) (seqsize 4 1 - seqsize 1 1),
     pattern_rule ([CHR 0xB4, CHR 0xF5, CHR 0xFD, CHR 0xA4]) ([CHR 0xF0, CHR 0xF6, CHR 0xA4]) (seqsize 5 0 - seqsize 3 0),
     pattern_rule ([CHR 0xB4, CHR 0xF0, CHR 0xFD, CHR 0xA4]) ([CHR 0xF5, CHR 0xF6, CHR 0xA4]) (seqsize 5 0 - seqsize 3 0),
     pattern_rule ([CHR 0xB4, CHR 0xF2, CHR 0xFD, CHR 0xA4]) ([CHR 0xF3, CHR 0xF6, CHR 0xA4]) (seqsize 5 0 - seqsize 3 0),
     pattern_rule ([CHR 0xB4, CHR 0xF3, CHR 0xFD, CHR 0xA4]) ([CHR 0xF2, CHR 0xF6, CHR 0xA4]) (seqsize 5 0 - seqsize 3 0),
     pattern_rule ([CHR 0xB4, CHR 0xF5, CHR 0xFD, CHR 0xC5]) ([CHR 0xF0, CHR 0xF6, CHR 0xC5]) (seqsize 5 0 - seqsize 3 0),
     pattern_rule ([CHR 0xB4, CHR 0xF0, CHR 0xFD, CHR 0xC5]) ([CHR 0xF5, CHR 0xF6, CHR 0xC5]) (seqsize 5 0 - seqsize 3 0),
     pattern_rule ([CHR 0xB4, CHR 0xF2, CHR 0xFD, CHR 0xC5]) ([CHR 0xF3, CHR 0xF6, CHR 0xC5]) (seqsize 5 0 - seqsize 3 0),
     pattern_rule ([CHR 0xB4, CHR 0xF3, CHR 0xFD, CHR 0xC5]) ([CHR 0xF2, CHR 0xF6, CHR 0xC5]) (seqsize 5 0 - seqsize 3 0),
     pattern_rule ([CHR 0xB4, CHR 0xF5, CHR 0xB6, CHR 0xB1]) (''j'' @ [CHR 0xC2, CHR 0xAC, CHR 0xB1]) (seqsize 3 1 - seqsize 1 1),
     pattern_rule ([CHR 0xB4, CHR 0xF0, CHR 0xB6, CHR 0xB1]) (''j'' @ [CHR 0xC3, CHR 0xAC, CHR 0xB1]) (seqsize 3 1 - seqsize 1 1),
     pattern_rule ([CHR 0xB4, CHR 0xF2, CHR 0xB6, CHR 0xB1]) (''j'' @ [CHR 0xE2] @ ''r'' @ [CHR 0xB1]) (seqsize 3 1 - seqsize 1 1),
     pattern_rule ([CHR 0xB4, CHR 0xF3, CHR 0xB6, CHR 0xB1]) (''j'' @ [CHR 0xE0, CHR 0xB1]) (seqsize 3 1 - seqsize 1 1),
     pattern_rule ([CHR 0xB4, CHR 0xF5, CHR 0xA4]) ([CHR 0xF0, CHR 0xA4]) (seqsize 2 0 - seqsize 1 0),
     pattern_rule ([CHR 0xB4, CHR 0xF0, CHR 0xA4]) ([CHR 0xF5, CHR 0xA4]) (seqsize 2 0 - seqsize 1 0),
     pattern_rule ([CHR 0xB4, CHR 0xF2, CHR 0xA4]) ([CHR 0xF3, CHR 0xA4]) (seqsize 2 0 - seqsize 1 0),
     pattern_rule ([CHR 0xB4, CHR 0xF3, CHR 0xA4]) ([CHR 0xF2, CHR 0xA4]) (seqsize 2 0 - seqsize 1 0),
     pattern_rule ([CHR 0xD5, CHR 0x94, CHR 0xF4]) ([CHR 0xA5, CHR 0x94, CHR 0xA6]) (seqsize 3 2 - seqsize 2 2),
     pattern_rule ([CHR 0xD5, CHR 0x8B, CHR 0xF4]) ([CHR 0xCF, CHR 0x94, CHR 0xA6]) (seqsize 3 2 - seqsize 2 2),
     pattern_rule ([CHR 0xD5, CHR 0x9F, CHR 0xF4]) ([CHR 0xED, CHR 0x94, CHR 0xA6]) (seqsize 3 2 - seqsize 2 2),
     pattern_rule ([CHR 0xCD, CHR 0x94, CHR 0xF4]) ([CHR 0xA5, CHR 0x8B, CHR 0xA6]) (seqsize 3 2 - seqsize 2 2),
     pattern_rule ([CHR 0xCD, CHR 0x8B, CHR 0xF4]) ([CHR 0xCF, CHR 0x8B, CHR 0xA6]) (seqsize 3 2 - seqsize 2 2),
     pattern_rule ([CHR 0xCD, CHR 0x9F, CHR 0xF4]) ([CHR 0xED, CHR 0x8B, CHR 0xA6]) (seqsize 3 2 - seqsize 2 2),
     pattern_rule ([CHR 0xCE, CHR 0x94, CHR 0xF4]) ([CHR 0xA5, CHR 0xF1]) (seqsize 3 2 - seqsize 2 2),
     pattern_rule ([CHR 0xCE, CHR 0x8B, CHR 0xF4]) ([CHR 0xCF, CHR 0xF1]) (seqsize 3 2 - seqsize 2 2),
     pattern_rule ([CHR 0xDC, CHR 0xC0, CHR 0xE3, CHR 0xF8]) ([CHR 0xAA, CHR 0xDD, CHR 0xDE] @ ''!'') (seqsize 8 4 - seqsize 4 3),
     pattern_rule ([CHR 0xDB, CHR 0xC0, CHR 0xE3, CHR 0xF8]) ([CHR 0x9F, CHR 0xDD, CHR 0xDE] @ ''!'') (seqsize 8 4 - seqsize 4 3),
     pattern_rule ([CHR 0xDC, CHR 0xE3, CHR 0xF8]) ([CHR 0xAA, CHR 0xC7, CHR 0xDE] @ ''!'') (seqsize 7 3 - seqsize 3 2),
     pattern_rule ([CHR 0xDB, CHR 0xE3, CHR 0xF8]) ([CHR 0x9F, CHR 0xC7, CHR 0xDE] @ ''!'') (seqsize 7 3 - seqsize 3 2),
     pattern_rule ([CHR 0xDC, CHR 0xC0, CHR 0xC8, CHR 0xF7, CHR 0xF8]) ([CHR 0xAA, CHR 0xDD, CHR 0xDE, CHR 0xE5, CHR 0xF7]) (seqsize 8 4 - seqsize 4 4),
     pattern_rule ([CHR 0xDB, CHR 0xC0, CHR 0xC8, CHR 0xF7, CHR 0xF8]) ([CHR 0x9F, CHR 0xDD, CHR 0xDE, CHR 0xE5, CHR 0xF7]) (seqsize 8 4 - seqsize 4 4),
     pattern_rule ([CHR 0xDC, CHR 0xC8, CHR 0xAF, CHR 0xF8]) ([CHR 0xAA, CHR 0xC7, CHR 0xDE, CHR 0xE5, CHR 0xAF]) (seqsize 7 3 - seqsize 3 3),
     pattern_rule ([CHR 0xDB, CHR 0xC8, CHR 0xAF, CHR 0xF8]) ([CHR 0x9F, CHR 0xC7, CHR 0xDE, CHR 0xE5, CHR 0xAF]) (seqsize 7 3 - seqsize 3 3),
     pattern_rule ([CHR 0xDC, CHR 0xC0, CHR 0xE3, CHR 0xBD]) ([CHR 0xAA, CHR 0xDD, CHR 0xDA] @ ''!'') (seqsize 7 4 - seqsize 4 3),
     pattern_rule ([CHR 0xDB, CHR 0xC0, CHR 0xE3, CHR 0xBD]) ([CHR 0x9F, CHR 0xDD, CHR 0xDA] @ ''!'') (seqsize 7 4 - seqsize 4 3),
     pattern_rule ([CHR 0xDC, CHR 0xE3, CHR 0xBD]) ([CHR 0xAA, CHR 0xC7, CHR 0xDA] @ ''!'') (seqsize 6 3 - seqsize 3 2),
     pattern_rule ([CHR 0xDB, CHR 0xE3, CHR 0xBD]) ([CHR 0x9F, CHR 0xC7, CHR 0xDA] @ ''!'') (seqsize 6 3 - seqsize 3 2),
     pattern_rule ([CHR 0xDC, CHR 0xC0, CHR 0xC8, CHR 0xF7, CHR 0xBD]) ([CHR 0xAA, CHR 0xDD, CHR 0xDA, CHR 0xE5, CHR 0xF7]) (seqsize 7 4 - seqsize 4 4),
     pattern_rule ([CHR 0xDB, CHR 0xC0, CHR 0xC8, CHR 0xF7, CHR 0xBD]) ([CHR 0x9F, CHR 0xDD, CHR 0xDA, CHR 0xE5, CHR 0xF7]) (seqsize 7 4 - seqsize 4 4),
     pattern_rule ([CHR 0xDC, CHR 0xC8, CHR 0xAF, CHR 0xBD]) ([CHR 0xAA, CHR 0xC7, CHR 0xDA, CHR 0xE5, CHR 0xAF]) (seqsize 6 3 - seqsize 3 3),
     pattern_rule ([CHR 0xDB, CHR 0xC8, CHR 0xAF, CHR 0xBD]) ([CHR 0x9F, CHR 0xC7, CHR 0xDA, CHR 0xE5, CHR 0xAF]) (seqsize 6 3 - seqsize 3 3),
     pattern_rule ([CHR 0xE3, CHR 0xD7, CHR 0xD0]) ([CHR 0x9C, CHR 0xDE] @ ''!'') (seqsize 4 1 - seqsize 2 0),
     pattern_rule ([CHR 0xE3, CHR 0xBD]) ([CHR 0x9C, CHR 0xDA] @ ''!'') (seqsize 3 1 - seqsize 2 0),
     pattern_rule ([CHR 0xBE, CHR 0x93, CHR 0xD7, CHR 0xD0]) ([CHR 0x9C, CHR 0xDE, CHR 0xE5, CHR 0x85]) (seqsize 4 1 - seqsize 2 1),
     pattern_rule ([CHR 0xBE, CHR 0x93, CHR 0xBD]) ([CHR 0x9C, CHR 0xDA, CHR 0xE5, CHR 0x85]) (seqsize 3 1 - seqsize 2 1),
     pattern_rule ([CHR 0xDC, CHR 0xC0, CHR 0x9C]) ([CHR 0xAA, CHR 0xDD]) (seqsize 5 3 - seqsize 3 3),
     pattern_rule ([CHR 0xDB, CHR 0xC0, CHR 0x9C]) ([CHR 0x9F, CHR 0xDD]) (seqsize 5 3 - seqsize 3 3),
     pattern_rule ([CHR 0x99] @ ''lcl'' @ [CHR 0x84, CHR 0x8E, CHR 0x97] @ ''ack -'' @ [CHR 0xD9, CHR 0x9F, CHR 0x83, CHR 0xAF, CHR 0x97] @ ''or'' @ [CHR 0x90, CHR 0x96, CHR 0xA4]) ([CHR 0x99] @ ''lcl'' @ [CHR 0x84, CHR 0x8E, CHR 0xD1, CHR 0xAF, CHR 0xA4]) (seqsize 3 3 - seqsize 1 1),
     pattern_rule ([CHR 0x99] @ ''lcl'' @ [CHR 0x84, CHR 0x8E, CHR 0x97] @ ''ack -'' @ [CHR 0xD9, CHR 0xEB, CHR 0x97] @ ''or'' @ [CHR 0x90, CHR 0x96, CHR 0xA4]) ([CHR 0x99] @ ''lcl'' @ [CHR 0x84, CHR 0x8E, CHR 0xD1] @ '' 0!'' @ [CHR 0xA4]) (seqsize 3 2 - seqsize 1 1),
     pattern_rule ([CHR 0xA0, CHR 0xD5, CHR 0x9C]) ([CHR 0xE9, CHR 0x8F, CHR 0xD5]) (seqsize 3 1 - seqsize 2 1),
     pattern_rule ([CHR 0xA0, CHR 0xCD, CHR 0x9C]) ([CHR 0xE9, CHR 0x8F, CHR 0xCD]) (seqsize 3 1 - seqsize 2 1),
     pattern_rule ([CHR 0xA0, CHR 0xCE, CHR 0x9C]) ([CHR 0xE9, CHR 0x8F, CHR 0xCE]) (seqsize 3 1 - seqsize 2 1),
     pattern_rule ([CHR 0xA0, CHR 0xEB, CHR 0x9C]) ([CHR 0xE9, CHR 0x8F, CHR 0xEB]) (seqsize 3 0 - seqsize 2 0),
     pattern_rule ([CHR 0xA0, CHR 0x8B, CHR 0xE1, CHR 0x9C]) ([CHR 0xE9, CHR 0x8F, CHR 0x8B, CHR 0xE1]) (seqsize 3 0 - seqsize 2 0),
     pattern_rule ([CHR 0xA0, CHR 0x9C]) ([CHR 0xE9, CHR 0x8F]) (seqsize 2 0 - seqsize 1 0),
     pattern_rule ([CHR 0xCE, CHR 0x9F, CHR 0xC9, CHR 0xA0, CHR 0xEA]) ([CHR 0xD1, CHR 0x85, CHR 0xD1, CHR 0x8E]) (seqsize 4 2 - seqsize 2 2),
     pattern_rule ([CHR 0xCE, CHR 0x9F, CHR 0xC9, CHR 0xEA, CHR 0xA0]) ([CHR 0xD1, CHR 0x8E, CHR 0xD1, CHR 0x85]) (seqsize 4 2 - seqsize 2 2),
     pattern_rule ([CHR 0xCE, CHR 0x8B, CHR 0xC9, CHR 0xA0, CHR 0xEA]) ([CHR 0xD1, CHR 0x85, CHR 0x92, CHR 0x8E]) (seqsize 4 2 - seqsize 2 2),
     pattern_rule ([CHR 0xCE, CHR 0x8B, CHR 0xC9, CHR 0xEA, CHR 0xA0]) ([CHR 0x92, CHR 0x8E, CHR 0xD1, CHR 0x85]) (seqsize 4 2 - seqsize 2 2),
     pattern_rule ([CHR 0xCD, CHR 0x9F, CHR 0xC9, CHR 0xA0, CHR 0xEA]) ([CHR 0x92, CHR 0x85, CHR 0xD1, CHR 0x8E]) (seqsize 4 2 - seqsize 2 2),
     pattern_rule ([CHR 0xCD, CHR 0x9F, CHR 0xC9, CHR 0xEA, CHR 0xA0]) ([CHR 0xD1, CHR 0x8E, CHR 0x92, CHR 0x85]) (seqsize 4 2 - seqsize 2 2),
     pattern_rule ([CHR 0xCD, CHR 0x8B, CHR 0xC9, CHR 0xA0, CHR 0xEA]) ([CHR 0x92, CHR 0x85, CHR 0x92, CHR 0x8E]) (seqsize 4 2 - seqsize 2 2),
     pattern_rule ([CHR 0xCD, CHR 0x8B, CHR 0xC9, CHR 0xEA, CHR 0xA0]) ([CHR 0x92, CHR 0x8E, CHR 0x92, CHR 0x85]) (seqsize 4 2 - seqsize 2 2),
     pattern_rule ([CHR 0x94, CHR 0xAD, CHR 0xE7]) ([CHR 0x92, CHR 0x90, CHR 0x85, CHR 0xE7]) (seqsize 2 1 - seqsize 1 1),
     pattern_rule ([CHR 0x8B, CHR 0xAD, CHR 0xE7]) ([CHR 0x92, CHR 0x85, CHR 0xE7]) (seqsize 2 1 - seqsize 1 1),
     pattern_rule ([CHR 0x9F, CHR 0xAD, CHR 0xE7]) ([CHR 0xD1, CHR 0x85, CHR 0xE7]) (seqsize 2 1 - seqsize 1 1),
     pattern_rule ([CHR 0xEB, CHR 0xA0, CHR 0xE7]) ([CHR 0xD1] @ '' 0!'' @ [CHR 0xE7]) (seqsize 2 0 - seqsize 1 1),
     pattern_rule ([CHR 0xAA, CHR 0xAD, CHR 0xE7]) ([CHR 0x92, CHR 0xAA, CHR 0x85, CHR 0xE7]) (seqsize 2 1 - seqsize 1 1),
     pattern_rule ([CHR 0xE9, CHR 0x98, CHR 0xA0]) ([CHR 0xEA]) (seqsize 2 0 - seqsize 1 0),
     pattern_rule ([CHR 0xF1, CHR 0xB8]) ([CHR 0xFE, CHR 0x85]) (seqsize 2 1 - seqsize 1 1),
     pattern_rule ([CHR 0xF1] @ ''sub!'') ([CHR 0xFE] @ '' -%1!'') (seqsize 2 1 - seqsize 1 1),
     pattern_rule ([CHR 0xF1] @ ''smul!'') (''smu'' @ [CHR 0xB9, CHR 0x85]) (seqsize 2 1 - seqsize 1 1),
     pattern_rule ([CHR 0xF1, CHR 0xB5]) ([CHR 0xAC, CHR 0xA7, CHR 0x93]) (seqsize 2 1 - seqsize 1 1),
     pattern_rule ([CHR 0xCE, CHR 0x94, CHR 0xC9] @ ''sub'' @ [CHR 0x8F]) ([CHR 0xA5, CHR 0xFE] @ '' -%1!'') (seqsize 3 2 - seqsize 2 2),
     pattern_rule ([CHR 0xCE, CHR 0x8B, CHR 0xC9] @ ''sub'' @ [CHR 0x8F]) ([CHR 0xCF, CHR 0xFE] @ '' -%1!'') (seqsize 3 2 - seqsize 2 2),
     pattern_rule ([CHR 0xFE, CHR 0x85, CHR 0xFE, CHR 0x8E]) ([CHR 0xFE, CHR 0x84] @ ''+%'' @ [CHR 0x8C]) (seqsize 2 2 - seqsize 1 1),
     pattern_rule ([CHR 0xB5, CHR 0xC5]) (''jn'' @ [CHR 0xD6]) (seqsize 2 1 - seqsize 1 1),
     pattern_rule ([CHR 0xB5] @ ''jnz'' @ [CHR 0x85]) (''j'' @ [CHR 0xD6]) (seqsize 2 1 - seqsize 1 1),
     pattern_rule (''n'' @ [CHR 0xB5, CHR 0xC5]) (''j'' @ [CHR 0xD6]) (seqsize 2 1 - seqsize 1 1),
     pattern_rule (''n'' @ [CHR 0xB5] @ ''jnz'' @ [CHR 0x85]) (''jn'' @ [CHR 0xD6]) (seqsize 2 1 - seqsize 1 1),
     pattern_rule (''l'' @ [CHR 0xD3] @ ''!'' @ [CHR 0xC5]) (''jg'' @ [CHR 0xD6]) (seqsize 2 1 - seqsize 1 1),
     pattern_rule (''l'' @ [CHR 0xB5, CHR 0xC5]) (''jg'' @ [CHR 0xD4] @ ''r'' @ [CHR 0x85]) (seqsize 2 1 - seqsize 1 1),
     pattern_rule (''g'' @ [CHR 0xD4, CHR 0xC6, CHR 0xC5]) (''jl'' @ [CHR 0xD6]) (seqsize 2 1 - seqsize 1 1),
     pattern_rule (''g'' @ [CHR 0xB5, CHR 0xC5]) (''jl'' @ [CHR 0xD3, CHR 0x85]) (seqsize 2 1 - seqsize 1 1),
     pattern_rule ([CHR 0xF0, CHR 0xC5]) (''j'' @ [CHR 0xC2, CHR 0xD6]) (seqsize 2 1 - seqsize 1 1),
     pattern_rule ([CHR 0xF3, CHR 0xC5]) (''j'' @ [CHR 0xE2] @ ''r'' @ [CHR 0x85]) (seqsize 2 1 - seqsize 1 1),
     pattern_rule ([CHR 0xF5, CHR 0xC5]) (''j'' @ [CHR 0xC3, CHR 0xD6]) (seqsize 2 1 - seqsize 1 1),
     pattern_rule ([CHR 0xF2, CHR 0xC5]) (''j'' @ [CHR 0xE0, CHR 0x85]) (seqsize 2 1 - seqsize 1 1),
     pattern_rule ([CHR 0xCC, CHR 0x8F] @ ''j'' @ [CHR 0xD6]) ([CHR 0xC5]) (seqsize 2 1 - seqsize 1 1),
     pattern_rule ([CHR 0xCC, CHR 0x8F] @ ''jn'' @ [CHR 0xD6]) (''jnz'' @ [CHR 0x85]) (seqsize 2 1 - seqsize 1 1),
     pattern_rule ([CHR 0xFB] @ ''c'' @ [CHR 0x85, CHR 0xCD, CHR 0xA4]) ([CHR 0xFB] @ ''c'' @ [CHR 0xB1]) (seqsize 2 2 - seqsize 1 1),
     pattern_rule ([CHR 0xCD, CHR 0xFB] @ ''c'' @ [CHR 0xB1]) ([CHR 0xFB] @ ''c'' @ [CHR 0xB1]) (seqsize 2 2 - seqsize 1 1),
     pattern_rule ([CHR 0xFB, CHR 0xEC, CHR 0x85, CHR 0xD5, CHR 0xA4]) ([CHR 0xFB, CHR 0xEC, CHR 0xB1]) (seqsize 2 2 - seqsize 1 1),
     pattern_rule ([CHR 0xD5, CHR 0xFB, CHR 0xEC, CHR 0xB1]) ([CHR 0xFB, CHR 0xEC, CHR 0xB1]) (seqsize 2 2 - seqsize 1 1),
     pattern_rule ([CHR 0xF9] @ ''c'' @ [CHR 0x85, CHR 0xCD, CHR 0xA4]) ([CHR 0xF9] @ ''c'' @ [CHR 0xB1]) (seqsize 2 2 - seqsize 1 1),
     pattern_rule ([CHR 0xCD, CHR 0xF9] @ ''c'' @ [CHR 0xB1]) ([CHR 0xF9] @ ''c'' @ [CHR 0xB1]) (seqsize 2 2 - seqsize 1 1),
     pattern_rule ([CHR 0xF9, CHR 0xEC, CHR 0x85, CHR 0xD5, CHR 0xA4]) ([CHR 0xF9, CHR 0xEC, CHR 0xB1]) (seqsize 2 2 - seqsize 1 1),
     pattern_rule ([CHR 0xD5, CHR 0xF9, CHR 0xEC, CHR 0xB1]) ([CHR 0xF9, CHR 0xEC, CHR 0xB1]) (seqsize 2 2 - seqsize 1 1),
     pattern_rule ([CHR 0x9F, CHR 0x83] @ '' 0!'' @ [CHR 0x97] @ ''or'' @ [CHR 0x93, CHR 0xA4]) ([CHR 0xCC, CHR 0xB1]) (seqsize 2 2 - seqsize 1 1),
     pattern_rule ([CHR 0x9F, CHR 0x83] @ '' 0!'' @ [CHR 0x97] @ ''or'' @ [CHR 0x90, CHR 0x93, CHR 0xA4]) ([CHR 0xCC, CHR 0x90, CHR 0xB1]) (seqsize 2 2 - seqsize 1 1),
     pattern_rule ([CHR 0xEB, CHR 0x97] @ ''or'' @ [CHR 0x93, CHR 0xA4]) ([CHR 0xCC, CHR 0xB1]) (seqsize 2 1 - seqsize 1 1),
     pattern_rule ([CHR 0xEB, CHR 0x97] @ ''or'' @ [CHR 0x90, CHR 0x93, CHR 0xA4]) ([CHR 0xCC, CHR 0x90, CHR 0xB1]) (seqsize 2 1 - seqsize 1 1),
     pattern_rule ([CHR 0x9F, CHR 0x83] @ '' 0!'') ([CHR 0xEB]) (seqsize 1 1 - seqsize 1 0),
     pattern_rule ([CHR 0x9F, CHR 0x89] @ '' 0!'') ([CHR 0xCC, CHR 0x8F]) (seqsize 1 1 - seqsize 1 0)]"

definition sequences_scpack :: "sequence list" where
  "sequences_scpack =
    [pattern_rule ''load.s.pri %1!push.pri!load.s.pri %2!pop.alt!'' ''load.s.pri %2!load.s.alt %1!'' (seqsize 4 2 - seqsize 2 2),
     pattern_rule ''load.pri %1!push.pri!load.s.pri %2!pop.alt!'' ''load.s.pri %2!load.alt %1!'' (seqsize 4 2 - seqsize 2 2),
     pattern_rule ''load.s.pri %1!push.pri!load.pri %2!pop.alt!'' ''load.pri %2!load.s.alt %1!'' (seqsize 4 2 - seqsize 2 2),
     pattern_rule ''load.pri %1!push.pri!load.pri %2!pop.alt!'' ''load.pri %2!load.alt %1!'' (seqsize 4 2 - seqsize 2 2),
     pattern_rule ''addr.pri %1!push.pri!load.s.pri %2!pop.alt!'' ''addr.alt %1!load.s.pri %2!'' (seqsize 4 2 - seqsize 2 2),
     pattern_rule ''addr.pri %1!push.pri!load.pri %2!pop.alt!'' ''addr.alt %1!load.pri %2!'' (seqsize 4 2 - seqsize 2 2),
     pattern_rule ''const.pri %1!push.pri!load.s.pri %2!pop.alt!'' ''load.s.pri %2!const.alt %1!'' (seqsize 4 2 - seqsize 2 2),
     pattern_rule ''const.pri %1!push.pri!load.pri %2!pop.alt!'' ''load.pri %2!const.alt %1!'' (seqsize 4 2 - seqsize 2 2),
     pattern_rule ''load.s.pri %1!push.pri!const.pri %2!pop.alt!'' ''const.pri %2!load.s.alt %1!'' (seqsize 4 2 - seqsize 2 2),
     pattern_rule ''load.pri %1!push.pri!const.pri %2!pop.alt!'' ''const.pri %2!load.alt %1!'' (seqsize 4 2 - seqsize 2 2),
     pattern_rule ''addr.pri %1!push.pri!const.pri %2!pop.alt!'' ''addr.alt %1!const.pri %2!'' (seqsize 4 2 - seqsize 2 2),
     pattern_rule ''addr.pri %1!push.pri!zero.pri!pop.alt!'' ''addr.alt %1!zero.pri!'' (seqsize 4 1 - seqsize 2 1),
     pattern_rule ''move.pri!push.pri!load.s.pri %1!pop.alt!'' ''load.s.pri %1!'' (seqsize 4 1 - seqsize 1 1),
     pattern_rule ''move.pri!push.pri!load.pri %1!pop.alt!'' ''load.pri %1!'' (seqsize 4 1 - seqsize 1 1),
     pattern_rule ''move.pri!push.pri!const.pri %1!pop.alt!'' ''const.pri %1!'' (seqsize 4 1 - seqsize 1 1),
     pattern_rule ''xchg!sgrtr!swap.alt!and!pop.alt!;$exp!'' ''sless!pop.alt!and!;$exp!'' (seqsize 5 0 - seqsize 3 0),
     pattern_rule ''xchg!sless!swap.alt!and!pop.alt!;$exp!'' ''sgrtr!pop.alt!and!;$exp!'' (seqsize 5 0 - seqsize 3 0),
     pattern_rule ''xchg!sgeq!swap.alt!and!pop.alt!;$exp!'' ''sleq!pop.alt!and!;$exp!'' (seqsize 5 0 - seqsize 3 0),
     pattern_rule ''xchg!sleq!swap.alt!and!pop.alt!;$exp!'' ''sgeq!pop.alt!and!;$exp!'' (seqsize 5 0 - seqsize 3 0),
     pattern_rule ''xchg!sgrtr!swap.alt!and!pop.alt!jzer %1!'' ''sless!pop.alt!and!jzer %1!'' (seqsize 5 0 - seqsize 3 0),
     pattern_rule ''xchg!sless!swap.alt!and!pop.alt!jzer %1!'' ''sgrtr!pop.alt!and!jzer %1!'' (seqsize 5 0 - seqsize 3 0),
     pattern_rule ''xchg!sgeq!swap.alt!and!pop.alt!jzer %1!'' ''sleq!pop.alt!and!jzer %1!'' (seqsize 5 0 - seqsize 3 0),
     pattern_rule ''xchg!sleq!swap.alt!and!pop.alt!jzer %1!'' ''sgeq!pop.alt!and!jzer %1!'' (seqsize 5 0 - seqsize 3 0),
     pattern_rule ''xchg!sgrtr!jzer %1!;$exp!'' ''jsgeq %1!;$exp!'' (seqsize 3 1 - seqsize 1 1),
     pattern_rule ''xchg!sless!jzer %1!;$exp!'' ''jsleq %1!;$exp!'' (seqsize 3 1 - seqsize 1 1),
     pattern_rule ''xchg!sgeq!jzer %1!;$exp!'' ''jsgrtr %1!;$exp!'' (seqsize 3 1 - seqsize 1 1),
     pattern_rule ''xchg!sleq!jzer %1!;$exp!'' ''jsless %1!;$exp!'' (seqsize 3 1 - seqsize 1 1),
     pattern_rule ''xchg!sgrtr!;$exp!'' ''sless!;$exp!'' (seqsize 2 0 - seqsize 1 0),
     pattern_rule ''xchg!sless!;$exp!'' ''sgrtr!;$exp!'' (seqsize 2 0 - seqsize 1 0),
     pattern_rule ''xchg!sgeq!;$exp!'' ''sleq!;$exp!'' (seqsize 2 0 - seqsize 1 0),
     pattern_rule ''xchg!sleq!;$exp!'' ''sgeq!;$exp!'' (seqsize 2 0 - seqsize 1 0),
     pattern_rule ''load.s.pri %1!load.s.alt %2!xchg!'' ''load.s.pri %2!load.s.alt %1!'' (seqsize 3 2 - seqsize 2 2),
     pattern_rule ''load.s.pri %1!load.alt %2!xchg!'' ''load.pri %2!load.s.alt %1!'' (seqsize 3 2 - seqsize 2 2),
     pattern_rule ''load.s.pri %1!const.alt %2!xchg!'' ''const.pri %2!load.s.alt %1!'' (seqsize 3 2 - seqsize 2 2),
     pattern_rule ''load.pri %1!load.s.alt %2!xchg!'' ''load.s.pri %2!load.alt %1!'' (seqsize 3 2 - seqsize 2 2),
     pattern_rule ''load.pri %1!load.alt %2!xchg!'' ''load.pri %2!load.alt %1!'' (seqsize 3 2 - seqsize 2 2),
     pattern_rule ''load.pri %1!const.alt %2!xchg!'' ''const.pri %2!load.alt %1!'' (seqsize 3 2 - seqsize 2 2),
     pattern_rule ''const.pri %1!load.s.alt %2!xchg!'' ''load.s.pri %2!const.alt %1!'' (seqsize 3 2 - seqsize 2 2),
     pattern_rule ''const.pri %1!load.alt %2!xchg!'' ''load.pri %2!const.alt %1!'' (seqsize 3 2 - seqsize 2 2),
     pattern_rule ''addr.pri %1!push.pri!load.s.pri %2!bounds %3!shl.c.pri 2!pop.alt!add!load.i!'' ''addr.alt %1!load.s.pri %2!bounds %3!lidx!'' (seqsize 8 4 - seqsize 4 3),
     pattern_rule ''const.pri %1!push.pri!load.s.pri %2!bounds %3!shl.c.pri 2!pop.alt!add!load.i!'' ''const.alt %1!load.s.pri %2!bounds %3!lidx!'' (seqsize 8 4 - seqsize 4 3),
     pattern_rule ''addr.pri %1!push.pri!load.s.pri %2!shl.c.pri 2!pop.alt!add!load.i!'' ''addr.alt %1!load.s.pri %2!lidx!'' (seqsize 7 3 - seqsize 3 2),
     pattern_rule ''const.pri %1!push.pri!load.s.pri %2!shl.c.pri 2!pop.alt!add!load.i!'' ''const.alt %1!load.s.pri %2!lidx!'' (seqsize 7 3 - seqsize 3 2),
     pattern_rule ''addr.pri %1!push.pri!load.s.pri %2!bounds %3!shl.c.pri %4!pop.alt!add!load.i!'' ''addr.alt %1!load.s.pri %2!bounds %3!lidx.b %4!'' (seqsize 8 4 - seqsize 4 4),
     pattern_rule ''const.pri %1!push.pri!load.s.pri %2!bounds %3!shl.c.pri %4!pop.alt!add!load.i!'' ''const.alt %1!load.s.pri %2!bounds %3!lidx.b %4!'' (seqsize 8 4 - seqsize 4 4),
     pattern_rule ''addr.pri %1!push.pri!load.s.pri %2!shl.c.pri %3!pop.alt!add!load.i!'' ''addr.alt %1!load.s.pri %2!lidx.b %3!'' (seqsize 7 3 - seqsize 3 3),
     pattern_rule ''const.pri %1!push.pri!load.s.pri %2!shl.c.pri %3!pop.alt!add!load.i!'' ''const.alt %1!load.s.pri %2!lidx.b %3!'' (seqsize 7 3 - seqsize 3 3),
     pattern_rule ''addr.pri %1!push.pri!load.s.pri %2!bounds %3!shl.c.pri 2!pop.alt!add!'' ''addr.alt %1!load.s.pri %2!bounds %3!idxaddr!'' (seqsize 7 4 - seqsize 4 3),
     pattern_rule ''const.pri %1!push.pri!load.s.pri %2!bounds %3!shl.c.pri 2!pop.alt!add!'' ''const.alt %1!load.s.pri %2!bounds %3!idxaddr!'' (seqsize 7 4 - seqsize 4 3),
     pattern_rule ''addr.pri %1!push.pri!load.s.pri %2!shl.c.pri 2!pop.alt!add!'' ''addr.alt %1!load.s.pri %2!idxaddr!'' (seqsize 6 3 - seqsize 3 2),
     pattern_rule ''const.pri %1!push.pri!load.s.pri %2!shl.c.pri 2!pop.alt!add!'' ''const.alt %1!load.s.pri %2!idxaddr!'' (seqsize 6 3 - seqsize 3 2),
     pattern_rule ''addr.pri %1!push.pri!load.s.pri %2!bounds %3!shl.c.pri %4!pop.alt!add!'' ''addr.alt %1!load.s.pri %2!bounds %3!idxaddr.b %4!'' (seqsize 7 4 - seqsize 4 4),
     pattern_rule ''const.pri %1!push.pri!load.s.pri %2!bounds %3!shl.c.pri %4!pop.alt!add!'' ''const.alt %1!load.s.pri %2!bounds %3!idxaddr.b %4!'' (seqsize 7 4 - seqsize 4 4),
     pattern_rule ''addr.pri %1!push.pri!load.s.pri %2!shl.c.pri %3!pop.alt!add!'' ''addr.alt %1!load.s.pri %2!idxaddr.b %3!'' (seqsize 6 3 - seqsize 3 3),
     pattern_rule ''const.pri %1!push.pri!load.s.pri %2!shl.c.pri %3!pop.alt!add!'' ''const.alt %1!load.s.pri %2!idxaddr.b %3!'' (seqsize 6 3 - seqsize 3 3),
     pattern_rule ''shl.c.pri 2!pop.alt!add!loadi!'' ''pop.alt!lidx!'' (seqsize 4 1 - seqsize 2 0),
     pattern_rule ''shl.c.pri 2!pop.alt!add!'' ''pop.alt!idxaddr!'' (seqsize 3 1 - seqsize 2 0),
     pattern_rule ''shl.c.pri %1!pop.alt!add!loadi!'' ''pop.alt!lidx.b %1!'' (seqsize 4 1 - seqsize 2 1),
     pattern_rule ''shl.c.pri %1!pop.alt!add!'' ''pop.alt!idxaddr.b %1!'' (seqsize 3 1 - seqsize 2 1),
     pattern_rule ''addr.pri %1!push.pri!load.s.pri %2!bounds %3!pop.alt!'' ''addr.alt %1!load.s.pri %2!bounds %3!'' (seqsize 5 3 - seqsize 3 3),
     pattern_rule ''const.pri %1!push.pri!load.s.pri %2!bounds %3!pop.alt!'' ''const.alt %1!load.s.pri %2!bounds %3!'' (seqsize 5 3 - seqsize 3 3),
     pattern_rule '';$lcl %1 %2!stack -4!const.pri %3!stor.s.pri %2!;$exp!'' '';$lcl %1 %2!push.c %3!;$exp!'' (seqsize 3 3 - seqsize 1 1),
     pattern_rule '';$lcl %1 %2!stack -4!zero.pri!stor.s.pri %2!;$exp!'' '';$lcl %1 %2!push.c 0!;$exp!'' (seqsize 3 2 - seqsize 1 1),
     pattern_rule ''push.pri!load.s.pri %1!pop.alt!'' ''move.alt!load.s.pri %1!'' (seqsize 3 1 - seqsize 2 1),
     pattern_rule ''push.pri!load.pri %1!pop.alt!'' ''move.alt!load.pri %1!'' (seqsize 3 1 - seqsize 2 1),
     pattern_rule ''push.pri!const.pri %1!pop.alt!'' ''move.alt!const.pri %1!'' (seqsize 3 1 - seqsize 2 1),
     pattern_rule ''push.pri!zero.pri!pop.alt!'' ''move.alt!zero.pri!'' (seqsize 3 0 - seqsize 2 0),
     pattern_rule ''push.pri!load.i!pop.alt!'' ''move.alt!load.i!'' (seqsize 3 0 - seqsize 2 0),
     pattern_rule ''push.pri!pop.alt!'' ''move.alt!'' (seqsize 2 0 - seqsize 1 0),
     pattern_rule ''const.pri %1!const.alt %2!push.pri!push.alt!'' ''push.c %1!push.c %2!'' (seqsize 4 2 - seqsize 2 2),
     pattern_rule ''const.pri %1!const.alt %2!push.alt!push.pri!'' ''push.c %2!push.c %1!'' (seqsize 4 2 - seqsize 2 2),
     pattern_rule ''const.pri %1!load.alt %2!push.pri!push.alt!'' ''push.c %1!push %2!'' (seqsize 4 2 - seqsize 2 2),
     pattern_rule ''const.pri %1!load.alt %2!push.alt!push.pri!'' ''push %2!push.c %1!'' (seqsize 4 2 - seqsize 2 2),
     pattern_rule ''load.pri %1!const.alt %2!push.pri!push.alt!'' ''push %1!push.c %2!'' (seqsize 4 2 - seqsize 2 2),
     pattern_rule ''load.pri %1!const.alt %2!push.alt!push.pri!'' ''push.c %2!push %1!'' (seqsize 4 2 - seqsize 2 2),
     pattern_rule ''load.pri %1!load.alt %2!push.pri!push.alt!'' ''push %1!push %2!'' (seqsize 4 2 - seqsize 2 2),
     pattern_rule ''load.pri %1!load.alt %2!push.alt!push.pri!'' ''push %2!push %1!'' (seqsize 4 2 - seqsize 2 2),
     pattern_rule ''load.s.pri %1!push.pri!;$par!'' ''push.s %1!;$par!'' (seqsize 2 1 - seqsize 1 1),
     pattern_rule ''load.pri %1!push.pri!;$par!'' ''push %1!;$par!'' (seqsize 2 1 - seqsize 1 1),
     pattern_rule ''const.pri %1!push.pri!;$par!'' ''push.c %1!;$par!'' (seqsize 2 1 - seqsize 1 1),
     pattern_rule ''zero.pri!push.pri!;$par!'' ''push.c 0!;$par!'' (seqsize 2 0 - seqsize 1 1),
     pattern_rule ''addr.pri %1!push.pri!;$par!'' ''pushaddr %1!;$par!'' (seqsize 2 1 - seqsize 1 1),
     pattern_rule ''move.pri!push.pri!'' ''push.alt!'' (seqsize 2 0 - seqsize 1 0),
     pattern_rule ''const.alt %1!add!'' ''add.c %1!'' (seqsize 2 1 - seqsize 1 1),
     pattern_rule ''const.alt %1!sub!'' ''add.c -%1!'' (seqsize 2 1 - seqsize 1 1),
     pattern_rule ''const.alt %1!smul!'' ''smul.c %1!'' (seqsize 2 1 - seqsize 1 1),
     pattern_rule ''const.alt %1!eq!'' ''eq.c.pri %1!'' (seqsize 2 1 - seqsize 1 1),
     pattern_rule ''const.pri %1!load.s.alt %2!sub.alt!'' ''load.s.pri %2!add.c -%1!'' (seqsize 3 2 - seqsize 2 2),
     pattern_rule ''const.pri %1!load.alt %2!sub.alt!'' ''load.pri %2!add.c -%1!'' (seqsize 3 2 - seqsize 2 2),
     pattern_rule ''add.c %1!add.c %2!'' ''add.c %1+%2!'' (seqsize 2 2 - seqsize 1 1),
     pattern_rule ''eq!jzer %1!'' ''jneq %1!'' (seqsize 2 1 - seqsize 1 1),
     pattern_rule ''eq!jnz %1!'' ''jeq %1!'' (seqsize 2 1 - seqsize 1 1),
     pattern_rule ''neq!jzer %1!'' ''jeq %1!'' (seqsize 2 1 - seqsize 1 1),
     pattern_rule ''neq!jnz %1!'' ''jneq %1!'' (seqsize 2 1 - seqsize 1 1),
     pattern_rule ''less!jzer %1!'' ''jgeq %1!'' (seqsize 2 1 - seqsize 1 1),
     pattern_rule ''leq!jzer %1!'' ''jgrtr %1!'' (seqsize 2 1 - seqsize 1 1),
     pattern_rule ''grtr!jzer %1!'' ''jleq %1!'' (seqsize 2 1 - seqsize 1 1),
     pattern_rule ''geq!jzer %1!'' ''jless %1!'' (seqsize 2 1 - seqsize 1 1),
     pattern_rule ''sless!jzer %1!'' ''jsgeq %1!'' (seqsize 2 1 - seqsize 1 1),
     pattern_rule ''sleq!jzer %1!'' ''jsgrtr %1!'' (seqsize 2 1 - seqsize 1 1),
     pattern_rule ''sgrtr!jzer %1!'' ''jsleq %1!'' (seqsize 2 1 - seqsize 1 1),
     pattern_rule ''sgeq!jzer %1!'' ''jsless %1!'' (seqsize 2 1 - seqsize 1 1),
     pattern_rule ''zero.alt!jeq %1!'' ''jzer %1!'' (seqsize 2 1 - seqsize 1 1),
     pattern_rule ''zero.alt!jneq %1!'' ''jnz %1!'' (seqsize 2 1 - seqsize 1 1),
     pattern_rule ''inc %1!load.pri %1!;$exp!'' ''inc %1!;$exp!'' (seqsize 2 2 - seqsize 1 1),
     pattern_rule ''load.pri %1!inc %1!;$exp!'' ''inc %1!;$exp!'' (seqsize 2 2 - seqsize 1 1),
     pattern_rule ''inc.s %1!load.s.pri %1!;$exp!'' ''inc.s %1!;$exp!'' (seqsize 2 2 - seqsize 1 1),
     pattern_rule ''load.s.pri %1!inc.s %1!;$exp!'' ''inc.s %1!;$exp!'' (seqsize 2 2 - seqsize 1 1),
     pattern_rule ''dec %1!load.pri %1!;$exp!'' ''dec %1!;$exp!'' (seqsize 2 2 - seqsize 1 1),
     pattern_rule ''load.pri %1!dec %1!;$exp!'' ''dec %1!;$exp!'' (seqsize 2 2 - seqsize 1 1),
     pattern_rule ''dec.s %1!load.s.pri %1!;$exp!'' ''dec.s %1!;$exp!'' (seqsize 2 2 - seqsize 1 1),
     pattern_rule ''load.s.pri %1!dec.s %1!;$exp!'' ''dec.s %1!;$exp!'' (seqsize 2 2 - seqsize 1 1),
     pattern_rule ''const.pri 0!stor.pri %1!;$exp!'' ''zero %1!;$exp!'' (seqsize 2 2 - seqsize 1 1),
     pattern_rule ''const.pri 0!stor.s.pri %1!;$exp!'' ''zero.s %1!;$exp!'' (seqsize 2 2 - seqsize 1 1),
     pattern_rule ''zero.pri!stor.pri %1!;$exp!'' ''zero %1!;$exp!'' (seqsize 2 1 - seqsize 1 1),
     pattern_rule ''zero.pri!stor.s.pri %1!;$exp!'' ''zero.s %1!;$exp!'' (seqsize 2 1 - seqsize 1 1),
     pattern_rule ''const.pri 0!'' ''zero.pri!'' (seqsize 1 1 - seqsize 1 0),
     pattern_rule ''const.alt 0!'' ''zero.alt!'' (seqsize 1 1 - seqsize 1 0)]"

end
