(* ===== verification/ScExpand.thy ===== *)
theory ScExpand
  imports ScRules
begin

text \<open>
  Byte pair expansion (scexpand.c) and \<open>phopt_init\<close> of sc7.c. \<open>pair_texts\<close> lists the text of every
  pair of \<open>sequences_table\<close> and \<open>pair_depths\<close> the stack it takes; from these the expansion of the whole
  rule table is computed: it ends, stays inside the stack of 16 bytes and the buffer of 160, and
  gives the plain text table.
\<close>

section \<open>Byte pair expansion\<close>

definition STACKSIZE :: nat where "STACKSIZE = 16"

text \<open>One byte, popped from the stack or read from the source: a pair is pushed, a character is
  written while there is room for it and the terminator. The result is the new stack, the
  destination, \<open>maxlen\<close> and \<open>len\<close>.\<close>

definition expand_byte ::
  "(nat \<times> nat) list \<Rightarrow> nat \<Rightarrow> nat list \<Rightarrow> string \<times> nat \<times> nat \<Rightarrow> (nat list \<times> string \<times> nat \<times> nat) result" where
  "expand_byte pairs c stack d =
     (case d of (dest, maxlen, len) \<Rightarrow>
        if 127 < c then
          bindR (assertR (length stack + 2 \<le> STACKSIZE)) (\<lambda>_.
            if length pairs \<le> c - 128 then Inl BufferOverflow
            else Inr (fst (pairs ! (c - 128)) # snd (pairs ! (c - 128)) # stack, dest, maxlen, len))
        else Inr (stack, (if 1 < maxlen then dest @ [char_of c] else dest),
                  (if 1 < maxlen then maxlen - 1 else maxlen), len + 1))"

text \<open>A pair table can describe an endless text, so the loop may run forever: \<open>n\<close> bounds the bytes
  handled, and None is a loop that has not ended by then.\<close>

fun strexpand_loop ::
  "nat \<Rightarrow> (nat \<times> nat) list \<Rightarrow> nat list \<Rightarrow> string \<Rightarrow> string \<times> nat \<times> nat \<Rightarrow> (string \<times> nat) result option" where
  "strexpand_loop 0 pairs stack src d = None"
| "strexpand_loop (Suc n) pairs [] [] (dest, maxlen, len) = Some (Inr (dest, len))"
| "strexpand_loop (Suc n) pairs [] (c # src) d =
     (case expand_byte pairs (code_of c) [] d of Inl e \<Rightarrow> Some (Inl e)
      | Inr (stack, d') \<Rightarrow> strexpand_loop n pairs stack src d')"
| "strexpand_loop (Suc n) pairs (c # stack) src d =
     (case expand_byte pairs c stack d of Inl e \<Rightarrow> Some (Inl e)
      | Inr (stack', d') \<Rightarrow> strexpand_loop n pairs stack' src d')"

definition strexpand :: "nat \<Rightarrow> (nat \<times> nat) list \<Rightarrow> string \<Rightarrow> nat \<Rightarrow> (string \<times> nat) result option" where
  "strexpand n pairs source maxlen =
     (if maxlen = 0 then Some (Inl AssertFail) else strexpand_loop n pairs [] source ([], maxlen, 1))"

text \<open>\<open>phopt_init\<close>: the buffer \<open>str\<close> has 160 bytes; 1000 bytes handled per string are enough.\<close>

definition expand_rule_text :: "string \<Rightarrow> string result" where
  "expand_rule_text source =
     (case strexpand 1000 sequences_table source 160 of
        Some (Inr (str, len)) \<Rightarrow>
          bindR (assertR (len \<le> 160)) (\<lambda>_. bindR (assertR (len = length str + 1)) (\<lambda>_. Inr str))
      | Some (Inl e) \<Rightarrow> Inl e
      | None \<Rightarrow> Inl AssertFail)"

definition phopt_init :: "sequence list \<Rightarrow> sequence list result" where
  "phopt_init cmp =
     mapR (\<lambda>q. bindR (expand_rule_text (seq_find q)) (\<lambda>f.
                bindR (expand_rule_text (seq_replace q)) (\<lambda>r.
                  Inr (pattern_rule f r (savesize q))))) cmp"

section \<open>What the pairs stand for\<close>

definition pair_texts :: "string list" where
  "pair_texts =
    ['' %'',
     ''ri'',
     ''pri'',
     ''.pri'',
     '' %1'',
     '' %1!'',
     ''ad'',
     ''.a'',
     ''.al'',
     ''.alt'',
     ''oad'',
     ''load'',
     ''2!'',
     ''sh'',
     '' %2!'',
     ''.alt!'',
     ''.s'',
     ''ush'',
     ''push'',
     ''.pri %1!'',
     ''load.s'',
     ''p.alt!'',
     ''.pri %2!'',
     ''st'',
     ''.pri!'',
     '';$'',
     ''add'',
     ''op.alt!'',
     ''pop.alt!'',
     ''nst'',
     ''onst'',
     ''const'',
     ''push.pri!'',
     ''p!'',
     ''xp!'',
     ''exp!'',
     '';$exp!'',
     ''load.s.pri %2!'',
     ''.alt %1!'',
     ''.c'',
     ''ze'',
     ''zer'',
     ''addr'',
     ''nd'',
     ''eq'',
     ''.pri %1!push.pri!'',
     ''3!'',
     '' %3!'',
     ''g!'',
     '' %1!;$exp!'',
     ''hg!'',
     ''chg!'',
     ''xchg!'',
     ''eq!'',
     ''jzer'',
     ''.pri %1!push.pri!load.s.pri %2!'',
     ''add!'',
     ''l.c'',
     ''und'',
     ''s %3!'',
     ''unds %3!'',
     ''pop.alt!add!'',
     ''shl.c'',
     ''ounds %3!'',
     ''bounds %3!'',
     ''id'',
     ''sg'',
     ''sl'',
     ''idx'',
     ''jzer %1!'',
     ''r!'',
     ''.alt %1!load.s.pri %2!'',
     ''shl.c.pri'',
     ''.alt %2!'',
     ''nd!'',
     ''and!'',
     ''zero'',
     ''load.pri %1!'',
     ''const.pri %1!'',
     ''load.pri %2!'',
     ''i!'',
     ''push.c'',
     ''es'',
     ''ess'',
     ''rt'',
     ''load.s.pri %1!'',
     ''eq %1!'',
     ''pop.alt!add!load'',
     '' 2!'',
     ''4!'',
     ''idxaddr'',
     ''const.pri %1!push.pri!load.s.pri %2!'',
     ''addr.pri %1!push.pri!load.s.pri %2!'',
     ''.alt %1!load.s.pri %2!bounds %3!'',
     ''lidx'',
     ''ar!'',
     ''sless'',
     ''.i!'',
     ''sgrt'',
     ''shl.c.pri 2!'',
     ''par!'',
     ''.b'',
     ''ve'',
     '';$par!'',
     ''ove'',
     ''move'',
     ''push.alt!'',
     ''zero.pri!'',
     ''c.s'',
     ''const.pri %2!'',
     ''ap.alt!'',
     ''and!pop.alt!'',
     ''sless!'',
     ''const.alt %1!'',
     ''sgeq!'',
     ''sleq!'',
     ''.alt %2!xchg!'',
     ''sgrtr!'',
     ''pop.alt!and!'',
     '' %4!'',
     ''pop.alt!add!load.i!'',
     ''de'',
     ''ap.alt!and!pop.alt!'',
     ''in'',
     ''sw'',
     ''swap.alt!and!pop.alt!'',
     ''add.c'']"

definition pair_depths :: "nat list" where
  "pair_depths =
    [2, 2, 2, 2, 3, 4, 2, 2, 3, 4, 2, 2, 2, 2, 3, 5, 2, 2, 2, 4, 3, 5, 3, 2, 3, 2, 3, 5, 5, 2, 2, 2, 3,
     2, 2, 2, 3, 4, 5, 2, 2, 3, 4, 2, 2, 5, 2, 3, 2, 5, 2, 2, 2, 3, 3, 6, 4, 2, 2, 3, 3, 6, 3, 3, 3, 2,
     2, 2, 3, 4, 2, 6, 4, 5, 3, 3, 4, 4, 4, 3, 2, 3, 2, 3, 2, 4, 4, 7, 2, 2, 4, 6, 6, 7, 3, 2, 3, 2, 3,
     5, 2, 2, 2, 3, 2, 2, 5, 5, 2, 3, 5, 5, 4, 5, 3, 3, 6, 4, 6, 3, 8, 2, 6, 2, 2, 6, 4]"

definition byte_text :: "nat \<Rightarrow> string" where
  "byte_text c = (if c < 128 then [char_of c] else pair_texts ! (c - 128))"

definition byte_depth :: "nat \<Rightarrow> nat" where
  "byte_depth c = (if c < 128 then 0 else pair_depths ! (c - 128))"

text \<open>Both lists agree with the pair table: the pair at index \<open>i\<close> refers to bytes below \<open>128 + i\<close>.\<close>

fun pairs_from :: "nat \<Rightarrow> (nat \<times> nat) list \<Rightarrow> string list \<Rightarrow> nat list \<Rightarrow> bool" where
  "pairs_from c [] [] [] \<longleftrightarrow> True"
| "pairs_from c ((a, b) # ps) (t # ts) (d # ds) \<longleftrightarrow>
     a < c \<and> b < c \<and> t = byte_text a @ byte_text b \<and> 2 \<le> d \<and> byte_depth a < d \<and> byte_depth b \<le> d
     \<and> pairs_from (Suc c) ps ts ds"
| "pairs_from c _ _ _ \<longleftrightarrow> False"

lemma pair_tables_ok: "pairs_from 128 sequences_table pair_texts pair_depths"
  by code_simp

lemma pairs_from_nth:
  "pairs_from c ps ts ds \<Longrightarrow> i < length ps \<Longrightarrow>
   fst (ps ! i) < c + i \<and> snd (ps ! i) < c + i
   \<and> ts ! i = byte_text (fst (ps ! i)) @ byte_text (snd (ps ! i))
   \<and> 2 \<le> ds ! i \<and> byte_depth (fst (ps ! i)) < ds ! i \<and> byte_depth (snd (ps ! i)) \<le> ds ! i"
proof (induction c ps ts ds arbitrary: i rule: pairs_from.induct)
  case (2 c a b ps t ts d ds)
  then show ?case by (cases i) auto
qed auto

lemma length_sequences_table: "length sequences_table = 127"
  by code_simp

lemma byte_text_nonempty: "c < 255 \<Longrightarrow> byte_text c \<noteq> []"
proof (induction c rule: less_induct)
  case (less c)
  show ?case
  proof (cases "c < 128")
    case False
    have "c - 128 < length sequences_table" using less.prems False by (simp add: length_sequences_table)
    from pairs_from_nth [OF pair_tables_ok this] less.IH [of "fst (sequences_table ! (c - 128))"] less.prems False
    show ?thesis by (auto simp: byte_text_def [of c])
  qed (simp add: byte_text_def)
qed

text \<open>One byte: its text is appended after \<open>2 * length - 1\<close> turns of the loop.\<close>

abbreviation turns :: "nat \<Rightarrow> nat" where "turns c \<equiv> 2 * length (byte_text c) - 1"

lemma expand_one_byte:
  "c < 255 \<Longrightarrow> length stack + byte_depth c \<le> STACKSIZE \<Longrightarrow> length (byte_text c) < maxlen \<Longrightarrow>
   strexpand_loop (turns c + n) sequences_table (c # stack) src (dest, maxlen, len)
   = strexpand_loop n sequences_table stack src (dest @ byte_text c, maxlen - length (byte_text c), len + length (byte_text c))"
proof (induction c arbitrary: n stack dest maxlen len rule: less_induct)
  case (less c)
  show ?case
  proof (cases "c < 128")
    case True
    then show ?thesis using less.prems by (simp add: byte_text_def expand_byte_def)
  next
    case False
    define i where "i = c - 128"
    define a where "a = fst (sequences_table ! i)"
    define b where "b = snd (sequences_table ! i)"
    have c: "c = 128 + i" and i: "i < length sequences_table"
      using False less.prems(1) by (auto simp: i_def length_sequences_table)
    note p = pairs_from_nth [OF pair_tables_ok i, folded a_def b_def]
    have t: "byte_text c = byte_text a @ byte_text b" "byte_depth c = pair_depths ! i"
    proof -
      have "byte_text c = pair_texts ! i" "byte_depth c = pair_depths ! i" by (simp_all add: byte_text_def byte_depth_def c)
      then show "byte_text c = byte_text a @ byte_text b" "byte_depth c = pair_depths ! i" using p by simp_all
    qed
    have lt: "a < c" "b < c" using p by (auto simp: c)
    have ne: "byte_text a \<noteq> []" "byte_text b \<noteq> []"
      using byte_text_nonempty lt less.prems(1) by (meson less_trans)+
    then have n: "turns c + n = Suc (turns a + (turns b + n))" by (cases "byte_text a"; cases "byte_text b") (auto simp: t)
    have "length stack + 2 \<le> STACKSIZE" using less.prems(2) p t(2) by linarith
    then have "strexpand_loop (turns c + n) sequences_table (c # stack) src (dest, maxlen, len)
        = strexpand_loop (turns a + (turns b + n)) sequences_table (a # b # stack) src (dest, maxlen, len)"
      using less.prems False p i unfolding n by (simp add: expand_byte_def t a_def b_def c)
    also have "\<dots> = strexpand_loop (turns b + n) sequences_table (b # stack) src
        (dest @ byte_text a, maxlen - length (byte_text a), len + length (byte_text a))"
      using less.prems p lt by (intro less.IH) (auto simp: t)
    also have "\<dots> = strexpand_loop n sequences_table stack src ((dest @ byte_text a) @ byte_text b,
        maxlen - length (byte_text a) - length (byte_text b), len + length (byte_text a) + length (byte_text b))"
      using less.prems p lt by (intro less.IH) (auto simp: t)
    finally show ?thesis by (simp add: t add.assoc)
  qed
qed

lemma byte_depth_bound: "c < 255 \<Longrightarrow> byte_depth c \<le> STACKSIZE"
proof (cases "c < 128")
  case False
  assume "c < 255"
  have "list_all (\<lambda>d. d \<le> STACKSIZE) pair_depths" by code_simp
  moreover have "length pair_depths = 127" by code_simp
  ultimately show ?thesis using \<open>c < 255\<close> False by (auto simp: byte_depth_def list_all_length)
qed (simp add: byte_depth_def)

definition char_text :: "char \<Rightarrow> string" where "char_text c = byte_text (code_of c)"

lemma source_byte: "strexpand_loop n pairs [] (c # src) d = strexpand_loop n pairs [code_of c] src d"
  by (cases n; cases d) simp_all

lemma expand_string:
  "\<forall>c \<in> set src. code_of c < 255 \<Longrightarrow> length (concat (map char_text src)) < maxlen \<Longrightarrow>
   2 * length (concat (map char_text src)) < n \<Longrightarrow>
   strexpand_loop n sequences_table [] src (dest, maxlen, len)
   = Some (Inr (dest @ concat (map char_text src), len + length (concat (map char_text src))))"
proof (induction src arbitrary: n dest maxlen len)
  case Nil
  then show ?case by (cases n) auto
next
  case (Cons c src)
  have c: "code_of c < 255" using Cons.prems by simp
  have ne: "byte_text (code_of c) \<noteq> []" using byte_text_nonempty [OF c] .
  then obtain m where n: "n = turns (code_of c) + m" and m: "2 * length (concat (map char_text src)) < m"
  proof -
    have "0 < length (byte_text (code_of c))" using ne by simp
    moreover have "2 * length (byte_text (code_of c)) + 2 * length (concat (map char_text src)) < n"
      using Cons.prems(3) by (simp add: char_text_def [of c])
    ultimately show ?thesis using that [of "n - turns (code_of c)"] by linarith
  qed
  have "strexpand_loop n sequences_table [] (c # src) (dest, maxlen, len)
      = strexpand_loop n sequences_table [code_of c] src (dest, maxlen, len)"
    by (rule source_byte)
  also have "\<dots> = strexpand_loop m sequences_table [] src (dest @ char_text c, maxlen - length (char_text c), len + length (char_text c))"
    unfolding n char_text_def using c Cons.prems(2) byte_depth_bound [OF c]
    by (intro expand_one_byte) (auto simp: char_text_def)
  also have "\<dots> = Some (Inr ((dest @ char_text c) @ concat (map char_text src),
      len + length (char_text c) + length (concat (map char_text src))))"
    using Cons.prems m by (intro Cons.IH) auto
  finally show ?case by (simp add: add.assoc)
qed

lemma expand_rule_text_ok:
  assumes "list_all (\<lambda>c. code_of c < 255) src" and "length (concat (map char_text src)) < 160"
  shows "expand_rule_text src = Inr (concat (map char_text src))"
  using expand_string [of src 160 1000 "[]" 1] assms
  by (simp add: expand_rule_text_def strexpand_def list_all_iff)

section \<open>The rule table\<close>

definition plain_text :: "string \<Rightarrow> string" where "plain_text src = concat (map char_text src)"

fun plain_rules :: "sequence list \<Rightarrow> sequence list \<Rightarrow> bool" where
  "plain_rules [] [] \<longleftrightarrow> True"
| "plain_rules (q # qs) (r # rs) \<longleftrightarrow>
     list_all (\<lambda>c. code_of c < 255) (seq_find q) \<and> list_all (\<lambda>c. code_of c < 255) (seq_replace q)
     \<and> plain_text (seq_find q) = seq_find r \<and> plain_text (seq_replace q) = seq_replace r
     \<and> length (seq_find r) < 160 \<and> length (seq_replace r) < 160
     \<and> savesize q = savesize r \<and> plain_rules qs rs"
| "plain_rules _ _ \<longleftrightarrow> False"

lemma phopt_init_plain: "plain_rules cmp plain \<Longrightarrow> phopt_init cmp = Inr plain"
proof (induction cmp plain rule: plain_rules.induct)
  case (2 q qs r rs)
  then have "expand_rule_text (seq_find q) = Inr (seq_find r)" "expand_rule_text (seq_replace q) = Inr (seq_replace r)"
    using expand_rule_text_ok [of "seq_find q"] expand_rule_text_ok [of "seq_replace q"]
    by (auto simp: plain_text_def)
  with 2 show ?case by (simp add: phopt_init_def pattern_rule_def)
qed (auto simp: phopt_init_def)

lemma plain_rules_append: "plain_rules qs rs \<Longrightarrow> plain_rules qs' rs' \<Longrightarrow> plain_rules (qs @ qs') (rs @ rs')"
  by (induction qs rs rule: plain_rules.induct) auto

lemma plain_rules_1: "plain_rules (take 30 sequences_cmp) (take 30 sequences_scpack)"
  by code_simp

lemma plain_rules_2: "plain_rules (take 30 (drop 30 sequences_cmp)) (take 30 (drop 30 sequences_scpack))"
  by code_simp

lemma plain_rules_3: "plain_rules (take 20 (drop 60 sequences_cmp)) (take 20 (drop 60 sequences_scpack))"
  by code_simp

lemma plain_rules_4: "plain_rules (drop 80 sequences_cmp) (drop 80 sequences_scpack)"
  by code_simp

lemma cut_list: "xs = take 30 xs @ take 30 (drop 30 xs) @ take 20 (drop 60 xs) @ drop 80 xs"
proof -
  have d: "drop 80 xs = drop 20 (drop 60 xs)" "drop 60 xs = drop 30 (drop 30 xs)" by simp_all
  show ?thesis unfolding d(1) append_take_drop_id unfolding d(2) append_take_drop_id ..
qed

lemma plain_rules_table: "plain_rules sequences_cmp sequences_scpack"
  by (subst cut_list [of sequences_cmp], subst cut_list [of sequences_scpack])
    (intro plain_rules_append plain_rules_1 plain_rules_2 plain_rules_3 plain_rules_4)

definition sequences :: "sequence list" where
  "sequences = (case phopt_init sequences_cmp of Inr qs \<Rightarrow> qs | Inl e \<Rightarrow> [])"

text \<open>C30 (\<open>phopt_init\<close>): the initialisation of the optimiser succeeds: every compressed string of the
  table ends its expansion, no stack or buffer overflows, and the table it leaves in \<open>sequences\<close>
  is the plain text of the rules, rule by rule.\<close>
theorem phopt_init_gives_plain_rules:
  "phopt_init sequences_cmp = Inr sequences_scpack \<and> sequences = sequences_scpack"
  by (simp add: sequences_def phopt_init_plain [OF plain_rules_table])

end
