(* ===== verification/ScReorder.thy ===== *)
theory ScReorder
  imports ScStage
begin

text \<open>
  The reversal of argument code (\<open>stgstring\<close> of sc7.c): the staging buffer holds blocks of code
  between marks, one per argument of a call; the blocks go to the optimiser in the order of the
  argument numbers, the last first. \<open>stgstring\<close> gives the sections of the buffer that are handed
  to \<open>stgopt\<close>, in order, as pairs of positions. A staged program text (\<open>piece\<close>) is the
  specification: \<open>render\<close> lays it out with its marks, \<open>lines_of\<close> is its code in run order.
\<close>

section \<open>The stack of arguments\<close>

text \<open>An entry that was never assigned has no start or no end; reading it is a fault.\<close>

type_synonym argstack = "nat \<Rightarrow> nat option \<times> nat option"

definition new_stack :: argstack where "new_stack = (\<lambda>_. (None, None))"

fun finish_arg :: "nat option \<Rightarrow> nat \<Rightarrow> argstack \<Rightarrow> argstack" where
  "finish_arg None e st = st"
| "finish_arg (Some a) e st = st(a := (fst (st a), Some e))"

definition c_strlen :: "string \<Rightarrow> nat \<Rightarrow> nat" where
  "c_strlen buf p = length (takeWhile (\<lambda>c. c \<noteq> NUL) (drop p buf))"

definition is_exprstart :: "char \<Rightarrow> bool" where
  "is_exprstart c \<longleftrightarrow> code_of c AND sEXPRSTART = sEXPRSTART"

text \<open>The loop over a reorder block: \<open>p\<close> is the pointer \<open>start\<close>, \<open>nest\<close>, \<open>argc\<close> and \<open>arg\<close> as in the
  code (no argument yet is None). The stack has \<open>sMAXARGS\<close> entries.\<close>

function scan_args ::
  "string \<Rightarrow> nat \<Rightarrow> nat \<Rightarrow> nat \<Rightarrow> nat option \<Rightarrow> argstack \<Rightarrow> (nat \<times> nat \<times> nat option \<times> argstack) result" where
  "scan_args buf p nest argc arg st =
     (if length buf \<le> p then Inl BufferOverflow
      else if buf ! p = sSTARTREORDER then scan_args buf (p + 1) (nest + 1) argc arg st
      else if buf ! p = sENDREORDER then
        (if nest = 1 then Inr (p + 1, argc, arg, st) else scan_args buf (p + 1) (nest - 1) argc arg st)
      else if is_exprstart (buf ! p) then
        (if nest = 1 then
           let st1 = finish_arg arg (p - 1) st;
               a = code_of (buf ! p) - sEXPRSTART
           in if sMAXARGS \<le> a then Inl BufferOverflow
              else scan_args buf (p + 1) nest (max argc (a + 1)) (Some a) (st1(a := (Some (p + 1), snd (st1 a))))
         else scan_args buf (p + 1) nest argc arg st)
      else scan_args buf (p + c_strlen buf p + 1) nest argc arg st)"
  by pat_completeness auto
termination by (relation "measure (\<lambda>(buf, p, _). length buf - p)") auto

declare scan_args.simps [simp del]

lemma scan_args_forward:
  "scan_args buf p nest argc arg st = Inr (q, argc', arg', st') \<Longrightarrow>
   p < q \<and> (\<forall>a x. fst (st' a) = Some x \<longrightarrow> fst (st a) = Some x \<or> p < x)"
proof (induction buf p nest argc arg st rule: scan_args.induct)
  case (1 buf p nest argc arg st)
  have fin: "fst (finish_arg arg e st a) = fst (st a)" for e a
    by (cases arg) auto
  note eq = scan_args.simps [of buf p nest argc arg st]
  show ?case
  proof (cases "length buf \<le> p")
    case True
    then show ?thesis using "1.prems" eq by simp
  next
    case b: False
    consider "buf ! p = sSTARTREORDER" | "buf ! p = sENDREORDER" | "is_exprstart (buf ! p)" "buf ! p \<noteq> sSTARTREORDER" "buf ! p \<noteq> sENDREORDER"
      | "\<not> is_exprstart (buf ! p)" "buf ! p \<noteq> sSTARTREORDER" "buf ! p \<noteq> sENDREORDER" by blast
    then show ?thesis
    proof cases
      case 1
      then show ?thesis using "1.IH"(1) "1.prems" b eq by fastforce
    next
      case 2
      then show ?thesis using "1.IH"(2) "1.prems" b eq by (cases "nest = 1") fastforce+
    next
      case 3
      show ?thesis
      proof (cases "nest = 1")
        case True
        then show ?thesis using "1.IH"(3) [OF b 3(2,3,1) True refl refl] "1.prems" b eq 3
          by (fastforce simp: Let_def fin split: if_splits)
      next
        case False
        then show ?thesis using "1.IH"(4) [OF b 3(2,3,1)] "1.prems" b eq 3 by fastforce
      qed
    next
      case 4
      then show ?thesis using "1.IH"(5) "1.prems" b eq by fastforce
    qed
  qed
qed

lemma fst_finish_arg [simp]: "fst (finish_arg arg e st a) = fst (st a)"
  by (cases arg) auto

lemma new_stack_starts:
  "scan_args buf (Suc p) nest argc None new_stack = Inr (q, n, arg, st) \<Longrightarrow>
   Suc p < q \<and> (\<forall>a x e y. finish_arg arg e st a = (Some x, y) \<longrightarrow> p < x)"
  using scan_args_forward [of buf "Suc p" nest argc None new_stack q n arg st]
  by (fastforce simp: new_stack_def dest!: arg_cong [where f = fst] intro: Suc_lessD)

section \<open>stgstring\<close>

declare bindR_cong [fundef_cong] mapR_cong [fundef_cong]

text \<open>The end of a run of code strings.\<close>

function run_end :: "string \<Rightarrow> nat \<Rightarrow> nat \<Rightarrow> nat" where
  "run_end buf p e =
     (if p < e \<and> p < length buf \<and> buf ! p \<noteq> sSTARTREORDER then run_end buf (p + c_strlen buf p + 1) e else p)"
  by pat_completeness auto
termination by (relation "measure (\<lambda>(buf, p, e). length buf - p)") auto

declare run_end.simps [simp del]

lemma run_end_ge: "p \<le> run_end buf p e"
  by (induction buf p e rule: run_end.induct) (subst run_end.simps, auto)

lemma run_end_gt: "p < e \<Longrightarrow> p < length buf \<Longrightarrow> buf ! p \<noteq> sSTARTREORDER \<Longrightarrow> p < run_end buf p e"
  using run_end_ge [of "p + c_strlen buf p + 1" buf e] by (subst run_end.simps) auto

function stgstring :: "string \<Rightarrow> nat \<Rightarrow> nat \<Rightarrow> (nat \<times> nat) list result" where
  "stgstring buf s e =
     (if e \<le> s then Inr []
      else if length buf \<le> s then Inl BufferOverflow
      else if buf ! s = sSTARTREORDER then
        bindR (scan_args buf (s + 1) 1 0 None new_stack) (\<lambda>(q, argc, arg, st).
          bindR (mapR (\<lambda>a. case finish_arg arg (q - 1) st a of
                   (Some x, Some y) \<Rightarrow> stgstring buf x y
                 | _ \<Rightarrow> Inl Uninitialised) (rev [0..<argc])) (\<lambda>segs.
            bindR (stgstring buf q e) (\<lambda>rest. Inr (concat segs @ rest))))
      else bindR (stgstring buf (run_end buf s e) e) (\<lambda>rest. Inr ((s, run_end buf s e) # rest)))"
  by pat_completeness auto
termination
proof (relation "measure (\<lambda>(buf, s, e). length buf - s)", goal_cases)
  case (2 buf s e)
  then show ?case by simp (metis diff_less_mono2 new_stack_starts not_le)
next
  case (3 buf s e)
  then show ?case by simp (metis diff_less_mono2 new_stack_starts not_le Suc_lessD)
next
  case (4 buf s e)
  then show ?case using run_end_gt [of s e buf] by simp
qed simp

declare stgstring.simps [simp del]

section \<open>Staged program text\<close>

datatype piece = Line string | Args "argcode list"
  and argcode = Arg nat "piece list"

fun arg_index :: "argcode \<Rightarrow> nat" where "arg_index (Arg i ps) = i"

fun render :: "piece \<Rightarrow> string" and render_arg :: "argcode \<Rightarrow> string" where
  "render (Line l) = l @ [NUL]"
| "render (Args as) = sSTARTREORDER # concat (map render_arg as) @ [sENDREORDER]"
| "render_arg (Arg i ps) = char_of (sEXPRSTART + i) # concat (map render ps)"

abbreviation renders :: "piece list \<Rightarrow> string" where "renders ps \<equiv> concat (map render ps)"

text \<open>The code strings in the order in which they run: of a block of arguments, the argument
  with the highest number comes first.\<close>

fun lines_of :: "piece \<Rightarrow> string list" and arg_lines :: "argcode \<Rightarrow> string list" where
  "lines_of (Line l) = [l]"
| "lines_of (Args as) =
     concat (map (\<lambda>i. case map_of (map (\<lambda>a. (arg_index a, arg_lines a)) as) i of None \<Rightarrow> [] | Some ls \<Rightarrow> ls)
       (rev [0..<length as]))"
| "arg_lines (Arg i ps) = concat (map lines_of ps)"

text \<open>A code string as the generator stages it, and a block with one argument of each number.\<close>

definition code_line :: "string \<Rightarrow> bool" where
  "code_line l \<longleftrightarrow> l \<noteq> [] \<and> NUL \<notin> set l
     \<and> hd l \<noteq> sSTARTREORDER \<and> hd l \<noteq> sENDREORDER \<and> \<not> is_exprstart (hd l)"

fun wf_piece :: "piece \<Rightarrow> bool" and wf_arg :: "argcode \<Rightarrow> bool" where
  "wf_piece (Line l) \<longleftrightarrow> code_line l"
| "wf_piece (Args as) \<longleftrightarrow> list_all wf_arg as \<and> length as \<le> sMAXARGS \<and> sort (map arg_index as) = [0..<length as]"
| "wf_arg (Arg i ps) \<longleftrightarrow> list_all wf_piece ps"

text \<open>A section of the buffer.\<close>

fun section_of :: "string \<Rightarrow> nat \<times> nat \<Rightarrow> string" where
  "section_of buf (a, b) = take (b - a) (drop a buf)"

section \<open>Scanning a rendered block\<close>

lemma c_strlen_line:
  "NUL \<notin> set l \<Longrightarrow> c_strlen (pre @ l @ NUL # post) (length pre) = length l"
  by (simp add: c_strlen_def takeWhile_prefix_NUL)

lemma and_exp_bit: "bit a n \<Longrightarrow> a AND 2 ^ n = (2 ^ n :: nat)"
  by (rule bit_eqI) (auto simp: bit_and_iff bit_exp_iff)

lemma exprstart_bit: "i < 128 \<Longrightarrow> (128 + i) AND 128 = (128 :: nat)"
proof -
  assume "i < 128"
  then have "(128 + i) div 128 = 1" by simp
  then have "bit (128 + i) 7" by (simp add: bit_iff_odd)
  from and_exp_bit [OF this] show ?thesis by simp
qed

lemma exprstart_char:
  assumes i: "i < 128"
  shows "code_of (char_of (sEXPRSTART + i)) = sEXPRSTART + i" and "is_exprstart (char_of (sEXPRSTART + i))"
    and "char_of (sEXPRSTART + i) \<noteq> sSTARTREORDER" and "char_of (sEXPRSTART + i) \<noteq> sENDREORDER"
proof -
  show c: "code_of (char_of (sEXPRSTART + i)) = sEXPRSTART + i"
    using i by (simp add: code_of_def sEXPRSTART_def)
  then show "is_exprstart (char_of (sEXPRSTART + i))"
    using i by (simp add: is_exprstart_def) (simp add: sEXPRSTART_def exprstart_bit)
  have "code_of sSTARTREORDER = 1" "code_of sENDREORDER = 2" by (simp_all add: code_of_def)
  then show "char_of (sEXPRSTART + i) \<noteq> sSTARTREORDER" "char_of (sEXPRSTART + i) \<noteq> sENDREORDER"
    using c by (auto simp: sEXPRSTART_def)
qed

text \<open>Pieces are skipped at any depth of nesting; the arguments of an inner block change nothing.\<close>

definition skipped :: "string \<Rightarrow> nat \<Rightarrow> bool" where
  "skipped t n \<longleftrightarrow> (\<forall>pre post argc arg st.
     scan_args (pre @ t @ post) (length pre) n argc arg st
     = scan_args (pre @ t @ post) (length pre + length t) n argc arg st)"

lemma skippedI:
  "(\<And>pre post argc arg st. scan_args (pre @ t @ post) (length pre) n argc arg st
     = scan_args (pre @ t @ post) (length pre + length t) n argc arg st) \<Longrightarrow> skipped t n"
  by (simp add: skipped_def)

lemma skippedD:
  "skipped t n \<Longrightarrow> buf = pre @ t @ post \<Longrightarrow> p = length pre \<Longrightarrow>
   scan_args buf p n argc arg st = scan_args buf (p + length t) n argc arg st"
  by (simp add: skipped_def)

lemma skipped_concat: "(\<And>t. t \<in> set ts \<Longrightarrow> skipped t n) \<Longrightarrow> skipped (concat ts) n"
proof (induction ts)
  case (Cons t ts)
  show ?case
  proof (rule skippedI)
    fix pre post argc arg st
    have "scan_args (pre @ t @ (concat ts @ post)) (length pre) n argc arg st
        = scan_args (pre @ t @ (concat ts @ post)) (length pre + length t) n argc arg st"
      using Cons.prems by (intro skippedD) auto
    also have "\<dots> = scan_args ((pre @ t) @ concat ts @ post) (length pre + length t + length (concat ts)) n argc arg st"
      using Cons by (subst skippedD [of "concat ts" n _ "pre @ t" post]) auto
    finally show "scan_args (pre @ concat (t # ts) @ post) (length pre) n argc arg st
        = scan_args (pre @ concat (t # ts) @ post) (length pre + length (concat (t # ts))) n argc arg st"
      by (simp add: add.assoc)
  qed
qed (simp add: skipped_def)

lemma skip_start:
  "scan_args (pre @ sSTARTREORDER # post) (length pre) n argc arg st
   = scan_args (pre @ sSTARTREORDER # post) (length pre + 1) (n + 1) argc arg st"
  by (subst scan_args.simps) simp

lemma skip_end:
  "1 < n \<Longrightarrow> scan_args (pre @ sENDREORDER # post) (length pre) n argc arg st
   = scan_args (pre @ sENDREORDER # post) (length pre + 1) (n - 1) argc arg st"
  by (subst scan_args.simps) simp

lemma skipped_line: "code_line l \<Longrightarrow> skipped (l @ [NUL]) n"
proof (rule skippedI)
  fix pre post argc arg st
  assume l: "code_line l"
  then obtain c cs where c: "l = c # cs" by (cases l) (auto simp: code_line_def)
  have "c_strlen (pre @ (l @ [NUL]) @ post) (length pre) = length l"
    using l c_strlen_line [of l pre post] by (simp add: code_line_def)
  then show "scan_args (pre @ (l @ [NUL]) @ post) (length pre) n argc arg st
     = scan_args (pre @ (l @ [NUL]) @ post) (length pre + length (l @ [NUL])) n argc arg st"
    using l by (subst scan_args.simps) (simp add: c code_line_def)
qed

lemma skipped_block:
  assumes "\<And>t. t \<in> set ts \<Longrightarrow> skipped t (n + 1)" and n: "1 \<le> n"
  shows "skipped (sSTARTREORDER # concat ts @ [sENDREORDER]) n"
proof (rule skippedI)
  fix pre post argc arg st
  let ?b = "pre @ (sSTARTREORDER # concat ts @ [sENDREORDER]) @ post"
  have b1: "?b = pre @ sSTARTREORDER # (concat ts @ sENDREORDER # post)" by simp
  have b2: "?b = (pre @ [sSTARTREORDER]) @ concat ts @ (sENDREORDER # post)" by simp
  have b3: "?b = (pre @ sSTARTREORDER # concat ts) @ sENDREORDER # post" by simp
  have "scan_args ?b (length pre) n argc arg st = scan_args ?b (length pre + 1) (n + 1) argc arg st"
    unfolding b1 by (rule skip_start)
  also have "\<dots> = scan_args ?b (length pre + 1 + length (concat ts)) (n + 1) argc arg st"
    by (rule skippedD [OF skipped_concat b2]) (use assms in auto)
  also have "\<dots> = scan_args ?b (length pre + 1 + length (concat ts) + 1) n argc arg st"
    using skip_end [of "n + 1" "pre @ sSTARTREORDER # concat ts" post argc arg st] n by (simp add: b3)
  finally show "scan_args ?b (length pre) n argc arg st
      = scan_args ?b (length pre + length (sSTARTREORDER # concat ts @ [sENDREORDER])) n argc arg st"
    by (simp add: algebra_simps)
qed

lemma skipped_exprstart:
  "i < 128 \<Longrightarrow> 2 \<le> n \<Longrightarrow> skipped t n \<Longrightarrow> skipped (char_of (sEXPRSTART + i) # t) n"
proof (rule skippedI)
  fix pre post argc arg st
  assume a: "i < 128" "2 \<le> n" "skipped t n"
  let ?b = "pre @ (char_of (sEXPRSTART + i) # t) @ post"
  have "scan_args ?b (length pre) n argc arg st = scan_args ?b (length pre + 1) n argc arg st"
    using a exprstart_char [of i] by (subst scan_args.simps) (simp del: of_nat_add)
  also have "\<dots> = scan_args ?b (length pre + 1 + length t) n argc arg st"
    by (rule skippedD [OF a(3), of _ "pre @ [char_of (sEXPRSTART + i)]" post]) auto
  finally show "scan_args ?b (length pre) n argc arg st
      = scan_args ?b (length pre + length (char_of (sEXPRSTART + i) # t)) n argc arg st" by simp
qed

lemma wf_index: "wf_piece (Args as) \<Longrightarrow> a \<in> set as \<Longrightarrow> arg_index a < length as \<and> length as \<le> 127"
proof -
  assume w: "wf_piece (Args as)" "a \<in> set as"
  then have "set (map arg_index as) = {0..<length as}" by (metis set_sort set_upt wf_piece.simps(2))
  with w show ?thesis by (auto simp: sMAXARGS_def)
qed

lemma skipped_render: "wf_piece x \<Longrightarrow> 1 \<le> n \<Longrightarrow> skipped (render x) n"
  and "wf_arg y \<Longrightarrow> arg_index y < 128 \<Longrightarrow> 2 \<le> n \<Longrightarrow> skipped (render_arg y) n"
proof (induction x and y arbitrary: n and n rule: render_render_arg.induct)
  case (1 l)
  then show ?case by (simp add: skipped_line)
next
  case (2 as)
  have "skipped t (n + 1)" if "t \<in> set (map render_arg as)" for t
    using 2 that wf_index [OF "2.prems"(1)] by (fastforce simp: list_all_iff)
  then show ?case using skipped_block [of "map render_arg as" n] 2 by simp
next
  case (3 i ps)
  then show ?case by (auto simp: list_all_iff intro!: skipped_exprstart skipped_concat)
qed

text \<open>The whole block: every argument gets its section; that of the last one reaches up to the
  closing mark, the others stop before their last terminator.\<close>

fun spans :: "nat \<Rightarrow> argcode list \<Rightarrow> (nat \<times> nat \<times> nat) list" where
  "spans p [] = []"
| "spans p (a # as) =
     (arg_index a, p + 1, p + length (render_arg a) - (if as = [] then 0 else 1)) # spans (p + length (render_arg a)) as"

lemma spans_indices: "map fst (spans p as) = map arg_index as"
  by (induction as arbitrary: p) auto

lemma length_render_arg: "0 < length (render_arg a)"
  by (cases a) auto

lemma scan_end:
  "scan_args (pre @ sENDREORDER # post) (length pre) 1 argc arg st = Inr (length pre + 1, argc, arg, st)"
  by (subst scan_args.simps) simp

lemma scan_one_arg:
  assumes i: "i < sMAXARGS" and ps: "list_all wf_piece ps"
  shows "scan_args (pre @ render_arg (Arg i ps) @ post) (length pre) 1 argc arg st
     = scan_args (pre @ render_arg (Arg i ps) @ post) (length pre + length (render_arg (Arg i ps))) 1 (max argc (i + 1)) (Some i)
        ((finish_arg arg (length pre - 1) st)(i := (Some (length pre + 1), snd (finish_arg arg (length pre - 1) st i))))"
    (is "scan_args ?b _ 1 _ _ _ = scan_args ?b _ 1 _ _ ?st")
proof -
  have i': "i < 128" using i by (simp add: sMAXARGS_def)
  have "scan_args ?b (length pre) 1 argc arg st = scan_args ?b (length pre + 1) 1 (max argc (i + 1)) (Some i) ?st"
    using i exprstart_char [OF i'] by (subst scan_args.simps) (simp add: Let_def not_le)
  also have "\<dots> = scan_args ?b (length pre + 1 + length (renders ps)) 1 (max argc (i + 1)) (Some i) ?st"
    using ps by (intro skippedD [where pre = "pre @ [char_of (sEXPRSTART + i)]" and post = post] skipped_concat)
      (auto simp: list_all_iff intro: skipped_render)
  finally show ?thesis by simp
qed

lemma scan_arg_list:
  assumes "list_all wf_arg as" and "\<forall>a \<in> set as. arg_index a < sMAXARGS"
    and "distinct (map arg_index as)" and "\<forall>a. arg = Some a \<longrightarrow> a \<notin> set (map arg_index as)"
  shows "\<exists>argc' arg' st'.
     scan_args (pre @ concat (map render_arg as) @ sENDREORDER # post) (length pre) 1 argc arg st
       = Inr (length pre + length (concat (map render_arg as)) + 1, argc', arg', st')
     \<and> argc' = fold max (map (\<lambda>a. arg_index a + 1) as) argc
     \<and> (\<forall>(i, x, y) \<in> set (spans (length pre) as).
          finish_arg arg' (length pre + length (concat (map render_arg as))) st' i = (Some x, Some y))
     \<and> (\<forall>i. i \<notin> set (map arg_index as) \<longrightarrow>
          finish_arg arg' (length pre + length (concat (map render_arg as))) st' i
          = finish_arg arg (length pre - (if as = [] then 0 else 1)) st i)"
  using assms
proof (induction as arbitrary: pre argc arg st)
  case Nil
  show ?case using scan_end [of pre post argc arg st] by (cases arg) auto
next
  case (Cons a as)
  obtain i ps where a: "a = Arg i ps" by (cases a)
  let ?r = "render_arg a"
  let ?s = "finish_arg arg (length pre - 1) st"
  let ?st = "?s(i := (Some (length pre + 1), snd (?s i)))"
  have h: "list_all wf_arg as" "\<forall>a \<in> set as. arg_index a < sMAXARGS" "distinct (map arg_index as)"
    "\<forall>a. Some i = Some a \<longrightarrow> a \<notin> set (map arg_index as)" using Cons.prems by (auto simp: a)
  obtain argc' arg' st' where ih:
    "scan_args ((pre @ ?r) @ concat (map render_arg as) @ sENDREORDER # post) (length (pre @ ?r)) 1 (max argc (i + 1)) (Some i) ?st
       = Inr (length (pre @ ?r) + length (concat (map render_arg as)) + 1, argc', arg', st')"
    "argc' = fold max (map (\<lambda>a. arg_index a + 1) as) (max argc (i + 1))"
    "\<forall>(j, x, y) \<in> set (spans (length (pre @ ?r)) as).
          finish_arg arg' (length (pre @ ?r) + length (concat (map render_arg as))) st' j = (Some x, Some y)"
    "\<forall>j. j \<notin> set (map arg_index as) \<longrightarrow>
          finish_arg arg' (length (pre @ ?r) + length (concat (map render_arg as))) st' j
          = finish_arg (Some i) (length (pre @ ?r) - (if as = [] then 0 else 1)) ?st j"
    using Cons.IH [OF h, of "pre @ ?r" "max argc (i + 1)" ?st] by blast
  have s: "scan_args (pre @ concat (map render_arg (a # as)) @ sENDREORDER # post) (length pre) 1 argc arg st
      = Inr (length pre + length (concat (map render_arg (a # as))) + 1, argc', arg', st')"
    using scan_one_arg [of i ps pre "concat (map render_arg as) @ sENDREORDER # post" argc arg st] Cons.prems ih(1)
    by (simp add: a add.assoc)
  have e: "length pre + length (concat (map render_arg (a # as))) = length (pre @ ?r) + length (concat (map render_arg as))"
    by simp
  have "finish_arg arg' (length (pre @ ?r) + length (concat (map render_arg as))) st' i
      = (Some (length pre + 1), Some (length pre + length ?r - (if as = [] then 0 else 1)))"
    using ih(4) h(4) by simp
  moreover have "finish_arg arg' (length (pre @ ?r) + length (concat (map render_arg as))) st' j = finish_arg arg (length pre - 1) st j"
    if "j \<notin> set (map arg_index (a # as))" for j
    using ih(4) that by (simp add: a)
  ultimately show ?case using s ih(2,3) unfolding e by (auto simp: a max.commute [of argc])
qed

lemma block_indices:
  assumes "wf_piece (Args as)"
  shows "set (map arg_index as) = {0..<length as}" and "distinct (map arg_index as)"
    and "fold max (map (\<lambda>a. arg_index a + 1) as) 0 = length as"
proof -
  have s: "sort (map arg_index as) = [0..<length as]" using assms by simp
  show set: "set (map arg_index as) = {0..<length as}" by (metis s set_sort set_upt)
  show "distinct (map arg_index as)" by (metis s distinct_sort distinct_upt)
  have "fold max (map (\<lambda>a. arg_index a + 1) as) 0 = Max (set (0 # map (\<lambda>a. arg_index a + 1) as))"
    by (rule Max.set_eq_fold [symmetric])
  also have "set (0 # map (\<lambda>a. arg_index a + 1) as) = {0..length as}"
  proof -
    have "set (map (\<lambda>a. arg_index a + 1) as) = Suc ` set (map arg_index as)" by (simp add: image_image)
    also have "\<dots> = Suc ` {0..<length as}" by (simp only: set)
    finally show ?thesis by (auto simp: image_Suc_atLeastLessThan)
  qed
  finally show "fold max (map (\<lambda>a. arg_index a + 1) as) 0 = length as"
    using Max_eqI [of "{0..length as}" "length as"] by simp
qed

lemma run_end_lines:
  assumes "list_all code_line ls" and "rest = [] \<or> hd rest = sSTARTREORDER"
    and "length pre + length (concat (map (\<lambda>l. l @ [NUL]) ls)) - (if rest = [] then 1 else 0) \<le> e"
    and "rest = [] \<longrightarrow> e \<le> length pre + length (concat (map (\<lambda>l. l @ [NUL]) ls))"
  shows "run_end (pre @ concat (map (\<lambda>l. l @ [NUL]) ls) @ rest @ post) (length pre) e
    = length pre + length (concat (map (\<lambda>l. l @ [NUL]) ls))"
  using assms
proof (induction ls arbitrary: pre)
  case Nil
  then show ?case by (subst run_end.simps) (auto simp: nth_append hd_conv_nth)
next
  case (Cons l ls)
  have l: "code_line l" and nn: "NUL \<notin> set l" using Cons.prems(1) by (auto simp: code_line_def)
  then obtain c cs where c: "l = c # cs" by (cases l) (auto simp: code_line_def)
  let ?b = "pre @ concat (map (\<lambda>l. l @ [NUL]) (l # ls)) @ rest @ post"
  have k: "c_strlen ?b (length pre) = length l"
    using nn c_strlen_line [of l pre "concat (map (\<lambda>l. l @ [NUL]) ls) @ rest @ post"] by simp
  have "length pre < e" using Cons.prems(3) c by (auto split: if_splits)
  then have "run_end ?b (length pre) e = run_end ?b (length pre + length l + 1) e"
    using l by (subst run_end.simps) (simp only: k, simp add: c code_line_def)
  also have "\<dots> = run_end ((pre @ l @ [NUL]) @ concat (map (\<lambda>l. l @ [NUL]) ls) @ rest @ post) (length (pre @ l @ [NUL])) e"
    by simp
  also have "\<dots> = length (pre @ l @ [NUL]) + length (concat (map (\<lambda>l. l @ [NUL]) ls))"
    using Cons.prems by (intro Cons.IH) (auto split: if_splits)
  finally show ?case by simp
qed

lemma spans_arg:
  "a \<in> set as \<Longrightarrow> \<exists>pre' post' y. concat (map render_arg as) = pre' @ render_arg a @ post'
     \<and> (arg_index a, p + length pre' + 1, y) \<in> set (spans p as)
     \<and> (y = p + length pre' + length (render_arg a) \<or> Suc y = p + length pre' + length (render_arg a))"
proof (induction as arbitrary: p)
  case (Cons b as)
  show ?case
  proof (cases "a = b")
    case True
    have "0 < length (render_arg b)" by (rule length_render_arg)
    with True show ?thesis by (intro exI [of _ "[]"] exI [of _ "concat (map render_arg as)"]) auto
  next
    case False
    then obtain pre' post' y where c: "concat (map render_arg as) = pre' @ render_arg a @ post'"
        and "(arg_index a, (p + length (render_arg b)) + length pre' + 1, y) \<in> set (spans (p + length (render_arg b)) as)"
        and "y = (p + length (render_arg b)) + length pre' + length (render_arg a)
           \<or> Suc y = (p + length (render_arg b)) + length pre' + length (render_arg a)"
      using Cons.IH [of "p + length (render_arg b)"] Cons.prems by auto
    then show ?thesis
      by (intro exI [of _ "render_arg b @ pre'"] exI [of _ post'] exI [of _ y]) (simp add: add.assoc)
  qed
qed simp

lemma split_lines:
  "\<exists>ls qs. ps = map Line ls @ qs \<and> (qs = [] \<or> (\<exists>as qs'. qs = Args as # qs'))"
proof (induction ps)
  case Nil
  show ?case by (intro exI [of _ "[]"]) simp
next
  case (Cons x ps)
  show ?case
  proof (cases x)
    case (Line l)
    obtain ls qs where "ps = map Line ls @ qs" "qs = [] \<or> (\<exists>as qs'. qs = Args as # qs')" using Cons by blast
    then show ?thesis by (intro exI [of _ "l # ls"] exI [of _ qs]) (simp add: Line)
  next
    case (Args as)
    then show ?thesis by (intro exI [of _ "[]"] exI [of _ "x # ps"]) simp
  qed
qed

abbreviation code_text :: "string list \<Rightarrow> string" where
  "code_text ls \<equiv> concat (map (\<lambda>l. l @ [NUL]) ls)"

lemma render_Line [simp]: "render \<circ> Line = (\<lambda>l. l @ [NUL])" "lines_of \<circ> Line = (\<lambda>l. [l])"
  by (auto simp: comp_def)

lemma concat_singles [simp]: "concat (map (\<lambda>l. [l]) ls) = ls"
  by (induction ls) auto

lemma stgstring_order:
  assumes "list_all wf_piece ps" and "buf = pre @ renders ps @ post"
    and "e = length pre + length (renders ps) \<or> Suc e = length pre + length (renders ps)"
  shows "\<exists>segs. stgstring buf (length pre) e = Inr segs
     \<and> concat (map (section_of buf) segs) = code_text (concat (map lines_of ps))"
  using assms
proof (induction "length (renders ps)" arbitrary: ps pre post e rule: less_induct)
  case less
  obtain ls qs where ps: "ps = map Line ls @ qs" and qs: "qs = [] \<or> (\<exists>as qs'. qs = Args as # qs')"
    using split_lines by blast
  show ?case
  proof (cases "ls = []")
    case ls: False
    have r: "renders ps = code_text ls @ renders qs" by (simp add: ps)
    have lsok: "list_all code_line ls" using less.prems(1) by (simp add: ps list.pred_map comp_def)
    obtain l ls' where l: "ls = l # ls'" "l \<noteq> []" using ls lsok by (cases ls) (auto simp: code_line_def)
    have lt: "length pre < e" using less.prems(3) l by (auto simp: r)
    have nS: "buf ! length pre \<noteq> sSTARTREORDER" "length pre < length buf"
      using lsok l by (auto simp: less.prems(2) r nth_append code_line_def hd_conv_nth)
    have "run_end buf (length pre) e = length pre + length (code_text ls)"
    proof -
      have "renders qs = [] \<or> hd (renders qs) = sSTARTREORDER" using qs by auto
      moreover have two: "qs = [] \<or> 2 \<le> length (renders qs)" using qs by auto
      moreover have "length pre + length (code_text ls) - (if renders qs = [] then 1 else 0) \<le> e"
      proof (cases "qs = []")
        case False
        then have "2 \<le> length (renders qs)" using two by simp
        moreover have "length (renders ps) = length (code_text ls) + length (renders qs)" by (simp only: r length_append)
        ultimately show ?thesis using less.prems(3) by linarith
      qed (use less.prems(3) r in auto)
      moreover have "renders qs = [] \<longrightarrow> e \<le> length pre + length (code_text ls)"
        using less.prems(3) by (auto simp only: r length_append list.size)
      ultimately show ?thesis
        using run_end_lines [OF lsok, of "renders qs" pre e post] by (simp only: less.prems(2) r append_assoc)
    qed
    moreover have "\<exists>segs. stgstring buf (length (pre @ code_text ls)) e = Inr segs
       \<and> concat (map (section_of buf) segs) = code_text (concat (map lines_of qs))"
      using less.prems by (intro less.hyps [of qs _ post]) (auto simp: r ps l)
    ultimately show ?thesis
      using lt nS by (subst stgstring.simps) (auto simp: less.prems(2) r ps)
  next
    case ls: True
    show ?thesis
    proof (cases qs)
      case Nil
      then show ?thesis using less.prems(3) by (subst stgstring.simps) (auto simp: ps ls)
    next
      case (Cons q qs')
      then obtain as where q: "q = Args as" using qs by auto
      have r: "renders ps = render (Args as) @ renders qs'" by (simp add: ps ls Cons q)
      have w: "wf_piece (Args as)" using less.prems(1) by (simp add: ps ls Cons q)
      note ix = block_indices [OF w]
      define p where "p = length pre + 1"
      define body where "body = concat (map render_arg as)"
      have b: "buf = (pre @ [sSTARTREORDER]) @ body @ sENDREORDER # (renders qs' @ post)"
        by (simp add: less.prems(2) r body_def)
      have lp: "length (pre @ [sSTARTREORDER]) = p" by (simp add: p_def)
      obtain arg st where scan: "scan_args buf p 1 0 None new_stack = Inr (p + length body + 1, length as, arg, st)"
        and st: "\<forall>(i, x, y) \<in> set (spans p as). finish_arg arg (p + length body) st i = (Some x, Some y)"
      proof -
        have "list_all wf_arg as" "\<forall>a \<in> set as. arg_index a < sMAXARGS"
          using w wf_index [OF w] by (simp, fastforce simp: sMAXARGS_def)
        from scan_arg_list [OF this ix(2), of None "pre @ [sSTARTREORDER]" "renders qs' @ post" 0 new_stack]
        show ?thesis using that ix(3) unfolding lp b body_def by auto
      qed
      have one: "\<exists>segs. (case finish_arg arg (p + length body) st i of
             (Some x, Some y) \<Rightarrow> stgstring buf x y | _ \<Rightarrow> Inl Uninitialised) = Inr segs
          \<and> concat (map (section_of buf) segs)
            = code_text (case map_of (map (\<lambda>a. (arg_index a, arg_lines a)) as) i of None \<Rightarrow> [] | Some ls \<Rightarrow> ls)"
        if i: "i \<in> set (rev [0..<length as])" for i
      proof -
        have "i \<in> set (map arg_index as)" using i ix(1) by simp
        then obtain a where a: "a \<in> set as" "arg_index a = i" by auto
        obtain ps' where ap: "a = Arg i ps'" using a(2) by (cases a) auto
        obtain pre' post' y where sp: "body = pre' @ render_arg a @ post'"
          "(i, p + length pre' + 1, y) \<in> set (spans p as)"
          "y = p + length pre' + length (render_arg a) \<or> Suc y = p + length pre' + length (render_arg a)"
          using spans_arg [OF a(1), of p] a(2) unfolding body_def by blast
        have "finish_arg arg (p + length body) st i = (Some (p + length pre' + 1), Some y)" using st sp(2) by auto
        moreover have "\<exists>segs. stgstring buf (length (pre @ sSTARTREORDER # pre' @ [char_of (sEXPRSTART + i)])) y = Inr segs
           \<and> concat (map (section_of buf) segs) = code_text (concat (map lines_of ps'))"
        proof (rule less.hyps)
          show "length (renders ps') < length (renders ps)" using sp(1) by (simp add: r ap flip: body_def)
          show "list_all wf_piece ps'" using w a(1) by (auto simp: list_all_iff ap)
          show "buf = (pre @ sSTARTREORDER # pre' @ [char_of (sEXPRSTART + i)]) @ renders ps'
              @ (post' @ sENDREORDER # renders qs' @ post)"
            by (simp add: b sp(1) ap)
        qed (use sp(3) in \<open>simp add: p_def ap\<close>)
        moreover have "map_of (map (\<lambda>a. (arg_index a, arg_lines a)) as) i = Some (arg_lines a)"
          using a ix(2) by (auto simp: map_of_eq_Some_iff comp_def)
        ultimately show ?thesis by (simp add: p_def ap)
      qed
      have "\<forall>i \<in> set (rev [0..<length as]). \<exists>segs. (case finish_arg arg (p + length body) st i of
             (Some x, Some y) \<Rightarrow> stgstring buf x y | _ \<Rightarrow> Inl Uninitialised) = Inr segs
          \<and> concat (map (section_of buf) segs)
            = code_text (case map_of (map (\<lambda>a. (arg_index a, arg_lines a)) as) i of None \<Rightarrow> [] | Some ls \<Rightarrow> ls)"
        by (rule ballI) (rule one)
      from bchoice [OF this] obtain f where f0: "\<forall>i \<in> set (rev [0..<length as]). (case finish_arg arg (p + length body) st i of
             (Some x, Some y) \<Rightarrow> stgstring buf x y | _ \<Rightarrow> Inl Uninitialised) = Inr (f i)
          \<and> concat (map (section_of buf) (f i))
            = code_text (case map_of (map (\<lambda>a. (arg_index a, arg_lines a)) as) i of None \<Rightarrow> [] | Some ls \<Rightarrow> ls)" ..
      note f = f0 [rule_format]
      have args: "mapR (\<lambda>i. case finish_arg arg (p + length body) st i of
             (Some x, Some y) \<Rightarrow> stgstring buf x y | _ \<Rightarrow> Inl Uninitialised) (rev [0..<length as])
          = Inr (map f (rev [0..<length as]))"
        by (rule mapR_Inr) (rule conjunct1 [OF f])
      have joined: "concat (map (section_of buf) (concat (map f js))) = code_text (concat (map (\<lambda>i.
             case map_of (map (\<lambda>a. (arg_index a, arg_lines a)) as) i of None \<Rightarrow> [] | Some ls \<Rightarrow> ls) js))"
        if "set js \<subseteq> set (rev [0..<length as])" for js
        using that
      proof (induction js)
        case (Cons i js)
        then have "i \<in> set (rev [0..<length as])" by simp
        from conjunct2 [OF f [OF this]] Cons show ?case by simp
      qed simp
      obtain rest where rest: "stgstring buf (p + length body + 1) e = Inr rest"
        "concat (map (section_of buf) rest) = code_text (concat (map lines_of qs'))"
      proof -
        have "\<exists>segs. stgstring buf (length (pre @ render (Args as))) e = Inr segs
           \<and> concat (map (section_of buf) segs) = code_text (concat (map lines_of qs'))"
          using less.prems by (intro less.hyps [of qs' _ post]) (auto simp: r ps ls Cons q)
        moreover have "length (pre @ render (Args as)) = p + length body + 1" by (simp add: p_def body_def)
        ultimately show ?thesis using that by auto
      qed
      have "length pre < e" "length pre < length buf" "buf ! length pre = sSTARTREORDER"
        using less.prems(3) by (auto simp: r b)
      then have "stgstring buf (length pre) e = Inr (concat (map f (rev [0..<length as])) @ rest)"
        using scan args rest(1) by (subst stgstring.simps) (simp add: p_def)
      moreover have "concat (map (section_of buf) (concat (map f (rev [0..<length as])) @ rest))
          = code_text (concat (map lines_of ps))"
        using joined [of "rev [0..<length as]"] rest(2) by (simp add: ps ls Cons q)
      ultimately show ?thesis by blast
    qed
  qed
qed

section \<open>Properties\<close>

text \<open>C17 (\<open>stgstring\<close>): for a staged program text, nested to any depth, in which every block has one
  argument of each number, \<open>stgstring\<close> ends without a fault, and the sections it hands to the
  optimiser hold every code string exactly once, the arguments of each block in descending order
  of their numbers, whatever order they were staged in.\<close>
theorem stgstring_reverses_arguments:
  assumes "list_all wf_piece ps" and "buf = pre @ renders ps @ post"
  shows "\<exists>segs. stgstring buf (length pre) (length pre + length (renders ps)) = Inr segs
     \<and> concat (map (section_of buf) segs) = code_text (concat (map lines_of ps))"
  by (rule stgstring_order [OF assms]) simp

text \<open>A call with three arguments staged in the order 1, 0, 2, the last of which is a call.\<close>

definition staged_call :: "piece list" where
  "staged_call = [Line ''a'', Args [Arg 1 [Line ''b'', Line ''c''], Arg 0 [Line ''d''],
     Arg 2 [Args [Arg 0 [Line ''e''], Arg 1 [Line ''f'']], Line ''g'']], Line ''h'']"

theorem stgstring_reverses_arguments_witness:
  "concat (map lines_of staged_call) = [''a'', ''f'', ''e'', ''g'', ''b'', ''c'', ''d'', ''h'']
   \<and> (\<exists>segs. stgstring ([] @ renders staged_call @ []) (length ([] :: string)) (length ([] :: string) + length (renders staged_call)) = Inr segs
      \<and> concat (map (section_of ([] @ renders staged_call @ [])) segs) = code_text (concat (map lines_of staged_call)))"
proof -
  have "list_all wf_piece staged_call" by code_simp
  from stgstring_reverses_arguments [OF this refl, of "[]" "[]"]
  have "\<exists>segs. stgstring ([] @ renders staged_call @ []) (length ([] :: string)) (length ([] :: string) + length (renders staged_call)) = Inr segs
      \<and> concat (map (section_of ([] @ renders staged_call @ [])) segs) = code_text (concat (map lines_of staged_call))" .
  moreover have "concat (map lines_of staged_call) = [''a'', ''f'', ''e'', ''g'', ''b'', ''c'', ''d'', ''h'']" by code_simp
  ultimately show ?thesis by blast
qed

end
