(* ===== verification/ScPeephole.thy ===== *)
theory ScPeephole
  imports ScExpand ScReorder
begin

text \<open>
  The peephole optimiser of sc7.c: \<open>matchsequence\<close> and \<open>replacesequence\<close> are the two halves of a
  rewrite, \<open>stgopt\<close> applies the rules to a section of the staging buffer until none matches, and
  \<open>stgout\<close> does so for every section that \<open>stgstring\<close> delivers. A text is the list of bytes from the
  pointer \<open>start\<close> up to \<open>end\<close>; its code strings are terminated by zeros, so a comparison stops at a
  terminator before it leaves the section, and where a loop does look at the byte at \<open>end\<close> the
  outcome does not depend on it.
\<close>

section \<open>Matching\<close>

definition MAX_OPT_VARS :: nat where "MAX_OPT_VARS = 4"
definition MAX_OPT_CAT :: nat where "MAX_OPT_CAT = 4"
definition MAX_ALIAS :: nat where
  "MAX_ALIAS = (if sNAMEMAX > (32 div 4) * MAX_OPT_CAT then sNAMEMAX else (32 div 4) * MAX_OPT_CAT)"

definition is_blank :: "char \<Rightarrow> bool" where "is_blank c \<longleftrightarrow> c = TAB \<or> c = CHR '' ''"

definition symbol_char :: "char \<Rightarrow> bool" where
  "symbol_char c \<longleftrightarrow> c = CHR ''-'' \<or> c = CHR ''+'' \<or> alphanum c"

text \<open>\<open>atoi\<close> and \<open>strtol\<close> of the C library, on the pattern strings: the value, and for \<open>strtol\<close> in base
  16 where the number ends.\<close>

fun atoi_from :: "nat \<Rightarrow> string \<Rightarrow> nat" where
  "atoi_from n [] = n"
| "atoi_from n (c # cs) = (if isdigit c then atoi_from (10 * n + (code_of c - 48)) cs else n)"

definition atoi :: "string \<Rightarrow> nat" where "atoi = atoi_from 0"

fun hex_digits :: "cell \<Rightarrow> string \<Rightarrow> cell \<times> string" where
  "hex_digits n [] = (n, [])"
| "hex_digits n (c # cs) =
     (if ishex c then hex_digits (16 * n + of_nat (code_of (tolower c) - (if isdigit c then 48 else 87))) cs
      else (n, c # cs))"

text \<open>The variable that a pattern names after a percent sign, counted from 0.\<close>

definition pattern_var :: "string \<Rightarrow> nat result" where
  "pattern_var pat =
     bindR (assertR (pat \<noteq> [] \<and> isdigit (hd pat))) (\<lambda>_.
       bindR (assertR (1 \<le> atoi pat \<and> atoi pat \<le> MAX_OPT_VARS)) (\<lambda>_. Inr (atoi pat - 1)))"

type_synonym symbols = "string list"

text \<open>An operand: it is read into \<open>str\<close>, which has room for \<open>MAX_ALIAS\<close> characters and the terminator;
  the assertion stops the loop one character too late.\<close>

definition read_symbol :: "string \<Rightarrow> string result" where
  "read_symbol text =
     bindR (assertR (text \<noteq> [] \<and> (hd text = CHR ''-'' \<or> alphanum (hd text)))) (\<lambda>_.
       let str = takeWhile symbol_char text
       in bindR (assertR (length str \<le> MAX_ALIAS + 1)) (\<lambda>_.
            if length str = MAX_ALIAS + 1 then Inl BufferOverflow else Inr str))"

text \<open>Text equal to a string up to case.\<close>

fun skip_text :: "string \<Rightarrow> string \<Rightarrow> string option" where
  "skip_text [] text = Some text"
| "skip_text (p # ps) [] = None"
| "skip_text (p # ps) (c # text) = (if tolower c = tolower p then skip_text ps text else None)"

text \<open>The pattern is consumed from the left; the text that is left over determines \<open>match_length\<close>.\<close>

lemma hex_digits_length: "length (snd (hex_digits n cs)) \<le> length cs"
  by (induction n cs rule: hex_digits.induct) auto

function match_pattern :: "string \<Rightarrow> string \<Rightarrow> symbols \<Rightarrow> (string \<times> symbols) option result" where
  "match_pattern [] text syms = Inr (Some (text, syms))"
| "match_pattern (p # pat) text syms =
     (if text = [] then Inr None
      else if p = CHR ''%'' then
        bindR (pattern_var pat) (\<lambda>var. bindR (read_symbol text) (\<lambda>str.
          if syms ! var \<noteq> [] then
            (if syms ! var \<noteq> str then Inr None else match_pattern (tl pat) (drop (length str) text) syms)
          else match_pattern (tl pat) (drop (length str) text) (syms[var := str])))
      else if p = CHR ''-'' then
        (case hex_digits 0 pat of (value, pat') \<Rightarrow>
           case skip_text (itoh (- value)) text of
             None \<Rightarrow> Inr None
           | Some text' \<Rightarrow> match_pattern pat' text' syms)
      else if p = CHR '' '' then
        (if \<not> is_blank (hd text) then Inr None else match_pattern pat (dropWhile is_blank text) syms)
      else if p = CHR ''!'' then
        (case dropWhile is_blank text of
           [] \<Rightarrow> Inr None
         | c # text' \<Rightarrow>
             if c \<noteq> NL then Inr None
             else bindR (assertR (text' \<noteq> [] \<and> hd text' = NUL)) (\<lambda>_.
                    match_pattern pat (if pat \<noteq> [] then dropWhile is_blank (tl text') else tl text') syms))
      else if tolower (hd text) \<noteq> tolower p then Inr None
      else match_pattern pat (tl text) syms)"
  by pat_completeness auto

termination
proof (relation "measure (\<lambda>(pat, text, syms). length pat)", goal_cases)
  case (4 p pat xs sy v pat')
  then show ?case using hex_digits_length [of 0 pat] by (cases "hex_digits 0 pat") auto
qed (auto simp: le_imp_less_Suc diff_le_self)

definition matchsequence :: "string \<Rightarrow> string \<Rightarrow> (nat \<times> symbols) option result" where
  "matchsequence text pattern =
     bindR (match_pattern pattern (dropWhile is_blank text) (replicate MAX_OPT_VARS [])) (\<lambda>r.
       case r of None \<Rightarrow> Inr None
       | Some (rest, syms) \<Rightarrow> Inr (Some (length text - length rest, syms)))"

section \<open>Replacing\<close>

function repl_length :: "string \<Rightarrow> symbols \<Rightarrow> nat result" where
  "repl_length [] syms = Inr 0"
| "repl_length (p # pat) syms =
     (if p = CHR ''%'' then
        bindR (pattern_var pat) (\<lambda>var. bindR (assertR (syms ! var \<noteq> [])) (\<lambda>_.
          bindR (repl_length (tl pat) syms) (\<lambda>n. Inr (length (syms ! var) + n))))
      else bindR (repl_length pat syms) (\<lambda>n. Inr ((if p = CHR ''!'' then 3 else 1) + n)))"
  by pat_completeness auto
termination by (relation "measure (\<lambda>(pat, syms). length pat)") (auto simp: le_imp_less_Suc diff_le_self)

text \<open>Writing into the block of \<open>n\<close> bytes: \<open>buf\<close> is what has been written. \<open>strcpy\<close> also writes a
  terminator, which needs one byte more.\<close>

function repl_write :: "string \<Rightarrow> symbols \<Rightarrow> nat \<Rightarrow> string \<Rightarrow> string result" where
  "repl_write [] syms n buf = Inr buf"
| "repl_write (p # pat) syms n buf =
     bindR (assertR (length buf < n)) (\<lambda>_.
       if p = CHR ''%'' then
         bindR (pattern_var pat) (\<lambda>var. bindR (assertR (syms ! var \<noteq> [])) (\<lambda>_.
           if n < length buf + length (syms ! var) + 1 then Inl BufferOverflow
           else repl_write (tl pat) syms n (buf @ syms ! var)))
       else if p = CHR ''!'' then
         let eol = [NL, NUL] @ (if pat \<noteq> [] then [TAB] else [])
         in if n < length buf + length eol then Inl BufferOverflow else repl_write pat syms n (buf @ eol)
       else repl_write pat syms n (buf @ [p]))"
  by pat_completeness auto
termination by (relation "measure (\<lambda>(pat, syms, n, buf). length pat)") (auto simp: le_imp_less_Suc diff_le_self)

definition replacesequence :: "string \<Rightarrow> symbols \<Rightarrow> string result" where
  "replacesequence pattern syms =
     bindR (repl_length pattern syms) (\<lambda>n.
       if n = 0 then Inl BufferOverflow
       else bindR (repl_write pattern syms n [TAB]) (\<lambda>buf.
              bindR (assertR (length buf = n)) (\<lambda>_. Inr buf)))"

text \<open>\<open>strreplace\<close> on the section \<open>dest\<close>; a replacement that is longer than the match moves the text up.\<close>

definition strreplace :: "string \<Rightarrow> string \<Rightarrow> nat \<Rightarrow> string" where
  "strreplace dest repl sub_length = repl @ drop sub_length dest"

declare match_pattern.simps(2) [simp del] repl_length.simps(2) [simp del] repl_write.simps(2) [simp del]

section \<open>Every rule shortens the text\<close>

text \<open>The characters a pattern stands for: a fixed number, and its variables. In a replacement an end
  of line takes three characters, in a match at least two.\<close>

function pat_vars :: "string \<Rightarrow> nat list" where
  "pat_vars [] = []"
| "pat_vars (p # pat) = (if p = CHR ''%'' then (atoi pat - 1) # pat_vars (tl pat) else pat_vars pat)"
  by pat_completeness auto
termination by (relation "measure length") (auto simp: le_imp_less_Suc diff_le_self)

function find_weight :: "string \<Rightarrow> nat" where
  "find_weight [] = 0"
| "find_weight (p # pat) =
     (if p = CHR ''%'' then find_weight (tl pat)
      else if p = CHR ''-'' then find_weight (snd (hex_digits 0 pat))
      else (if p = CHR ''!'' then 2 else 1) + find_weight pat)"
  by pat_completeness auto
termination
proof (relation "measure length", goal_cases)
  case (3 p pat)
  then show ?case using hex_digits_length [of 0 pat] by simp
qed (auto simp: le_imp_less_Suc diff_le_self)

function repl_weight :: "string \<Rightarrow> nat" where
  "repl_weight [] = 0"
| "repl_weight (p # pat) =
     (if p = CHR ''%'' then repl_weight (tl pat) else (if p = CHR ''!'' then 3 else 1) + repl_weight pat)"
  by pat_completeness auto
termination by (relation "measure length") (auto simp: le_imp_less_Suc diff_le_self)

fun covers :: "nat list \<Rightarrow> nat list \<Rightarrow> bool" where
  "covers vs [] \<longleftrightarrow> True"
| "covers vs (u # us) \<longleftrightarrow> u \<in> set vs \<and> covers (remove1 u vs) us"

definition shortening :: "sequence \<Rightarrow> bool" where
  "shortening q \<longleftrightarrow> repl_weight (seq_replace q) < find_weight (seq_find q)
     \<and> covers (pat_vars (seq_find q)) (pat_vars (seq_replace q))"

definition vars_length :: "string \<Rightarrow> symbols \<Rightarrow> nat" where
  "vars_length pat syms = sum_list (map (\<lambda>v. length (syms ! v)) (pat_vars pat))"

lemma ishex_percent [simp]: "\<not> ishex CHR ''%''"
  by code_simp

lemma pat_vars_hex: "pat_vars (snd (hex_digits n cs)) = pat_vars cs"
  by (induction n cs rule: hex_digits.induct) auto

lemma covers_sum:
  "covers vs us \<Longrightarrow> sum_list (map f us) \<le> (sum_list (map f vs) :: nat)"
proof (induction us arbitrary: vs)
  case (Cons u us)
  then show ?case using sum_list_map_remove1 [of u vs f] by fastforce
qed simp

lemma pattern_var_Inr:
  "pattern_var pat = Inr v \<longleftrightarrow> pat \<noteq> [] \<and> isdigit (hd pat) \<and> v = atoi pat - 1 \<and> 1 \<le> atoi pat \<and> atoi pat \<le> 4"
  by (auto simp: pattern_var_def bindR_Inr_iff MAX_OPT_VARS_def)

lemma read_symbol_Inr:
  "read_symbol xs = Inr str \<Longrightarrow> str = takeWhile symbol_char xs \<and> str \<noteq> [] \<and> length str \<le> MAX_ALIAS"
  by (cases xs) (auto simp: read_symbol_def bindR_Inr_iff Let_def symbol_char_def split: if_splits)

lemma skip_text_length: "skip_text ps xs = Some ys \<Longrightarrow> length xs = length ps + length ys"
  by (induction ps xs rule: skip_text.induct) (auto split: if_splits)

lemma dropWhile_blank_length:
  "dropWhile is_blank xs = ys \<Longrightarrow> length ys \<le> length xs"
  using dropWhile_length by blast

lemma vars_length_percent:
  "vars_length (CHR ''%'' # pat) syms = length (syms ! (atoi pat - 1)) + vars_length (tl pat) syms"
  "find_weight (CHR ''%'' # pat) = find_weight (tl pat)"
  by (simp_all add: vars_length_def)

lemma match_pattern_length:
  "match_pattern pat xs syms = Inr (Some (rest, syms')) \<Longrightarrow> length syms = MAX_OPT_VARS \<Longrightarrow>
   length rest + find_weight pat + vars_length pat syms' \<le> length xs
   \<and> length syms' = MAX_OPT_VARS \<and> (\<forall>v. syms ! v \<noteq> [] \<longrightarrow> v < MAX_OPT_VARS \<longrightarrow> syms' ! v = syms ! v)"
proof (induction pat xs syms rule: match_pattern.induct)
  case (1 xs syms)
  then show ?case by (simp add: vars_length_def)
next
  case (2 p pat xs syms)
  note m0 = "2.prems"(1) [unfolded match_pattern.simps(2) [of p pat xs syms]]
  have ne: "xs \<noteq> []" using m0 by auto
  note IH = "2.IH" [OF ne]
  consider (v) "p = CHR ''%''" | (n) "p = CHR ''-''" | (b) "p = CHR '' ''" | (e) "p = CHR ''!''"
    | (c) "p \<noteq> CHR ''%''" "p \<noteq> CHR ''-''" "p \<noteq> CHR '' ''" "p \<noteq> CHR ''!''" by blast
  then show ?case
  proof cases
    case v
    obtain var str where vs: "pattern_var pat = Inr var" "read_symbol xs = Inr str"
      using m0 ne v by (auto elim!: bindR_InrE)
    have var: "var = atoi pat - 1" "var < MAX_OPT_VARS" using vs(1) by (auto simp: pattern_var_Inr MAX_OPT_VARS_def)
    note str = read_symbol_Inr [OF vs(2)]
    have len: "length xs = length str + length (drop (length str) xs)"
      using str length_takeWhile_le [of symbol_char xs] by simp
    show ?thesis
    proof (cases "syms ! var = []")
      case True
      have m: "match_pattern (tl pat) (drop (length str) xs) (syms[var := str]) = Inr (Some (rest, syms'))"
        using m0 ne v vs True by simp
      have l: "length (syms[var := str]) = MAX_OPT_VARS" using "2.prems"(2) by simp
      have ih: "length rest + find_weight (tl pat) + vars_length (tl pat) syms' \<le> length (drop (length str) xs)
          \<and> length syms' = MAX_OPT_VARS
          \<and> (\<forall>w. syms[var := str] ! w \<noteq> [] \<longrightarrow> w < MAX_OPT_VARS \<longrightarrow> syms' ! w = syms[var := str] ! w)"
        using IH(2) [OF v vs] True m l by simp
      have sv: "syms' ! var = str" using ih var(2) str "2.prems"(2) by auto
      have "syms' ! w = syms ! w" if "syms ! w \<noteq> []" "w < MAX_OPT_VARS" for w
        using ih that True by (metis nth_list_update_neq)
      moreover have "length rest + find_weight (p # pat) + vars_length (p # pat) syms' \<le> length xs"
        using conjunct1 [OF ih] len unfolding v vars_length_percent var(1) [symmetric] sv by linarith
      ultimately show ?thesis using ih by blast
    next
      case False
      then have m: "syms ! var = str" "match_pattern (tl pat) (drop (length str) xs) syms = Inr (Some (rest, syms'))"
        using m0 ne v vs by (auto split: if_splits)
      have ih: "length rest + find_weight (tl pat) + vars_length (tl pat) syms' \<le> length (drop (length str) xs)
          \<and> length syms' = MAX_OPT_VARS
          \<and> (\<forall>w. syms ! w \<noteq> [] \<longrightarrow> w < MAX_OPT_VARS \<longrightarrow> syms' ! w = syms ! w)"
        using IH(1) [OF v vs] False m "2.prems"(2) by simp
      have "syms' ! var = str" using ih var(2) m(1) False by auto
      moreover have "length rest + find_weight (p # pat) + vars_length (p # pat) syms' \<le> length xs"
        using conjunct1 [OF ih] len unfolding v vars_length_percent var(1) [symmetric] calculation by linarith
      ultimately show ?thesis using ih by blast
    qed
  next
    case n
    obtain val pat' where h: "hex_digits 0 pat = (val, pat')" by (cases "hex_digits 0 pat")
    obtain ys where t: "skip_text (itoh (- val)) xs = Some ys" "match_pattern pat' ys syms = Inr (Some (rest, syms'))"
      using m0 ne n h by (auto split: option.splits)
    have "pat_vars pat' = pat_vars pat" using pat_vars_hex [of 0 pat] h by simp
    then show ?thesis
      using IH(3) [OF _ n h [symmetric] t(1) t(2) "2.prems"(2)] n h skip_text_length [OF t(1)]
      by (auto simp: vars_length_def)
  next
    case b
    then have m: "is_blank (hd xs)" "match_pattern pat (dropWhile is_blank xs) syms = Inr (Some (rest, syms'))"
      using m0 ne by (auto split: if_splits)
    have "length (dropWhile is_blank xs) < length xs"
      using ne m(1) dropWhile_length [of is_blank "tl xs"] by (cases xs) auto
    then show ?thesis using IH(4) [OF _ _ b] m "2.prems"(2) b by (auto simp: vars_length_def)
  next
    case e
    obtain ys where ys: "dropWhile is_blank xs = NL # NUL # ys"
      and m: "match_pattern pat (if pat \<noteq> [] then dropWhile is_blank ys else ys) syms = Inr (Some (rest, syms'))"
    proof -
      obtain c ys where d: "dropWhile is_blank xs = c # ys" using m0 ne e by (cases "dropWhile is_blank xs") auto
      with m0 ne e show ?thesis using that by (cases ys) (auto elim!: bindR_InrE split: if_splits)
    qed
    have "length (if pat \<noteq> [] then dropWhile is_blank ys else ys) + 2 \<le> length xs"
      using dropWhile_length [of is_blank xs] dropWhile_length [of is_blank ys] ys by auto
    moreover have "length rest + find_weight pat + vars_length pat syms' \<le> length (if pat \<noteq> [] then dropWhile is_blank ys else ys)
        \<and> length syms' = MAX_OPT_VARS \<and> (\<forall>v. syms ! v \<noteq> [] \<longrightarrow> v < MAX_OPT_VARS \<longrightarrow> syms' ! v = syms ! v)"
      using IH(5) [OF _ _ _ e ys, unfolded list.sel] m "2.prems"(2) e by (simp split del: if_split)
    ultimately show ?thesis using e by (simp add: vars_length_def split del: if_split)
  next
    case c
    then have m: "match_pattern pat (tl xs) syms = Inr (Some (rest, syms'))"
      using m0 ne by (auto split: if_splits)
    show ?thesis using IH(6) m m0 ne "2.prems"(2) c by (cases xs) (auto simp: vars_length_def split: if_splits)
  qed
qed

lemma repl_length_eq:
  "repl_length pat syms = Inr n \<Longrightarrow> n = repl_weight pat + vars_length pat syms"
proof (induction pat syms arbitrary: n rule: repl_length.induct)
  case (2 p pat syms)
  note r = "2.prems" [unfolded repl_length.simps(2)]
  show ?case
  proof (cases "p = CHR ''%''")
    case True
    obtain v k where v: "pattern_var pat = Inr v" "syms ! v \<noteq> []" "repl_length (tl pat) syms = Inr k"
        "n = length (syms ! v) + k"
      using r True by (auto elim!: bindR_InrE)
    have "v = atoi pat - 1" using v(1) by (simp add: pattern_var_Inr)
    then show ?thesis using "2.IH"(1) [OF True v(1) _ v(3)] v(2,4) True by (simp add: vars_length_def)
  next
    case False
    obtain k where k: "repl_length pat syms = Inr k" "n = (if p = CHR ''!'' then 3 else 1) + k"
      using r False by (auto elim!: bindR_InrE split del: if_split)
    show ?thesis using "2.IH"(2) [OF False k(1)] k(2) False by (simp add: vars_length_def)
  qed
qed (simp add: vars_length_def)

text \<open>A match by a rule of the table, replaced, leaves a strictly shorter text.\<close>

lemma rule_shortens:
  assumes q: "shortening q" and m: "matchsequence xs (seq_find q) = Inr (Some (ml, syms))"
    and r: "replacesequence (seq_replace q) syms = Inr rep"
  shows "length rep < ml" and "ml \<le> length xs"
proof -
  obtain rest where rest: "match_pattern (seq_find q) (dropWhile is_blank xs) (replicate MAX_OPT_VARS []) = Inr (Some (rest, syms))"
    and ml: "ml = length xs - length rest"
    using m by (auto simp: matchsequence_def elim!: bindR_InrE split: option.splits)
  have "length rest + find_weight (seq_find q) + vars_length (seq_find q) syms \<le> length (dropWhile is_blank xs)"
    using match_pattern_length [OF rest] by simp
  also have "\<dots> \<le> length xs" by (rule dropWhile_length)
  finally have 1: "length rest + find_weight (seq_find q) + vars_length (seq_find q) syms \<le> length xs" .
  have "repl_length (seq_replace q) syms = Inr (length rep)"
    using r by (auto simp: replacesequence_def elim!: bindR_InrE split: if_splits)
  then have 2: "length rep = repl_weight (seq_replace q) + vars_length (seq_replace q) syms" by (rule repl_length_eq)
  have "vars_length (seq_replace q) syms \<le> vars_length (seq_find q) syms"
    using q by (simp add: shortening_def vars_length_def covers_sum)
  moreover have "repl_weight (seq_replace q) < find_weight (seq_find q)" using q by (simp add: shortening_def)
  ultimately show "length rep < ml" using 1 2 unfolding ml by linarith
  show "ml \<le> length xs" by (simp add: ml)
qed

lemma table_shortening: "list_all shortening sequences_scpack"
  by code_simp

section \<open>Optimising a section\<close>

text \<open>The first rule of the table that matches, with \<open>match_length\<close> and the operands.\<close>

fun first_match :: "sequence list \<Rightarrow> string \<Rightarrow> (sequence \<times> nat \<times> symbols) option result" where
  "first_match [] xs = Inr None"
| "first_match (q # qs) xs =
     bindR (matchsequence xs (seq_find q)) (\<lambda>m.
       case m of None \<Rightarrow> first_match qs xs | Some (ml, syms) \<Rightarrow> Inr (Some (q, ml, syms)))"

text \<open>One rewrite at the start of a text: None when no rule matches.\<close>

definition rewrite_once :: "string \<Rightarrow> (string \<times> cell) option result" where
  "rewrite_once xs =
     bindR (first_match sequences xs) (\<lambda>m.
       case m of None \<Rightarrow> Inr None
       | Some (q, ml, syms) \<Rightarrow>
           bindR (replacesequence (seq_replace q) syms) (\<lambda>rep.
             bindR (assertR (length rep \<le> ml)) (\<lambda>_.
               Inr (Some (strreplace xs rep ml, savesize q)))))"

lemma first_match_Some:
  "first_match qs xs = Inr (Some (q, ml, syms)) \<Longrightarrow> q \<in> set qs \<and> matchsequence xs (seq_find q) = Inr (Some (ml, syms))"
  by (induction qs) (auto elim!: bindR_InrE split: option.splits)

lemma sequences_shorten: "q \<in> set sequences \<Longrightarrow> shortening q"
  using table_shortening phopt_init_plain [OF plain_rules_table] by (auto simp: sequences_def list_all_iff)

lemma rewrite_once_shorter:
  "rewrite_once xs = Inr (Some (ys, n)) \<Longrightarrow> length ys < length xs"
proof -
  assume r: "rewrite_once xs = Inr (Some (ys, n))"
  then obtain q ml syms rep where f: "first_match sequences xs = Inr (Some (q, ml, syms))"
    and rep: "replacesequence (seq_replace q) syms = Inr rep" and ys: "ys = rep @ drop ml xs"
    by (auto simp: rewrite_once_def strreplace_def elim!: bindR_InrE split: option.splits)
  show ?thesis
    using rule_shortens [OF sequences_shorten _ rep] first_match_Some [OF f] ys by fastforce
qed

text \<open>The inner loop: rewriting at \<open>start\<close> until no rule matches. \<open>matches\<close> counts the rewrites and
  \<open>code_idx\<close> loses the bytes that each saves.\<close>

function opt_here :: "string \<Rightarrow> cell \<Rightarrow> nat \<Rightarrow> (string \<times> cell \<times> nat) result" where
  "opt_here xs ci matches =
     bindR (rewrite_once xs) (\<lambda>r.
       case r of None \<Rightarrow> Inr (xs, ci, matches)
       | Some (ys, saved) \<Rightarrow> opt_here ys (ci - saved) (matches + 1))"
  by pat_completeness auto
termination
  by (relation "measure (\<lambda>(xs, ci, matches). length xs)") (auto dest: rewrite_once_shorter)

declare opt_here.simps [simp del]

lemma opt_here_length: "opt_here xs ci k = Inr (ys, ci', k') \<Longrightarrow> length ys + k' \<le> length xs + k \<and> k \<le> k'"
proof (induction xs ci k rule: opt_here.induct)
  case (1 xs ci k)
  show ?case
  proof (cases "rewrite_once xs")
    case (Inl e)
    then show ?thesis using "1.prems" by (subst (asm) opt_here.simps) simp
  next
    case (Inr r)
    show ?thesis
    proof (cases r)
      case None
      then show ?thesis using "1.prems" Inr by (subst (asm) opt_here.simps) simp
    next
      case (Some p)
      obtain zs n where p: "p = (zs, n)" by (cases p)
      have "opt_here zs (ci - n) (k + 1) = Inr (ys, ci', k')"
        using "1.prems" Inr Some p by (subst (asm) opt_here.simps) simp
      from "1.IH" [OF Inr Some p [symmetric] this] rewrite_once_shorter [of xs zs n] Inr Some p show ?thesis by auto
    qed
  qed
qed

text \<open>The middle loop: from string to string up to \<open>end\<close>.\<close>

definition c_string :: "string \<Rightarrow> string" where "c_string xs = takeWhile (\<lambda>c. c \<noteq> NUL) xs"

function opt_pass :: "string \<Rightarrow> cell \<Rightarrow> nat \<Rightarrow> (string \<times> cell \<times> nat) result" where
  "opt_pass xs ci matches =
     (if xs = [] then Inr ([], ci, matches)
      else bindR (opt_here xs ci matches) (\<lambda>(ys, ci', matches').
             let n = length (c_string ys) + 1
             in bindR (opt_pass (drop n ys) ci' matches') (\<lambda>(zs, ci'', matches'').
                  Inr (take n ys @ zs, ci'', matches''))))"
  by pat_completeness auto
termination
proof (relation "measure (\<lambda>(xs, ci, matches). length xs)", goal_cases)
  case (2 xs ci matches r ys y ci' matches' n)
  then have "opt_here xs ci matches = Inr (ys, ci', matches')" by simp
  from opt_here_length [OF this] have "length ys \<le> length xs" by linarith
  moreover have "0 < length xs" using 2 by simp
  ultimately have "length ys - (length (c_string ys) + 1) < length xs" by arith
  then show ?case using 2 by simp
qed simp

declare opt_pass.simps [simp del]

lemma opt_pass_length: "opt_pass xs ci k = Inr (ys, ci', k') \<Longrightarrow> length ys + k' \<le> length xs + k \<and> k \<le> k'"
proof (induction xs ci k arbitrary: ys ci' k' rule: opt_pass.induct)
  case (1 xs ci k)
  show ?case
  proof (cases "xs = []")
    case True
    then show ?thesis using "1.prems" by (subst (asm) opt_pass.simps) simp
  next
    case False
    obtain zs c1 k1 us c2 where h: "opt_here xs ci k = Inr (zs, c1, k1)"
      and r: "opt_pass (drop (length (c_string zs) + 1) zs) c1 k1 = Inr (us, c2, k')"
      and ys: "ys = take (length (c_string zs) + 1) zs @ us"
      using "1.prems" False by (subst (asm) opt_pass.simps) (auto simp: Let_def elim!: bindR_InrE)
    have "length us + k' \<le> length (drop (length (c_string zs) + 1) zs) + k1 \<and> k1 \<le> k'"
      using "1.IH" [OF False h refl refl refl r] by simp
    moreover have "length zs + k1 \<le> length xs + k \<and> k \<le> k1" by (rule opt_here_length [OF h])
    ultimately show ?thesis unfolding ys by simp linarith
  qed
qed

text \<open>The outer loop: passes until one finds no match.\<close>

function opt_passes :: "string \<Rightarrow> cell \<Rightarrow> (string \<times> cell) result" where
  "opt_passes xs ci =
     bindR (opt_pass xs ci 0) (\<lambda>(ys, ci', matches).
       if 0 < matches then opt_passes ys ci' else Inr (ys, ci'))"
  by pat_completeness auto
termination
  by (relation "measure (\<lambda>(xs, ci). length xs)") (auto dest!: opt_pass_length)

declare opt_passes.simps [simp del]

fun write_strings :: "nat \<Rightarrow> string \<Rightarrow> cstate \<Rightarrow> cstate" where
  "write_strings 0 xs s = s"
| "write_strings (Suc n) xs s =
     (if xs = [] then s
      else write_strings n (drop (length (c_string xs) + 1) xs) (filewrite (c_string xs) s))"

text \<open>\<open>stgopt\<close>: every string of a section has at least its terminator, so the writing loop ends within
  as many turns as the section has bytes.\<close>

definition stgopt :: "string \<Rightarrow> act" where
  "stgopt xs s =
     bindR (if sc_debug s AND sNOOPTIMIZE = 0 \<and> sc_status s = StatWRITE
            then opt_passes xs (code_idx s) else Inr (xs, code_idx s))
       (\<lambda>(ys, ci). Inr (write_strings (length ys) ys (s\<lparr>code_idx := ci\<rparr>)))"

definition stgout :: "nat \<Rightarrow> act" where
  "stgout index s =
     (if \<not> staging s then Inr s
      else bindR (stgstring (stgbuf s) index (stgidx s)) (\<lambda>segs.
             bindR (block (map (\<lambda>seg. stgopt (section_of (stgbuf s) seg)) segs) s) (\<lambda>t.
               Inr (t\<lparr>stgidx := index\<rparr>))))"

section \<open>What the optimiser does\<close>

text \<open>Rewriting: a rule is applied at the start of a code string, and the bytes saved add up.\<close>

inductive optimises :: "string \<Rightarrow> string \<Rightarrow> cell \<Rightarrow> bool" where
  opt_refl: "optimises xs xs 0"
| opt_step: "rewrite_once xs = Inr (Some (ys, n)) \<Longrightarrow> pre = [] \<or> last pre = NUL \<Longrightarrow>
     optimises (pre @ ys) zs m \<Longrightarrow> optimises (pre @ xs) zs (n + m)"

lemma optimises_trans: "optimises xs ys n \<Longrightarrow> optimises ys zs m \<Longrightarrow> optimises xs zs (n + m)"
  by (induction xs ys n rule: optimises.induct) (auto simp: add.assoc intro: opt_step)

lemma optimises_prefix:
  "optimises xs ys n \<Longrightarrow> pre = [] \<or> last pre = NUL \<Longrightarrow> optimises (pre @ xs) (pre @ ys) n"
proof (induction xs ys n rule: optimises.induct)
  case (opt_step xs ys n p zs m)
  from opt_step.IH opt_step.prems have "optimises ((pre @ p) @ ys) (pre @ zs) m" by simp
  with optimises.opt_step [OF opt_step.hyps(1), of "pre @ p"] opt_step.hyps(2) opt_step.prems
  show ?case by (cases "p = []") auto
qed (rule opt_refl)

text \<open>No rule applies at the start of any string of a text.\<close>

function no_match :: "string \<Rightarrow> bool" where
  "no_match xs \<longleftrightarrow>
     (if xs = [] then True else rewrite_once xs = Inr None \<and> no_match (drop (length (c_string xs) + 1) xs))"
  by pat_completeness auto
termination
proof (relation "measure length", goal_cases)
  case (2 xs)
  then show ?case by (cases xs) auto
qed simp

declare no_match.simps [simp del]

lemma opt_here_ok:
  "opt_here xs ci k = Inr (ys, ci', k') \<Longrightarrow>
   rewrite_once ys = Inr None \<and> (\<exists>n. optimises xs ys n \<and> ci' = ci - n) \<and> (k' = k \<longrightarrow> ys = xs \<and> ci' = ci)"
proof (induction xs ci k rule: opt_here.induct)
  case (1 xs ci k)
  obtain r where r: "rewrite_once xs = Inr r"
    using "1.prems" by (cases "rewrite_once xs") (simp_all add: opt_here.simps [of xs])
  show ?case
  proof (cases r)
    case None
    then have "ys = xs \<and> ci' = ci \<and> k' = k" using "1.prems" r by (simp add: opt_here.simps [of xs])
    with None r show ?thesis using opt_refl by fastforce
  next
    case (Some p)
    obtain zs n where p: "p = (zs, n)" by (cases p)
    have h: "opt_here zs (ci - n) (k + 1) = Inr (ys, ci', k')"
      using "1.prems" r Some p by (simp add: opt_here.simps [of xs])
    note ih = "1.IH" [OF r Some p [symmetric] h]
    then obtain m where m: "optimises zs ys m" "ci' = ci - n - m" by blast
    have "optimises xs ys (n + m)" using optimises.opt_step [of xs zs n "[]" ys m] r Some p m(1) by simp
    moreover have "k + 1 \<le> k'" using opt_here_length [OF h] by simp
    ultimately show ?thesis using ih m(2) by (auto simp: diff_diff_eq)
  qed
qed

lemma after_string:
  "drop (length (c_string zs) + 1) zs = [] \<or> last (take (length (c_string zs) + 1) zs) = NUL"
  unfolding c_string_def by (induction zs) auto

lemma optimises_nil: "optimises [] ys n \<Longrightarrow> ys = [] \<and> n = 0"
  by (erule optimises.cases) (auto dest: rewrite_once_shorter)

lemma opt_pass_ok:
  "opt_pass xs ci k = Inr (ys, ci', k') \<Longrightarrow>
   (\<exists>n. optimises xs ys n \<and> ci' = ci - n) \<and> (k' = k \<longrightarrow> ys = xs \<and> ci' = ci \<and> no_match xs)"
proof (induction xs ci k arbitrary: ys ci' k' rule: opt_pass.induct)
  case (1 xs ci k)
  show ?case
  proof (cases "xs = []")
    case True
    then have "ys = [] \<and> ci' = ci" using "1.prems" by (simp add: opt_pass.simps [of "[]"])
    with True show ?thesis using opt_refl no_match.simps [of "[]"] by fastforce
  next
    case False
    obtain zs c1 k1 us where h: "opt_here xs ci k = Inr (zs, c1, k1)"
      and r: "opt_pass (drop (length (c_string zs) + 1) zs) c1 k1 = Inr (us, ci', k')"
      and ys: "ys = take (length (c_string zs) + 1) zs @ us"
      using "1.prems" False by (subst (asm) opt_pass.simps) (auto simp: Let_def elim!: bindR_InrE)
    let ?t = "take (length (c_string zs) + 1) zs" and ?d = "drop (length (c_string zs) + 1) zs"
    note here = opt_here_ok [OF h] and rest = "1.IH" [OF False h refl refl refl r]
    obtain n m where n: "optimises xs zs n" "c1 = ci - n" and m: "optimises ?d us m" "ci' = c1 - m"
      using here rest by blast
    have "?t = [] \<or> last ?t = NUL \<or> ?d = [] \<and> us = []"
      using after_string [of zs] r by (auto simp: opt_pass.simps [of "[]"])
    moreover have "optimises ?t ?t m" if "?d = []" using optimises_nil m(1) that opt_refl by auto
    ultimately have "optimises (?t @ ?d) ys m" unfolding ys using optimises_prefix [OF m(1), of ?t] by auto
    then have 1: "optimises xs ys (n + m)" using optimises_trans [OF n(1)] by simp
    have "ys = xs \<and> ci' = ci \<and> no_match xs" if "k' = k"
    proof -
      have "k1 = k" "k' = k1" using opt_here_length [OF h] opt_pass_length [OF r] that by auto
      with here rest have z: "zs = xs" "c1 = ci" "us = ?d" "ci' = c1" "no_match ?d" "rewrite_once zs = Inr None" by auto
      then show ?thesis using ys False by (subst no_match.simps) simp
    qed
    then show ?thesis using 1 n(2) m(2) by (auto simp: diff_diff_eq)
  qed
qed

lemma opt_passes_ok:
  "opt_passes xs ci = Inr (ys, ci') \<Longrightarrow> no_match ys \<and> (\<exists>n. optimises xs ys n \<and> ci' = ci - n)"
proof (induction xs ci rule: opt_passes.induct)
  case (1 xs ci)
  obtain zs c1 k where p: "opt_pass xs ci 0 = Inr (zs, c1, k)"
    using "1.prems" by (subst (asm) opt_passes.simps) (auto elim!: bindR_InrE)
  note ok = opt_pass_ok [OF p]
  show ?case
  proof (cases "0 < k")
    case True
    have "opt_passes zs c1 = Inr (ys, ci')" using "1.prems" p True by (simp add: opt_passes.simps [of xs])
    from "1.IH" [OF p refl refl True this] obtain m where m: "no_match ys" "optimises zs ys m" "ci' = c1 - m" by blast
    obtain n where n: "optimises xs zs n" "c1 = ci - n" using ok by blast
    have "optimises xs ys (n + m)" using n(1) m(2) by (rule optimises_trans)
    then show ?thesis using m n by (auto simp: diff_diff_eq)
  next
    case False
    then have "ys = zs" "ci' = c1" using "1.prems" p by (auto simp: opt_passes.simps [of xs])
    then show ?thesis using ok False by auto
  qed
qed

lemma optimises_shorter: "optimises xs ys n \<Longrightarrow> length ys \<le> length xs"
proof (induction xs ys n rule: optimises.induct)
  case (opt_step xs ys n p zs m)
  then show ?case using rewrite_once_shorter [OF opt_step.hyps(1)] by simp
qed simp

section \<open>Properties\<close>

text \<open>C3 (the loops of \<open>stgopt\<close>): the optimiser never gets stuck in its loops. On every section it
  either stops with a failed assertion or an operand that overruns its buffer, or it returns a
  text that is not longer, that comes from the section by applying rules of the table at starts
  of code strings, in which no rule matches at any string any more, and the code index is lower
  by exactly the sum of the rules' savings.\<close>
theorem optimiser_reaches_normal_form:
  "(\<exists>e. opt_passes xs ci = Inl e)
   \<or> (\<exists>ys n. opt_passes xs ci = Inr (ys, ci - n) \<and> optimises xs ys n \<and> no_match ys \<and> length ys \<le> length xs)"
proof (cases "opt_passes xs ci")
  case (Inr r)
  obtain ys ci' where r: "r = (ys, ci')" by (cases r)
  then show ?thesis using opt_passes_ok [OF Inr [unfolded r]] optimises_shorter Inr by auto
qed simp

lemma sequences_plain [code]: "sequences = sequences_scpack"
  by (simp add: sequences_def phopt_init_plain [OF plain_rules_table])

text \<open>What \<open>stgopt\<close> writes: the text without its terminators.\<close>

lemma write_strings_outf:
  "length xs \<le> n \<Longrightarrow> sc_status s = StatWRITE \<Longrightarrow>
   write_strings n xs s = s\<lparr>outf := outf s @ filter (\<lambda>c. c \<noteq> NUL) xs\<rparr>"
proof (induction n xs s rule: write_strings.induct)
  case (2 n xs s)
  show ?case
  proof (cases "xs = []")
    case False
    let ?d = "drop (length (c_string xs) + 1) xs"
    have "length ?d \<le> n" using False "2.prems"(1) by (cases xs) auto
    moreover have "filter (\<lambda>c. c \<noteq> NUL) xs = c_string xs @ filter (\<lambda>c. c \<noteq> NUL) ?d"
      unfolding c_string_def by (induction xs) auto
    ultimately show ?thesis using "2.IH" [OF False] False "2.prems"(2) by (simp add: filewrite_def)
  qed simp
qed simp

lemma stgopt_unoptimised:
  "sc_debug s AND sNOOPTIMIZE \<noteq> 0 \<Longrightarrow> sc_status s = StatWRITE \<Longrightarrow>
   stgopt xs s = Inr (s\<lparr>outf := outf s @ filter (\<lambda>c. c \<noteq> NUL) xs\<rparr>)"
  by (simp add: stgopt_def write_strings_outf)

lemma stgopts_unoptimised:
  "sc_debug s AND sNOOPTIMIZE \<noteq> 0 \<Longrightarrow> sc_status s = StatWRITE \<Longrightarrow>
   block (map stgopt ts) s = Inr (s\<lparr>outf := outf s @ filter (\<lambda>c. c \<noteq> NUL) (concat ts)\<rparr>)"
  by (induction ts arbitrary: s) (simp_all add: stgopt_unoptimised)

lemma filter_code_text: "\<forall>l \<in> set ls. NUL \<notin> set l \<Longrightarrow> filter (\<lambda>c. c \<noteq> NUL) (code_text ls) = concat ls"
  by (induction ls) (auto simp: filter_id_conv)

lemma lines_of_no_NUL:
  "wf_piece x \<Longrightarrow> \<forall>l \<in> set (lines_of x). NUL \<notin> set l"
  "wf_arg y \<Longrightarrow> \<forall>l \<in> set (arg_lines y). NUL \<notin> set l"
proof (induction x and y rule: lines_of_arg_lines.induct)
  case (2 as)
  have m: "NUL \<notin> set l" if "map_of (map (\<lambda>a. (arg_index a, arg_lines a)) as) i = Some ls" "l \<in> set ls" for i ls l
    using 2 map_of_SomeD [OF that(1)] that(2) by (fastforce simp: list_all_iff)
  then show ?case by (auto split: option.splits) (metis m)
qed (auto simp: code_line_def list_all_iff)

text \<open>\<open>stgout\<close> without the optimiser (\<open>sNOOPTIMIZE\<close>): flushing the staging buffer from \<open>index\<close>
  writes the staged code strings to the assembler file in the order in which they run, every
  block of arguments reversed, and resets the buffer; nothing else changes.\<close>
theorem stgout_unoptimised:
  assumes "staging s" and "sc_status s = StatWRITE" and "sc_debug s AND sNOOPTIMIZE \<noteq> 0"
    and "list_all wf_piece ps" and "stgbuf s = pre @ renders ps @ post"
    and "stgidx s = length pre + length (renders ps)"
  shows "stgout (length pre) s
    = Inr (s\<lparr>outf := outf s @ concat (concat (map lines_of ps)), stgidx := length pre\<rparr>)"
proof -
  obtain segs where segs: "stgstring (stgbuf s) (length pre) (stgidx s) = Inr segs"
    "concat (map (section_of (stgbuf s)) segs) = code_text (concat (map lines_of ps))"
    using stgstring_order [OF assms(4,5), of "stgidx s"] assms(6) by auto
  have "\<forall>l \<in> set (concat (map lines_of ps)). NUL \<notin> set l"
    using assms(4) lines_of_no_NUL(1) by (auto simp: list_all_iff)
  then show ?thesis
    using stgopts_unoptimised [OF assms(3,2), of "map (section_of (stgbuf s)) segs"] segs assms(1)
    by (simp add: stgout_def comp_def filter_code_text)
qed

text \<open>operands in \<open>matchsequence\<close>: an operand that is followed by another character is read whole
  when it has at most 32 characters; one of 33 characters overruns the buffer by its terminator,
  because the assertion allows an index one too high, and a longer one fails the assertion. The
  bound is meant for four concatenated values, but the rule that merges two \<open>add.c\<close> joins values
  with plus signs: four values of eight digits take 35 characters.\<close>
theorem operand_limit:
  assumes "list_all symbol_char str" and "str \<noteq> []" and "hd str \<noteq> CHR ''+''" and "\<not> symbol_char c"
  shows "read_symbol (str @ c # rest) =
    (if length str \<le> 32 then Inr str else if length str = 33 then Inl BufferOverflow else Inl AssertFail)"
proof -
  have "takeWhile symbol_char (str @ c # rest) = str" using assms(1,4) by (rule takeWhile_append_stop)
  moreover have "hd str = CHR ''-'' \<or> alphanum (hd str)"
    using assms(1-3) by (cases str) (auto simp: symbol_char_def)
  moreover have "MAX_ALIAS = 32" by (simp add: MAX_ALIAS_def sNAMEMAX_def MAX_OPT_CAT_def)
  ultimately show ?thesis using assms(2) by (auto simp: read_symbol_def hd_append assertR_def Let_def)
qed

theorem operand_limit_witness:
  "read_symbol (''10000000+20000000+30000000+40000000'' @ NL # [NUL]) = Inl AssertFail"
proof -
  have "list_all symbol_char ''10000000+20000000+30000000+40000000''" "\<not> symbol_char NL" by code_simp+
  then show ?thesis using operand_limit [of "''10000000+20000000+30000000+40000000''" NL "[NUL]"] by simp
qed

end
