(* ===== verification/ScPeepSize.thy ===== *)
theory ScPeepSize
  imports ScPeephole ScGen
begin

text \<open>
  The peephole optimiser and the assembler: a rule saves exactly the bytes that its entry in the
  table says. The size of a text is computed from the instruction names of its lines
  (\<open>text_bytes\<close>), it is what the first pass of the assembler counts, and rewriting lowers it by
  \<open>savesize\<close>; so \<open>stgopt\<close> keeps the code index in step with the code.
\<close>

section \<open>Sizes of lines\<close>

text \<open>The size of an instruction by its name. Two rules contain \<open>loadi\<close>, which names no instruction; no
  text with such a line assembles, and here it counts as an instruction without operand.\<close>

definition instr_bytes :: "string \<Rightarrow> cell" where
  "instr_bytes n =
     (if n \<in> set parm0_names \<or> n = ''loadi'' then 4
      else if n \<in> set parm1_names \<or> n \<in> set jump_names \<or> n \<in> {''call'', ''switch'', ''case''} then 8 else 0)"

definition line_bytes :: "string \<Rightarrow> cell" where
  "line_bytes line = (case scan_line line of InstrLine n params \<Rightarrow> instr_bytes (map tolower n) | _ \<Rightarrow> 0)"

definition entry_bytes :: "nat list" where
  "entry_bytes =
    [4, 8, 8, 8, 8, 8, 4, 8, 4, 8, 4, 8, 4, 8, 0, 8, 8, 0, 8, 4, 4, 4, 8, 0, 4, 8, 8, 8, 4, 4, 8, 8,
     4, 8, 8, 4, 4, 4, 8, 4, 8, 8, 8, 8, 8, 8, 8, 8, 8, 8, 8, 8, 8, 4, 8, 8, 4, 4, 4, 8, 8, 4, 8, 8,
     8, 8, 8, 8, 8, 8, 4, 4, 8, 4, 4, 4, 4, 4, 4, 4, 4, 8, 4, 8, 4, 8, 8, 8, 4, 4, 8, 4, 4, 4, 4, 4,
     8, 8, 4, 8, 8, 4, 4, 4, 4, 4, 8, 8, 8, 8, 8, 4, 8, 0, 8, 4, 8, 8, 8, 8, 4, 4, 4, 4, 8, 8, 8, 4,
     4, 4, 4, 4, 4, 8, 4, 4, 8]"

lemma entry_bytes_names: "map (\<lambda>e. instr_bytes (the (op_name e))) (tl opcodelist) = map of_nat entry_bytes"
  by code_simp

lemma entry_bytes_procs:
  "list_all2 (\<lambda>e n. if op_seg e = CSEG then (op_func e = parm0 \<and> n = 4)
       \<or> (op_func e \<in> {parm1, do_call, do_jump, do_switch, do_case} \<and> n = 8) else n = 0) (tl opcodelist) entry_bytes"
  by (simp add: opcodelist_def entry_def entry_bytes_def)

lemma proc_bytes:
  "op_seg e = CSEG \<Longrightarrow> (op_func e = parm0 \<and> n = 4) \<or> (op_func e \<in> {parm1, do_call, do_jump, do_switch, do_case} \<and> n = 8) \<Longrightarrow>
   op_func e env False params c = Inr (cs, k) \<Longrightarrow> k = of_nat n"
  by (auto simp: parm0_def parm1_def do_call_def do_jump_def do_switch_def do_case_def opcodes_def opargs_def
      bindR_Inr_iff Let_def split: prod.splits if_splits)

text \<open>The first pass counts what the names say.\<close>

lemma relocate_line_bytes:
  assumes r: "relocate_line env line (ci, lbl) = Inr (ci', lbl')"
  shows "ci' = ci + line_bytes line"
proof (cases "scan_line line")
  case EmptyLine
  then show ?thesis using r by (simp add: relocate_line_def line_bytes_def)
next
  case (LabelLine num)
  then show ?thesis using r by (auto simp: relocate_line_def line_bytes_def bindR_Inr_iff)
next
  case (InstrLine instr params)
  obtain i where i: "findopcode instr = Inr i" "i < length opcodelist" using findopcode_total by blast
  define e where "e = opcodelist ! i"
  have nn: "op_name e \<noteq> None"
    using r i InstrLine by (auto simp: relocate_line_def bindR_Inr_iff Let_def e_def split: if_splits)
  then have i0: "0 < i" by (cases i) (auto simp: e_def opcodelist_def entry_def)
  have nm: "map tolower instr = the (op_name e)"
    using findopcode_iff [OF i0 i(2), of instr] opname_table(1) [OF i0 i(2)] i(1) by (simp add: e_def)
  obtain j where j: "i = Suc j" "j < length (tl opcodelist)" "e = tl opcodelist ! j"
    using i0 i(2) by (cases i) (auto simp: e_def nth_tl)
  have lb: "line_bytes line = of_nat (entry_bytes ! j)"
  proof -
    have len: "length entry_bytes = length (tl opcodelist)" using list_all2_lengthD [OF entry_bytes_procs] by simp
    have "instr_bytes (the (op_name (tl opcodelist ! j))) = of_nat (entry_bytes ! j)"
      using arg_cong [OF entry_bytes_names, of "\<lambda>xs. xs ! j"] j(2) by (simp only: nth_map len)
    then show ?thesis unfolding line_bytes_def InstrLine asm_line.case nm j(3) .
  qed
  note p = list_all2_nthD [OF entry_bytes_procs j(2), folded j(3)]
  show ?thesis
  proof (cases "op_seg e = CSEG")
    case True
    obtain x n where f: "op_func e (env\<lparr>ae_lbltab := None\<rparr>) False params (op_code e) = Inr (x, n)" "ci' = ci + n"
      using r i InstrLine nn True by (auto simp: relocate_line_def bindR_Inr_iff Let_def e_def)
    have "n = of_nat (entry_bytes ! j)" using proc_bytes [OF True _ f(1), of "entry_bytes ! j"] p True by simp
    then show ?thesis using f(2) lb by simp
  next
    case False
    then have "ci' = ci" using r i InstrLine nn by (auto simp: relocate_line_def bindR_Inr_iff Let_def e_def split: if_splits)
    then show ?thesis using p False lb by simp
  qed
qed

lemma relocate_bytes:
  "relocate env ls (ci, lbl) = Inr (ci', lbl') \<Longrightarrow> ci' = ci + sum_list (map line_bytes ls)"
proof (induction ls arbitrary: ci lbl)
  case (Cons l ls)
  obtain c1 l1 where c: "relocate_line env l (ci, lbl) = Inr (c1, l1)" "relocate env ls (c1, l1) = Inr (ci', lbl')"
    using Cons.prems by (auto simp: relocate_def elim!: bindR_InrE)
  show ?case using relocate_line_bytes [OF c(1)] Cons.IH [OF c(2)] by (simp add: add.assoc)
qed (simp add: relocate_def)

section \<open>Sizes of texts\<close>

function strings :: "string \<Rightarrow> string list" where
  "strings xs = (if xs = [] then [] else c_string xs # strings (drop (length (c_string xs) + 1) xs))"
  by pat_completeness auto
termination
proof (relation "measure length", goal_cases)
  case (2 xs)
  then show ?case by (cases xs) auto
qed simp

declare strings.simps [simp del]

definition text_bytes :: "string \<Rightarrow> cell" where "text_bytes xs = sum_list (map line_bytes (strings xs))"

lemma c_string_append: "NUL \<in> set pre \<Longrightarrow> c_string (pre @ xs) = c_string pre"
  by (auto simp: c_string_def)

lemma drop_string_append:
  "NUL \<in> set pre \<Longrightarrow> drop (length (c_string pre) + 1) (pre @ xs) = drop (length (c_string pre) + 1) pre @ xs"
  unfolding c_string_def by (induction pre) auto

lemma strings_append: "pre = [] \<or> last pre = NUL \<Longrightarrow> strings (pre @ xs) = strings pre @ strings xs"
proof (induction pre rule: strings.induct)
  case (1 pre)
  show ?case
  proof (cases "pre = []")
    case False
    then have nul: "NUL \<in> set pre" using 1 last_in_set [of pre] by metis
    let ?d = "drop (length (c_string pre) + 1) pre"
    have "?d = [] \<or> last ?d = NUL" using 1(2) False last_drop [of "length (c_string pre) + 1" pre] by (cases "length (c_string pre) + 1 < length pre") auto
    from "1.IH" [OF False this] show ?thesis
      using False nul drop_string_append [OF nul, of xs] c_string_append [OF nul, of xs]
      by (simp add: strings.simps [of "pre @ xs"] strings.simps [of pre])
  qed (simp add: strings.simps [of "[]"])
qed

lemma text_bytes_append: "pre = [] \<or> last pre = NUL \<Longrightarrow> text_bytes (pre @ xs) = text_bytes pre + text_bytes xs"
  by (simp add: text_bytes_def strings_append)

lemma text_bytes_nil [simp]: "text_bytes [] = 0"
  by (simp add: text_bytes_def strings.simps [of "[]"])

lemma c_string_line: "NUL \<notin> set l \<Longrightarrow> c_string (l @ NUL # r) = l"
  by (simp add: c_string_def takeWhile_prefix_NUL)

lemma text_bytes_line: "NUL \<notin> set l \<Longrightarrow> text_bytes (l @ NUL # xs) = line_bytes l + text_bytes xs"
  using text_bytes_append [of "l @ [NUL]" xs]
  by (simp add: text_bytes_def strings.simps [of "l @ NUL # xs"] c_string_line)

section \<open>Patterns by lines\<close>

fun pat_lines :: "string \<Rightarrow> string list" where
  "pat_lines [] = []"
| "pat_lines (c # cs) =
     (if c = CHR ''!'' then [] # pat_lines cs
      else case pat_lines cs of [] \<Rightarrow> [[c]] | l # ls \<Rightarrow> (c # l) # ls)"

definition name_of :: "string \<Rightarrow> string" where "name_of l = takeWhile (\<lambda>c. c \<noteq> CHR '' '') l"

definition name_char :: "char \<Rightarrow> bool" where
  "name_char c \<longleftrightarrow> tolower c = c \<and> c \<noteq> CHR ''%'' \<and> c \<noteq> CHR ''-'' \<and> c \<noteq> CHR '' '' \<and> c \<noteq> CHR ''!''"

definition text_char :: "char \<Rightarrow> bool" where "text_char c \<longleftrightarrow> c \<noteq> NL \<and> c \<noteq> NUL"

definition pat_line_bytes :: "string \<Rightarrow> cell" where
  "pat_line_bytes l = (if hd l = CHR '';'' then 0 else instr_bytes (name_of l))"

abbreviation join_lines :: "string list \<Rightarrow> string" where "join_lines ls \<equiv> concat (map (\<lambda>l. l @ ''!'') ls)"

text \<open>The size of the lines of a pattern, if each is a comment or names an instruction.\<close>

fun known_bytes :: "string list \<Rightarrow> cell option" where
  "known_bytes [] = Some 0"
| "known_bytes (l # ls) =
     (let n = pat_line_bytes l
      in if l = [] \<or> n = 0 \<and> hd l \<noteq> CHR '';'' then None
         else case known_bytes ls of None \<Rightarrow> None | Some m \<Rightarrow> Some (n + m))"

definition text_pattern :: "string \<Rightarrow> bool" where
  "text_pattern p \<longleftrightarrow> list_all text_char p \<and> p \<noteq> [] \<and> last p = CHR ''!''"

definition saves_exactly :: "sequence \<Rightarrow> bool" where
  "saves_exactly q \<longleftrightarrow> text_pattern (seq_find q) \<and> text_pattern (seq_replace q)
     \<and> (case known_bytes (pat_lines (seq_find q)) of None \<Rightarrow> False
        | Some n \<Rightarrow> known_bytes (pat_lines (seq_replace q)) = Some (n - savesize q))"


lemma tolower_code: "code_of (tolower c) = (if isupper c then code_of c + 32 else code_of c)"
  by (simp add: tolower_def isupper_def code_of_def)

lemma char_code: "c = d \<longleftrightarrow> code_of c = code_of d"
  by (simp add: code_of_def)

lemma known_names: "list_all (list_all name_char) (''loadi'' # parm0_names @ parm1_names @ jump_names @ [''call'', ''switch'', ''case''])"
  by code_simp

lemma other_names: "list_all plain_name [''loadi'', ''call'', ''switch'', ''case'']"
  by code_simp

lemma instr_bytes_name:
  assumes "instr_bytes n \<noteq> 0"
  shows "plain_name n" "list_all name_char n"
proof -
  have n: "n \<in> set (''loadi'' # parm0_names @ parm1_names @ jump_names @ [''call'', ''switch'', ''case''])"
    using assms by (auto simp: instr_bytes_def split: if_splits)
  then show "list_all name_char n" using known_names unfolding list_all_iff by blast
  from n consider "n \<in> set parm0_names" | "n \<in> set parm1_names" | "n \<in> set jump_names"
    | "n \<in> set [''loadi'', ''call'', ''switch'', ''case'']" by auto
  then show "plain_name n"
  proof cases
    case 4
    then show ?thesis using other_names unfolding list_all_iff by blast
  qed (use parm0_entry parm1_entry jump_entry entry_plain in metis)+
qed


section \<open>Lines of a text\<close>

definition text_tail :: "string \<Rightarrow> bool" where
  "text_tail r \<longleftrightarrow> list_all text_char r \<and> (r = [] \<or> isspace (hd r))"

lemma char_codes: "code_of CHR '' '' = 32" "code_of CHR '';'' = 59" "code_of NUL = 0" "code_of CHR ''.'' = 46"
  by (simp_all add: code_of_def)

lemma tolower_keeps:
  "isspace (tolower c) = isspace c" "(tolower c = CHR '';'') = (c = CHR '';'')" "(tolower c = NUL) = (c = NUL)"
  "(tolower c = CHR ''.'') = (c = CHR ''.'')" "tolower (tolower c) = tolower c"
  unfolding isspace_def char_code char_codes tolower_code isupper_def by arith+

lemma plain_name_lower: "plain_name (map tolower n) = plain_name n"
  by (cases n; cases "tl n") (auto simp: plain_name_def tolower_keeps list_all_iff)

lemma blank_text: "is_blank c \<Longrightarrow> text_char c"
  by (auto simp: is_blank_def text_char_def)

lemma blank_space: "is_blank c \<Longrightarrow> isspace c"
  by (auto simp: is_blank_def isspace_def code_of_def)

lemma list_all_notin: "list_all P xs \<Longrightarrow> \<not> P c \<Longrightarrow> c \<notin> set xs"
  by (auto simp: list_all_iff)

lemma not_blank: "\<not> is_blank CHR '';''" "\<not> is_blank NUL" "\<not> is_blank NL"
  by (simp_all add: is_blank_def)

lemma scan_blanks: "list_all is_blank b \<Longrightarrow> scan_line (b @ x) = scan_line x"
proof -
  assume b: "list_all is_blank b"
  then have "CHR '';'' \<notin> set b" using not_blank(1) by (rule list_all_notin)
  then have "stripcomment (b @ x) = b @ stripcomment x" by (rule stripcomment_prefix)
  moreover have "skipwhitespace (b @ y) = skipwhitespace y" for y
    unfolding skipwhitespace_def by (rule dropWhile_append2) (use b blank_space in \<open>simp add: list_all_iff\<close>)
  ultimately show ?thesis by (simp add: scan_line_def)
qed

lemma name_line_bytes:
  assumes b: "list_all is_blank b" and n: "instr_bytes (map tolower n) \<noteq> 0" and r: "text_tail r"
  shows "line_bytes (b @ n @ r @ nl) = instr_bytes (map tolower n)"
proof -
  have "plain_name n" using instr_bytes_name(1) [OF n] plain_name_lower by simp
  then have "scan_line (TAB # n @ r @ nl) = InstrLine n (operand r)"
    by (rule scan_instr) (use r in \<open>simp add: text_tail_def\<close>)
  moreover have "scan_line (b @ n @ r @ nl) = scan_line (n @ r @ nl)" by (rule scan_blanks [OF b])
  moreover have "scan_line (TAB # n @ r @ nl) = scan_line (n @ r @ nl)"
    using scan_blanks [of "[TAB]"] by (simp add: is_blank_def)
  ultimately show ?thesis by (simp add: line_bytes_def)
qed

lemma comment_line_bytes: "list_all is_blank b \<Longrightarrow> line_bytes (b @ CHR '';'' # r) = 0"
  by (simp add: line_bytes_def scan_blanks)
     (simp add: scan_line_def stripcomment_def skipwhitespace_def isspace_def code_of_def)

text \<open>A line of text with the size of a line of a pattern.\<close>

definition shows_line :: "string \<Rightarrow> string \<Rightarrow> bool" where
  "shows_line l x \<longleftrightarrow> (if hd l = CHR '';'' then x \<noteq> [] \<and> hd x = CHR '';'' \<and> list_all text_char x
     else \<exists>n r. x = n @ r \<and> map tolower n = name_of l \<and> text_tail r)"

lemma shows_nameI: "hd l \<noteq> CHR '';'' \<Longrightarrow> map tolower n = name_of l \<Longrightarrow> text_tail r \<Longrightarrow> shows_line l (n @ r)"
  unfolding shows_line_def by auto

definition good_line :: "string \<Rightarrow> bool" where
  "good_line l \<longleftrightarrow> l \<noteq> [] \<and> list_all text_char l \<and> CHR ''!'' \<notin> set l
     \<and> (hd l = CHR '';'' \<or> instr_bytes (name_of l) \<noteq> 0)"

lemma shows_line_bytes:
  assumes "shows_line l x" and "good_line l" and "list_all is_blank b" "list_all is_blank b'"
  shows "text_bytes (b @ x @ b' @ NL # NUL # xs) = pat_line_bytes l + text_bytes xs"
proof -
  have bt: "text_tail b'" "NUL \<notin> set b" "list_all text_char b'"
  proof -
    show bc: "list_all text_char b'" using assms(4) blank_text by (rule list.pred_mono_strong)
    then show "text_tail b'" using assms(4) blank_space by (cases b') (simp_all add: text_tail_def)
    show "NUL \<notin> set b" using assms(3) not_blank(2) by (rule list_all_notin)
  qed
  have "line_bytes (b @ x @ b' @ nl) = pat_line_bytes l \<and> NUL \<notin> set x"
  proof (cases "hd l = CHR '';''")
    case True
    then obtain x' where "x = CHR '';'' # x'" "list_all text_char x'"
      using assms(1) by (cases x) (auto simp: shows_line_def)
    then show ?thesis using True comment_line_bytes [OF assms(3)] by (auto simp: pat_line_bytes_def list_all_iff text_char_def)
  next
    case False
    then obtain n r where x: "x = n @ r" "map tolower n = name_of l" "text_tail r"
      using assms(1) by (auto simp: shows_line_def)
    have i: "instr_bytes (name_of l) \<noteq> 0" using assms(2) False by (simp add: good_line_def)
    have "text_tail (r @ b')" using x(3) bt by (cases r) (auto simp: text_tail_def)
    then have "line_bytes (b @ n @ (r @ b') @ nl) = instr_bytes (map tolower n)"
      by (intro name_line_bytes assms(3)) (use i x(2) in auto)
    moreover have "plain_name n" using instr_bytes_name(1) [OF i] plain_name_lower [of n] x(2) by simp
    ultimately show ?thesis using x False
      by (auto simp: pat_line_bytes_def plain_name_def text_tail_def list_all_iff text_char_def)
  qed
  moreover have "NUL \<notin> set b'" using bt(3) by (auto simp: list_all_iff text_char_def)
  ultimately show ?thesis using text_bytes_line [of "b @ x @ b' @ nl" xs] bt(2) by simp
qed


section \<open>A match consumes the lines of its pattern\<close>

abbreviation symbols_ok :: "symbols \<Rightarrow> bool" where "symbols_ok \<equiv> list_all (list_all symbol_char)"

lemma text_char_lower: "text_char (tolower c) = text_char c"
proof -
  have "(tolower c = NL) = (c = NL)"
    unfolding char_code tolower_code isupper_def by (simp add: code_of_def)
  then show ?thesis by (simp add: text_char_def tolower_keeps(3))
qed

lemma symbol_text: "symbol_char c \<Longrightarrow> text_char c"
  by (auto simp: symbol_char_def alphanum_def alpha_def isalpha_def isdigit_def text_char_def code_of_def islower_def isupper_def)

lemma match_literal:
  "list_all name_char n \<Longrightarrow> match_pattern (n @ pat) xs syms = Inr (Some z) \<Longrightarrow>
   \<exists>n' ys. xs = n' @ ys \<and> map tolower n' = n \<and> match_pattern pat ys syms = Inr (Some z)"
proof (induction n arbitrary: xs)
  case (Cons p n)
  have m: "xs \<noteq> []" "tolower (hd xs) = p" "match_pattern (n @ pat) (tl xs) syms = Inr (Some z)"
    using Cons.prems by (auto simp: match_pattern.simps(2) name_char_def split: if_splits)
  obtain n' ys where "tl xs = n' @ ys" "map tolower n' = n" "match_pattern pat ys syms = Inr (Some z)"
    using Cons.IH [OF _ m(3)] Cons.prems(1) by auto
  then show ?case using m by (intro exI [of _ "hd xs # n'"] exI [of _ ys]) (cases xs, auto)
qed auto

lemma hex_digits_stop:
  "\<not> ishex c \<Longrightarrow> \<exists>v l1 l2. hex_digits n (l @ c # r) = (v, l2 @ c # r) \<and> l = l1 @ l2"
proof (induction l arbitrary: n)
  case (Cons d l)
  show ?case
  proof (cases "ishex d")
    case True
    let ?n = "16 * n + of_nat (code_of (tolower d) - (if isdigit d then 48 else 87))"
    obtain v l1 l2 where "hex_digits ?n (l @ c # r) = (v, l2 @ c # r)" "l = l1 @ l2" using Cons by blast
    then show ?thesis using True by (intro exI [of _ v] exI [of _ "d # l1"] exI [of _ l2]) simp
  qed auto
qed simp

lemma not_ishex_eol: "\<not> ishex CHR ''!''"
  by code_simp

lemma skip_text_chars:
  "skip_text ps xs = Some ys \<Longrightarrow> list_all text_char ps \<Longrightarrow> \<exists>t. xs = t @ ys \<and> list_all text_char t"
proof (induction ps xs rule: skip_text.induct)
  case (3 p ps c xs)
  then have "tolower c = tolower p" "\<exists>t. xs = t @ ys \<and> list_all text_char t" by (auto split: if_splits)
  then obtain t where "xs = t @ ys" "list_all text_char t" "text_char c" using 3 text_char_lower by (metis list.pred_inject(2))
  then show ?case by (intro exI [of _ "c # t"]) simp
qed auto

lemma itoh_text: "list_all text_char (itoh v)"
  using itoh_chars(2,3) [of v] by (auto simp: list_all_iff text_char_def)

lemma takeWhile_chars: "list_all P (takeWhile P xs)" "takeWhile P xs @ drop (length (takeWhile P xs)) xs = xs"
  by (induction xs) auto

lemma blanks_text: "list_all text_char (takeWhile is_blank xs)"
  by (rule list.pred_mono_strong [OF takeWhile_chars(1) blank_text])

text \<open>Text before the end of the line: any text without line ends.\<close>

definition consumes :: "string \<Rightarrow> string \<Rightarrow> (string \<times> symbols) \<Rightarrow> bool" where
  "consumes pat xs z \<longleftrightarrow> (\<exists>t ys syms. xs = t @ ys \<and> list_all text_char t \<and> symbols_ok syms
     \<and> match_pattern pat ys syms = Inr (Some z))"

lemma consumes_append: "list_all text_char t \<Longrightarrow> consumes pat xs z \<Longrightarrow> consumes pat (t @ xs) z"
  unfolding consumes_def by (metis append.assoc list_all_append)

lemma match_text:
  "list_all text_char l \<Longrightarrow> CHR ''!'' \<notin> set l \<Longrightarrow> symbols_ok syms \<Longrightarrow>
   match_pattern (l @ CHR ''!'' # pat) xs syms = Inr (Some z) \<Longrightarrow> consumes (CHR ''!'' # pat) xs z"
proof (induction "length l" arbitrary: l xs syms rule: less_induct)
  case less
  show ?case
  proof (cases l)
    case Nil
    then show ?thesis using less.prems by (force simp: consumes_def)
  next
    case (Cons p l')
    note m = less.prems(4) [unfolded Cons append_Cons match_pattern.simps(2)]
    have ne: "xs \<noteq> []" using m by auto
    have IH: "consumes (CHR ''!'' # pat) ys z"
      if "match_pattern (k @ CHR ''!'' # pat) ys sy = Inr (Some z)" "l' = h @ k" "symbols_ok sy" for k ys sy h
      using less.hyps [of k sy ys] less.prems(1,2) that Cons by auto
    consider (v) "p = CHR ''%''" | (n) "p = CHR ''-''" | (b) "p = CHR '' ''"
      | (c) "p \<noteq> CHR ''%''" "p \<noteq> CHR ''-''" "p \<noteq> CHR '' ''" by blast
    then show ?thesis
    proof cases
      case v
      obtain var str where vs: "pattern_var (l' @ CHR ''!'' # pat) = Inr var" "read_symbol xs = Inr str"
        using m ne v by (auto elim!: bindR_InrE)
      obtain d k where k: "l' = [d] @ k"
        using vs(1) by (cases l') (auto simp: pattern_var_Inr isdigit_def code_of_def)
      have str: "list_all symbol_char str" "str @ drop (length str) xs = xs"
        using read_symbol_Inr [OF vs(2)] takeWhile_chars [of symbol_char xs] by blast+
      obtain sy where "match_pattern (k @ CHR ''!'' # pat) (drop (length str) xs) sy = Inr (Some z)" "symbols_ok sy"
      proof (cases "syms ! var = []")
        case True
        have "symbols_ok (syms[var := str])"
          using less.prems(3) str(1) by (auto simp: list_all_iff dest!: set_update_subset_insert [THEN subsetD])
        then show ?thesis using that m ne v vs k True by simp
      next
        case False
        then show ?thesis using that m ne v vs k less.prems(3) by (auto split: if_splits)
      qed
      from consumes_append [OF _ IH [OF this(1) k this(2)], of str] str symbol_text
      show ?thesis by (auto intro: list.pred_mono_strong)
    next
      case n
      obtain val l1 l2 where h: "hex_digits 0 (l' @ CHR ''!'' # pat) = (val, l2 @ CHR ''!'' # pat)" "l' = l1 @ l2"
        using hex_digits_stop [OF not_ishex_eol, of 0 l' pat] by auto
      obtain ys where y: "skip_text (itoh (- val)) xs = Some ys" "match_pattern (l2 @ CHR ''!'' # pat) ys syms = Inr (Some z)"
        using m ne n h(1) by (auto split: option.splits)
      obtain t where "xs = t @ ys" "list_all text_char t" using skip_text_chars [OF y(1) itoh_text] by blast
      then show ?thesis using consumes_append IH [OF y(2) h(2) less.prems(3)] by blast
    next
      case b
      have "match_pattern (l' @ CHR ''!'' # pat) (dropWhile is_blank xs) syms = Inr (Some z)"
        using m ne b by (auto split: if_splits)
      from consumes_append [OF blanks_text IH [OF this _ less.prems(3), of "[]"], of xs] show ?thesis by simp
    next
      case c
      have h: "tolower (hd xs) = tolower p" "match_pattern (l' @ CHR ''!'' # pat) (tl xs) syms = Inr (Some z)"
        using m ne c less.prems(2) Cons by (auto split: if_splits)
      have "text_char (hd xs)" using text_char_lower h(1) less.prems(1) Cons by (metis list.pred_inject(2))
      then show ?thesis using consumes_append [of "[hd xs]", OF _ IH [OF h(2) _ less.prems(3), of "[]"]] ne by simp
    qed
  qed
qed

lemma match_eol:
  assumes m: "match_pattern (CHR ''!'' # pat) xs syms = Inr (Some z)"
  shows "\<exists>b ys. xs = b @ NL # NUL # ys \<and> list_all is_blank b
     \<and> match_pattern pat (if pat \<noteq> [] then dropWhile is_blank ys else ys) syms = Inr (Some z)"
proof -
  note m0 = m [unfolded match_pattern.simps(2)]
  obtain c ys where d: "dropWhile is_blank xs = c # ys" using m0 by (cases "dropWhile is_blank xs") (auto simp del: dropWhile_eq_Nil_conv split: if_splits)
  then have "c = NL \<and> ys \<noteq> [] \<and> hd ys = NUL
      \<and> match_pattern pat (if pat \<noteq> [] then dropWhile is_blank (tl ys) else tl ys) syms = Inr (Some z)"
    using m0 by (auto elim!: bindR_InrE split: if_splits)
  moreover have "dropWhile is_blank xs = NL # NUL # tl ys" using d calculation by (cases ys) simp_all
  moreover have "list_all is_blank (takeWhile is_blank xs)" by (rule takeWhile_chars)
  ultimately show ?thesis using takeWhile_dropWhile_id [of is_blank xs] by metis
qed


lemma name_split: "l = name_of l @ dropWhile (\<lambda>c. c \<noteq> CHR '' '') l"
  by (simp add: name_of_def)

lemma match_line:
  assumes g: "good_line l" and sy: "symbols_ok syms"
    and m: "match_pattern (l @ CHR ''!'' # pat) xs syms = Inr (Some z)"
  shows "\<exists>x b ys sy. xs = x @ b @ NL # NUL # ys \<and> shows_line l x \<and> list_all is_blank b \<and> symbols_ok sy
     \<and> match_pattern pat (if pat \<noteq> [] then dropWhile is_blank ys else ys) sy = Inr (Some z)"
proof -
  have "\<exists>x ys. xs = x @ ys \<and> shows_line l x \<and> (\<exists>sy. symbols_ok sy \<and> match_pattern (CHR ''!'' # pat) ys sy = Inr (Some z))"
  proof (cases "hd l = CHR '';''")
    case True
    then obtain l' where l: "l = CHR '';'' # l'" using g by (cases l) (auto simp: good_line_def)
    note m0 = m [unfolded l append_Cons match_pattern.simps(2)]
    have ne: "xs \<noteq> []" using m0 by auto
    have h: "tolower (hd xs) = tolower CHR '';''" "match_pattern (l' @ CHR ''!'' # pat) (tl xs) syms = Inr (Some z)"
      using m0 ne by (auto split: if_splits)
    have "hd xs = CHR '';''" using h(1) tolower_keeps(2) by metis
    moreover obtain t ys sy where "tl xs = t @ ys" "list_all text_char t" "symbols_ok sy"
        "match_pattern (CHR ''!'' # pat) ys sy = Inr (Some z)"
      using match_text [OF _ _ sy h(2)] g l by (auto simp: good_line_def consumes_def)
    moreover have "xs = hd xs # tl xs" using ne by simp
    ultimately have "xs = (CHR '';'' # t) @ ys \<and> shows_line l (CHR '';'' # t)"
      using True by (auto simp: shows_line_def text_char_def)
    then show ?thesis using \<open>symbols_ok sy\<close> \<open>match_pattern (CHR ''!'' # pat) ys sy = Inr (Some z)\<close> by blast
  next
    case False
    let ?r = "dropWhile (\<lambda>c. c \<noteq> CHR '' '') l"
    have i: "instr_bytes (name_of l) \<noteq> 0" using g False by (simp add: good_line_def)
    have "match_pattern (name_of l @ ?r @ CHR ''!'' # pat) xs syms = Inr (Some z)"
      using m name_split [of l] by (metis append.assoc)
    from match_literal [OF instr_bytes_name(2) [OF i] this]
    obtain n ys where n: "xs = n @ ys" "map tolower n = name_of l"
      and m1: "match_pattern (?r @ CHR ''!'' # pat) ys syms = Inr (Some z)" by blast
    show ?thesis
    proof (cases ?r)
      case Nil
      have "shows_line l (n @ [])" by (rule shows_nameI [OF False n(2)]) (simp add: text_tail_def)
      then show ?thesis using n(1) m1 [unfolded Nil append_Nil] sy unfolding append_Nil2 by blast
    next
      case (Cons c r)
      then have c: "c = CHR '' ''" using hd_dropWhile [of "\<lambda>c. c \<noteq> CHR '' ''" l] by auto
      note m2 = m1 [unfolded Cons c append_Cons match_pattern.simps(2)]
      have b: "ys \<noteq> []" "is_blank (hd ys)" "match_pattern (r @ CHR ''!'' # pat) (dropWhile is_blank ys) syms = Inr (Some z)"
        using m2 by (auto split: if_splits)
      have "set r \<subseteq> set l" using Cons set_dropWhileD [of _ "\<lambda>c. c \<noteq> CHR '' ''" l] by fastforce
      then have r: "list_all text_char r" "CHR ''!'' \<notin> set r" using g by (auto simp: good_line_def list_all_iff)
      obtain t us sy where t: "dropWhile is_blank ys = t @ us" "list_all text_char t" "symbols_ok sy"
          "match_pattern (CHR ''!'' # pat) us sy = Inr (Some z)"
        using match_text [OF r sy b(3)] by (auto simp: consumes_def)
      let ?x = "takeWhile is_blank ys @ t"
      have "text_tail ?x" using b(1,2) t(2) blanks_text [of ys] blank_space by (cases ys) (auto simp: text_tail_def)
      then have "shows_line l (n @ ?x)" by (rule shows_nameI [OF False n(2)])
      moreover have "xs = (n @ ?x) @ us" using n(1) t(1) takeWhile_dropWhile_id [of is_blank ys] by simp
      ultimately show ?thesis using t(3,4) by blast
    qed
  qed
  then obtain x ys sy where x: "xs = x @ ys" "shows_line l x" "symbols_ok sy"
    "match_pattern (CHR ''!'' # pat) ys sy = Inr (Some z)" by blast
  then show ?thesis using match_eol [OF x(4)] by (metis append.assoc)
qed

lemma match_lines:
  "ls \<noteq> [] \<Longrightarrow> list_all good_line ls \<Longrightarrow> symbols_ok syms \<Longrightarrow> list_all is_blank b \<Longrightarrow>
   match_pattern (join_lines ls) xs syms = Inr (Some (rest, syms')) \<Longrightarrow>
   \<exists>pre. b @ xs = pre @ rest \<and> pre \<noteq> [] \<and> last pre = NUL \<and> text_bytes pre = sum_list (map pat_line_bytes ls) \<and> symbols_ok syms'"
proof (induction ls arbitrary: xs syms b)
  case (Cons l ls)
  have g: "good_line l" and m: "match_pattern (l @ CHR ''!'' # join_lines ls) xs syms = Inr (Some (rest, syms'))"
    using Cons.prems(2,5) by simp_all
  obtain x b' ys sy where x: "xs = x @ b' @ NL # NUL # ys" "shows_line l x" "list_all is_blank b'" "symbols_ok sy"
    and r: "match_pattern (join_lines ls) (if join_lines ls \<noteq> [] then dropWhile is_blank ys else ys) sy = Inr (Some (rest, syms'))"
    using match_line [OF g Cons.prems(3) m] by blast
  note sb = shows_line_bytes [OF x(2) g Cons.prems(4) x(3)]
  show ?case
  proof (cases "ls = []")
    case True
    then have "rest = ys \<and> syms' = sy" using r by simp
    then show ?thesis using True x sb [of "[]"]
      by (intro exI [of _ "b @ x @ b' @ NL # NUL # []"]) simp
  next
    case False
    then have "join_lines ls \<noteq> []" by (cases ls) auto
    then have r': "match_pattern (join_lines ls) (dropWhile is_blank ys) sy = Inr (Some (rest, syms'))" using r by simp
    have "list_all is_blank (takeWhile is_blank ys)" by (rule takeWhile_chars)
    from Cons.IH [OF False _ x(4) this r'] Cons.prems(2)
    obtain pre where p: "ys = pre @ rest" "pre \<noteq> []" "last pre = NUL"
        "text_bytes pre = sum_list (map pat_line_bytes ls)" "symbols_ok syms'" by auto
    show ?thesis
      by (intro exI [of _ "b @ x @ b' @ NL # NUL # pre"]) (use p x sb [of pre] in auto)
  qed
qed simp

section \<open>A replacement writes the lines of its pattern\<close>

lemma repl_literal:
  "list_all name_char n \<Longrightarrow> repl_write (n @ pat) syms k buf = Inr z \<Longrightarrow> repl_write pat syms k (buf @ n) = Inr z"
proof (induction n arbitrary: buf)
  case (Cons p n)
  have "repl_write (n @ pat) syms k (buf @ [p]) = Inr z"
    using Cons.prems by (auto simp: repl_write.simps(2) name_char_def elim!: bindR_InrE)
  then show ?case using Cons.IH [of "buf @ [p]"] Cons.prems(1) by simp
qed simp

lemma repl_text:
  "list_all text_char l \<Longrightarrow> CHR ''!'' \<notin> set l \<Longrightarrow> symbols_ok syms \<Longrightarrow> length syms = MAX_OPT_VARS \<Longrightarrow>
   repl_write (l @ CHR ''!'' # pat) syms k buf = Inr z \<Longrightarrow>
   \<exists>t. list_all text_char t \<and> repl_write (CHR ''!'' # pat) syms k (buf @ t) = Inr z"
proof (induction "length l" arbitrary: l buf rule: less_induct)
  case less
  show ?case
  proof (cases l)
    case Nil
    then show ?thesis using less.prems by (intro exI [of _ "[]"]) simp
  next
    case (Cons p l')
    note r = less.prems(5) [unfolded Cons append_Cons repl_write.simps(2)]
    have p: "p \<noteq> CHR ''!''" using less.prems(2) Cons by auto
    show ?thesis
    proof (cases "p = CHR ''%''")
      case True
      obtain v where v: "pattern_var (l' @ CHR ''!'' # pat) = Inr v"
        and w: "repl_write (tl (l' @ CHR ''!'' # pat)) syms k (buf @ syms ! v) = Inr z"
        using r True by (auto elim!: bindR_InrE split: if_splits)
      obtain d k' where k: "l' = d # k'"
        using v by (cases l') (auto simp: pattern_var_Inr isdigit_def code_of_def)
      have "v < length syms" using v less.prems(4) by (auto simp: pattern_var_Inr MAX_OPT_VARS_def)
      then have "list_all text_char (syms ! v)"
        using less.prems(3) symbol_text by (auto simp: list_all_length intro: list.pred_mono_strong)
      moreover obtain t where "list_all text_char t" "repl_write (CHR ''!'' # pat) syms k ((buf @ syms ! v) @ t) = Inr z"
        using less.hyps [of k' "buf @ syms ! v"] less.prems w Cons k by auto
      ultimately show ?thesis by (intro exI [of _ "syms ! v @ t"]) simp
    next
      case False
      then have w: "repl_write (l' @ CHR ''!'' # pat) syms k (buf @ [p]) = Inr z"
        using r p by (auto elim!: bindR_InrE)
      obtain t where "list_all text_char t" "repl_write (CHR ''!'' # pat) syms k ((buf @ [p]) @ t) = Inr z"
        using less.hyps [OF _ _ _ less.prems(3,4) w] less.prems(1,2) Cons by auto
      then show ?thesis using less.prems(1) Cons by (intro exI [of _ "p # t"]) simp
    qed
  qed
qed

lemma repl_line:
  assumes g: "good_line l" and sy: "symbols_ok syms" "length syms = MAX_OPT_VARS"
    and r: "repl_write (l @ CHR ''!'' # pat) syms k buf = Inr z"
  shows "\<exists>x. shows_line l x \<and> repl_write pat syms k (buf @ x @ [NL, NUL] @ (if pat \<noteq> [] then [TAB] else [])) = Inr z"
proof -
  have "\<exists>x. shows_line l x \<and> repl_write (CHR ''!'' # pat) syms k (buf @ x) = Inr z"
  proof (cases "hd l = CHR '';''")
    case True
    then obtain l' where l: "l = CHR '';'' # l'" using g by (cases l) (auto simp: good_line_def)
    have "repl_write (l' @ CHR ''!'' # pat) syms k (buf @ '';'') = Inr z"
      using r unfolding l append_Cons repl_write.simps(2) by (auto elim!: bindR_InrE)
    then obtain t where t: "list_all text_char t" "repl_write (CHR ''!'' # pat) syms k (buf @ '';'' @ t) = Inr z"
      using repl_text [OF _ _ sy, of l'] g l by (fastforce simp: good_line_def)
    have "shows_line l ('';'' @ t)" using True t(1) by (simp add: shows_line_def text_char_def)
    then show ?thesis using t(2) by (intro exI [of _ "'';'' @ t"]) simp
  next
    case False
    let ?r = "dropWhile (\<lambda>c. c \<noteq> CHR '' '') l"
    have i: "instr_bytes (name_of l) \<noteq> 0" using g False by (simp add: good_line_def)
    then have n: "list_all name_char (name_of l)" by (rule instr_bytes_name)
    then have low: "map tolower (name_of l) = name_of l" by (auto simp: list_all_iff name_char_def intro!: map_idI)
    have "repl_write (name_of l @ ?r @ CHR ''!'' # pat) syms k buf = Inr z"
      using r name_split [of l] by (metis append.assoc)
    from repl_literal [OF n this]
    have m1: "repl_write (?r @ CHR ''!'' # pat) syms k (buf @ name_of l) = Inr z" .
    show ?thesis
    proof (cases ?r)
      case Nil
      have "shows_line l (name_of l @ [])" by (rule shows_nameI [OF False low]) (simp add: text_tail_def)
      then show ?thesis using m1 [unfolded Nil append_Nil] unfolding append_Nil2 by blast
    next
      case (Cons c r)
      then have c: "c = CHR '' ''" using hd_dropWhile [of "\<lambda>c. c \<noteq> CHR '' ''" l] by auto
      have "set r \<subseteq> set l" using Cons set_dropWhileD [of _ "\<lambda>c. c \<noteq> CHR '' ''" l] by fastforce
      then have r: "list_all text_char r" "CHR ''!'' \<notin> set r" using g by (auto simp: good_line_def list_all_iff)
      have "repl_write (r @ CHR ''!'' # pat) syms k ((buf @ name_of l) @ '' '') = Inr z"
        using m1 unfolding Cons c append_Cons repl_write.simps(2) by (auto elim!: bindR_InrE)
      then obtain t where t: "list_all text_char t" "repl_write (CHR ''!'' # pat) syms k (((buf @ name_of l) @ '' '') @ t) = Inr z"
        using repl_text [OF r sy] by blast
      have "shows_line l (name_of l @ '' '' @ t)"
        by (rule shows_nameI [OF False low]) (use t(1) in \<open>simp add: text_tail_def text_char_def isspace_def\<close>)
      then show ?thesis using t(2) by (intro exI [of _ "name_of l @ '' '' @ t"]) simp
    qed
  qed
  then obtain x where x: "shows_line l x" "repl_write (CHR ''!'' # pat) syms k (buf @ x) = Inr z" by blast
  then show ?thesis by (intro exI [of _ x]) (auto simp: repl_write.simps(2) Let_def elim!: bindR_InrE split: if_splits)
qed


lemma repl_lines:
  "ls \<noteq> [] \<Longrightarrow> list_all good_line ls \<Longrightarrow> symbols_ok syms \<Longrightarrow> length syms = MAX_OPT_VARS \<Longrightarrow>
   repl_write (join_lines ls) syms k (buf @ [TAB]) = Inr z \<Longrightarrow>
   \<exists>t. z = buf @ t \<and> t \<noteq> [] \<and> last t = NUL \<and> text_bytes t = sum_list (map pat_line_bytes ls)"
proof (induction ls arbitrary: buf)
  case (Cons l ls)
  have g: "good_line l" and r: "repl_write (l @ CHR ''!'' # join_lines ls) syms k (buf @ [TAB]) = Inr z"
    using Cons.prems(2,5) by simp_all
  obtain x where x: "shows_line l x"
    and w: "repl_write (join_lines ls) syms k ((buf @ [TAB]) @ x @ [NL, NUL] @ (if join_lines ls \<noteq> [] then [TAB] else [])) = Inr z"
    using repl_line [OF g Cons.prems(3,4) r] by blast
  have "list_all is_blank [TAB]" by (simp add: is_blank_def)
  from shows_line_bytes [OF x g this, of "[]"]
  have sb: "text_bytes ([TAB] @ x @ [NL, NUL] @ xs) = pat_line_bytes l + text_bytes xs" for xs by simp
  show ?case
  proof (cases "ls = []")
    case True
    then have "z = buf @ [TAB] @ x @ [NL, NUL]" using w by simp
    then show ?thesis using True sb [of "[]"] by (intro exI [of _ "[TAB] @ x @ [NL, NUL]"]) simp
  next
    case False
    then have "join_lines ls \<noteq> []" by (cases ls) auto
    then have "repl_write (join_lines ls) syms k ((buf @ [TAB] @ x @ [NL, NUL]) @ [TAB]) = Inr z" using w by simp
    from Cons.IH [OF False _ Cons.prems(3,4) this] Cons.prems(2)
    obtain t where t: "z = (buf @ [TAB] @ x @ [NL, NUL]) @ t" "t \<noteq> []" "last t = NUL"
        "text_bytes t = sum_list (map pat_line_bytes ls)" by auto
    show ?thesis
      by (intro exI [of _ "[TAB] @ x @ [NL, NUL] @ t"]) (use t sb [of t] in auto)
  qed
qed simp

section \<open>Every rule of the table\<close>

lemma known_bytes_sum:
  "known_bytes ls = Some n \<Longrightarrow> n = sum_list (map pat_line_bytes ls)
     \<and> (\<forall>l \<in> set ls. l \<noteq> [] \<and> (hd l = CHR '';'' \<or> pat_line_bytes l \<noteq> 0))"
  by (induction ls arbitrary: n) (auto simp: Let_def split: if_splits option.splits)

lemma pat_lines_chars: "l \<in> set (pat_lines p) \<Longrightarrow> CHR ''!'' \<notin> set l \<and> set l \<subseteq> set p"
proof (induction p arbitrary: l)
  case (Cons c p)
  then show ?case by (cases "pat_lines p") (force split: if_splits)+
qed simp

lemma pat_lines_nil: "pat_lines p = [] \<longleftrightarrow> p = []"
  by (cases p) (auto split: list.splits)

lemma join_pat_lines: "p = [] \<or> last p = CHR ''!'' \<Longrightarrow> join_lines (pat_lines p) = p"
proof (induction p)
  case (Cons c p)
  show ?case
  proof (cases "p = []")
    case False
    then obtain l ls where "pat_lines p = l # ls" using pat_lines_nil by (cases "pat_lines p") auto
    then show ?thesis using Cons False by auto
  qed (use Cons in auto)
qed simp

lemma known_pattern:
  assumes "text_pattern p" and "known_bytes (pat_lines p) = Some n"
  shows "list_all good_line (pat_lines p)" "join_lines (pat_lines p) = p" "pat_lines p \<noteq> []"
    "n = sum_list (map pat_line_bytes (pat_lines p))"
proof -
  show "list_all good_line (pat_lines p)"
    using assms pat_lines_chars known_bytes_sum [OF assms(2)]
    by (fastforce simp: list_all_iff good_line_def text_pattern_def pat_line_bytes_def)
  show "join_lines (pat_lines p) = p" using assms(1) by (intro join_pat_lines) (simp add: text_pattern_def)
  show "pat_lines p \<noteq> []" using assms(1) by (simp add: text_pattern_def pat_lines_nil)
  show "n = sum_list (map pat_line_bytes (pat_lines p))" using known_bytes_sum [OF assms(2)] by simp
qed

lemma table_saves_1: "list_all saves_exactly (take 30 sequences_scpack)"
  by code_simp

lemma table_saves_2: "list_all saves_exactly (take 30 (drop 30 sequences_scpack))"
  by code_simp

lemma table_saves_3: "list_all saves_exactly (take 30 (drop 60 sequences_scpack))"
  by code_simp

lemma table_saves_4: "list_all saves_exactly (drop 90 sequences_scpack)"
  by code_simp

lemma sequences_save: "q \<in> set sequences \<Longrightarrow> saves_exactly q"
proof -
  have "sequences_scpack = take 30 sequences_scpack @ take 30 (drop 30 sequences_scpack)
      @ take 30 (drop 60 sequences_scpack) @ drop 90 sequences_scpack"
    using append_take_drop_id [of 30 "drop 60 sequences_scpack"] append_take_drop_id [of 30 "drop 30 sequences_scpack"]
      append_take_drop_id [of 30 sequences_scpack] by (simp del: append_take_drop_id)
  then have "list_all saves_exactly sequences_scpack"
    using table_saves_1 table_saves_2 table_saves_3 table_saves_4 by (metis list_all_append)
  then show "q \<in> set sequences \<Longrightarrow> saves_exactly q"
    using phopt_init_plain [OF plain_rules_table] by (auto simp: sequences_def list_all_iff)
qed

lemma rewrite_once_bytes:
  assumes "rewrite_once xs = Inr (Some (ys, n))"
  shows "text_bytes ys = text_bytes xs - n"
proof -
  obtain q ml syms rep where f: "first_match sequences xs = Inr (Some (q, ml, syms))"
    and rep: "replacesequence (seq_replace q) syms = Inr rep" and ys: "ys = rep @ drop ml xs" and n: "n = savesize q"
    using assms by (auto simp: rewrite_once_def strreplace_def elim!: bindR_InrE split: option.splits)
  have q: "saves_exactly q" and m: "matchsequence xs (seq_find q) = Inr (Some (ml, syms))"
    using first_match_Some [OF f] sequences_save by auto
  obtain rest where mp: "match_pattern (seq_find q) (dropWhile is_blank xs) (replicate MAX_OPT_VARS []) = Inr (Some (rest, syms))"
    and ml: "ml = length xs - length rest"
    using m by (auto simp: matchsequence_def elim!: bindR_InrE split: option.splits)
  obtain k k' where k: "known_bytes (pat_lines (seq_find q)) = Some k" "known_bytes (pat_lines (seq_replace q)) = Some k'"
    and kk: "k' = k - savesize q" and tp: "text_pattern (seq_find q)" "text_pattern (seq_replace q)"
    using q by (auto simp: saves_exactly_def split: option.splits)
  note F = known_pattern [OF tp(1) k(1)] and R = known_pattern [OF tp(2) k(2)]
  have "symbols_ok (replicate MAX_OPT_VARS [])" by (simp add: list_all_iff)
  from match_lines [OF F(3,1) this takeWhile_chars(1), of "dropWhile is_blank xs" rest syms xs] mp F(2)
  obtain pre where p: "xs = pre @ rest" "pre \<noteq> []" "last pre = NUL" "text_bytes pre = k" "symbols_ok syms"
    using F(4) by auto
  have ls: "length syms = MAX_OPT_VARS" using match_pattern_length [OF mp] by simp
  have "repl_write (seq_replace q) syms (length rep) [TAB] = Inr rep"
    using rep by (auto simp: replacesequence_def elim!: bindR_InrE split: if_splits)
  then obtain t where "rep = t" "t \<noteq> []" "last t = NUL" "text_bytes t = k'"
    using repl_lines [OF R(3,1) p(5) ls, of "length rep" "[]" rep] R(2,4) by auto
  then have "text_bytes rep = k'" "last rep = NUL" by auto
  moreover have "drop ml xs = rest" using ml p(1) by simp
  ultimately show ?thesis
    using text_bytes_append [of rep rest] text_bytes_append [of pre rest] p kk n ys by simp
qed

lemma optimises_bytes: "optimises xs ys n \<Longrightarrow> text_bytes ys = text_bytes xs - n"
  by (induction rule: optimises.induct) (simp_all add: rewrite_once_bytes text_bytes_append diff_diff_eq)

text \<open>Only rules that start like the text can match; this keeps the evaluation of a rewrite short.\<close>

definition starts_like :: "string \<Rightarrow> sequence \<Rightarrow> bool" where
  "starts_like xs q \<longleftrightarrow> (case seq_find q of [] \<Rightarrow> True
     | p # pat \<Rightarrow> p \<in> {CHR ''%'', CHR ''-'', CHR '' '', CHR ''!''} \<or> tolower (hd (dropWhile is_blank xs)) = tolower p)"

lemma starts_unlike: "\<not> starts_like xs q \<Longrightarrow> matchsequence xs (seq_find q) = Inr None"
  by (cases "seq_find q") (auto simp: starts_like_def matchsequence_def match_pattern.simps(2))

lemma first_match_filter: "first_match (filter (starts_like xs) qs) xs = first_match qs xs"
  by (induction qs) (auto simp: starts_unlike)

lemma first_match_table: "first_match sequences xs = first_match (filter (starts_like xs) sequences_scpack) xs"
  by (simp add: sequences_plain first_match_filter)

definition push_pop :: string where "push_pop = TAB # ''push.pri'' @ [NL, NUL, TAB] @ ''pop.alt'' @ [NL, NUL]"
definition moved :: string where "moved = TAB # ''move.alt'' @ [NL, NUL]"

lemma push_pop_match:
  "first_match (filter (starts_like push_pop) sequences_scpack) push_pop
   = Inr (Some (sequences_scpack ! 68, 21, [[], [], [], []]))"
  by code_simp

lemma moved_match: "first_match (filter (starts_like moved) sequences_scpack) moved = Inr None"
  by code_simp

lemma push_pop_replace:
  "replacesequence (seq_replace (sequences_scpack ! 68)) [[], [], [], []] = Inr moved
   \<and> savesize (sequences_scpack ! 68) = 4 \<and> length moved = 11 \<and> drop 21 push_pop = []"
  by code_simp

lemma push_pop_optimised: "opt_passes push_pop 100 = Inr (moved, 96)"
proof -
  have r: "rewrite_once push_pop = Inr (Some (moved, 4))" "rewrite_once moved = Inr None"
    using push_pop_replace
    by (simp_all add: rewrite_once_def first_match_table push_pop_match moved_match assertR_def strreplace_def)
  have d: "drop (Suc (length (c_string moved))) moved = []" "take (Suc (length (c_string moved))) moved = moved"
    "moved \<noteq> []" "push_pop \<noteq> []" by code_simp+
  have h: "opt_here moved c k = Inr (moved, c, k)" for c k by (simp add: opt_here.simps [of moved] r)
  have "opt_here push_pop 100 0 = Inr (moved, 96, 1)" by (simp add: opt_here.simps [of push_pop] r h)
  then have p: "opt_pass push_pop 100 0 = Inr (moved, 96, 1)" "opt_pass moved 96 0 = Inr (moved, 96, 0)"
    by (simp_all add: opt_pass.simps [of push_pop] opt_pass.simps [of moved] opt_pass.simps [of "[]"] d h Let_def)
  then have "opt_passes moved 96 = Inr (moved, 96)" by (simp add: opt_passes.simps [of moved])
  then show ?thesis by (simp add: opt_passes.simps [of push_pop] p)
qed

text \<open>C7 (peephole optimiser and assembler): the bytes that \<open>savesize\<close> takes off the code index are the
  bytes that the assembler then finds missing. When both the text of a section and what the
  optimiser makes of it assemble, the code index has changed by the difference of the two sizes,
  from any start address and any label table.\<close>
theorem optimiser_keeps_code_index:
  assumes "opt_passes xs ci = Inr (ys, ci')"
    and "relocate env (strings xs) (a, lbl) = Inr (b, lbl1)"
    and "relocate env (strings ys) (a', lbl') = Inr (b', lbl2)"
  shows "ci - ci' = (b - a) - (b' - a')"
proof -
  obtain n where "optimises xs ys n" "ci' = ci - n" using opt_passes_ok [OF assms(1)] by blast
  then show ?thesis
    using relocate_bytes [OF assms(2)] relocate_bytes [OF assms(3)] optimises_bytes
    unfolding text_bytes_def by simp
qed

theorem optimiser_keeps_code_index_witness:
  "opt_passes push_pop 100 = Inr (moved, 96) \<and> (100 :: cell) - 96 = (8 - 0) - (4 - 0)"
proof -
  let ?env = "\<lparr>ae_labnum = 0, ae_lbltab = None, ae_syms = \<lparr>glbtab = [], loctab = [], fcurrent = -1, next_id = 0\<rparr>\<rparr>"
  have s: "strings push_pop = [TAB # ''push.pri'' @ nl, TAB # ''pop.alt'' @ nl]" "strings moved = [TAB # ''move.alt'' @ nl]"
    by code_simp+
  have l: "relocate_line env (TAB # n @ nl) (c, lbl) = Inr (c + 4, lbl)" if n: "n \<in> set parm0_names" for n env c lbl
  proof -
    obtain c' where e: "entry c' (Some n) CSEG parm0 \<in> set (tl opcodelist)" using parm0_entry [OF n] ..
    then obtain i where i: "findopcode n = Inr i" "opcodelist ! i = entry c' (Some n) CSEG parm0"
      using findopcode_entry [OF e] by auto
    have "n \<noteq> []" "scan_line (TAB # n @ nl) = InstrLine n (operand [])"
      using entry_plain [OF e] scan_instr [OF entry_plain [OF e], of "[]" ] by (simp_all add: plain_name_def)
    then show ?thesis using i by (simp add: relocate_line_def entry_def parm0_def opcodes_def)
  qed
  have "''push.pri'' \<in> set parm0_names" "''pop.alt'' \<in> set parm0_names" "''move.alt'' \<in> set parm0_names"
    by code_simp+
  from this [THEN l]
  have "relocate ?env (strings push_pop) (0, \<lambda>_. 0) = Inr (8, \<lambda>_. 0)" "relocate ?env (strings moved) (0, \<lambda>_. 0) = Inr (4, \<lambda>_. 0)"
    unfolding s relocate_def by simp_all
  from optimiser_keeps_code_index [OF push_pop_optimised this] push_pop_optimised show ?thesis by simp
qed

end
