(* ===== verification/AmxState.thy ===== *)
theory AmxState
  imports Prelude "HOL-Library.Signed_Division"
begin

text \<open>
  The state of the abstract machine of the host (src/amxmodx/amx.h, amx.cpp): the data segment as
  a byte-addressed memory, the program header, the \<open>AMX\<close> structure, and the local variables of
  \<open>amx_Exec\<close>, which are the registers of a running program. The opcodes are the values of the
  enumeration \<open>OPCODE\<close>.

  Addresses are relative to the data segment, code addresses relative to the code; the relocation
  of \<open>amx_BrowseRelocate\<close>, which adds the address of the code to every jump target, is undone by
  reading \<open>JUMPABS\<close> relatively, as the source does for 16-bit cells. An access outside the code or
  data segment is a fault.
\<close>

section \<open>Memory\<close>

type_synonym mem = "cell \<Rightarrow> byte"

definition get_cell :: "mem \<Rightarrow> cell \<Rightarrow> cell" where
  "get_cell m a = ucast (m a) OR push_bit 8 (ucast (m (a + 1)))
     OR push_bit 16 (ucast (m (a + 2))) OR push_bit 24 (ucast (m (a + 3)))"

definition put_cell :: "mem \<Rightarrow> cell \<Rightarrow> cell \<Rightarrow> mem" where
  "put_cell m a v = m(a := ucast v, a + 1 := ucast (drop_bit 8 v),
     a + 2 := ucast (drop_bit 16 v), a + 3 := ucast (drop_bit 24 v))"

definition get_half :: "mem \<Rightarrow> cell \<Rightarrow> cell" where
  "get_half m a = ucast (m a) OR push_bit 8 (ucast (m (a + 1)))"

definition put_half :: "mem \<Rightarrow> cell \<Rightarrow> cell \<Rightarrow> mem" where
  "put_half m a v = m(a := ucast v, a + 1 := ucast (drop_bit 8 v))"

text \<open>Two cells that do not overlap.\<close>

definition apart :: "cell \<Rightarrow> cell \<Rightarrow> bool" where
  "apart a b \<longleftrightarrow> 4 \<le> b - a \<and> 4 \<le> a - b"

lemma apart_commute: "apart a b = apart b a"
  by (auto simp: apart_def)

lemma add_noteq: "(i :: cell) \<noteq> j \<Longrightarrow> a + i \<noteq> a + j"
  by simp

lemma put_cell_bytes:
  "put_cell m a v a = ucast v" "put_cell m a v (a + 1) = ucast (drop_bit 8 v)"
  "put_cell m a v (a + 2) = ucast (drop_bit 16 v)" "put_cell m a v (a + 3) = ucast (drop_bit 24 v)"
  using add_noteq [of 0 1 a] add_noteq [of 0 2 a] add_noteq [of 0 3 a] add_noteq [of 1 2 a]
    add_noteq [of 1 3 a] add_noteq [of 2 3 a]
  by (simp_all add: put_cell_def)

lemma cell_of_bytes:
  "ucast (ucast v :: byte) OR push_bit 8 (ucast (ucast (drop_bit 8 v) :: byte))
     OR push_bit 16 (ucast (ucast (drop_bit 16 v) :: byte)) OR push_bit 24 (ucast (ucast (drop_bit 24 v) :: byte))
   = (v :: cell)"
proof (rule bit_word_eqI)
  fix n assume n: "n < LENGTH(32)"
  consider "n < 8" | "8 \<le> n" "n < 16" | "16 \<le> n" "n < 24" | "24 \<le> n" by linarith
  then show "bit ((ucast (ucast v :: byte) :: cell) OR push_bit 8 (ucast (ucast (drop_bit 8 v) :: byte))
     OR push_bit 16 (ucast (ucast (drop_bit 16 v) :: byte)) OR push_bit 24 (ucast (ucast (drop_bit 24 v) :: byte))) n
    = bit (v :: cell) n"
    by cases (use n in \<open>auto simp: bit_simps\<close>)
qed

lemma get_put_same [simp]: "get_cell (put_cell m a v) a = v"
  by (simp add: get_cell_def put_cell_bytes cell_of_bytes)

lemma apart_bytes:
  assumes "apart a b" and "i < 4" and "j < 4"
  shows "a + i \<noteq> b + (j :: cell)"
proof
  assume e: "a + i = b + j"
  have "b - a = i - j" "a - b = j - i" using e by (simp_all add: algebra_simps)
  then have "4 \<le> i - j" "4 \<le> j - i" using assms(1) by (simp_all add: apart_def)
  with assms(2,3) show False by unat_arith
qed

lemma put_cell_other:
  assumes "apart a b" and "j < 4"
  shows "put_cell m a v (b + j) = m (b + j)"
  using apart_bytes [OF assms(1) _ assms(2), of 0] apart_bytes [OF assms(1) _ assms(2), of 1]
    apart_bytes [OF assms(1) _ assms(2), of 2] apart_bytes [OF assms(1) _ assms(2), of 3]
  by (simp add: put_cell_def)

lemma get_put_other [simp]: "apart a b \<Longrightarrow> get_cell (put_cell m a v) b = get_cell m b"
  using put_cell_other [of a b 0 m v] put_cell_other [of a b 1 m v] put_cell_other [of a b 2 m v]
    put_cell_other [of a b 3 m v]
  by (simp add: get_cell_def)

section \<open>Opcodes\<close>

abbreviation (input) OP_NONE :: cell where "OP_NONE \<equiv> 0"
abbreviation (input) OP_LOAD_PRI :: cell where "OP_LOAD_PRI \<equiv> 1"
abbreviation (input) OP_LOAD_ALT :: cell where "OP_LOAD_ALT \<equiv> 2"
abbreviation (input) OP_LOAD_S_PRI :: cell where "OP_LOAD_S_PRI \<equiv> 3"
abbreviation (input) OP_LOAD_S_ALT :: cell where "OP_LOAD_S_ALT \<equiv> 4"
abbreviation (input) OP_LREF_PRI :: cell where "OP_LREF_PRI \<equiv> 5"
abbreviation (input) OP_LREF_ALT :: cell where "OP_LREF_ALT \<equiv> 6"
abbreviation (input) OP_LREF_S_PRI :: cell where "OP_LREF_S_PRI \<equiv> 7"
abbreviation (input) OP_LREF_S_ALT :: cell where "OP_LREF_S_ALT \<equiv> 8"
abbreviation (input) OP_LOAD_I :: cell where "OP_LOAD_I \<equiv> 9"
abbreviation (input) OP_LODB_I :: cell where "OP_LODB_I \<equiv> 10"
abbreviation (input) OP_CONST_PRI :: cell where "OP_CONST_PRI \<equiv> 11"
abbreviation (input) OP_CONST_ALT :: cell where "OP_CONST_ALT \<equiv> 12"
abbreviation (input) OP_ADDR_PRI :: cell where "OP_ADDR_PRI \<equiv> 13"
abbreviation (input) OP_ADDR_ALT :: cell where "OP_ADDR_ALT \<equiv> 14"
abbreviation (input) OP_STOR_PRI :: cell where "OP_STOR_PRI \<equiv> 15"
abbreviation (input) OP_STOR_ALT :: cell where "OP_STOR_ALT \<equiv> 16"
abbreviation (input) OP_STOR_S_PRI :: cell where "OP_STOR_S_PRI \<equiv> 17"
abbreviation (input) OP_STOR_S_ALT :: cell where "OP_STOR_S_ALT \<equiv> 18"
abbreviation (input) OP_SREF_PRI :: cell where "OP_SREF_PRI \<equiv> 19"
abbreviation (input) OP_SREF_ALT :: cell where "OP_SREF_ALT \<equiv> 20"
abbreviation (input) OP_SREF_S_PRI :: cell where "OP_SREF_S_PRI \<equiv> 21"
abbreviation (input) OP_SREF_S_ALT :: cell where "OP_SREF_S_ALT \<equiv> 22"
abbreviation (input) OP_STOR_I :: cell where "OP_STOR_I \<equiv> 23"
abbreviation (input) OP_STRB_I :: cell where "OP_STRB_I \<equiv> 24"
abbreviation (input) OP_LIDX :: cell where "OP_LIDX \<equiv> 25"
abbreviation (input) OP_LIDX_B :: cell where "OP_LIDX_B \<equiv> 26"
abbreviation (input) OP_IDXADDR :: cell where "OP_IDXADDR \<equiv> 27"
abbreviation (input) OP_IDXADDR_B :: cell where "OP_IDXADDR_B \<equiv> 28"
abbreviation (input) OP_ALIGN_PRI :: cell where "OP_ALIGN_PRI \<equiv> 29"
abbreviation (input) OP_ALIGN_ALT :: cell where "OP_ALIGN_ALT \<equiv> 30"
abbreviation (input) OP_LCTRL :: cell where "OP_LCTRL \<equiv> 31"
abbreviation (input) OP_SCTRL :: cell where "OP_SCTRL \<equiv> 32"
abbreviation (input) OP_MOVE_PRI :: cell where "OP_MOVE_PRI \<equiv> 33"
abbreviation (input) OP_MOVE_ALT :: cell where "OP_MOVE_ALT \<equiv> 34"
abbreviation (input) OP_XCHG :: cell where "OP_XCHG \<equiv> 35"
abbreviation (input) OP_PUSH_PRI :: cell where "OP_PUSH_PRI \<equiv> 36"
abbreviation (input) OP_PUSH_ALT :: cell where "OP_PUSH_ALT \<equiv> 37"
abbreviation (input) OP_PUSH_R :: cell where "OP_PUSH_R \<equiv> 38"
abbreviation (input) OP_PUSH_C :: cell where "OP_PUSH_C \<equiv> 39"
abbreviation (input) OP_PUSH :: cell where "OP_PUSH \<equiv> 40"
abbreviation (input) OP_PUSH_S :: cell where "OP_PUSH_S \<equiv> 41"
abbreviation (input) OP_POP_PRI :: cell where "OP_POP_PRI \<equiv> 42"
abbreviation (input) OP_POP_ALT :: cell where "OP_POP_ALT \<equiv> 43"
abbreviation (input) OP_STACK :: cell where "OP_STACK \<equiv> 44"
abbreviation (input) OP_HEAP :: cell where "OP_HEAP \<equiv> 45"
abbreviation (input) OP_PROC :: cell where "OP_PROC \<equiv> 46"
abbreviation (input) OP_RET :: cell where "OP_RET \<equiv> 47"
abbreviation (input) OP_RETN :: cell where "OP_RETN \<equiv> 48"
abbreviation (input) OP_CALL :: cell where "OP_CALL \<equiv> 49"
abbreviation (input) OP_CALL_PRI :: cell where "OP_CALL_PRI \<equiv> 50"
abbreviation (input) OP_JUMP :: cell where "OP_JUMP \<equiv> 51"
abbreviation (input) OP_JREL :: cell where "OP_JREL \<equiv> 52"
abbreviation (input) OP_JZER :: cell where "OP_JZER \<equiv> 53"
abbreviation (input) OP_JNZ :: cell where "OP_JNZ \<equiv> 54"
abbreviation (input) OP_JEQ :: cell where "OP_JEQ \<equiv> 55"
abbreviation (input) OP_JNEQ :: cell where "OP_JNEQ \<equiv> 56"
abbreviation (input) OP_JLESS :: cell where "OP_JLESS \<equiv> 57"
abbreviation (input) OP_JLEQ :: cell where "OP_JLEQ \<equiv> 58"
abbreviation (input) OP_JGRTR :: cell where "OP_JGRTR \<equiv> 59"
abbreviation (input) OP_JGEQ :: cell where "OP_JGEQ \<equiv> 60"
abbreviation (input) OP_JSLESS :: cell where "OP_JSLESS \<equiv> 61"
abbreviation (input) OP_JSLEQ :: cell where "OP_JSLEQ \<equiv> 62"
abbreviation (input) OP_JSGRTR :: cell where "OP_JSGRTR \<equiv> 63"
abbreviation (input) OP_JSGEQ :: cell where "OP_JSGEQ \<equiv> 64"
abbreviation (input) OP_SHL :: cell where "OP_SHL \<equiv> 65"
abbreviation (input) OP_SHR :: cell where "OP_SHR \<equiv> 66"
abbreviation (input) OP_SSHR :: cell where "OP_SSHR \<equiv> 67"
abbreviation (input) OP_SHL_C_PRI :: cell where "OP_SHL_C_PRI \<equiv> 68"
abbreviation (input) OP_SHL_C_ALT :: cell where "OP_SHL_C_ALT \<equiv> 69"
abbreviation (input) OP_SHR_C_PRI :: cell where "OP_SHR_C_PRI \<equiv> 70"
abbreviation (input) OP_SHR_C_ALT :: cell where "OP_SHR_C_ALT \<equiv> 71"
abbreviation (input) OP_SMUL :: cell where "OP_SMUL \<equiv> 72"
abbreviation (input) OP_SDIV :: cell where "OP_SDIV \<equiv> 73"
abbreviation (input) OP_SDIV_ALT :: cell where "OP_SDIV_ALT \<equiv> 74"
abbreviation (input) OP_UMUL :: cell where "OP_UMUL \<equiv> 75"
abbreviation (input) OP_UDIV :: cell where "OP_UDIV \<equiv> 76"
abbreviation (input) OP_UDIV_ALT :: cell where "OP_UDIV_ALT \<equiv> 77"
abbreviation (input) OP_ADD :: cell where "OP_ADD \<equiv> 78"
abbreviation (input) OP_SUB :: cell where "OP_SUB \<equiv> 79"
abbreviation (input) OP_SUB_ALT :: cell where "OP_SUB_ALT \<equiv> 80"
abbreviation (input) OP_AND :: cell where "OP_AND \<equiv> 81"
abbreviation (input) OP_OR :: cell where "OP_OR \<equiv> 82"
abbreviation (input) OP_XOR :: cell where "OP_XOR \<equiv> 83"
abbreviation (input) OP_NOT :: cell where "OP_NOT \<equiv> 84"
abbreviation (input) OP_NEG :: cell where "OP_NEG \<equiv> 85"
abbreviation (input) OP_INVERT :: cell where "OP_INVERT \<equiv> 86"
abbreviation (input) OP_ADD_C :: cell where "OP_ADD_C \<equiv> 87"
abbreviation (input) OP_SMUL_C :: cell where "OP_SMUL_C \<equiv> 88"
abbreviation (input) OP_ZERO_PRI :: cell where "OP_ZERO_PRI \<equiv> 89"
abbreviation (input) OP_ZERO_ALT :: cell where "OP_ZERO_ALT \<equiv> 90"
abbreviation (input) OP_ZERO :: cell where "OP_ZERO \<equiv> 91"
abbreviation (input) OP_ZERO_S :: cell where "OP_ZERO_S \<equiv> 92"
abbreviation (input) OP_SIGN_PRI :: cell where "OP_SIGN_PRI \<equiv> 93"
abbreviation (input) OP_SIGN_ALT :: cell where "OP_SIGN_ALT \<equiv> 94"
abbreviation (input) OP_EQ :: cell where "OP_EQ \<equiv> 95"
abbreviation (input) OP_NEQ :: cell where "OP_NEQ \<equiv> 96"
abbreviation (input) OP_LESS :: cell where "OP_LESS \<equiv> 97"
abbreviation (input) OP_LEQ :: cell where "OP_LEQ \<equiv> 98"
abbreviation (input) OP_GRTR :: cell where "OP_GRTR \<equiv> 99"
abbreviation (input) OP_GEQ :: cell where "OP_GEQ \<equiv> 100"
abbreviation (input) OP_SLESS :: cell where "OP_SLESS \<equiv> 101"
abbreviation (input) OP_SLEQ :: cell where "OP_SLEQ \<equiv> 102"
abbreviation (input) OP_SGRTR :: cell where "OP_SGRTR \<equiv> 103"
abbreviation (input) OP_SGEQ :: cell where "OP_SGEQ \<equiv> 104"
abbreviation (input) OP_EQ_C_PRI :: cell where "OP_EQ_C_PRI \<equiv> 105"
abbreviation (input) OP_EQ_C_ALT :: cell where "OP_EQ_C_ALT \<equiv> 106"
abbreviation (input) OP_INC_PRI :: cell where "OP_INC_PRI \<equiv> 107"
abbreviation (input) OP_INC_ALT :: cell where "OP_INC_ALT \<equiv> 108"
abbreviation (input) OP_INC :: cell where "OP_INC \<equiv> 109"
abbreviation (input) OP_INC_S :: cell where "OP_INC_S \<equiv> 110"
abbreviation (input) OP_INC_I :: cell where "OP_INC_I \<equiv> 111"
abbreviation (input) OP_DEC_PRI :: cell where "OP_DEC_PRI \<equiv> 112"
abbreviation (input) OP_DEC_ALT :: cell where "OP_DEC_ALT \<equiv> 113"
abbreviation (input) OP_DEC :: cell where "OP_DEC \<equiv> 114"
abbreviation (input) OP_DEC_S :: cell where "OP_DEC_S \<equiv> 115"
abbreviation (input) OP_DEC_I :: cell where "OP_DEC_I \<equiv> 116"
abbreviation (input) OP_MOVS :: cell where "OP_MOVS \<equiv> 117"
abbreviation (input) OP_CMPS :: cell where "OP_CMPS \<equiv> 118"
abbreviation (input) OP_FILL :: cell where "OP_FILL \<equiv> 119"
abbreviation (input) OP_HALT :: cell where "OP_HALT \<equiv> 120"
abbreviation (input) OP_BOUNDS :: cell where "OP_BOUNDS \<equiv> 121"
abbreviation (input) OP_SYSREQ_PRI :: cell where "OP_SYSREQ_PRI \<equiv> 122"
abbreviation (input) OP_SYSREQ_C :: cell where "OP_SYSREQ_C \<equiv> 123"
abbreviation (input) OP_FILE :: cell where "OP_FILE \<equiv> 124"
abbreviation (input) OP_LINE :: cell where "OP_LINE \<equiv> 125"
abbreviation (input) OP_SYMBOL :: cell where "OP_SYMBOL \<equiv> 126"
abbreviation (input) OP_SRANGE :: cell where "OP_SRANGE \<equiv> 127"
abbreviation (input) OP_JUMP_PRI :: cell where "OP_JUMP_PRI \<equiv> 128"
abbreviation (input) OP_SWITCH :: cell where "OP_SWITCH \<equiv> 129"
abbreviation (input) OP_CASETBL :: cell where "OP_CASETBL \<equiv> 130"
abbreviation (input) OP_SWAP_PRI :: cell where "OP_SWAP_PRI \<equiv> 131"
abbreviation (input) OP_SWAP_ALT :: cell where "OP_SWAP_ALT \<equiv> 132"
abbreviation (input) OP_PUSHADDR :: cell where "OP_PUSHADDR \<equiv> 133"
abbreviation (input) OP_NOP :: cell where "OP_NOP \<equiv> 134"
abbreviation (input) OP_SYSREQ_D :: cell where "OP_SYSREQ_D \<equiv> 135"
abbreviation (input) OP_SYMTAG :: cell where "OP_SYMTAG \<equiv> 136"
abbreviation (input) OP_BREAK :: cell where "OP_BREAK \<equiv> 137"
abbreviation (input) OP_FLOAT_MUL :: cell where "OP_FLOAT_MUL \<equiv> 138"
abbreviation (input) OP_FLOAT_DIV :: cell where "OP_FLOAT_DIV \<equiv> 139"
abbreviation (input) OP_FLOAT_ADD :: cell where "OP_FLOAT_ADD \<equiv> 140"
abbreviation (input) OP_FLOAT_SUB :: cell where "OP_FLOAT_SUB \<equiv> 141"
abbreviation (input) OP_FLOAT_TO :: cell where "OP_FLOAT_TO \<equiv> 142"
abbreviation (input) OP_FLOAT_ROUND :: cell where "OP_FLOAT_ROUND \<equiv> 143"
abbreviation (input) OP_FLOAT_CMP :: cell where "OP_FLOAT_CMP \<equiv> 144"

section \<open>Error codes and flags\<close>

abbreviation (input) AMX_ERR_NONE :: int where "AMX_ERR_NONE \<equiv> 0"
abbreviation (input) AMX_ERR_STACKERR :: int where "AMX_ERR_STACKERR \<equiv> 3"
abbreviation (input) AMX_ERR_BOUNDS :: int where "AMX_ERR_BOUNDS \<equiv> 4"
abbreviation (input) AMX_ERR_MEMACCESS :: int where "AMX_ERR_MEMACCESS \<equiv> 5"
abbreviation (input) AMX_ERR_INVINSTR :: int where "AMX_ERR_INVINSTR \<equiv> 6"
abbreviation (input) AMX_ERR_STACKLOW :: int where "AMX_ERR_STACKLOW \<equiv> 7"
abbreviation (input) AMX_ERR_HEAPLOW :: int where "AMX_ERR_HEAPLOW \<equiv> 8"
abbreviation (input) AMX_ERR_CALLBACK :: int where "AMX_ERR_CALLBACK \<equiv> 9"
abbreviation (input) AMX_ERR_DIVIDE :: int where "AMX_ERR_DIVIDE \<equiv> 11"
abbreviation (input) AMX_ERR_SLEEP :: int where "AMX_ERR_SLEEP \<equiv> 12"
abbreviation (input) AMX_ERR_MEMORY :: int where "AMX_ERR_MEMORY \<equiv> 16"
abbreviation (input) AMX_ERR_FORMAT :: int where "AMX_ERR_FORMAT \<equiv> 17"
abbreviation (input) AMX_ERR_VERSION :: int where "AMX_ERR_VERSION \<equiv> 18"
abbreviation (input) AMX_ERR_NOTFOUND :: int where "AMX_ERR_NOTFOUND \<equiv> 19"
abbreviation (input) AMX_ERR_INDEX :: int where "AMX_ERR_INDEX \<equiv> 20"
abbreviation (input) AMX_ERR_INIT :: int where "AMX_ERR_INIT \<equiv> 22"
abbreviation (input) AMX_ERR_PARAMS :: int where "AMX_ERR_PARAMS \<equiv> 25"

abbreviation (input) AMX_FLAG_COMPACT :: cell where "AMX_FLAG_COMPACT \<equiv> 0x04"
abbreviation (input) AMX_FLAG_PRENIT :: cell where "AMX_FLAG_PRENIT \<equiv> 0x100"
abbreviation (input) AMX_FLAG_NTVREG :: cell where "AMX_FLAG_NTVREG \<equiv> 0x1000"
abbreviation (input) AMX_FLAG_BROWSE :: cell where "AMX_FLAG_BROWSE \<equiv> 0x4000"
abbreviation (input) AMX_FLAG_RELOC :: cell where "AMX_FLAG_RELOC \<equiv> 0x8000"

definition AMX_EXEC_MAIN :: int where "AMX_EXEC_MAIN = -1"
definition AMX_EXEC_CONT :: int where "AMX_EXEC_CONT = -2"
definition AMX_MAGIC :: cell where "AMX_MAGIC = 0xf1e0"
definition CUR_FILE_VERSION :: nat where "CUR_FILE_VERSION = 8"
definition MIN_FILE_VERSION :: nat where "MIN_FILE_VERSION = 6"
definition name_limit :: nat where "name_limit = 31"
definition STKMARGIN :: cell where "STKMARGIN = 16 * cell_bytes"

section \<open>The program and the machine\<close>

text \<open>An entry of the tables of public functions, natives and public variables. The tables and the
  name table follow the header in the file; here they are lists, so \<open>NUMENTRIES\<close> is their length.\<close>

record funcstub =
  fs_address :: cell
  fs_name :: string

record header =
  h_magic :: cell
  h_file_version :: nat
  h_amx_version :: nat
  h_flags :: cell
  h_defsize :: nat
  h_namelength :: nat
  h_size :: cell
  h_cod :: cell
  h_dat :: cell
  h_hea :: cell
  h_stp :: cell
  h_cip :: cell
  h_publics :: "funcstub list"
  h_natives :: "funcstub list"
  h_pubvars :: "funcstub list"

text \<open>The \<open>AMX\<close> structure: \<open>a_callback\<close> and \<open>a_debug\<close> say whether the function pointers are set;
  \<open>a_codeaddr\<close> is the address of the code in the memory of the host; \<open>a_code\<close> is the code, a cell
  for every four bytes.\<close>

record amx =
  a_base :: header
  a_code :: "cell list"
  a_codeaddr :: cell
  a_data :: mem
  a_callback :: bool
  a_debug :: bool
  a_cip :: cell
  a_frm :: cell
  a_hea :: cell
  a_hlw :: cell
  a_stk :: cell
  a_stp :: cell
  a_flags :: cell
  a_native :: cell
  a_error :: int
  a_paramcount :: cell
  a_pri :: cell
  a_alt :: cell
  a_reset_stk :: cell
  a_reset_hea :: cell

text \<open>The registers: the local variables of \<open>amx_Exec\<close>. \<open>retval\<close> is what is stored through the
  argument of that name.\<close>

record vm =
  amx :: amx
  pri :: cell
  alt :: cell
  stk :: cell
  frm :: cell
  hea :: cell
  reset_stk :: cell
  reset_hea :: cell
  cip :: cell
  retval :: "cell option"

text \<open>After an instruction the machine runs on, or \<open>amx_Exec\<close> returns an error code.\<close>

datatype outcome = Running vm | Returned int vm

abbreviation running :: "vm \<Rightarrow> outcome result" where "running s \<equiv> Inr (Running s)"

abbreviation return_code :: "int \<Rightarrow> vm \<Rightarrow> outcome result" where "return_code e s \<equiv> Inr (Returned e s)"

text \<open>The functions of the host that the machine calls: the callback for natives, which gets the
  index and gives an error code and the new value of \<open>pri\<close>, natives called directly, the debug hook,
  and the arithmetic of the floating point unit on the bit patterns of numbers.\<close>

record host =
  callback :: "cell \<Rightarrow> amx \<Rightarrow> int \<times> cell \<times> amx"
  native_at :: "cell \<Rightarrow> amx \<Rightarrow> cell \<times> amx"
  debug_hook :: "amx \<Rightarrow> int \<times> amx"
  f_mul :: "cell \<Rightarrow> cell \<Rightarrow> cell"
  f_div :: "cell \<Rightarrow> cell \<Rightarrow> cell"
  f_add :: "cell \<Rightarrow> cell \<Rightarrow> cell"
  f_sub :: "cell \<Rightarrow> cell \<Rightarrow> cell"
  f_of_cell :: "cell \<Rightarrow> cell"
  f_round_half :: "cell \<Rightarrow> cell"
  f_floor :: "cell \<Rightarrow> cell"
  f_ceil :: "cell \<Rightarrow> cell"
  f_eq :: "cell \<Rightarrow> cell \<Rightarrow> bool"
  f_gt :: "cell \<Rightarrow> cell \<Rightarrow> bool"

section \<open>Access to code and data\<close>

text \<open>The code has \<open>codesize\<close> bytes; the data segment with heap and stack ends with the sentinel
  cell at \<open>stp\<close>.\<close>

definition codesize :: "amx \<Rightarrow> cell" where "codesize a = h_dat (a_base a) - h_cod (a_base a)"

definition in_data :: "amx \<Rightarrow> cell \<Rightarrow> nat \<Rightarrow> bool" where
  "in_data a p n \<longleftrightarrow> unat p + n \<le> unat (a_stp a) + 4"

definition fetch :: "vm \<Rightarrow> cell \<Rightarrow> cell result" where
  "fetch s p = (if unat p mod 4 = 0 \<and> unat p div 4 < length (a_code (amx s))
     then Inr (a_code (amx s) ! (unat p div 4)) else Inl BufferOverflow)"

definition rd :: "vm \<Rightarrow> cell \<Rightarrow> cell result" where
  "rd s p = (if in_data (amx s) p 4 then Inr (get_cell (a_data (amx s)) p) else Inl BufferOverflow)"

definition set_data :: "mem \<Rightarrow> vm \<Rightarrow> vm" where
  "set_data m s = s\<lparr>amx := (amx s)\<lparr>a_data := m\<rparr>\<rparr>"

definition wr :: "cell \<Rightarrow> cell \<Rightarrow> vm \<Rightarrow> vm result" where
  "wr p v s = (if in_data (amx s) p 4 then Inr (set_data (put_cell (a_data (amx s)) p v) s) else Inl BufferOverflow)"

text \<open>The macros of \<open>amx_Exec\<close>.\<close>

definition get_param :: "vm \<Rightarrow> (cell \<Rightarrow> vm \<Rightarrow> outcome result) \<Rightarrow> outcome result" where
  "get_param s f = bindR (fetch s (cip s)) (\<lambda>v. f v (s\<lparr>cip := cip s + 4\<rparr>))"

definition push :: "cell \<Rightarrow> vm \<Rightarrow> vm result" where
  "push v s = wr (stk s - 4) v (s\<lparr>stk := stk s - 4\<rparr>)"

definition pop :: "vm \<Rightarrow> (cell \<Rightarrow> vm \<Rightarrow> 'a result) \<Rightarrow> 'a result" where
  "pop s f = bindR (rd s (stk s)) (\<lambda>v. f v (s\<lparr>stk := stk s + 4\<rparr>))"

definition abort :: "int \<Rightarrow> vm \<Rightarrow> outcome result" where
  "abort e s = return_code e (s\<lparr>amx := (amx s)\<lparr>a_stk := reset_stk s, a_hea := reset_hea s,
     a_cip := a_codeaddr (amx s) + cip s, a_pri := pri s, a_alt := alt s\<rparr>\<rparr>)"

definition jumpabs :: "vm \<Rightarrow> cell \<Rightarrow> cell result" where "jumpabs s p = fetch s p"

definition chkmargin :: "vm \<Rightarrow> outcome result \<Rightarrow> outcome result" where
  "chkmargin s k = (if stk s <s hea s + STKMARGIN then return_code AMX_ERR_STACKERR s else k)"

definition chkstack :: "vm \<Rightarrow> outcome result \<Rightarrow> outcome result" where
  "chkstack s k = (if a_stp (amx s) <s stk s then return_code AMX_ERR_STACKLOW s else k)"

definition chkheap :: "vm \<Rightarrow> outcome result \<Rightarrow> outcome result" where
  "chkheap s k = (if hea s <s a_hlw (amx s) then return_code AMX_ERR_HEAPLOW s else k)"

text \<open>The check of an address before an access through a pointer: it is neither in the free space
  between heap and stack nor outside of the data segment.\<close>

definition bad_addr :: "vm \<Rightarrow> cell \<Rightarrow> bool" where
  "bad_addr s p \<longleftrightarrow> hea s \<le>s p \<and> p <s stk s \<or> a_stp (amx s) \<le> p"

text \<open>The end of a block, which may be the first address after it.\<close>

definition bad_end :: "vm \<Rightarrow> cell \<Rightarrow> bool" where
  "bad_end s p \<longleftrightarrow> hea s <s p \<and> p <s stk s \<or> a_stp (amx s) < p"

section \<open>Arithmetic of C\<close>

definition cdiv :: "cell \<Rightarrow> cell \<Rightarrow> cell" where "cdiv a b = word_of_int (sint a sdiv sint b)"
definition cmod :: "cell \<Rightarrow> cell \<Rightarrow> cell" where "cmod a b = word_of_int (sint a smod sint b)"

lemma sint_wrap: "- (2 ^ 31) \<le> x \<Longrightarrow> x < 2 ^ 31 \<Longrightarrow> sint (word_of_int x :: cell) = x"
  by (simp add: sint_sbintrunc' signed_take_bit_int_eq_self)

lemma sint_of_nat_cell: "m < 2 ^ 31 \<Longrightarrow> sint (of_nat m :: cell) = int m"
  using sint_wrap [of "int m"] by simp

text \<open>The only signed division that overflows; the processor traps.\<close>

definition div_traps :: "cell \<Rightarrow> cell \<Rightarrow> bool" where
  "div_traps a b \<longleftrightarrow> sint a = - (2 ^ 31) \<and> sint b = -1"

text \<open>A shift by the width of a cell or more is undefined.\<close>

definition shift :: "(nat \<Rightarrow> cell \<Rightarrow> cell) \<Rightarrow> cell \<Rightarrow> cell \<Rightarrow> cell result" where
  "shift f n v = (if unat n < 32 then Inr (f (unat n) v) else Inl ArithUndefined)"

definition of_flag :: "bool \<Rightarrow> cell" where "of_flag b = (if b then 1 else 0)"

text \<open>A machine with some code, for examples.\<close>

definition amx_with :: "cell list \<Rightarrow> amx" where
  "amx_with code =
     \<lparr>a_base = \<lparr>h_magic = AMX_MAGIC, h_file_version = 8, h_amx_version = 8, h_flags = 0, h_defsize = 8,
        h_namelength = 31, h_size = 2000, h_cod = 100, h_dat = 100 + 4 * of_nat (length code), h_hea = 1200,
        h_stp = 2104, h_cip = 0, h_publics = [\<lparr>fs_address = 8, fs_name = ''main''\<rparr>], h_natives = [], h_pubvars = []\<rparr>,
      a_code = code, a_codeaddr = 0x10000, a_data = (\<lambda>_. 0), a_callback = True, a_debug = False, a_cip = 0, a_frm = 0,
      a_hea = 100, a_hlw = 100, a_stk = 900, a_stp = 1000, a_flags = AMX_FLAG_RELOC + AMX_FLAG_NTVREG, a_native = 0,
      a_error = 0, a_paramcount = 0, a_pri = 0, a_alt = 0, a_reset_stk = 0, a_reset_hea = 0\<rparr>"

end
