(* ===== verification/AmxExec.thy ===== *)
theory AmxExec
  imports AmxState
begin

text \<open>
  The interpreter of the abstract machine, \<open>amx_Exec\<close> of src/amxmodx/amx.cpp in its portable form:
  one definition for each group of cases of its \<open>switch\<close>, \<open>exec_op\<close> for the switch, \<open>step\<close> for a turn
  of the endless loop, \<open>amx_exec_start\<close> for the part before the loop and \<open>amx_exec\<close> for the whole.
\<close>

section \<open>Load and store\<close>

definition exec_load :: "cell \<Rightarrow> vm \<Rightarrow> outcome result" where
  "exec_load op s =
     (if op = OP_LOAD_PRI then get_param s (\<lambda>offs s. bindR (rd s offs) (\<lambda>v. running (s\<lparr>pri := v\<rparr>)))
      else if op = OP_LOAD_ALT then get_param s (\<lambda>offs s. bindR (rd s offs) (\<lambda>v. running (s\<lparr>alt := v\<rparr>)))
      else if op = OP_LOAD_S_PRI then get_param s (\<lambda>offs s. bindR (rd s (frm s + offs)) (\<lambda>v. running (s\<lparr>pri := v\<rparr>)))
      else if op = OP_LOAD_S_ALT then get_param s (\<lambda>offs s. bindR (rd s (frm s + offs)) (\<lambda>v. running (s\<lparr>alt := v\<rparr>)))
      else if op = OP_LREF_PRI then
        get_param s (\<lambda>offs s. bindR (rd s offs) (\<lambda>offs. bindR (rd s offs) (\<lambda>v. running (s\<lparr>pri := v\<rparr>))))
      else if op = OP_LREF_ALT then
        get_param s (\<lambda>offs s. bindR (rd s offs) (\<lambda>offs. bindR (rd s offs) (\<lambda>v. running (s\<lparr>alt := v\<rparr>))))
      else if op = OP_LREF_S_PRI then
        get_param s (\<lambda>offs s. bindR (rd s (frm s + offs)) (\<lambda>offs. bindR (rd s offs) (\<lambda>v. running (s\<lparr>pri := v\<rparr>))))
      else if op = OP_LREF_S_ALT then
        get_param s (\<lambda>offs s. bindR (rd s (frm s + offs)) (\<lambda>offs. bindR (rd s offs) (\<lambda>v. running (s\<lparr>alt := v\<rparr>))))
      else if op = OP_LOAD_I then
        if bad_addr s (pri s) then abort AMX_ERR_MEMACCESS s
        else bindR (rd s (pri s)) (\<lambda>v. running (s\<lparr>pri := v\<rparr>))
      else if op = OP_LODB_I then
        get_param s (\<lambda>offs s.
          if bad_addr s (pri s) then abort AMX_ERR_MEMACCESS s
          else if offs \<in> {1, 2, 4} then
            if in_data (amx s) (pri s) (unat offs) then
              running (s\<lparr>pri := if offs = 1 then ucast (a_data (amx s) (pri s))
                else if offs = 2 then get_half (a_data (amx s)) (pri s) else get_cell (a_data (amx s)) (pri s)\<rparr>)
            else Inl BufferOverflow
          else running s)
      else if op = OP_CONST_PRI then get_param s (\<lambda>v s. running (s\<lparr>pri := v\<rparr>))
      else if op = OP_CONST_ALT then get_param s (\<lambda>v s. running (s\<lparr>alt := v\<rparr>))
      else if op = OP_ADDR_PRI then get_param s (\<lambda>v s. running (s\<lparr>pri := v + frm s\<rparr>))
      else get_param s (\<lambda>v s. running (s\<lparr>alt := v + frm s\<rparr>)))"

definition store_at :: "cell \<Rightarrow> cell \<Rightarrow> vm \<Rightarrow> outcome result" where
  "store_at p v s = bindR (wr p v s) running"

definition exec_store :: "cell \<Rightarrow> vm \<Rightarrow> outcome result" where
  "exec_store op s =
     (if op = OP_STOR_PRI then get_param s (\<lambda>offs s. store_at offs (pri s) s)
      else if op = OP_STOR_ALT then get_param s (\<lambda>offs s. store_at offs (alt s) s)
      else if op = OP_STOR_S_PRI then get_param s (\<lambda>offs s. store_at (frm s + offs) (pri s) s)
      else if op = OP_STOR_S_ALT then get_param s (\<lambda>offs s. store_at (frm s + offs) (alt s) s)
      else if op = OP_SREF_PRI then get_param s (\<lambda>offs s. bindR (rd s offs) (\<lambda>offs. store_at offs (pri s) s))
      else if op = OP_SREF_ALT then get_param s (\<lambda>offs s. bindR (rd s offs) (\<lambda>offs. store_at offs (alt s) s))
      else if op = OP_SREF_S_PRI then get_param s (\<lambda>offs s. bindR (rd s (frm s + offs)) (\<lambda>offs. store_at offs (pri s) s))
      else if op = OP_SREF_S_ALT then get_param s (\<lambda>offs s. bindR (rd s (frm s + offs)) (\<lambda>offs. store_at offs (alt s) s))
      else if op = OP_STOR_I then
        if bad_addr s (alt s) then abort AMX_ERR_MEMACCESS s else store_at (alt s) (pri s) s
      else
        get_param s (\<lambda>offs s.
          if bad_addr s (alt s) then abort AMX_ERR_MEMACCESS s
          else if offs \<in> {1, 2, 4} then
            if in_data (amx s) (alt s) (unat offs) then
              running (set_data (let m = a_data (amx s) in if offs = 1 then m(alt s := ucast (pri s))
                else if offs = 2 then put_half m (alt s) (pri s) else put_cell m (alt s) (pri s)) s)
            else Inl BufferOverflow
          else running s))"

section \<open>Indexing and control registers\<close>

definition load_checked :: "cell \<Rightarrow> vm \<Rightarrow> outcome result" where
  "load_checked offs s = (if bad_addr s offs then abort AMX_ERR_MEMACCESS s
     else bindR (rd s offs) (\<lambda>v. running (s\<lparr>pri := v\<rparr>)))"

definition exec_index :: "cell \<Rightarrow> vm \<Rightarrow> outcome result" where
  "exec_index op s =
     (if op = OP_LIDX then load_checked (pri s * cell_bytes + alt s) s
      else if op = OP_LIDX_B then
        get_param s (\<lambda>offs s. bindR (shift push_bit offs (pri s)) (\<lambda>v. load_checked (v + alt s) s))
      else if op = OP_IDXADDR then running (s\<lparr>pri := pri s * cell_bytes + alt s\<rparr>)
      else if op = OP_IDXADDR_B then
        get_param s (\<lambda>offs s. bindR (shift push_bit offs (pri s)) (\<lambda>v. running (s\<lparr>pri := v + alt s\<rparr>)))
      else if op = OP_ALIGN_PRI then
        get_param s (\<lambda>offs s. running (if offs < cell_bytes then s\<lparr>pri := pri s XOR (cell_bytes - offs)\<rparr> else s))
      else
        get_param s (\<lambda>offs s. running (if offs < cell_bytes then s\<lparr>alt := alt s XOR (cell_bytes - offs)\<rparr> else s)))"

definition exec_control :: "cell \<Rightarrow> vm \<Rightarrow> outcome result" where
  "exec_control op s =
     (if op = OP_LCTRL then
        get_param s (\<lambda>offs s. running
          (if offs = 0 then s\<lparr>pri := h_cod (a_base (amx s))\<rparr>
           else if offs = 1 then s\<lparr>pri := h_dat (a_base (amx s))\<rparr>
           else if offs = 2 then s\<lparr>pri := hea s\<rparr>
           else if offs = 3 then s\<lparr>pri := a_stp (amx s)\<rparr>
           else if offs = 4 then s\<lparr>pri := stk s\<rparr>
           else if offs = 5 then s\<lparr>pri := frm s\<rparr>
           else if offs = 6 then s\<lparr>pri := cip s\<rparr>
           else s))
      else
        get_param s (\<lambda>offs s. running
          (if offs = 2 then s\<lparr>hea := pri s\<rparr>
           else if offs = 4 then s\<lparr>stk := pri s\<rparr>
           else if offs = 5 then s\<lparr>frm := pri s\<rparr>
           else if offs = 6 then s\<lparr>cip := pri s\<rparr>
           else s)))"

section \<open>Registers, stack and heap\<close>

definition push_next :: "cell \<Rightarrow> vm \<Rightarrow> outcome result" where
  "push_next v s = bindR (push v s) running"

fun push_times :: "nat \<Rightarrow> vm \<Rightarrow> outcome result" where
  "push_times 0 s = running s"
| "push_times (Suc n) s = bindR (push (pri s) s) (push_times n)"

definition exec_stack :: "cell \<Rightarrow> vm \<Rightarrow> outcome result" where
  "exec_stack op s =
     (if op = OP_MOVE_PRI then running (s\<lparr>pri := alt s\<rparr>)
      else if op = OP_MOVE_ALT then running (s\<lparr>alt := pri s\<rparr>)
      else if op = OP_XCHG then running (s\<lparr>pri := alt s, alt := pri s\<rparr>)
      else if op = OP_PUSH_PRI then push_next (pri s) s
      else if op = OP_PUSH_ALT then push_next (alt s) s
      else if op = OP_PUSH_R then get_param s (\<lambda>offs. push_times (unat offs))
      else if op = OP_PUSH_C then get_param s push_next
      else if op = OP_PUSH then get_param s (\<lambda>offs s. bindR (rd s offs) (\<lambda>v. push_next v s))
      else if op = OP_PUSH_S then get_param s (\<lambda>offs s. bindR (rd s (frm s + offs)) (\<lambda>v. push_next v s))
      else if op = OP_POP_PRI then pop s (\<lambda>v s. running (s\<lparr>pri := v\<rparr>))
      else if op = OP_POP_ALT then pop s (\<lambda>v s. running (s\<lparr>alt := v\<rparr>))
      else if op = OP_STACK then
        get_param s (\<lambda>offs s.
          let t = s\<lparr>alt := stk s, stk := stk s + offs\<rparr> in chkmargin t (chkstack t (running t)))
      else
        get_param s (\<lambda>offs s.
          let t = s\<lparr>alt := hea s, hea := hea s + offs\<rparr> in chkmargin t (chkheap t (running t))))"

section \<open>Calls and jumps\<close>

definition jump_if :: "bool \<Rightarrow> vm \<Rightarrow> outcome result" where
  "jump_if b s = (if b then bindR (jumpabs s (cip s)) (\<lambda>p. running (s\<lparr>cip := p\<rparr>))
     else running (s\<lparr>cip := cip s + 4\<rparr>))"

definition return_to :: "cell \<Rightarrow> vm \<Rightarrow> (vm \<Rightarrow> outcome result) \<Rightarrow> outcome result" where
  "return_to offs s k = (if codesize (amx s) \<le> offs then abort AMX_ERR_MEMACCESS s else k (s\<lparr>cip := offs\<rparr>))"

definition exec_call :: "cell \<Rightarrow> vm \<Rightarrow> outcome result" where
  "exec_call op s =
     (if op = OP_PROC then
        bindR (push (frm s) s) (\<lambda>s. let t = s\<lparr>frm := stk s\<rparr> in chkmargin t (running t))
      else if op = OP_RET then
        pop s (\<lambda>f s. pop (s\<lparr>frm := f\<rparr>) (\<lambda>offs s. return_to offs s running))
      else if op = OP_RETN then
        pop s (\<lambda>f s. pop (s\<lparr>frm := f\<rparr>) (\<lambda>offs s. return_to offs s (\<lambda>s.
          bindR (rd s (stk s)) (\<lambda>n. let t = s\<lparr>stk := stk s + (n + cell_bytes)\<rparr>
            in running (t\<lparr>amx := (amx t)\<lparr>a_stk := stk t\<rparr>\<rparr>)))))
      else if op = OP_CALL then
        bindR (push (cip s + 4) s) (\<lambda>s. bindR (jumpabs s (cip s)) (\<lambda>p. running (s\<lparr>cip := p\<rparr>)))
      else bindR (push (cip s) s) (\<lambda>s. running (s\<lparr>cip := pri s\<rparr>)))"

definition exec_jump :: "cell \<Rightarrow> vm \<Rightarrow> outcome result" where
  "exec_jump op s =
     (if op = OP_JUMP then jump_if True s
      else if op = OP_JREL then bindR (fetch s (cip s)) (\<lambda>offs. running (s\<lparr>cip := cip s + offs + cell_bytes\<rparr>))
      else if op = OP_JZER then jump_if (pri s = 0) s
      else if op = OP_JNZ then jump_if (pri s \<noteq> 0) s
      else if op = OP_JEQ then jump_if (pri s = alt s) s
      else if op = OP_JNEQ then jump_if (pri s \<noteq> alt s) s
      else if op = OP_JLESS then jump_if (pri s < alt s) s
      else if op = OP_JLEQ then jump_if (pri s \<le> alt s) s
      else if op = OP_JGRTR then jump_if (alt s < pri s) s
      else if op = OP_JGEQ then jump_if (alt s \<le> pri s) s
      else if op = OP_JSLESS then jump_if (pri s <s alt s) s
      else if op = OP_JSLEQ then jump_if (pri s \<le>s alt s) s
      else if op = OP_JSGRTR then jump_if (alt s <s pri s) s
      else jump_if (alt s \<le>s pri s) s)"

section \<open>Arithmetic\<close>

definition exec_shift :: "cell \<Rightarrow> vm \<Rightarrow> outcome result" where
  "exec_shift op s =
     (if op = OP_SHL then bindR (shift push_bit (alt s) (pri s)) (\<lambda>v. running (s\<lparr>pri := v\<rparr>))
      else if op = OP_SHR then bindR (shift drop_bit (alt s) (pri s)) (\<lambda>v. running (s\<lparr>pri := v\<rparr>))
      else if op = OP_SSHR then bindR (shift signed_drop_bit (alt s) (pri s)) (\<lambda>v. running (s\<lparr>pri := v\<rparr>))
      else if op = OP_SHL_C_PRI then
        get_param s (\<lambda>offs s. bindR (shift push_bit offs (pri s)) (\<lambda>v. running (s\<lparr>pri := v\<rparr>)))
      else if op = OP_SHL_C_ALT then
        get_param s (\<lambda>offs s. bindR (shift push_bit offs (alt s)) (\<lambda>v. running (s\<lparr>alt := v\<rparr>)))
      else if op = OP_SHR_C_PRI then
        get_param s (\<lambda>offs s. bindR (shift drop_bit offs (pri s)) (\<lambda>v. running (s\<lparr>pri := v\<rparr>)))
      else
        get_param s (\<lambda>offs s. bindR (shift drop_bit offs (alt s)) (\<lambda>v. running (s\<lparr>alt := v\<rparr>))))"

text \<open>The signed division rounds down: first the modulus with the sign of the divisor, then the
  division without remainder.\<close>

definition sdivide :: "cell \<Rightarrow> cell \<Rightarrow> (cell \<times> cell) result" where
  "sdivide a b =
     (if div_traps a b then Inl ArithUndefined
      else let offs = cmod (cmod a b + b) b in Inr (cdiv (a - offs) b, offs))"

definition exec_arith :: "cell \<Rightarrow> vm \<Rightarrow> outcome result" where
  "exec_arith op s =
     (if op = OP_SMUL then running (s\<lparr>pri := pri s * alt s\<rparr>)
      else if op = OP_SDIV then
        if alt s = 0 then abort AMX_ERR_DIVIDE s
        else bindR (sdivide (pri s) (alt s)) (\<lambda>(q, r). running (s\<lparr>pri := q, alt := r\<rparr>))
      else if op = OP_SDIV_ALT then
        if pri s = 0 then abort AMX_ERR_DIVIDE s
        else bindR (sdivide (alt s) (pri s)) (\<lambda>(q, r). running (s\<lparr>pri := q, alt := r\<rparr>))
      else if op = OP_UMUL then running (s\<lparr>pri := pri s * alt s\<rparr>)
      else if op = OP_UDIV then
        if alt s = 0 then abort AMX_ERR_DIVIDE s
        else running (s\<lparr>pri := pri s div alt s, alt := pri s mod alt s\<rparr>)
      else if op = OP_UDIV_ALT then
        if pri s = 0 then abort AMX_ERR_DIVIDE s
        else running (s\<lparr>pri := alt s div pri s, alt := alt s mod pri s\<rparr>)
      else if op = OP_ADD then running (s\<lparr>pri := pri s + alt s\<rparr>)
      else if op = OP_SUB then running (s\<lparr>pri := pri s - alt s\<rparr>)
      else if op = OP_SUB_ALT then running (s\<lparr>pri := alt s - pri s\<rparr>)
      else if op = OP_AND then running (s\<lparr>pri := pri s AND alt s\<rparr>)
      else if op = OP_OR then running (s\<lparr>pri := pri s OR alt s\<rparr>)
      else if op = OP_XOR then running (s\<lparr>pri := pri s XOR alt s\<rparr>)
      else if op = OP_NOT then running (s\<lparr>pri := of_flag (pri s = 0)\<rparr>)
      else if op = OP_NEG then running (s\<lparr>pri := - pri s\<rparr>)
      else if op = OP_INVERT then running (s\<lparr>pri := NOT (pri s)\<rparr>)
      else if op = OP_ADD_C then get_param s (\<lambda>offs s. running (s\<lparr>pri := pri s + offs\<rparr>))
      else if op = OP_SMUL_C then get_param s (\<lambda>offs s. running (s\<lparr>pri := pri s * offs\<rparr>))
      else if op = OP_ZERO_PRI then running (s\<lparr>pri := 0\<rparr>)
      else if op = OP_ZERO_ALT then running (s\<lparr>alt := 0\<rparr>)
      else if op = OP_ZERO then get_param s (\<lambda>offs s. store_at offs 0 s)
      else if op = OP_ZERO_S then get_param s (\<lambda>offs s. store_at (frm s + offs) 0 s)
      else if op = OP_SIGN_PRI then
        running (if 0x80 \<le> pri s AND 0xff then s\<lparr>pri := pri s OR NOT 0xff\<rparr> else s)
      else
        running (if 0x80 \<le> alt s AND 0xff then s\<lparr>alt := alt s OR NOT 0xff\<rparr> else s))"

section \<open>Comparison, increment and decrement\<close>

definition exec_compare :: "cell \<Rightarrow> vm \<Rightarrow> outcome result" where
  "exec_compare op s =
     (if op = OP_EQ then running (s\<lparr>pri := of_flag (pri s = alt s)\<rparr>)
      else if op = OP_NEQ then running (s\<lparr>pri := of_flag (pri s \<noteq> alt s)\<rparr>)
      else if op = OP_LESS then running (s\<lparr>pri := of_flag (pri s < alt s)\<rparr>)
      else if op = OP_LEQ then running (s\<lparr>pri := of_flag (pri s \<le> alt s)\<rparr>)
      else if op = OP_GRTR then running (s\<lparr>pri := of_flag (alt s < pri s)\<rparr>)
      else if op = OP_GEQ then running (s\<lparr>pri := of_flag (alt s \<le> pri s)\<rparr>)
      else if op = OP_SLESS then running (s\<lparr>pri := of_flag (pri s <s alt s)\<rparr>)
      else if op = OP_SLEQ then running (s\<lparr>pri := of_flag (pri s \<le>s alt s)\<rparr>)
      else if op = OP_SGRTR then running (s\<lparr>pri := of_flag (alt s <s pri s)\<rparr>)
      else if op = OP_SGEQ then running (s\<lparr>pri := of_flag (alt s \<le>s pri s)\<rparr>)
      else if op = OP_EQ_C_PRI then get_param s (\<lambda>offs s. running (s\<lparr>pri := of_flag (pri s = offs)\<rparr>))
      else get_param s (\<lambda>offs s. running (s\<lparr>pri := of_flag (alt s = offs)\<rparr>)))"

definition add_at :: "cell \<Rightarrow> cell \<Rightarrow> vm \<Rightarrow> outcome result" where
  "add_at p n s = bindR (rd s p) (\<lambda>v. store_at p (v + n) s)"

definition exec_incdec :: "cell \<Rightarrow> vm \<Rightarrow> outcome result" where
  "exec_incdec op s =
     (if op = OP_INC_PRI then running (s\<lparr>pri := pri s + 1\<rparr>)
      else if op = OP_INC_ALT then running (s\<lparr>alt := alt s + 1\<rparr>)
      else if op = OP_INC then get_param s (\<lambda>offs. add_at offs 1)
      else if op = OP_INC_S then get_param s (\<lambda>offs s. add_at (frm s + offs) 1 s)
      else if op = OP_INC_I then add_at (pri s) 1 s
      else if op = OP_DEC_PRI then running (s\<lparr>pri := pri s - 1\<rparr>)
      else if op = OP_DEC_ALT then running (s\<lparr>alt := alt s - 1\<rparr>)
      else if op = OP_DEC then get_param s (\<lambda>offs. add_at offs (- 1))
      else if op = OP_DEC_S then get_param s (\<lambda>offs s. add_at (frm s + offs) (- 1) s)
      else add_at (pri s) (- 1) s)"

section \<open>Blocks\<close>

text \<open>\<open>memcpy\<close> and \<open>memcmp\<close>: the count is converted to an unsigned number, and only the sign of a
  comparison is defined. A copy between blocks that overlap is undefined.\<close>

definition copy_bytes :: "cell \<Rightarrow> cell \<Rightarrow> cell \<Rightarrow> mem \<Rightarrow> mem" where
  "copy_bytes dst source n m = (\<lambda>x. if x - dst < n then m (source + (x - dst)) else m x)"

definition overlap :: "cell \<Rightarrow> cell \<Rightarrow> cell \<Rightarrow> bool" where
  "overlap a b n \<longleftrightarrow> a - b < n \<or> b - a < n"

fun compare_bytes :: "nat \<Rightarrow> cell \<Rightarrow> cell \<Rightarrow> mem \<Rightarrow> cell" where
  "compare_bytes 0 a b m = 0"
| "compare_bytes (Suc n) a b m =
     (if m a = m b then compare_bytes n (a + 1) (b + 1) m else if m a < m b then -1 else 1)"

fun fill_cells :: "nat \<Rightarrow> cell \<Rightarrow> vm \<Rightarrow> outcome result" where
  "fill_cells 0 p s = running s"
| "fill_cells (Suc n) p s = bindR (wr p (pri s) s) (fill_cells n (p + cell_bytes))"

definition exec_block :: "cell \<Rightarrow> vm \<Rightarrow> outcome result" where
  "exec_block op s =
     (if op = OP_MOVS then
        get_param s (\<lambda>offs s.
          if bad_addr s (pri s) \<or> bad_end s (pri s + offs) \<or> bad_addr s (alt s) \<or> bad_end s (alt s + offs)
          then abort AMX_ERR_MEMACCESS s
          else if in_data (amx s) (pri s) (unat offs) \<and> in_data (amx s) (alt s) (unat offs)
          then if overlap (alt s) (pri s) offs then Inl OverlappingCopy
               else running (set_data (copy_bytes (alt s) (pri s) offs (a_data (amx s))) s)
          else Inl BufferOverflow)
      else if op = OP_CMPS then
        get_param s (\<lambda>offs s.
          if bad_addr s (pri s) \<or> bad_end s (pri s + offs) \<or> bad_addr s (alt s) \<or> bad_end s (alt s + offs)
          then abort AMX_ERR_MEMACCESS s
          else if in_data (amx s) (pri s) (unat offs) \<and> in_data (amx s) (alt s) (unat offs)
          then running (s\<lparr>pri := compare_bytes (unat offs) (alt s) (pri s) (a_data (amx s))\<rparr>)
          else Inl BufferOverflow)
      else
        get_param s (\<lambda>offs s.
          if bad_addr s (alt s) \<or> bad_end s (alt s + offs) then abort AMX_ERR_MEMACCESS s
          else fill_cells (unat offs div 4) (alt s) s))"

section \<open>Leaving the machine\<close>

definition save_registers :: "vm \<Rightarrow> vm" where
  "save_registers s = s\<lparr>amx := (amx s)\<lparr>a_cip := cip s, a_hea := hea s, a_frm := frm s, a_stk := stk s,
     a_pri := pri s, a_alt := alt s\<rparr>\<rparr>"

definition save_reset :: "vm \<Rightarrow> vm" where
  "save_reset s = s\<lparr>amx := (amx s)\<lparr>a_reset_stk := reset_stk s, a_reset_hea := reset_hea s\<rparr>\<rparr>"

text \<open>After a function of the host: an error ends the program, and so does a request to sleep, for
  which the registers are kept.\<close>

definition after_host :: "int \<Rightarrow> vm \<Rightarrow> outcome result" where
  "after_host num s =
     (if num = AMX_ERR_NONE then running s
      else if num = AMX_ERR_SLEEP then
        return_code num (save_reset (s\<lparr>amx := (amx s)\<lparr>a_pri := pri s, a_alt := alt s\<rparr>\<rparr>))
      else abort num s)"

definition sysreq :: "host \<Rightarrow> cell \<Rightarrow> vm \<Rightarrow> outcome result" where
  "sysreq H index s =
     (let t = save_registers s
      in case callback H index (amx t) of (num, v, a) \<Rightarrow> after_host num (t\<lparr>amx := a, pri := v\<rparr>))"

text \<open>\<open>sysreq.d\<close> returns the variable \<open>num\<close> for a sleep, which is not the result of its call and is
  usually not set.\<close>

definition sysreq_direct :: "host \<Rightarrow> cell \<Rightarrow> vm \<Rightarrow> outcome result" where
  "sysreq_direct H fn s =
     (let t = save_registers s
      in case native_at H fn (amx t) of (v, a) \<Rightarrow>
        let u = t\<lparr>amx := a, pri := v\<rparr>
        in if a_error a = AMX_ERR_NONE then running u
           else if a_error a = AMX_ERR_SLEEP then Inl Uninitialised
           else abort (a_error a) u)"

definition exec_leave :: "host \<Rightarrow> cell \<Rightarrow> vm \<Rightarrow> outcome result" where
  "exec_leave H op s =
     (if op = OP_HALT then
        get_param s (\<lambda>offs s.
          let t = s\<lparr>retval := Some (pri s), amx := (amx s)\<lparr>a_frm := frm s, a_pri := pri s, a_alt := alt s, a_cip := cip s\<rparr>\<rparr>
          in if sint offs = AMX_ERR_SLEEP then return_code (sint offs) (save_reset t) else abort (sint offs) t)
      else if op = OP_BOUNDS then
        get_param s (\<lambda>offs s. if offs < pri s then abort AMX_ERR_BOUNDS s else running s)
      else if op = OP_SYSREQ_PRI then sysreq H (pri s) s
      else get_param s (\<lambda>offs. sysreq H offs))"

section \<open>Debug information, switches and floats\<close>

fun find_case :: "nat \<Rightarrow> cell \<Rightarrow> vm \<Rightarrow> cell option result" where
  "find_case 0 p s = Inr None"
| "find_case (Suc n) p s =
     bindR (fetch s p) (\<lambda>v. if v = pri s then Inr (Some p) else find_case n (p + 8) s)"

definition switch_jump :: "vm \<Rightarrow> outcome result" where
  "switch_jump s =
     bindR (jumpabs s (cip s)) (\<lambda>t.
       let cptr = t + 4
       in bindR (jumpabs s (cptr + 4)) (\<lambda>none. bindR (fetch s cptr) (\<lambda>num.
            bindR (find_case (nat (sint num)) (cptr + 8) s) (\<lambda>c.
              case c of None \<Rightarrow> running (s\<lparr>cip := none\<rparr>)
              | Some p \<Rightarrow> bindR (jumpabs s (p + 4)) (\<lambda>target. running (s\<lparr>cip := target\<rparr>))))))"

definition exec_misc :: "cell \<Rightarrow> vm \<Rightarrow> outcome result" where
  "exec_misc op s =
     (if op = OP_LINE then running (s\<lparr>cip := cip s + 8\<rparr>)
      else if op = OP_SYMBOL then get_param s (\<lambda>offs s. running (s\<lparr>cip := cip s + offs\<rparr>))
      else if op = OP_SRANGE then running (s\<lparr>cip := cip s + 8\<rparr>)
      else if op = OP_JUMP_PRI then running (s\<lparr>cip := pri s\<rparr>)
      else if op = OP_SWITCH then switch_jump s
      else if op = OP_SWAP_PRI then
        bindR (rd s (stk s)) (\<lambda>v. bindR (wr (stk s) (pri s) s) (\<lambda>s. running (s\<lparr>pri := v\<rparr>)))
      else if op = OP_SWAP_ALT then
        bindR (rd s (stk s)) (\<lambda>v. bindR (wr (stk s) (alt s) s) (\<lambda>s. running (s\<lparr>alt := v\<rparr>)))
      else if op = OP_PUSHADDR then get_param s (\<lambda>offs s. push_next (frm s + offs) s)
      else if op = OP_NOP then running s
      else if op = OP_SYMTAG then running (s\<lparr>cip := cip s + 4\<rparr>)
      else Inl AssertFail)"

definition stack_args :: "vm \<Rightarrow> (cell \<Rightarrow> cell \<Rightarrow> cell) \<Rightarrow> outcome result" where
  "stack_args s f =
     bindR (rd s (stk s + 4)) (\<lambda>a. bindR (rd s (stk s + 8)) (\<lambda>b. running (s\<lparr>pri := f a b\<rparr>)))"

definition exec_float :: "host \<Rightarrow> cell \<Rightarrow> vm \<Rightarrow> outcome result" where
  "exec_float H op s =
     (if op = OP_FLOAT_MUL then stack_args s (f_mul H)
      else if op = OP_FLOAT_DIV then stack_args s (f_div H)
      else if op = OP_FLOAT_ADD then stack_args s (f_add H)
      else if op = OP_FLOAT_SUB then stack_args s (f_sub H)
      else if op = OP_FLOAT_TO then bindR (rd s (stk s + 4)) (\<lambda>a. running (s\<lparr>pri := f_of_cell H a\<rparr>))
      else if op = OP_FLOAT_ROUND then
        stack_args s (\<lambda>a b. if b = 0 then f_round_half H a else if b = 1 then f_floor H a else f_ceil H a)
      else stack_args s (\<lambda>a b. if f_eq H a b then 0 else if f_gt H a b then 1 else -1))"

definition exec_break :: "host \<Rightarrow> vm \<Rightarrow> outcome result" where
  "exec_break H s =
     bindR (assertR (a_flags (amx s) AND AMX_FLAG_BROWSE = 0)) (\<lambda>_.
       if a_debug (amx s) then
         let t = save_registers s in case debug_hook H (amx t) of (num, a) \<Rightarrow> after_host num (t\<lparr>amx := a\<rparr>)
       else running s)"

section \<open>The interpreter\<close>

text \<open>The switch. The cases are in the order of the enumeration, except for the last ones.\<close>

definition exec_op :: "host \<Rightarrow> cell \<Rightarrow> vm \<Rightarrow> outcome result" where
  "exec_op H op s =
     (if op = OP_NONE then Inl AssertFail
      else if op < OP_STOR_PRI then exec_load op s
      else if op < OP_LIDX then exec_store op s
      else if op < OP_LCTRL then exec_index op s
      else if op < OP_MOVE_PRI then exec_control op s
      else if op < OP_PROC then exec_stack op s
      else if op < OP_JUMP then exec_call op s
      else if op < OP_SHL then exec_jump op s
      else if op < OP_SMUL then exec_shift op s
      else if op < OP_EQ then exec_arith op s
      else if op < OP_INC_PRI then exec_compare op s
      else if op < OP_MOVS then exec_incdec op s
      else if op < OP_HALT then exec_block op s
      else if op < OP_FILE then exec_leave H op s
      else if op = OP_SYSREQ_D then get_param s (\<lambda>offs. sysreq_direct H offs)
      else if op = OP_BREAK then exec_break H s
      else if OP_FLOAT_MUL \<le> op \<and> op \<le> OP_FLOAT_CMP then exec_float H op s
      else exec_misc op s)"

definition step :: "host \<Rightarrow> vm \<Rightarrow> outcome result" where
  "step H s = bindR (fetch s (cip s)) (\<lambda>op. exec_op H op (s\<lparr>cip := cip s + 4\<rparr>))"

text \<open>The endless loop need not end: without a return after \<open>n\<close> instructions the result is open.\<close>

fun run :: "nat \<Rightarrow> host \<Rightarrow> vm \<Rightarrow> outcome result" where
  "run 0 H s = running s"
| "run (Suc n) H s = bindR (step H s) (\<lambda>r. case r of Running t \<Rightarrow> run n H t | Returned e t \<Rightarrow> return_code e t)"

section \<open>Entry\<close>

text \<open>Everything before the loop: the checks, the registers, the start address, and the number of
  parameters and a zero return address on the stack.\<close>

definition bad_index :: "int \<Rightarrow> header \<Rightarrow> bool" where
  "bad_index index hdr \<longleftrightarrow>
     (if index = AMX_EXEC_MAIN then h_cip hdr <s 0
      else if index = AMX_EXEC_CONT then False
      else index < 0 \<or> int (length (h_publics hdr)) \<le> index)"

definition start_registers :: "int \<Rightarrow> amx \<Rightarrow> vm" where
  "start_registers index a =
     (if index = AMX_EXEC_CONT
      then \<lparr>amx = a, pri = a_pri a, alt = a_alt a, stk = a_stk a, frm = a_frm a, hea = a_hea a,
            reset_stk = a_reset_stk a, reset_hea = a_reset_hea a, cip = a_cip a, retval = None\<rparr>
      else \<lparr>amx = a, pri = 0, alt = 0, stk = a_stk a, frm = 0, hea = a_hea a,
            reset_stk = a_stk a, reset_hea = a_hea a,
            cip = if index = AMX_EXEC_MAIN then h_cip (a_base a)
              else if bad_index index (a_base a) then 0 else fs_address (h_publics (a_base a) ! nat index),
            retval = None\<rparr>)"

definition push_entry :: "int \<Rightarrow> vm \<Rightarrow> vm result" where
  "push_entry index s =
     (if index = AMX_EXEC_CONT then Inr s
      else bindR (push (a_paramcount (amx s) * cell_bytes)
                   (s\<lparr>reset_stk := reset_stk s + a_paramcount (amx s) * cell_bytes\<rparr>)) (\<lambda>t.
             push 0 (t\<lparr>amx := (amx t)\<lparr>a_paramcount := 0\<rparr>\<rparr>)))"

definition amx_exec_start :: "int \<Rightarrow> amx \<Rightarrow> outcome result" where
  "amx_exec_start index a =
     (let s = start_registers index a
      in if \<not> a_callback a then return_code AMX_ERR_CALLBACK s
         else if a_flags a AND AMX_FLAG_PRENIT = 0 \<and> a_flags a AND AMX_FLAG_NTVREG = 0
         then return_code AMX_ERR_NOTFOUND s
         else if a_flags a AND AMX_FLAG_RELOC = 0 then return_code AMX_ERR_INIT s
         else bindR (assertR (a_flags a AND AMX_FLAG_BROWSE = 0 \<and> h_magic (a_base a) = AMX_MAGIC)) (\<lambda>_.
           if bad_index index (a_base a) then return_code AMX_ERR_INDEX s
           else chkstack s (chkheap s (bindR (push_entry index s) (\<lambda>t. chkmargin t (running t))))))"

definition amx_exec :: "nat \<Rightarrow> host \<Rightarrow> int \<Rightarrow> amx \<Rightarrow> outcome result" where
  "amx_exec n H index a =
     bindR (amx_exec_start index a) (\<lambda>r. case r of Running s \<Rightarrow> run n H s | Returned e s \<Rightarrow> return_code e s)"

end
