(* ===== verification/ScFold.thy ===== *)
theory ScFold
  imports ScGen AmxExec
begin

text \<open>
  Constant expressions (sc3.c): \<open>calc\<close> computes the value of a binary operator on constants while the
  code for the same operator, when an operand is not constant, is left to the abstract machine. The
  operators are the functions of sc4.c, which sc3.c uses as their names. The theory shows that both
  give the same result: the lines of an operator, assembled and run by \<open>amx_Exec\<close>, compute \<open>calc\<close>.
\<close>

section \<open>The operators\<close>

datatype binop = Os_mult | Os_div | Os_mod | Ob_add | Ob_sub | Ob_sal | Os_sar | Ou_sar | Ob_and | Ob_xor | Ob_or
  | Os_le | Os_ge | Os_lt | Os_gt | Ob_eq | Ob_ne

definition op1 :: "binop list" where
  "op1 = [Os_mult, Os_div, Os_mod, Ob_add, Ob_sub, Ob_sal, Os_sar, Ou_sar, Ob_and, Ob_xor, Ob_or,
          Os_le, Os_ge, Os_lt, Os_gt, Ob_eq, Ob_ne]"

text \<open>What calling an operator does: it writes its code.\<close>

fun generate :: "binop \<Rightarrow> act" where
  "generate Os_mult = os_mult" | "generate Os_div = os_div" | "generate Os_mod = os_mod"
| "generate Ob_add = ob_add" | "generate Ob_sub = ob_sub" | "generate Ob_sal = ob_sal"
| "generate Os_sar = os_sar" | "generate Ou_sar = ou_sar" | "generate Ob_and = ob_and"
| "generate Ob_xor = ob_xor" | "generate Ob_or = ob_or" | "generate Os_le = os_le"
| "generate Os_ge = os_ge" | "generate Os_lt = os_lt" | "generate Os_gt = os_gt"
| "generate Ob_eq = ob_eq" | "generate Ob_ne = ob_ne"

definition commutative :: "binop \<Rightarrow> bool" where
  "commutative oper \<longleftrightarrow> oper = Ob_add \<or> oper = Os_mult \<or> oper = Ob_eq \<or> oper = Ob_ne
     \<or> oper = Ob_and \<or> oper = Ob_xor \<or> oper = Ob_or"

text \<open>The number of bits by which a constant index is shifted to become an address.\<close>

definition dbltest :: "binop \<Rightarrow> lvalue \<Rightarrow> lvalue \<Rightarrow> nat" where
  "dbltest oper lval1 lval2 =
     (if oper \<noteq> Ob_add \<and> oper \<noteq> Ob_sub then 0
      else if lident lval1 \<noteq> iARRAY then 0
      else if lident lval2 = iARRAY then 0
      else 2)"

section \<open>Folding\<close>

text \<open>\<open>%\<close> and \<open>/\<close> of C by zero, and of the least cell by -1, have no result; neither is tested before.\<close>

definition truemodulus :: "cell \<Rightarrow> cell \<Rightarrow> cell result" where
  "truemodulus a b =
     (if b = 0 \<or> div_traps a b then Inl ArithUndefined else Inr (cmod (cmod a b + b) b))"

text \<open>The result and the truth value of a chain of comparisons so far. A comparison gives its right
  operand, which is the left one of the next comparison of the chain.\<close>

fun calc :: "cell \<Rightarrow> binop \<Rightarrow> cell \<Rightarrow> bool \<Rightarrow> (cell \<times> bool) result" where
  "calc left Ob_or right b = Inr (left OR right, b)"
| "calc left Ob_xor right b = Inr (left XOR right, b)"
| "calc left Ob_and right b = Inr (left AND right, b)"
| "calc left Ob_eq right b = Inr (of_flag (left = right), b)"
| "calc left Ob_ne right b = Inr (of_flag (left \<noteq> right), b)"
| "calc left Os_le right b = Inr (right, b \<and> left \<le>s right)"
| "calc left Os_ge right b = Inr (right, b \<and> right \<le>s left)"
| "calc left Os_lt right b = Inr (right, b \<and> left <s right)"
| "calc left Os_gt right b = Inr (right, b \<and> right <s left)"
| "calc left Os_sar right b = bindR (shift signed_drop_bit right left) (\<lambda>v. Inr (v, b))"
| "calc left Ou_sar right b = bindR (shift drop_bit right left) (\<lambda>v. Inr (v, b))"
| "calc left Ob_sal right b = bindR (shift push_bit right left) (\<lambda>v. Inr (v, b))"
| "calc left Ob_add right b = Inr (left + right, b)"
| "calc left Ob_sub right b = Inr (left - right, b)"
| "calc left Os_mult right b = Inr (left * right, b)"
| "calc left Os_div right b = bindR (truemodulus left right) (\<lambda>m. Inr (cdiv (left - m) right, b))"
| "calc left Os_mod right b = bindR (truemodulus left right) (\<lambda>m. Inr (m, b))"

definition relational :: "binop \<Rightarrow> bool" where
  "relational oper \<longleftrightarrow> oper \<in> {Os_le, Os_ge, Os_lt, Os_gt}"

section \<open>From operator to code\<close>

text \<open>The instructions of an operator, and the opcodes that the assembler has for them.\<close>

fun op_names :: "binop \<Rightarrow> string list" where
  "op_names Os_mult = [''smul'']" | "op_names Os_div = [''sdiv.alt'']" | "op_names Os_mod = [''sdiv.alt'', ''move.pri'']"
| "op_names Ob_add = [''add'']" | "op_names Ob_sub = [''sub.alt'']" | "op_names Ob_sal = [''xchg'', ''shl'']"
| "op_names Os_sar = [''xchg'', ''sshr'']" | "op_names Ou_sar = [''xchg'', ''shr'']" | "op_names Ob_and = [''and'']"
| "op_names Ob_xor = [''xor'']" | "op_names Ob_or = [''or'']" | "op_names Os_le = [''xchg'', ''sleq'']"
| "op_names Os_ge = [''xchg'', ''sgeq'']" | "op_names Os_lt = [''xchg'', ''sless'']" | "op_names Os_gt = [''xchg'', ''sgrtr'']"
| "op_names Ob_eq = [''eq'']" | "op_names Ob_ne = [''neq'']"

definition instr_code :: "string \<Rightarrow> cell" where
  "instr_code nm = (case findopcode nm of Inr i \<Rightarrow> op_code (opcodelist ! i) | Inl e \<Rightarrow> 0)"

definition oper_code :: "binop \<Rightarrow> cell list" where "oper_code oper = map instr_code (op_names oper)"

lemma instr_codes:
  "map instr_code [''smul'', ''sdiv.alt'', ''move.pri'', ''add'', ''sub.alt'', ''xchg'', ''shl'', ''sshr'', ''shr'', ''and'',
     ''xor'', ''or'', ''sleq'', ''sgeq'', ''sless'', ''sgrtr'', ''eq'', ''neq'']
   = [OP_SMUL, OP_SDIV_ALT, OP_MOVE_PRI, OP_ADD, OP_SUB_ALT, OP_XCHG, OP_SHL, OP_SSHR, OP_SHR, OP_AND,
      OP_XOR, OP_OR, OP_SLEQ, OP_SGEQ, OP_SLESS, OP_SGRTR, OP_EQ, OP_NEQ]"
  by code_simp

text \<open>Instructions without operands, one after the other.\<close>

fun exec_seq :: "host \<Rightarrow> cell list \<Rightarrow> vm \<Rightarrow> outcome result" where
  "exec_seq H [] s = running s"
| "exec_seq H (c # cs) s =
     bindR (exec_op H c s) (\<lambda>r. case r of Running t \<Rightarrow> exec_seq H cs t | Returned e t \<Rightarrow> return_code e t)"

lemmas oper_defs = os_mult_def os_div_def os_mod_def ob_add_def ob_sub_def ob_sal_def os_sar_def ou_sar_def ob_and_def
  ob_xor_def ob_or_def os_le_def os_ge_def os_lt_def os_gt_def ob_eq_def ob_ne_def

lemma generate_emits:
  "emits (generate oper) {(concat (map (\<lambda>nm. tab @ nm @ nl) (op_names oper)), opcodes (of_nat (length (op_names oper))))}"
proof -
  have one: "emits (block [stgwrite (tab @ nm @ nl), add_code_idx (opcodes 1)]) {(tab @ nm @ nl, opcodes 1)}"
    if "NUL \<notin> set nm" for nm
    by (rule emits_mono, (rule emits_intros | (use that in simp; fail))+)
  have two: "emits (block [stgwrite (tab @ nm @ nl), stgwrite (tab @ nm' @ nl), add_code_idx (opcodes 2)])
      {((tab @ nm @ nl) @ tab @ nm' @ nl, opcodes 2)}" if "NUL \<notin> set nm" "NUL \<notin> set nm'" for nm nm'
    by (rule emits_mono, (rule emits_intros | (use that in simp; fail))+)
  show ?thesis
    by (cases oper) (simp_all add: oper_defs one two numeral_2_eq_2 del: append.simps append_assoc)
qed

text \<open>The left operand is in \<open>alt\<close>, the right one in \<open>pri\<close>.\<close>

lemma machine_calculates:
  "case calc left oper right True of
     Inr (v, b) \<Rightarrow> \<exists>t. exec_seq H (oper_code oper) (s\<lparr>pri := right, alt := left\<rparr>) = running t
       \<and> pri t = (if relational oper then of_flag b else v) \<and> stk t = stk s \<and> hea t = hea s \<and> amx t = amx s
   | Inl e \<Rightarrow> e = ArithUndefined
       \<and> (if (oper = Os_div \<or> oper = Os_mod) \<and> right = 0
          then \<exists>t. exec_seq H (oper_code oper) (s\<lparr>pri := right, alt := left\<rparr>) = return_code AMX_ERR_DIVIDE t
          else exec_seq H (oper_code oper) (s\<lparr>pri := right, alt := left\<rparr>) = Inl ArithUndefined)"
  using instr_codes
  by (cases oper) (auto simp: oper_code_def exec_op_def exec_arith_def exec_stack_def exec_shift_def exec_compare_def
      shift_def truemodulus_def sdivide_def Let_def relational_def abort_def
      and.commute [of right left] or.commute [of right left] xor.commute [of right left] eq_commute [of right left] add.commute [of right left]
      mult.commute [of right left])

lemma commutative_swap:
  "commutative oper \<Longrightarrow> calc left oper right b = calc right oper left b"
  by (auto simp: commutative_def and.commute or.commute xor.commute add.commute mult.commute eq_commute)

text \<open>C12 (constant folding, sc3.c and \<open>amx_Exec\<close>): the compiler computes what the machine would. Every
  operator writes the lines of its instructions and counts their bytes; running their opcodes on the
  left operand in \<open>alt\<close> and the right one in \<open>pri\<close> leaves the result of \<open>calc\<close> in \<open>pri\<close>, for a
  comparison its truth value, and changes neither stack nor memory. Where \<open>calc\<close> has no result, the
  machine has none either, except that it reports a division by zero, at which the compiler traps.\<close>
theorem folding_agrees_with_machine:
  "emits (generate oper) {(concat (map (\<lambda>nm. tab @ nm @ nl) (op_names oper)), opcodes (of_nat (length (op_names oper))))}
   \<and> (case calc left oper right True of
        Inr (v, b) \<Rightarrow> \<exists>t. exec_seq H (oper_code oper) (s\<lparr>pri := right, alt := left\<rparr>) = running t
          \<and> pri t = (if relational oper then of_flag b else v) \<and> stk t = stk s \<and> hea t = hea s \<and> amx t = amx s
      | Inl e \<Rightarrow> e = ArithUndefined
          \<and> (if (oper = Os_div \<or> oper = Os_mod) \<and> right = 0
             then \<exists>t. exec_seq H (oper_code oper) (s\<lparr>pri := right, alt := left\<rparr>) = return_code AMX_ERR_DIVIDE t
             else exec_seq H (oper_code oper) (s\<lparr>pri := right, alt := left\<rparr>) = Inl ArithUndefined))"
  by (rule conjI [OF generate_emits machine_calculates])

end
