(* ===== verification/AmxApi.thy ===== *)
theory AmxApi
  imports AmxExec
begin

text \<open>
  The functions by which the host works with a program (src/amxmodx/amx.cpp): the stack and heap of
  the machine from outside, the tables of public functions, natives and public variables, the
  registration of natives, and the callback for natives. A function returns its error code with the
  results that it stores through its arguments, None where it stores nothing, and the machine.
\<close>

section \<open>Header\<close>

definition amx_Flags :: "amx \<Rightarrow> int \<times> cell" where
  "amx_Flags a =
     (let h = a_base a
      in if h_magic h \<noteq> AMX_MAGIC then (AMX_ERR_FORMAT, 0)
         else if CUR_FILE_VERSION < h_file_version h \<or> h_amx_version h < MIN_FILE_VERSION then (AMX_ERR_VERSION, 0)
         else (AMX_ERR_NONE, h_flags h))"

definition amx_MemInfo :: "amx \<Rightarrow> int \<times> (cell \<times> cell \<times> cell) option" where
  "amx_MemInfo a =
     (let h = a_base a
      in if h_magic h \<noteq> AMX_MAGIC then (AMX_ERR_FORMAT, None)
         else if CUR_FILE_VERSION < h_file_version h \<or> h_amx_version h < MIN_FILE_VERSION then (AMX_ERR_VERSION, None)
         else (AMX_ERR_NONE, Some (h_dat h - h_cod h, h_hea h - h_dat h, h_stp h - h_hea h)))"

definition amx_NameLength :: "amx \<Rightarrow> (int \<times> nat) result" where
  "amx_NameLength a =
     (let h = a_base a
      in bindR (assertR (h_magic h = AMX_MAGIC)) (\<lambda>_.
           if h_defsize h = 8
           then bindR (assertR (7 \<le> h_file_version h)) (\<lambda>_. Inr (AMX_ERR_NONE, h_namelength h))
           else Inr (AMX_ERR_NONE, h_defsize h - 4)))"

section \<open>Stack and heap\<close>

definition amx_Push :: "cell \<Rightarrow> amx \<Rightarrow> (int \<times> amx) result" where
  "amx_Push v a =
     (if a_stk a <s a_hea a + STKMARGIN then Inr (AMX_ERR_STACKERR, a)
      else let b = a\<lparr>a_stk := a_stk a - 4, a_paramcount := a_paramcount a + 1\<rparr>
           in if in_data b (a_stk b) 4 then Inr (AMX_ERR_NONE, b\<lparr>a_data := put_cell (a_data b) (a_stk b) v\<rparr>)
              else Inl BufferOverflow)"

text \<open>\<open>cells*sizeof(cell)\<close> is unsigned, and so are the difference and the comparison.\<close>

definition amx_Allot :: "cell \<Rightarrow> amx \<Rightarrow> (int \<times> cell option \<times> amx) result" where
  "amx_Allot cells a =
     bindR (assertR (h_magic (a_base a) = AMX_MAGIC)) (\<lambda>_.
       if a_stk a - a_hea a - cells * cell_bytes < STKMARGIN then Inr (AMX_ERR_MEMORY, None, a)
       else Inr (AMX_ERR_NONE, Some (a_hea a), a\<lparr>a_hea := a_hea a + cells * cell_bytes\<rparr>))"

definition amx_Release :: "cell \<Rightarrow> amx \<Rightarrow> int \<times> amx" where
  "amx_Release p a = (AMX_ERR_NONE, if p <s a_hea a then a\<lparr>a_hea := p\<rparr> else a)"

definition amx_GetAddr :: "cell \<Rightarrow> amx \<Rightarrow> (int \<times> cell option) result" where
  "amx_GetAddr p a =
     bindR (assertR (h_magic (a_base a) = AMX_MAGIC)) (\<lambda>_.
       if a_hea a \<le>s p \<and> p <s a_stk a \<or> p <s 0 \<or> a_stp a \<le>s p then Inr (AMX_ERR_MEMACCESS, None)
       else Inr (AMX_ERR_NONE, Some p))"

fun store_cells :: "cell list \<Rightarrow> cell \<Rightarrow> amx \<Rightarrow> amx result" where
  "store_cells [] p a = Inr a"
| "store_cells (v # vs) p a =
     (if in_data a p 4 then store_cells vs (p + cell_bytes) (a\<lparr>a_data := put_cell (a_data a) p v\<rparr>)
      else Inl BufferOverflow)"

definition amx_PushArray :: "cell list \<Rightarrow> amx \<Rightarrow> (int \<times> cell option \<times> amx) result" where
  "amx_PushArray array a =
     bindR (amx_Allot (of_nat (length array)) a) (\<lambda>r.
       case r of
         (e, Some p, b) \<Rightarrow>
           bindR (store_cells array p b) (\<lambda>c. bindR (amx_Push p c) (\<lambda>(e', d). Inr (e', Some p, d)))
       | (e, None, b) \<Rightarrow> Inr (e, None, b))"

definition amx_RaiseError :: "int \<Rightarrow> amx \<Rightarrow> (int \<times> amx) result" where
  "amx_RaiseError e a = bindR (assertR (0 < e)) (\<lambda>_. Inr (AMX_ERR_NONE, a\<lparr>a_error := e\<rparr>))"

section \<open>Tables\<close>

definition INT_MAX :: int where "INT_MAX = 2147483647"

definition amx_NumPublics :: "amx \<Rightarrow> int" where "amx_NumPublics a = int (length (h_publics (a_base a)))"
definition amx_NumNatives :: "amx \<Rightarrow> int" where "amx_NumNatives a = int (length (h_natives (a_base a)))"
definition amx_NumPubVars :: "amx \<Rightarrow> int" where "amx_NumPubVars a = int (length (h_pubvars (a_base a)))"

text \<open>An entry by its index; a negative index is not tested. The functions assert the magic number of the
  header, which \<open>amx_Init\<close> has tested for every loaded program.\<close>

definition get_entry :: "funcstub list \<Rightarrow> int \<Rightarrow> (int \<times> funcstub option) result" where
  "get_entry entries index =
     (if int (length entries) \<le> index then Inr (AMX_ERR_INDEX, None)
      else if index < 0 then Inl BufferOverflow
      else Inr (AMX_ERR_NONE, Some (entries ! nat index)))"

definition amx_GetPublic :: "int \<Rightarrow> amx \<Rightarrow> (int \<times> string option) result" where
  "amx_GetPublic index a =
     bindR (get_entry (h_publics (a_base a)) index) (\<lambda>(e, f). Inr (e, map_option fs_name f))"

definition amx_GetNative :: "int \<Rightarrow> amx \<Rightarrow> (int \<times> string option) result" where
  "amx_GetNative index a =
     bindR (get_entry (h_natives (a_base a)) index) (\<lambda>(e, f). Inr (e, map_option fs_name f))"

definition amx_GetPubVar :: "int \<Rightarrow> amx \<Rightarrow> (int \<times> (string \<times> cell) option) result" where
  "amx_GetPubVar index a =
     bindR (get_entry (h_pubvars (a_base a)) index) (\<lambda>(e, f). Inr (e, map_option (\<lambda>f. (fs_name f, fs_address f)) f))"

text \<open>The binary search of \<open>amx_FindPublic\<close> and \<open>amx_FindPubVar\<close>: \<open>get\<close> copies the name of an entry into
  a buffer of \<open>sNAMEMAX+1\<close> characters.\<close>

definition copied_name :: "(int \<times> string option) result \<Rightarrow> string result" where
  "copied_name r =
     bindR r (\<lambda>(e, n). case n of None \<Rightarrow> Inl Uninitialised
       | Some s \<Rightarrow> if name_limit < length s then Inl BufferOverflow else Inr s)"

function binary_search :: "(int \<Rightarrow> (int \<times> string option) result) \<Rightarrow> string \<Rightarrow> int \<Rightarrow> int \<Rightarrow> int option result" where
  "binary_search get name lo hi =
     (if lo \<le> hi then
        let mid = (lo + hi) div 2
        in bindR (copied_name (get mid)) (\<lambda>pname.
             let r = strcmp pname name
             in if r > 0 then binary_search get name lo (mid - 1)
                else if r < 0 then binary_search get name (mid + 1) hi
                else Inr (Some mid))
      else Inr None)"
  by pat_completeness auto
termination by (relation "measure (\<lambda>(get, name, lo, hi). nat (hi - lo + 1))") auto

declare binary_search.simps [simp del]

definition amx_FindPublic :: "string \<Rightarrow> amx \<Rightarrow> (int \<times> int) result" where
  "amx_FindPublic name a =
     bindR (binary_search (\<lambda>i. amx_GetPublic i a) name 0 (amx_NumPublics a - 1)) (\<lambda>r.
       case r of Some i \<Rightarrow> Inr (AMX_ERR_NONE, i) | None \<Rightarrow> Inr (AMX_ERR_NOTFOUND, INT_MAX))"

definition amx_FindPubVar :: "string \<Rightarrow> amx \<Rightarrow> (int \<times> cell) result" where
  "amx_FindPubVar name a =
     bindR (binary_search (\<lambda>i. bindR (amx_GetPubVar i a) (\<lambda>(e, v). Inr (e, map_option fst v))) name 0 (amx_NumPubVars a - 1))
       (\<lambda>r. case r of
          Some i \<Rightarrow> bindR (amx_GetPubVar i a) (\<lambda>(e, v). case v of Some (n, p) \<Rightarrow> Inr (AMX_ERR_NONE, p) | None \<Rightarrow> Inl Uninitialised)
        | None \<Rightarrow> Inr (AMX_ERR_NOTFOUND, 0))"

text \<open>\<open>amx_FindNative\<close> searches from the front.\<close>

fun find_native_from :: "nat \<Rightarrow> int \<Rightarrow> string \<Rightarrow> amx \<Rightarrow> int option result" where
  "find_native_from 0 mid name a = Inr None"
| "find_native_from (Suc n) mid name a =
     bindR (copied_name (amx_GetNative mid a)) (\<lambda>pname.
       if strcmp pname name = 0 then Inr (Some mid) else find_native_from n (mid + 1) name a)"

definition amx_FindNative :: "string \<Rightarrow> amx \<Rightarrow> (int \<times> int) result" where
  "amx_FindNative name a =
     bindR (find_native_from (nat (amx_NumNatives a)) 0 name a) (\<lambda>r.
       case r of Some i \<Rightarrow> Inr (AMX_ERR_NONE, i) | None \<Rightarrow> Inr (AMX_ERR_NOTFOUND, INT_MAX))"

section \<open>Natives\<close>

text \<open>A list of native functions with their addresses, \<open>number\<close> of which are searched, all for -1; the
  entry without a name at the end of the list is not part of it. 0 is the null pointer.\<close>

fun find_in :: "string \<Rightarrow> (string \<times> cell) list \<Rightarrow> cell" where
  "find_in name [] = 0"
| "find_in name ((n, f) # fs) = (if name = n then f else find_in name fs)"

definition findfunction :: "string \<Rightarrow> (string \<times> cell) list \<Rightarrow> int \<Rightarrow> cell" where
  "findfunction name lst number = find_in name (if number = -1 then lst else take (nat number) lst)"

definition set_natives :: "funcstub list \<Rightarrow> amx \<Rightarrow> amx" where
  "set_natives fs a = a\<lparr>a_base := (a_base a)\<lparr>h_natives := fs\<rparr>\<rparr>"

text \<open>The result of \<open>amx_Register\<close> is the error code; \<open>no_function\<close> is the last native without a
  function.\<close>

fun register_natives :: "(string \<times> cell) list \<Rightarrow> int \<Rightarrow> funcstub list \<Rightarrow> int \<Rightarrow> string option \<Rightarrow> int \<times> string option \<times> funcstub list" where
  "register_natives lst number [] err nof = (err, nof, [])"
| "register_natives lst number (f # fs) err nof =
     (let p = findfunction (fs_name f) lst number
      in if fs_address f \<noteq> 0 then
           (case register_natives lst number fs err nof of (e, n, gs) \<Rightarrow> (e, n, f # gs))
         else if p \<noteq> 0 then
           (case register_natives lst number fs err nof of (e, n, gs) \<Rightarrow> (e, n, f\<lparr>fs_address := p\<rparr> # gs))
         else
           (case register_natives lst number fs AMX_ERR_NOTFOUND (Some (fs_name f)) of (e, n, gs) \<Rightarrow> (e, n, f # gs)))"

definition amx_Register :: "(string \<times> cell) list \<Rightarrow> int \<Rightarrow> amx \<Rightarrow> (int \<times> string option \<times> amx) result" where
  "amx_Register lst number a =
     bindR (assertR (h_magic (a_base a) = AMX_MAGIC)) (\<lambda>_.
       case register_natives lst number (h_natives (a_base a)) AMX_ERR_NONE None of (e, n, fs) \<Rightarrow>
         let b = set_natives fs a
         in Inr (e, n, if e = AMX_ERR_NONE then b\<lparr>a_flags := a_flags b OR AMX_FLAG_NTVREG\<rparr> else b))"

definition amx_RegisterToAny :: "cell \<Rightarrow> amx \<Rightarrow> (int \<times> amx) result" where
  "amx_RegisterToAny f a =
     bindR (assertR (h_magic (a_base a) = AMX_MAGIC)) (\<lambda>_.
       let b = set_natives (map (\<lambda>s. if fs_address s = 0 then s\<lparr>fs_address := f\<rparr> else s) (h_natives (a_base a))) a
       in Inr (AMX_ERR_NONE, b\<lparr>a_flags := a_flags b OR AMX_FLAG_NTVREG\<rparr>))"

fun reregister_natives :: "(string \<times> cell) list \<Rightarrow> int \<Rightarrow> funcstub list \<Rightarrow> nat \<times> funcstub list" where
  "reregister_natives lst number [] = (0, [])"
| "reregister_natives lst number (f # fs) =
     (let p = findfunction (fs_name f) lst number
      in case reregister_natives lst number fs of (k, gs) \<Rightarrow>
           if fs_address f \<noteq> 0 \<and> p \<noteq> 0 then (k + 1, f\<lparr>fs_address := p\<rparr> # gs) else (k, f # gs))"

definition amx_Reregister :: "(string \<times> cell) list \<Rightarrow> int \<Rightarrow> amx \<Rightarrow> (nat \<times> amx) result" where
  "amx_Reregister lst number a =
     bindR (assertR (h_magic (a_base a) = AMX_MAGIC)) (\<lambda>_.
       case reregister_natives lst number (h_natives (a_base a)) of (k, fs) \<Rightarrow> Inr (k, set_natives fs a))"

text \<open>The filter \<open>nf\<close> of \<open>amx_CheckNatives\<close> is a function of the host; it is asked about every native
  without a function until it refuses one.\<close>

fun check_natives :: "(nat \<Rightarrow> bool) \<Rightarrow> nat \<Rightarrow> funcstub list \<Rightarrow> int \<times> string option" where
  "check_natives nf i [] = (1, None)"
| "check_natives nf i (f # fs) =
     (if fs_address f = 0 \<and> \<not> nf i then (0, Some (fs_name f)) else check_natives nf (i + 1) fs)"

definition amx_CheckNatives :: "(nat \<Rightarrow> bool) \<Rightarrow> amx \<Rightarrow> (int \<times> string option) result" where
  "amx_CheckNatives nf a =
     bindR (assertR (h_magic (a_base a) = AMX_MAGIC)) (\<lambda>_. Inr (check_natives nf 0 (h_natives (a_base a))))"

text \<open>\<open>amx_Callback\<close>: \<open>fn\<close> runs the native function at an address. The result is the error code that the
  native left, the value for \<open>pri\<close> and the machine.\<close>

definition amx_Callback :: "(cell \<Rightarrow> amx \<Rightarrow> cell \<times> amx) \<Rightarrow> cell \<Rightarrow> amx \<Rightarrow> (int \<times> cell \<times> amx) result" where
  "amx_Callback fn index a =
     bindR (assertR (0 \<le> sint index \<and> sint index < amx_NumNatives a)) (\<lambda>_.
       let f = fs_address (h_natives (a_base a) ! unat index)
       in bindR (assertR (f \<noteq> 0)) (\<lambda>_.
            case fn f (a\<lparr>a_native := index, a_error := AMX_ERR_NONE\<rparr>) of (v, b) \<Rightarrow> Inr (a_error b, v, b)))"

section \<open>Searching a sorted table\<close>

definition strictly_sorted :: "string list \<Rightarrow> bool" where
  "strictly_sorted ns \<longleftrightarrow> (\<forall>i j. i < j \<longrightarrow> j < length ns \<longrightarrow> strcmp (ns ! i) (ns ! j) < 0)"

lemma binary_search_exact:
  assumes get: "\<And>i. 0 \<le> i \<Longrightarrow> i < int (length ns) \<Longrightarrow> copied_name (get i) = Inr (ns ! nat i)" and s: "strictly_sorted ns"
  shows "0 \<le> lo \<Longrightarrow> hi < int (length ns) \<Longrightarrow>
    (\<And>i. i < length ns \<Longrightarrow> ns ! i = name \<Longrightarrow> lo \<le> int i \<and> int i \<le> hi) \<Longrightarrow>
    (\<exists>i. binary_search get name lo hi = Inr (Some i) \<and> 0 \<le> i \<and> i < int (length ns) \<and> ns ! nat i = name)
    \<or> (binary_search get name lo hi = Inr None \<and> name \<notin> set ns)"
proof (induction "nat (hi - lo + 1)" arbitrary: lo hi rule: less_induct)
  case less
  show ?case
  proof (cases "lo \<le> hi")
    case False
    then have "binary_search get name lo hi = Inr None" by (simp add: binary_search.simps [of get name lo hi])
    moreover have "name \<notin> set ns" using less.prems(3) False by (fastforce simp: in_set_conv_nth)
    ultimately show ?thesis by simp
  next
    case True
    define mid where "mid = (lo + hi) div 2"
    have mid: "lo \<le> mid" "mid \<le> hi" "0 \<le> mid" "mid < int (length ns)" using True less.prems(1,2) by (auto simp: mid_def)
    let ?m = "nat mid"
    have m: "?m < length ns" "copied_name (get mid) = Inr (ns ! ?m)" using get [OF mid(3,4)] mid(3,4) by auto
    note u = binary_search.simps [of get name lo hi]
    consider "strcmp (ns ! ?m) name > 0" | "strcmp (ns ! ?m) name < 0" | "ns ! ?m = name"
      using strcmp_eq_0 [of "ns ! ?m" name] by linarith
    then show ?thesis
    proof cases
      case 1
      have "lo \<le> int i \<and> int i \<le> mid - 1" if i: "i < length ns" "ns ! i = name" for i
      proof -
        have "\<not> ?m < i" using s i 1 unfolding strictly_sorted_def by (metis order_less_asym)
        moreover have "i \<noteq> ?m" using i 1 by auto
        ultimately show ?thesis using less.prems(3) [OF i] mid(3) by linarith
      qed
      then show ?thesis using less.hyps [of "mid - 1" lo] less.prems(1,2) mid m(2) True 1 u by (auto simp: mid_def [symmetric] Let_def)
    next
      case 2
      have "mid + 1 \<le> int i \<and> int i \<le> hi" if i: "i < length ns" "ns ! i = name" for i
      proof -
        have "\<not> i < ?m"
        proof
          assume "i < ?m"
          then have "strcmp name (ns ! ?m) < 0" using s i m(1) unfolding strictly_sorted_def by blast
          then show False using 2 strcmp_antisym [of "ns ! ?m" name] by simp
        qed
        moreover have "i \<noteq> ?m" using i 2 by auto
        ultimately show ?thesis using less.prems(3) [OF i] mid(3) by linarith
      qed
      then show ?thesis using less.hyps [of hi "mid + 1"] less.prems(1,2) mid m(2) True 2 u by (auto simp: mid_def [symmetric] Let_def)
    next
      case 3
      then show ?thesis using u m(2) True mid by (auto simp: mid_def [symmetric] Let_def)
    qed
  qed
qed

text \<open>C32 (\<open>amx_FindPublic\<close>): in a table of public functions that is sorted by name, as the compiler
  writes it, with names that fit the buffer, the binary search returns the index of a function with
  the name, and \<open>AMX_ERR_NOTFOUND\<close> with an index that \<open>amx_Exec\<close> refuses exactly when there is none.\<close>
theorem amx_FindPublic_exact:
  assumes "strictly_sorted (map fs_name (h_publics (a_base a)))"
    and "\<forall>f \<in> set (h_publics (a_base a)). length (fs_name f) \<le> name_limit"
  shows "if name \<in> fs_name ` set (h_publics (a_base a))
    then \<exists>i. amx_FindPublic name a = Inr (AMX_ERR_NONE, i) \<and> \<not> bad_index i (a_base a) \<and> fs_name (h_publics (a_base a) ! nat i) = name
    else amx_FindPublic name a = Inr (AMX_ERR_NOTFOUND, INT_MAX)"
proof -
  let ?ps = "h_publics (a_base a)" and ?get = "\<lambda>i. amx_GetPublic i a"
  have get: "copied_name (?get i) = Inr (map fs_name ?ps ! nat i)" if i: "0 \<le> i" "i < int (length (map fs_name ?ps))" for i
  proof -
    have k: "nat i < length ?ps" using i by simp
    then have "\<not> name_limit < length (fs_name (?ps ! nat i))" using assms(2) by (simp add: not_less)
    then show ?thesis using i k by (simp add: amx_GetPublic_def get_entry_def copied_name_def)
  qed
  have "(\<exists>i. binary_search ?get name 0 (amx_NumPublics a - 1) = Inr (Some i) \<and> 0 \<le> i
        \<and> i < int (length (map fs_name ?ps)) \<and> map fs_name ?ps ! nat i = name)
    \<or> (binary_search ?get name 0 (amx_NumPublics a - 1) = Inr None \<and> name \<notin> set (map fs_name ?ps))"
    by (rule binary_search_exact [OF get assms(1)]) (auto simp: amx_NumPublics_def)
  then show ?thesis
  proof
    assume "\<exists>i. binary_search ?get name 0 (amx_NumPublics a - 1) = Inr (Some i) \<and> 0 \<le> i
        \<and> i < int (length (map fs_name ?ps)) \<and> map fs_name ?ps ! nat i = name"
    then obtain i where i: "binary_search ?get name 0 (amx_NumPublics a - 1) = Inr (Some i)" "0 \<le> i" "i < int (length ?ps)"
      "fs_name (?ps ! nat i) = name" by auto
    then have "?ps ! nat i \<in> set ?ps" by simp
    then have "name \<in> fs_name ` set ?ps" using i(4) by blast
    then show ?thesis using i by (auto simp: amx_FindPublic_def bad_index_def AMX_EXEC_MAIN_def AMX_EXEC_CONT_def)
  qed (simp add: amx_FindPublic_def)
qed

text \<open>C36 (\<open>amx_Allot\<close>): the outcome of every request, on a machine whose heap is not above its stack. The
  size in bytes is taken modulo \<open>2 ^ 32\<close>, and the test for room wraps around too. It refuses a size that
  leaves less than the margin of 64 bytes in the free space, and a size that exceeds the free space by
  nearly \<open>2 ^ 32\<close>; every other size that exceeds the free space is granted, and the heap then reaches
  past the stack pointer.\<close>
theorem amx_Allot_outcome:
  fixes cells :: cell
  assumes "h_magic (a_base a) = AMX_MAGIC" and "unat (a_hea a) \<le> unat (a_stk a)"
  defines "free \<equiv> unat (a_stk a) - unat (a_hea a)" and "bytes \<equiv> 4 * unat cells mod 2 ^ 32"
  shows "amx_Allot cells a = Inr
    (if bytes \<le> free \<and> free < bytes + 64 \<or> 2 ^ 32 + free < bytes + 64 then (AMX_ERR_MEMORY, None, a)
     else (AMX_ERR_NONE, Some (a_hea a), a\<lparr>a_hea := a_hea a + of_nat bytes\<rparr>))"
proof -
  have c: "unat (cells * cell_bytes) = bytes" by (simp add: bytes_def unat_word_ariths mult.commute)
  then have cb: "of_nat bytes = cells * cell_bytes" unfolding c [symmetric] by simp
  have f: "unat (a_stk a - a_hea a) = free" using assms(2) by (simp add: free_def unat_sub word_le_nat_alt)
  have fb: "free < 2 ^ 32" using f unsigned_less [of "a_stk a - a_hea a", where 'a = nat] by simp
  have bb: "bytes < 2 ^ 32" by (simp add: bytes_def)
  have "a_stk a - a_hea a - cells * cell_bytes < STKMARGIN
      \<longleftrightarrow> bytes \<le> free \<and> free < bytes + 64 \<or> 2 ^ 32 + free < bytes + 64"
  proof (cases "bytes \<le> free")
    case True
    then have "unat (a_stk a - a_hea a - cells * cell_bytes) = free - bytes"
      using c f by (simp add: unat_sub word_le_nat_alt)
    then show ?thesis using True fb by (auto simp: word_less_nat_alt STKMARGIN_def)
  next
    case False
    then have "unat (a_stk a - a_hea a - cells * cell_bytes) = 2 ^ 32 + free - bytes"
      using c f fb by (simp add: unat_sub_if' word_le_nat_alt)
    then show ?thesis using False bb by (auto simp: word_less_nat_alt STKMARGIN_def)
  qed
  then show ?thesis using assms(1) by (simp add: amx_Allot_def cb)
qed

theorem amx_Allot_outcome_witness:
  "amx_Allot 250 (amx_with []) = Inr (AMX_ERR_NONE, Some 100, (amx_with [])\<lparr>a_hea := 1100\<rparr>)
    \<and> unat (a_stk (amx_with [])) = 900"
  using amx_Allot_outcome [of "amx_with []" 250] by (simp add: amx_with_def)

theorem amx_FindPublic_exact_witness:
  "\<exists>i. amx_FindPublic ''main'' (amx_with []) = Inr (AMX_ERR_NONE, i) \<and> \<not> bad_index i (a_base (amx_with []))"
  using amx_FindPublic_exact [of "amx_with []" "''main''"]
  by (auto simp: amx_with_def strictly_sorted_def name_limit_def)

end
