(* ===== verification/AmxBrowse.thy ===== *)
theory AmxBrowse
  imports AmxExec ScAsm
begin

text \<open>
  Browsing the code of a program before it runs: \<open>amx_BrowseRelocate\<close> of src/amxmodx/amx.cpp, which
  steps over every instruction and relocates the operands that are code addresses, and its agreement
  with the assembler of the compiler (sc6.c): the lengths that the compiler writes are those that
  the host expects, and exactly the label operands are relocated.
\<close>

section \<open>The groups of instructions\<close>

definition browse_one :: "cell list" where
  "browse_one =
    [OP_LOAD_PRI, OP_LOAD_ALT, OP_LOAD_S_PRI, OP_LOAD_S_ALT, OP_LREF_PRI, OP_LREF_ALT, 
     OP_LREF_S_PRI, OP_LREF_S_ALT, OP_LODB_I, OP_CONST_PRI, OP_CONST_ALT, OP_ADDR_PRI, 
     OP_ADDR_ALT, OP_STOR_PRI, OP_STOR_ALT, OP_STOR_S_PRI, OP_STOR_S_ALT, OP_SREF_PRI, 
     OP_SREF_ALT, OP_SREF_S_PRI, OP_SREF_S_ALT, OP_STRB_I, OP_LIDX_B, OP_IDXADDR_B, 
     OP_ALIGN_PRI, OP_ALIGN_ALT, OP_LCTRL, OP_SCTRL, OP_PUSH_R, OP_PUSH_C, OP_PUSH, 
     OP_PUSH_S, OP_STACK, OP_HEAP, OP_JREL, OP_SHL_C_PRI, OP_SHL_C_ALT, OP_SHR_C_PRI, 
     OP_SHR_C_ALT, OP_ADD_C, OP_SMUL_C, OP_ZERO, OP_ZERO_S, OP_EQ_C_PRI, OP_EQ_C_ALT, 
     OP_INC, OP_INC_S, OP_DEC, OP_DEC_S, OP_MOVS, OP_CMPS, OP_FILL, OP_HALT, OP_BOUNDS, 
     OP_PUSHADDR, OP_SYSREQ_D]"

definition browse_none :: "cell list" where
  "browse_none =
    [OP_LOAD_I, OP_STOR_I, OP_LIDX, OP_IDXADDR, OP_MOVE_PRI, OP_MOVE_ALT, OP_XCHG, 
     OP_PUSH_PRI, OP_PUSH_ALT, OP_POP_PRI, OP_POP_ALT, OP_PROC, OP_RET, OP_RETN, 
     OP_CALL_PRI, OP_SHL, OP_SHR, OP_SSHR, OP_SMUL, OP_SDIV, OP_SDIV_ALT, OP_UMUL, OP_UDIV, 
     OP_UDIV_ALT, OP_ADD, OP_SUB, OP_SUB_ALT, OP_AND, OP_OR, OP_XOR, OP_NOT, OP_NEG, 
     OP_INVERT, OP_ZERO_PRI, OP_ZERO_ALT, OP_SIGN_PRI, OP_SIGN_ALT, OP_EQ, OP_NEQ, OP_LESS, 
     OP_LEQ, OP_GRTR, OP_GEQ, OP_SLESS, OP_SLEQ, OP_SGRTR, OP_SGEQ, OP_INC_PRI, OP_INC_ALT, 
     OP_INC_I, OP_DEC_PRI, OP_DEC_ALT, OP_DEC_I, OP_SYSREQ_PRI, OP_JUMP_PRI, OP_SWAP_PRI, 
     OP_SWAP_ALT, OP_NOP, OP_BREAK, OP_FLOAT_MUL, OP_FLOAT_DIV, OP_FLOAT_ADD, OP_FLOAT_SUB, 
     OP_FLOAT_TO, OP_FLOAT_ROUND, OP_FLOAT_CMP]"

definition browse_reloc :: "cell list" where
  "browse_reloc =
    [OP_CALL, OP_JUMP, OP_JZER, OP_JNZ, OP_JEQ, OP_JNEQ, OP_JLESS, OP_JLEQ, OP_JGRTR, 
     OP_JGEQ, OP_JSLESS, OP_JSLEQ, OP_JSGRTR, OP_JSGEQ, OP_SWITCH]"

section \<open>The loop\<close>

text \<open>One instruction: the address of the next one and the addresses of the cells to relocate, or None
  for an invalid instruction. \<open>hook\<close> is the hook for \<open>sysreq.c\<close>, which gets the address behind the
  opcode and gives the address to go on at.\<close>

definition code_at :: "cell list \<Rightarrow> cell \<Rightarrow> cell result" where
  "code_at code p = (if unat p mod 4 = 0 \<and> unat p div 4 < length code then Inr (code ! (unat p div 4)) else Inl BufferOverflow)"

definition browse_step :: "(cell \<Rightarrow> cell) option \<Rightarrow> cell list \<Rightarrow> cell \<Rightarrow> (cell \<times> cell list) option result" where
  "browse_step hook code c =
     bindR (code_at code c) (\<lambda>op.
       bindR (assertR (0 < op \<and> op \<le> OP_FLOAT_CMP)) (\<lambda>_.
         let p = c + 4
         in if 256 \<le> op then Inr None
            else if op \<in> set browse_one then Inr (Some (p + 4, []))
            else if op = OP_SYSREQ_C then Inr (Some (case hook of None \<Rightarrow> p + 4 | Some h \<Rightarrow> h p, []))
            else if op \<in> set browse_none then Inr (Some (p, []))
            else if op \<in> set browse_reloc then bindR (code_at code p) (\<lambda>_. Inr (Some (p + 4, [p])))
            else if op \<in> {OP_FILE, OP_SYMBOL} then bindR (code_at code p) (\<lambda>num. Inr (Some (p + 4 + num, [])))
            else if op \<in> {OP_LINE, OP_SRANGE} then Inr (Some (p + 8, []))
            else if op = OP_SYMTAG then Inr (Some (p + 4, []))
            else if op = OP_CASETBL then
              bindR (code_at code p) (\<lambda>num.
                let base = p + 4; rs = map (\<lambda>i. base + 8 * of_nat i) [0..<nat (sint num + 1)]
                in bindR (mapR (code_at code) rs) (\<lambda>_. Inr (Some (base + (2 * num + 1) * cell_bytes, rs))))
            else Inr None))"

text \<open>The loop moves by what it reads and need not end: None when it has not ended after \<open>n\<close> turns.\<close>

fun browse :: "nat \<Rightarrow> (cell \<Rightarrow> cell) option \<Rightarrow> cell list \<Rightarrow> cell \<Rightarrow> cell list \<Rightarrow> (int \<times> cell list) option result" where
  "browse 0 hook code c relocs = Inr None"
| "browse (Suc n) hook code c relocs =
     (if of_nat (4 * length code) \<le>s c then Inr (Some (AMX_ERR_NONE, relocs))
      else bindR (browse_step hook code c) (\<lambda>r.
             case r of None \<Rightarrow> Inr (Some (AMX_ERR_INVINSTR, relocs))
             | Some (c', rs) \<Rightarrow> browse n hook code c' (relocs @ rs)))"

text \<open>The flags: \<open>AMX_FLAG_RELOC\<close> only after success.\<close>

definition amx_BrowseRelocate :: "nat \<Rightarrow> (cell \<Rightarrow> cell) option \<Rightarrow> amx \<Rightarrow> (int \<times> cell list \<times> amx) option result" where
  "amx_BrowseRelocate n hook a =
     bindR (assertR (h_magic (a_base a) = AMX_MAGIC)) (\<lambda>_.
       bindR (browse n hook (a_code a) 0 []) (\<lambda>r.
         case r of None \<Rightarrow> Inr None
         | Some (e, rs) \<Rightarrow>
             let fl = a_flags a AND NOT AMX_FLAG_BROWSE
             in Inr (Some (e, rs, a\<lparr>a_flags := if e = AMX_ERR_NONE then fl OR AMX_FLAG_RELOC else fl\<rparr>))))"

section \<open>Agreement with the assembler\<close>

text \<open>What a line of assembler text is made into: the cells of an instruction, or of a case table with
  its default target and its records, which is written by a \<open>casetbl\<close> line and \<open>case\<close> lines.\<close>

datatype operand = Plain cell | Label cell

fun operand_cell :: "operand \<Rightarrow> cell" where
  "operand_cell (Plain v) = v"
| "operand_cell (Label v) = v"

fun is_label :: "operand \<Rightarrow> bool" where
  "is_label (Plain v) \<longleftrightarrow> False"
| "is_label (Label v) \<longleftrightarrow> True"

datatype code_item = Instr cell "operand list" | Table cell "(cell \<times> cell) list"

fun item_cells :: "code_item \<Rightarrow> cell list" where
  "item_cells (Instr op args) = op # map operand_cell args"
| "item_cells (Table dflt rs) = OP_CASETBL # of_nat (length rs) # dflt # concat (map (\<lambda>(v, l). [v, l]) rs)"

text \<open>The operands that are code addresses, by their position in the item: the label operands of an
  instruction, and the default target and the targets of the records of a table.\<close>

fun item_relocs :: "code_item \<Rightarrow> nat list" where
  "item_relocs (Instr op args) = filter (\<lambda>i. is_label (args ! (i - 1))) [1..<length args + 1]"
| "item_relocs (Table dflt rs) = map (\<lambda>i. 2 + 2 * i) [0..<length rs + 1]"

fun all_relocs :: "nat \<Rightarrow> code_item list \<Rightarrow> cell list" where
  "all_relocs k [] = []"
| "all_relocs k (it # its) = map (\<lambda>i. of_nat (4 * (k + i))) (item_relocs it) @ all_relocs (k + length (item_cells it)) its"

text \<open>The items that the assembler writes. Whether an operand is a code address is the assembler's choice of
  routine: \<open>parm0\<close> writes no operand, \<open>parm1\<close> a number of the source, and \<open>do_call\<close>, \<open>do_jump\<close> and \<open>do_switch\<close>
  the address of a function or of a label.\<close>

definition assembled :: "asmenv \<Rightarrow> code_item \<Rightarrow> bool" where
  "assembled env it \<longleftrightarrow>
     (case it of
        Instr op args \<Rightarrow> \<exists>e params n. e \<in> set opcodelist \<and> op_seg e = CSEG \<and> op_name e \<notin> {Some ''case'', Some ''casetbl''}
          \<and> op_func e env True params (op_code e) = Inr (op # map operand_cell args, n)
          \<and> (\<forall>p \<in> set args. is_label p \<longleftrightarrow> op_func e \<in> {do_call, do_jump, do_switch})
      | Table dflt rs \<Rightarrow> length rs < 2 ^ 28)"

text \<open>The kind of each entry of the instruction table: no operand, one operand, a label operand, or none
  of these.\<close>

definition entry_kinds :: "nat list" where
  "entry_kinds =
    [3, 0, 1, 1, 1, 1, 1, 0, 1, 0, 2, 0, 3, 3, 1, 3, 1, 1, 3, 1, 0, 0, 0, 1, 3, 0, 1, 1, 1, 
     0, 0, 1, 1, 0, 1, 1, 0, 0, 0, 1, 0, 2, 2, 2, 2, 2, 2, 2, 1, 2, 2, 2, 2, 2, 0, 2, 1, 0, 
     0, 0, 1, 1, 0, 1, 1, 1, 1, 1, 1, 1, 1, 0, 0, 1, 0, 0, 0, 0, 0, 0, 0, 0, 1, 0, 1, 0, 1, 
     1, 1, 0, 0, 1, 0, 0, 0, 0, 0, 1, 1, 0, 1, 1, 0, 0, 0, 0, 0, 1, 1, 1, 1, 1, 0, 1, 3, 1, 
     0, 1, 1, 1, 1, 0, 0, 0, 0, 2, 1, 1, 0, 0, 0, 0, 0, 0, 1, 0, 0, 1]"

lemma entry_kinds_procs:
  "list_all2 (\<lambda>e k. k = 0 \<and> op_func e = parm0 \<or> k = 1 \<and> op_func e = parm1
      \<or> k = 2 \<and> op_func e \<in> {do_call, do_jump, do_switch}
      \<or> op_seg e \<noteq> CSEG \<or> op_name e \<in> {Some ''case'', Some ''casetbl''}) opcodelist entry_kinds"
  by (simp add: opcodelist_def entry_def entry_kinds_def)

definition host_kind :: "cell \<Rightarrow> nat \<Rightarrow> bool" where
  "host_kind op k \<longleftrightarrow> (if k = 0 then op \<in> set browse_none else if k = 1 then op \<in> set browse_one \<or> op = OP_SYSREQ_C
     else if k = 2 then op \<in> set browse_reloc else True)"

lemma entry_kinds_host: "list_all2 (\<lambda>e k. host_kind (op_code e) k) opcodelist entry_kinds"
  by code_simp


lemma browse_groups:
  "list_all (\<lambda>op. 0 < op \<and> op \<le> OP_FLOAT_CMP \<and> op \<noteq> OP_SYSREQ_C) (browse_one @ browse_none @ browse_reloc)"
  "list_all (\<lambda>op. op \<notin> set browse_one \<and> op \<notin> set browse_reloc) browse_none"
  "list_all (\<lambda>op. op \<notin> set browse_one \<and> op \<notin> set browse_none) browse_reloc"
  "OP_SYSREQ_C \<notin> set (browse_one @ browse_none @ browse_reloc)"
  "OP_CASETBL \<notin> set (browse_one @ browse_none @ browse_reloc)"
  by code_simp+

lemma in_groups:
  "op \<in> set browse_one \<or> op \<in> set browse_none \<or> op \<in> set browse_reloc \<Longrightarrow> 0 < op \<and> op \<le> OP_FLOAT_CMP \<and> op \<noteq> OP_SYSREQ_C"
  "op \<in> set browse_none \<Longrightarrow> op \<notin> set browse_one \<and> op \<notin> set browse_reloc"
  "op \<in> set browse_reloc \<Longrightarrow> op \<notin> set browse_one \<and> op \<notin> set browse_none"
  using browse_groups(1-3) unfolding list_all_iff by auto

lemma small_cell: "m < 2 ^ 32 \<Longrightarrow> unat (of_nat m :: cell) = m"
  by (simp add: unat_of_nat)

lemma code_at_nth:
  assumes "k < length code" and "4 * length code < 2 ^ 31"
  shows "code_at code (of_nat (4 * k)) = Inr (code ! k)"
proof -
  have "unat (of_nat (4 * k) :: cell) = 4 * k" by (rule small_cell) (use assms in simp)
  then show ?thesis using assms(1) by (simp add: code_at_def del: of_nat_mult)
qed

lemma small_op: "op \<le> OP_FLOAT_CMP \<Longrightarrow> \<not> 256 \<le> (op :: cell)"
  by (simp add: word_le_nat_alt)

lemma step_none:
  "code_at code c = Inr op \<Longrightarrow> op \<in> set browse_none \<Longrightarrow> browse_step hook code c = Inr (Some (c + 4, []))"
  using in_groups(1,2) [of op] by (auto simp: browse_step_def Let_def small_op)

lemma step_one:
  "code_at code c = Inr op \<Longrightarrow> op \<in> set browse_one \<or> op = OP_SYSREQ_C \<Longrightarrow> browse_step None code c = Inr (Some (c + 4 + 4, []))"
  using in_groups(1) [of op] browse_groups(4) by (auto simp: browse_step_def Let_def small_op)

lemma step_reloc:
  "code_at code c = Inr op \<Longrightarrow> op \<in> set browse_reloc \<Longrightarrow> code_at code (c + 4) = Inr v \<Longrightarrow>
   browse_step hook code c = Inr (Some (c + 4 + 4, [c + 4]))"
  using in_groups(1,3) [of op] by (auto simp: browse_step_def Let_def small_op)

lemma step_table:
  assumes "code_at code c = Inr OP_CASETBL" and "code_at code (c + 4) = Inr num"
    and "mapR (code_at code) (map (\<lambda>i. c + 4 + 4 + 8 * of_nat i) [0..<nat (sint num + 1)]) = Inr vs"
  shows "browse_step hook code c
    = Inr (Some (c + 4 + 4 + (2 * num + 1) * cell_bytes, map (\<lambda>i. c + 4 + 4 + 8 * of_nat i) [0..<nat (sint num + 1)]))"
  using assms browse_groups(5) unfolding browse_step_def Let_def by (simp add: small_op)

text \<open>\<open>parm1\<close> reads a number where the routines for labels fail.\<close>

definition is_ok :: "'a result \<Rightarrow> bool" where
  "is_ok r = (case r of Inl _ \<Rightarrow> False | Inr _ \<Rightarrow> True)"

lemma parm1_no_label: "parm1 \<notin> {do_call, do_jump, do_switch}"
proof -
  define env where "env = \<lparr>ae_labnum = 0, ae_lbltab = None, ae_syms = \<lparr>glbtab = [], loctab = [], fcurrent = -1, next_id = 0\<rparr>\<rparr>"
  have "is_ok (parm1 env True ''5'' 0)" "\<not> is_ok (do_call env True ''5'' 0)" "\<not> is_ok (do_jump env True ''5'' 0)" "\<not> is_ok (do_switch env True ''5'' 0)"
    unfolding env_def by code_simp+
  then show ?thesis by auto
qed

text \<open>The kinds of instructions that the assembler writes, as the host sees them.\<close>

lemma assembled_instr:
  assumes "assembled env (Instr op args)"
  shows "(args = [] \<and> op \<in> set browse_none) \<or> (\<exists>v. args = [Plain v] \<and> (op \<in> set browse_one \<or> op = OP_SYSREQ_C))
    \<or> (\<exists>v. args = [Label v] \<and> op \<in> set browse_reloc)"
proof -
  obtain e params n where e: "e \<in> set opcodelist" "op_seg e = CSEG" "op_name e \<notin> {Some ''case'', Some ''casetbl''}"
    and f: "op_func e env True params (op_code e) = Inr (op # map operand_cell args, n)"
    and l: "\<forall>p \<in> set args. is_label p \<longleftrightarrow> op_func e \<in> {do_call, do_jump, do_switch}"
    using assms by (auto simp: assembled_def)
  then obtain i where i: "i < length opcodelist" "opcodelist ! i = e" by (auto simp: in_set_conv_nth)
  let ?k = "entry_kinds ! i"
  have h: "host_kind (op_code e) ?k" using list_all2_nthD [OF entry_kinds_host i(1)] i(2) by simp
  have "?k = 0 \<and> op_func e = parm0 \<or> ?k = 1 \<and> op_func e = parm1 \<or> ?k = 2 \<and> op_func e \<in> {do_call, do_jump, do_switch}"
    using list_all2_nthD [OF entry_kinds_procs i(1)] i(2) e(2,3) by auto
  then consider (none) "?k = 0" "op_func e = parm0" | (one) "?k = 1" "op_func e = parm1"
    | (label) "?k = 2" "op_func e \<in> {do_call, do_jump, do_switch}" by (elim disjE conjE)
  then show ?thesis
  proof cases
    case none
    then show ?thesis using h f by (simp add: host_kind_def parm0_def)
  next
    case one
    obtain v where v: "map operand_cell args = [v]" "op = op_code e"
      using f unfolding one(2) by (auto simp: parm1_def Let_def bindR_Inr_iff split: prod.splits if_splits)
    then obtain p where p: "args = [p]" by auto
    then have "\<not> is_label p" using l one(2) parm1_no_label by simp
    then have "p = Plain v" using p v(1) by (cases p) simp_all
    then show ?thesis using p h one(1) v(2) by (simp add: host_kind_def)
  next
    case label
    obtain v where v: "map operand_cell args = [v]" "op = op_code e"
      using f label(2) by (auto simp: do_call_def do_jump_def do_switch_def Let_def bindR_Inr_iff split: prod.splits)
    then obtain p where p: "args = [p]" by auto
    then have "is_label p" using l label(2) by simp
    then have "p = Label v" using p v(1) by (cases p) simp_all
    then show ?thesis using p h label(1) v(2) by (simp add: host_kind_def)
  qed
qed

lemma next_address: "(of_nat (4 * k) :: cell) + 4 = of_nat (4 * (k + 1))"
  by simp

lemma browse_instr:
  assumes a: "assembled env (Instr op args)" and c: "code = pre @ item_cells (Instr op args) @ post" and l: "4 * length code < 2 ^ 31"
  shows "browse_step None code (of_nat (4 * length pre))
    = Inr (Some (of_nat (4 * (length pre + length (item_cells (Instr op args)))), map (\<lambda>i. of_nat (4 * (length pre + i))) (item_relocs (Instr op args))))"
proof -
  have o: "code_at code (of_nat (4 * length pre)) = Inr op" using code_at_nth [of "length pre" code] l c by simp
  from assembled_instr [OF a] consider (none) "args = []" "op \<in> set browse_none"
    | (one) v where "args = [Plain v]" "op \<in> set browse_one \<or> op = OP_SYSREQ_C"
    | (reloc) v where "args = [Label v]" "op \<in> set browse_reloc" by blast
  then show ?thesis
  proof cases
    case none
    then show ?thesis using step_none [OF o] by (simp add: add.commute)
  next
    case one
    then show ?thesis using step_one [OF o one(2)] one(1) by (simp add: add.commute)
  next
    case reloc
    have "length pre + 1 < length code" using c reloc(1) by simp
    then have "code_at code (of_nat (4 * (length pre + 1))) = Inr (code ! (length pre + 1))" using l by (rule code_at_nth)
    from step_reloc [OF o reloc(2) this [folded next_address]] show ?thesis
      using reloc by (simp add: add.commute)
  qed
qed

lemma browse_table:
  assumes a: "length rs < 2 ^ 28" and c: "code = pre @ item_cells (Table dflt rs) @ post" and l: "4 * length code < 2 ^ 31"
  shows "browse_step None code (of_nat (4 * length pre))
    = Inr (Some (of_nat (4 * (length pre + length (item_cells (Table dflt rs)))),
        map (\<lambda>i. of_nat (4 * (length pre + i))) (item_relocs (Table dflt rs))))"
proof -
  have len: "length (concat (map (\<lambda>(v, l). [v, l]) rs)) = 2 * length rs" by (induction rs) auto
  then have lc: "length pre + 3 + 2 * length rs \<le> length code" using c by simp
  have o: "code_at code (of_nat (4 * length pre)) = Inr OP_CASETBL"
    using code_at_nth [of "length pre" code] l c by simp
  have "length pre + 1 < length code" using c by simp
  from code_at_nth [OF this l, folded next_address]
  have n: "code_at code (of_nat (4 * length pre) + 4) = Inr (of_nat (length rs))" using c by (simp add: nth_append)
  have s: "sint (of_nat (length rs) :: cell) = int (length rs)"
    by (rule sint_of_nat_cell) (use a in simp)
  have e: "(of_nat (4 * length pre) :: cell) + 4 + 4 + 8 * of_nat i = of_nat (4 * (length pre + (2 + 2 * i)))" for i
    by (simp add: algebra_simps)
  let ?rs = "map (\<lambda>i. of_nat (4 * length pre) + 4 + 4 + 8 * of_nat i) [0..<nat (sint (of_nat (length rs) :: cell) + 1)] :: cell list"
  have rs: "?rs = map (\<lambda>i. of_nat (4 * (length pre + i))) (item_relocs (Table dflt rs))"
    unfolding e s by (simp add: nat_add_distrib comp_def del: upt_Suc)
  have "mapR (code_at code) ?rs = Inr (map (\<lambda>p. code ! (unat p div 4)) ?rs)"
  proof (rule mapR_Inr)
    fix p assume "p \<in> set ?rs"
    then obtain i where i0: "i \<in> set [0..<nat (int (length rs) + 1)]" and p: "p = of_nat (4 * (length pre + (2 + 2 * i)))"
      unfolding e s set_map by (elim imageE)
    have i: "i \<le> length rs" using i0 by (auto simp: nat_add_distrib)
    have k: "length pre + (2 + 2 * i) < length code" using i lc by simp
    have "unat p = 4 * (length pre + (2 + 2 * i))" unfolding p by (rule small_cell) (use k l in simp)
    then show "code_at code p = Inr (code ! (unat p div 4))" using code_at_nth [OF k l] p by simp
  qed
  from step_table [OF o n this, of None] show ?thesis unfolding rs using len by (simp add: algebra_simps)
qed

lemma browse_item:
  assumes "assembled env it" and "code = pre @ item_cells it @ post" and "4 * length code < 2 ^ 31"
  shows "browse_step None code (of_nat (4 * length pre))
    = Inr (Some (of_nat (4 * (length pre + length (item_cells it))), map (\<lambda>i. of_nat (4 * (length pre + i))) (item_relocs it)))"
proof (cases it)
  case (Instr op args)
  then show ?thesis using browse_instr [of env op args code pre post] assms by simp
next
  case (Table dflt rs)
  then have "length rs < 2 ^ 28" using assms(1) by (simp add: assembled_def)
  then show ?thesis using browse_table [of rs code pre dflt post] assms(2,3) Table by simp
qed

lemma browse_items:
  "\<forall>it \<in> set its. assembled env it \<Longrightarrow> code = pre @ concat (map item_cells its) \<Longrightarrow> 4 * length code < 2 ^ 31 \<Longrightarrow>
   browse (length its + 1) None code (of_nat (4 * length pre)) relocs = Inr (Some (AMX_ERR_NONE, relocs @ all_relocs (length pre) its))"
proof (induction its arbitrary: pre relocs)
  case Nil
  then show ?case by simp
next
  case (Cons it its)
  have s: "browse_step None code (of_nat (4 * length pre))
    = Inr (Some (of_nat (4 * (length pre + length (item_cells it))), map (\<lambda>i. of_nat (4 * (length pre + i))) (item_relocs it)))"
    by (rule browse_item [of env]) (use Cons.prems in auto)
  have ne: "item_cells it \<noteq> []" by (cases it) auto
  have "sint (of_nat (4 * k) :: cell) = int (4 * k)" if "4 * k < 2 ^ 31" for k
    using that by (rule sint_of_nat_cell)
  note sl = this
  have lt: "length pre < length code" using Cons.prems(2) ne by (cases "item_cells it") auto
  have "\<not> (of_nat (4 * length code) :: cell) \<le>s of_nat (4 * length pre)"
    unfolding word_sle_eq sl [OF Cons.prems(3)] using sl [of "length pre"] lt Cons.prems(3) by (simp del: of_nat_mult)
  then show ?case
    using s Cons.IH [of "pre @ item_cells it"] Cons.prems by (simp del: of_nat_mult of_nat_add)
qed

lemma reloc_flag: "(fl OR AMX_FLAG_RELOC) AND AMX_FLAG_RELOC \<noteq> 0"
  by (simp add: bit.conj_disj_distrib2)

lemma browse_assembled:
  assumes "\<forall>it \<in> set its. assembled env it" and "a_code a = concat (map item_cells its)"
    and "4 * length (a_code a) < 2 ^ 31" and "h_magic (a_base a) = AMX_MAGIC"
  shows "amx_BrowseRelocate (length its + 1) None a = Inr (Some (AMX_ERR_NONE, all_relocs 0 its,
    a\<lparr>a_flags := a_flags a AND NOT AMX_FLAG_BROWSE OR AMX_FLAG_RELOC\<rparr>))"
proof -
  have "browse (length its + 1) None (a_code a) (of_nat (4 * length ([] :: cell list))) []
      = Inr (Some (AMX_ERR_NONE, [] @ all_relocs (length ([] :: cell list)) its))"
    by (rule browse_items [OF assms(1) _ assms(3)]) (simp add: assms(2))
  then show ?thesis using assms(4) by (simp add: amx_BrowseRelocate_def Let_def)
qed

text \<open>C4 (\<open>amx_BrowseRelocate\<close> and the assembler): the host walks over exactly the instructions that the
  assembler wrote. For code made of instructions and case tables of the assembler, the loop of
  \<open>amx_BrowseRelocate\<close> ends with \<open>AMX_ERR_NONE\<close> at the end of the code, and the cells it relocates are,
  in order, exactly the operands into which the assembler wrote an address of code (those of \<open>do_call\<close>, \<open>do_jump\<close>
  and \<open>do_switch\<close>) and the targets of the case tables.\<close>
theorem browse_walks_assembled_code:
  assumes "\<forall>it \<in> set its. assembled env it" and "a_code a = concat (map item_cells its)"
    and "4 * length (a_code a) < 2 ^ 31" and "h_magic (a_base a) = AMX_MAGIC"
  shows "\<exists>a'. amx_BrowseRelocate (length its + 1) None a = Inr (Some (AMX_ERR_NONE, all_relocs 0 its, a'))
    \<and> a_flags a' AND AMX_FLAG_RELOC \<noteq> 0"
  using browse_assembled [OF assms] reloc_flag by simp

lemma assembled_parm0:
  "entry op (Some n) CSEG parm0 \<in> set opcodelist \<Longrightarrow> n \<notin> {''case'', ''casetbl''} \<Longrightarrow> assembled env (Instr op [])"
  unfolding assembled_def code_item.case
  by (intro exI [of _ "entry op (Some n) CSEG parm0"]) (simp add: entry_def parm0_def)

theorem browse_walks_assembled_code_witness:
  "\<exists>a'. amx_BrowseRelocate 5 None (amx_with [OP_JUMP, 8, OP_PROC, OP_CASETBL, 1, 0, 7, 24, OP_RETN])
    = Inr (Some (AMX_ERR_NONE, [4, 20, 28], a')) \<and> a_flags a' AND AMX_FLAG_RELOC \<noteq> 0"
proof -
  let ?its = "[Instr OP_JUMP [Label 8], Instr OP_PROC [], Table 0 [(7, 24)], Instr OP_RETN []]"
  let ?env = "\<lparr>ae_labnum = 1, ae_lbltab = Some (\<lambda>_. 8), ae_syms = \<lparr>glbtab = [], loctab = [], fcurrent = -1, next_id = 0\<rparr>\<rparr>"
  have "entry OP_PROC (Some ''proc'') CSEG parm0 \<in> set opcodelist" "entry OP_RETN (Some ''retn'') CSEG parm0 \<in> set opcodelist"
    "entry OP_JUMP (Some ''jump'') CSEG do_jump \<in> set opcodelist"
    by (simp_all add: opcodelist_def)
  then have "assembled ?env (Instr OP_PROC [])" "assembled ?env (Instr OP_RETN [])"
    and j: "entry OP_JUMP (Some ''jump'') CSEG do_jump \<in> set opcodelist"
    by (auto intro: assembled_parm0)
  have "do_jump ?env True ''0'' OP_JUMP = Inr ([OP_JUMP, 8], 8)" by code_simp
  then have "assembled ?env (Instr OP_JUMP [Label 8])"
    unfolding assembled_def code_item.case
    by (intro exI [of _ "entry OP_JUMP (Some ''jump'') CSEG do_jump"]) (use j in \<open>auto simp: entry_def\<close>)
  moreover note \<open>assembled ?env (Instr OP_PROC [])\<close> \<open>assembled ?env (Instr OP_RETN [])\<close>
  moreover have "assembled ?env (Table 0 [(7, 24)])" by (simp add: assembled_def)
  moreover have "a_code (amx_with [OP_JUMP, 8, OP_PROC, OP_CASETBL, 1, 0, 7, 24, OP_RETN]) = concat (map item_cells ?its)"
    "h_magic (a_base (amx_with [OP_JUMP, 8, OP_PROC, OP_CASETBL, 1, 0, 7, 24, OP_RETN])) = AMX_MAGIC"
    by (simp_all add: amx_with_def)
  moreover have r: "all_relocs 0 ?its = [4, 20, 28]" and l: "length ?its + 1 = 5" by code_simp+
  moreover have "4 * length (a_code (amx_with [OP_JUMP, 8, OP_PROC, OP_CASETBL, 1, 0, 7, 24, OP_RETN])) < 2 ^ 31" by (simp add: amx_with_def)
  ultimately show ?thesis
    using browse_walks_assembled_code [of ?its ?env "amx_with [OP_JUMP, 8, OP_PROC, OP_CASETBL, 1, 0, 7, 24, OP_RETN]"]
    unfolding r l by simp
qed

end
