(* ===== verification/AmxInit.thy ===== *)
theory AmxInit
  imports AmxApi AmxBrowse ScCompact
begin

text \<open>
  Loading a program: \<open>amx_Init\<close> and \<open>amx_Clone\<close> of src/amxmodx/amx.cpp. The image is the header and
  the bytes \<open>img\<close> from the code on, with room for the code, the data, the heap and the stack. What
  the compiler wrote in compact form is what the machine then runs.
\<close>

section \<open>Cells in a block of bytes\<close>

fun cells_of :: "byte list \<Rightarrow> cell list" where
  "cells_of (a # b # c # d # bs) =
     (ucast a OR push_bit 8 (ucast b) OR push_bit 16 (ucast c) OR push_bit 24 (ucast d)) # cells_of bs"
| "cells_of bs = []"

definition mem_of :: "byte list \<Rightarrow> mem" where
  "mem_of bs = (\<lambda>a. if unat a < length bs then bs ! unat a else 0)"

lemma cells_of_le: "cells_of (concat (map cell_bytes_le cs)) = cs"
  by (induction cs) (simp_all add: cell_bytes_le_def upt_rec cell_of_bytes)

lemma length_le: "length (concat (map cell_bytes_le cs)) = 4 * length cs"
  by (induction cs) (simp_all add: cell_bytes_le_def)

section \<open>Loading\<close>

text \<open>The sizes of the two forms of an entry of the tables.\<close>

definition FUNCSTUB_size :: nat where "FUNCSTUB_size = 4 + (19 + 1)"
definition FUNCSTUBNT_size :: nat where "FUNCSTUBNT_size = 8"

text \<open>The result is None when \<open>amx_BrowseRelocate\<close> has not ended after \<open>n\<close> instructions. The result of
  \<open>amx_BrowseRelocate\<close> is not used. The call of the hook without an address, before the relocation, prepares
  the hook itself and is left to the host.\<close>

definition amx_Init :: "nat \<Rightarrow> (cell \<Rightarrow> cell) option \<Rightarrow> header \<Rightarrow> byte list \<Rightarrow> amx \<Rightarrow> (int \<times> amx) option result" where
  "amx_Init n hook hdr img a =
     (if a_flags a AND AMX_FLAG_RELOC \<noteq> 0 then Inr (Some (AMX_ERR_INIT, a))
      else if h_magic hdr \<noteq> AMX_MAGIC then Inr (Some (AMX_ERR_FORMAT, a))
      else if h_file_version hdr < MIN_FILE_VERSION \<or> CUR_FILE_VERSION < h_amx_version hdr then Inr (Some (AMX_ERR_VERSION, a))
      else if h_defsize hdr \<noteq> FUNCSTUB_size \<and> h_defsize hdr \<noteq> FUNCSTUBNT_size then Inr (Some (AMX_ERR_FORMAT, a))
      else if h_defsize hdr = FUNCSTUBNT_size \<and> name_limit < h_namelength hdr then Inr (Some (AMX_ERR_FORMAT, a))
      else if h_stp hdr \<le>s 0 then Inr (Some (AMX_ERR_FORMAT, a))
      else bindR (assertR (h_flags hdr AND AMX_FLAG_COMPACT \<noteq> 0 \<or> h_hea hdr = h_size hdr)) (\<lambda>_.
        bindR (if h_flags hdr AND AMX_FLAG_COMPACT \<noteq> 0
               then expand img (unat (h_size hdr - h_cod hdr)) (unat (h_hea hdr - h_cod hdr)) else Inr img) (\<lambda>bs.
          let top = unat (h_stp hdr - h_cod hdr)
          in if top < 4 \<or> length bs < top then Inl BufferOverflow
             else let bs' = take (top - 4) bs @ [0, 0, 0, 0] @ drop top bs; nd = unat (h_dat hdr - h_cod hdr);
                      hlw = h_hea hdr - h_dat hdr; stp = h_stp hdr - h_dat hdr - cell_bytes
                  in bindR (amx_BrowseRelocate n hook
                       (a\<lparr>a_base := hdr, a_code := cells_of (take nd bs'), a_data := mem_of (drop nd bs'),
                          a_hlw := hlw, a_stp := stp, a_hea := hlw, a_stk := stp, a_callback := True\<rparr>)) (\<lambda>r.
                       case r of None \<Rightarrow> Inr None | Some (e, rs, b) \<Rightarrow> Inr (Some (AMX_ERR_NONE, b))))))"

text \<open>\<open>amx_Clone\<close>: a second machine on the code of a first one, with a copy of the data segment.\<close>

definition amx_Clone :: "amx \<Rightarrow> mem \<Rightarrow> amx \<Rightarrow> int \<times> amx" where
  "amx_Clone source data clone =
     (let h = a_base source
      in if a_flags source AND AMX_FLAG_RELOC = 0 then (AMX_ERR_INIT, clone)
         else if h_magic h \<noteq> AMX_MAGIC then (AMX_ERR_FORMAT, clone)
         else if CUR_FILE_VERSION < h_file_version h \<or> h_amx_version h < MIN_FILE_VERSION then (AMX_ERR_VERSION, clone)
         else let hlw = h_hea h - h_dat h; stp = h_stp h - h_dat h - cell_bytes
              in (AMX_ERR_NONE,
                  clone\<lparr>a_base := h, a_code := a_code source, a_codeaddr := a_codeaddr source,
                    a_hlw := hlw, a_stp := stp, a_hea := hlw, a_stk := stp,
                    a_callback := a_callback clone \<or> a_callback source, a_debug := a_debug clone \<or> a_debug source,
                    a_flags := a_flags source,
                    a_data := put_cell (\<lambda>x. if x < hlw then a_data source x else data x) stp 0\<rparr>))"

section \<open>What is compiled is what runs\<close>

text \<open>A header of a program with \<open>code\<close> and \<open>dat\<close> as code and data cells, of which \<open>n\<close> bytes are in the
  file, and with a stack above the heap.\<close>

definition program_header :: "header \<Rightarrow> cell list \<Rightarrow> cell list \<Rightarrow> nat \<Rightarrow> bool" where
  "program_header hdr code dat n \<longleftrightarrow>
     h_magic hdr = AMX_MAGIC \<and> MIN_FILE_VERSION \<le> h_file_version hdr \<and> h_amx_version hdr \<le> CUR_FILE_VERSION
     \<and> h_defsize hdr = FUNCSTUBNT_size \<and> h_namelength hdr \<le> name_limit \<and> \<not> h_stp hdr \<le>s 0
     \<and> h_flags hdr AND AMX_FLAG_COMPACT \<noteq> 0
     \<and> unat (h_size hdr - h_cod hdr) = n \<and> unat (h_dat hdr - h_cod hdr) = 4 * length code
     \<and> unat (h_hea hdr - h_cod hdr) = 4 * length (code @ dat)
     \<and> unat (h_hea hdr - h_cod hdr) + 4 \<le> unat (h_stp hdr - h_cod hdr)"

lemma cells_of_nth:
  "4 * i + 3 < length bs \<Longrightarrow> cells_of bs ! i = ucast (bs ! (4 * i)) OR push_bit 8 (ucast (bs ! (4 * i + 1)))
     OR push_bit 16 (ucast (bs ! (4 * i + 2))) OR push_bit 24 (ucast (bs ! (4 * i + 3)))"
proof (induction bs arbitrary: i rule: cells_of.induct)
  case (1 a b c d bs)
  show ?case
  proof (cases i)
    case (Suc j)
    have e: "4 * Suc j = Suc (Suc (Suc (Suc (4 * j))))" by simp
    have "4 * j + 3 < length bs" using 1(2) Suc by simp
    from 1(1) [OF this] show ?thesis unfolding Suc e by (simp add: add.commute)
  qed simp
qed auto

lemma cells_of_prefix: "cells_of (concat (map cell_bytes_le cs) @ ys) = cs @ cells_of ys"
  by (induction cs) (simp_all add: cell_bytes_le_def upt_rec cell_of_bytes)

lemma get_cell_cells_of:
  assumes "4 * i + 3 < length bs" and "4 * i + 3 < 2 ^ 32"
  shows "get_cell (mem_of bs) (of_nat (4 * i)) = cells_of bs ! i"
proof -
  have "(of_nat (4 * i) :: cell) + 1 = of_nat (4 * i + 1)" "(of_nat (4 * i) :: cell) + 2 = of_nat (4 * i + 2)"
    "(of_nat (4 * i) :: cell) + 3 = of_nat (4 * i + 3)" by simp_all
  moreover have "mem_of bs (of_nat k) = bs ! k" if "k \<le> 4 * i + 3" for k
    using that assms small_cell [of k] by (simp add: mem_of_def)
  ultimately show ?thesis
    unfolding get_cell_def cells_of_nth [OF assms(1)] by (simp only:)
qed

lemma init_program:
  assumes "write_encoded (code @ dat) \<lparr>bin_out = [], bytes_in = 0, bytes_out = 0, sc_compress = True\<rparr> = Inr fb"
    and "take (length (bin_out fb)) img = bin_out fb" and "length (bin_out fb) \<le> length img"
    and h: "program_header hdr code dat (length (bin_out fb))" and "unat (h_stp hdr - h_cod hdr) \<le> length img"
    and "a_flags a AND AMX_FLAG_RELOC = 0"
  shows "\<exists>b. a_code b = code \<and> (\<forall>i < length dat. get_cell (a_data b) (of_nat (4 * i)) = dat ! i)
    \<and> a_base b = hdr \<and> a_stk b = a_stp b \<and> a_hea b = a_hlw b \<and> a_callback b \<and> a_flags b = a_flags a
    \<and> (\<forall>n hook. amx_Init n hook hdr img a = bindR (amx_BrowseRelocate n hook b) (\<lambda>r.
         case r of None \<Rightarrow> Inr None | Some (e, rs, c) \<Rightarrow> Inr (Some (AMX_ERR_NONE, c))))"
proof -
  let ?cs = "code @ dat" and ?top = "unat (h_stp hdr - h_cod hdr)"
  have top: "4 * length ?cs + 4 \<le> ?top" using h by (simp add: program_header_def)
  obtain bs where bs: "expand img (length (bin_out fb)) (4 * length ?cs) = Inr bs" "length bs = length img"
    "take (4 * length ?cs) bs = concat (map cell_bytes_le ?cs)"
    using expand_written [OF assms(1-3)] top assms(5) by auto
  define bs' where "bs' = take (?top - 4) bs @ [0, 0, 0, 0] @ drop ?top bs"
  have "4 * length ?cs \<le> ?top - 4" "?top - 4 \<le> length bs" using top bs(2) assms(5) by linarith+
  then have "take (4 * length ?cs) bs' = take (4 * length ?cs) bs"
    unfolding bs'_def by (simp only: take_append length_take min.absorb2 take_take min.absorb1 diff_is_0_eq' take_0 append_Nil2 diff_self_eq_0)
  then have "bs' = take (4 * length ?cs) bs @ drop (4 * length ?cs) bs'"
    using append_take_drop_id [of "4 * length ?cs" bs'] by simp
  then have b': "bs' = concat (map cell_bytes_le code) @ concat (map cell_bytes_le dat) @ drop (4 * length ?cs) bs'"
    unfolding bs(3) by simp
  have nd: "unat (h_dat hdr - h_cod hdr) = length (concat (map cell_bytes_le code))"
    using h by (simp add: program_header_def length_le)
  have c: "cells_of (take (unat (h_dat hdr - h_cod hdr)) bs') = code"
    unfolding nd by (subst b') (simp add: cells_of_le)
  have d: "drop (unat (h_dat hdr - h_cod hdr)) bs' = concat (map cell_bytes_le dat) @ drop (4 * length ?cs) bs'"
    unfolding nd by (subst b') simp
  have dd: "get_cell (mem_of (drop (unat (h_dat hdr - h_cod hdr)) bs')) (of_nat (4 * i)) = dat ! i" if i: "i < length dat" for i
  proof -
    have "4 * i + 3 < length (drop (unat (h_dat hdr - h_cod hdr)) bs')" using i unfolding d by (simp add: length_le)
    moreover have "4 * i + 3 < 2 ^ 32"
      using i top unsigned_less [of "h_stp hdr - h_cod hdr", where 'a = nat] by simp
    ultimately show ?thesis
      using i unfolding d by (simp only: get_cell_cells_of cells_of_prefix nth_append if_True)
  qed
  let ?b = "a\<lparr>a_base := hdr, a_code := cells_of (take (unat (h_dat hdr - h_cod hdr)) bs'),
    a_data := mem_of (drop (unat (h_dat hdr - h_cod hdr)) bs'), a_hlw := h_hea hdr - h_dat hdr,
    a_stp := h_stp hdr - h_dat hdr - cell_bytes, a_hea := h_hea hdr - h_dat hdr,
    a_stk := h_stp hdr - h_dat hdr - cell_bytes, a_callback := True\<rparr>"
  have "amx_Init n hook hdr img a = bindR (amx_BrowseRelocate n hook ?b) (\<lambda>r.
         case r of None \<Rightarrow> Inr None | Some (e, rs, c) \<Rightarrow> Inr (Some (AMX_ERR_NONE, c)))" for n hook
    using h assms(5,6) bs(1,2) top unfolding program_header_def
    by (simp add: amx_Init_def Let_def bs'_def FUNCSTUB_size_def FUNCSTUBNT_size_def)
  then show ?thesis using c dd by (intro exI [of _ ?b]) simp
qed

text \<open>C2 (compiler to host): a program that the assembler wrote in compact form is loaded as it was
  compiled. \<open>amx_Init\<close> passes the assertions of \<open>expand\<close>, ends and succeeds; the code of the machine
  is the compiled code, its data the compiled data, the stack is empty, and the machine is marked as
  relocated, so that \<open>amx_Exec\<close> accepts it once its natives are registered.\<close>
theorem compiled_program_loads:
  assumes "write_encoded (concat (map item_cells its) @ dat) \<lparr>bin_out = [], bytes_in = 0, bytes_out = 0, sc_compress = True\<rparr> = Inr fb"
    and "take (length (bin_out fb)) img = bin_out fb" and "length (bin_out fb) \<le> length img"
    and "program_header hdr (concat (map item_cells its)) dat (length (bin_out fb))"
    and "unat (h_stp hdr - h_cod hdr) \<le> length img" and "a_flags a AND AMX_FLAG_RELOC = 0"
    and "\<forall>it \<in> set its. assembled env it" and "4 * length (concat (map item_cells its)) < 2 ^ 31"
  shows "\<exists>b. amx_Init (length its + 1) None hdr img a = Inr (Some (AMX_ERR_NONE, b))
    \<and> a_code b = concat (map item_cells its) \<and> (\<forall>i < length dat. get_cell (a_data b) (of_nat (4 * i)) = dat ! i)
    \<and> a_stk b = a_stp b \<and> a_hea b = a_hlw b \<and> a_flags b AND AMX_FLAG_RELOC \<noteq> 0"
proof -
  obtain b where b: "a_code b = concat (map item_cells its)" "\<forall>i < length dat. get_cell (a_data b) (of_nat (4 * i)) = dat ! i"
    "a_base b = hdr" "a_stk b = a_stp b" "a_hea b = a_hlw b"
    and i: "\<forall>n hook. amx_Init n hook hdr img a = bindR (amx_BrowseRelocate n hook b) (\<lambda>r.
         case r of None \<Rightarrow> Inr None | Some (e, rs, c) \<Rightarrow> Inr (Some (AMX_ERR_NONE, c)))"
    using init_program [OF assms(1-6)] by blast
  have m: "h_magic (a_base b) = AMX_MAGIC" using assms(4) b(3) by (simp add: program_header_def)
  have w: "amx_BrowseRelocate (length its + 1) None b = Inr (Some (AMX_ERR_NONE, all_relocs 0 its,
      b\<lparr>a_flags := a_flags b AND NOT AMX_FLAG_BROWSE OR AMX_FLAG_RELOC\<rparr>))"
    by (rule browse_assembled [OF assms(7) b(1) _ m]) (simp only: b(1), rule assms(8))
  show ?thesis
    using b i w by (simp add: reloc_flag del: concat_eq_Nil_conv)
qed

text \<open>A program of three instructions and one cell of data.\<close>

definition sample_header :: header where
  "sample_header = \<lparr>h_magic = AMX_MAGIC, h_file_version = 8, h_amx_version = 8, h_flags = AMX_FLAG_COMPACT, h_defsize = 8,
     h_namelength = 31, h_size = 61, h_cod = 56, h_dat = 68, h_hea = 72, h_stp = 136, h_cip = 0,
     h_publics = [], h_natives = [], h_pubvars = []\<rparr>"

theorem compiled_program_loads_witness:
  "\<exists>b. amx_Init 4 None sample_header ([0x2E, 0x80, 0x59, 0x30, 0x07] @ replicate 75 0) ((amx_with [])\<lparr>a_flags := 0\<rparr>) = Inr (Some (AMX_ERR_NONE, b))
    \<and> a_code b = [OP_PROC, OP_ZERO_PRI, OP_RETN] \<and> (\<forall>i < 1. get_cell (a_data b) (of_nat (4 * i)) = [7] ! i)
    \<and> a_stk b = a_stp b \<and> a_hea b = a_hlw b \<and> a_flags b AND AMX_FLAG_RELOC \<noteq> 0"
proof -
  let ?its = "[Instr OP_PROC [], Instr OP_ZERO_PRI [], Instr OP_RETN []]"
  let ?env = "\<lparr>ae_labnum = 0, ae_lbltab = None, ae_syms = \<lparr>glbtab = [], loctab = [], fcurrent = -1, next_id = 0\<rparr>\<rparr>"
  let ?fb = "\<lparr>bin_out = [0x2E, 0x80, 0x59, 0x30, 0x07], bytes_in = 16, bytes_out = 5, sc_compress = True\<rparr> :: binfile"
  let ?img = "[0x2E, 0x80, 0x59, 0x30, 0x07] @ replicate 75 0 :: byte list"
  have c: "concat (map item_cells ?its) = [OP_PROC, OP_ZERO_PRI, OP_RETN]" and n: "length ?its + 1 = 4" by simp_all
  have f: "write_encoded (concat (map item_cells ?its) @ [7]) \<lparr>bin_out = [], bytes_in = 0, bytes_out = 0, sc_compress = True\<rparr> = Inr ?fb"
    by code_simp
  have "entry OP_PROC (Some ''proc'') CSEG parm0 \<in> set opcodelist" "entry OP_RETN (Some ''retn'') CSEG parm0 \<in> set opcodelist"
    "entry OP_ZERO_PRI (Some ''zero.pri'') CSEG parm0 \<in> set opcodelist"
    by (simp_all add: opcodelist_def)
  then have "assembled ?env (Instr OP_PROC [])" "assembled ?env (Instr OP_ZERO_PRI [])" "assembled ?env (Instr OP_RETN [])"
    by (auto intro: assembled_parm0)
  then have a: "\<forall>it \<in> set ?its. assembled ?env it" by simp
  have h: "program_header sample_header (concat (map item_cells ?its)) [7] (length (bin_out ?fb))" by code_simp
  have "take (length (bin_out ?fb)) ?img = bin_out ?fb" "length (bin_out ?fb) \<le> length ?img"
    "unat (h_stp sample_header - h_cod sample_header) \<le> length ?img"
    by (simp_all add: sample_header_def)
  from compiled_program_loads [OF f this(1,2) h this(3) _ a, of "(amx_with [])\<lparr>a_flags := 0\<rparr>"]
  show ?thesis unfolding n c by simp
qed

end
