(* ===== verification/AmxString.thy ===== *)
theory AmxString
  imports AmxInit
begin

text \<open>
  Strings of the abstract machine (src/amxmodx/amx.cpp): \<open>amx_StrLen\<close>, \<open>amx_SetString\<close>,
  \<open>amx_GetString\<close>, \<open>amx_PushString\<close>, and the UTF-8 functions. The file is compiled with
  \<open>AMX_ANSIONLY\<close>, so \<open>use_wchar\<close> is not used. A string of C is the list of its bytes without the
  terminator, and a string of the machine is the list of cells from its address to the end of
  the memory that is there.
\<close>

section \<open>Packed and unpacked strings\<close>

definition UNPACKEDMAX :: cell where "UNPACKEDMAX = push_bit 24 1 - 1"
definition UNLIMITED :: nat where "UNLIMITED = 2 ^ 31 - 1"
definition CHARMASK :: cell where "CHARMASK = push_bit 24 0xffffffff"

text \<open>\<open>swapcell\<close>: the outer and the inner two bytes are exchanged, which reverses the bytes.\<close>

definition swapcell :: "cell \<Rightarrow> cell" where
  "swapcell v = hd (cells_of (rev (cell_bytes_le v)))"

text \<open>The length of a string that may run past its memory: the index of the first element with \<open>p\<close>.\<close>

fun index_of :: "('a \<Rightarrow> bool) \<Rightarrow> 'a list \<Rightarrow> nat result" where
  "index_of p [] = Inl BufferOverflow"
| "index_of p (x # xs) = (if p x then Inr 0 else bindR (index_of p xs) (\<lambda>n. Inr (n + 1)))"

definition bytes_of :: "cell list \<Rightarrow> byte list" where "bytes_of cs = concat (map cell_bytes_le cs)"

text \<open>The loop over the last cell shifts zeros in and ends after four turns at most.\<close>

fun top_chars :: "nat \<Rightarrow> cell \<Rightarrow> nat" where
  "top_chars 0 c = 0"
| "top_chars (Suc n) c = (if c AND CHARMASK \<noteq> 0 then top_chars n (push_bit 8 c) + 1 else 0)"

definition amx_StrLen :: "cell list option \<Rightarrow> (int \<times> nat) result" where
  "amx_StrLen cstr =
     (case cstr of None \<Rightarrow> Inr (AMX_ERR_PARAMS, 0)
      | Some [] \<Rightarrow> Inl BufferOverflow
      | Some (c # cs) \<Rightarrow>
          if UNPACKEDMAX < c then
            bindR (index_of (\<lambda>b. b = 0) (bytes_of (c # cs))) (\<lambda>len.
              Inr (AMX_ERR_NONE, len - len mod 4 + top_chars 4 ((c # cs) ! (len div 4))))
          else bindR (index_of (\<lambda>c. c = 0) (c # cs)) (\<lambda>len. Inr (AMX_ERR_NONE, len)))"

text \<open>with the size 0 the last element is taken to be in front of the string.\<close>

definition amx_SetString :: "byte list \<Rightarrow> bool \<Rightarrow> nat \<Rightarrow> cell list \<Rightarrow> (int \<times> cell list) result" where
  "amx_SetString source pack sz dest =
     (if sz = 0 then Inl BufferOverflow
      else if pack then
        let len = (if sz < UNLIMITED div 4 \<and> sz * 4 \<le> length source then sz * 4 - 1 else length source)
        in if len div 4 < length dest
           then Inr (AMX_ERR_NONE, map swapcell (cells_of (take len source @ replicate (4 - len mod 4) 0)) @ drop (len div 4 + 1) dest)
           else Inl BufferOverflow
      else
        let len = (if sz < UNLIMITED \<and> sz \<le> length source then sz - 1 else length source)
        in if len < length dest then Inr (AMX_ERR_NONE, map scast (take len source) @ 0 # drop (len + 1) dest)
           else Inl BufferOverflow)"

text \<open>The two loops of \<open>amx_GetString\<close>; \<open>c\<close> is the current cell, \<open>i\<close> the number of the next byte in it.
  The result are the characters and whether the terminator was among them.\<close>

fun get_packed :: "nat \<Rightarrow> cell \<Rightarrow> nat \<Rightarrow> cell list \<Rightarrow> byte list \<Rightarrow> byte list result" where
  "get_packed 0 c i source str = Inr str"
| "get_packed (Suc n) c i source str =
     (if i = 3 \<and> source = [] then Inl BufferOverflow
      else let c' = (if i = 3 then hd source else c); rest = (if i = 3 then tl source else source);
               b = ucast (drop_bit (i * 8) c')
           in if b = 0 then Inr (str @ [b]) else get_packed n c' ((i + 3) mod 4) rest (str @ [b]))"

fun get_unpacked :: "nat \<Rightarrow> cell list \<Rightarrow> byte list \<Rightarrow> byte list result" where
  "get_unpacked n [] str = Inl BufferOverflow"
| "get_unpacked n (c # cs) str =
     (if c = 0 \<or> n = 0 then Inr str else get_unpacked (n - 1) cs (str @ [ucast c]))"

text \<open>What is in \<open>dest\<close> afterwards, up to the terminator; nothing is stored when the size is 0.\<close>

definition amx_GetString :: "cell list \<Rightarrow> nat \<Rightarrow> (int \<times> byte list option) result" where
  "amx_GetString source sz =
     (if source = [] then Inl BufferOverflow
      else bindR (if UNPACKEDMAX < hd source then get_packed sz 0 3 source [] else get_unpacked sz source []) (\<lambda>str.
        Inr (AMX_ERR_NONE, if sz = 0 then None
          else Some (takeWhile (\<lambda>b. b \<noteq> 0) (if sz \<le> length str then take (sz - 1) str else str)))))"

definition amx_PushString :: "byte list \<Rightarrow> bool \<Rightarrow> amx \<Rightarrow> (int \<times> cell option \<times> amx) result" where
  "amx_PushString str pack a =
     (let numcells = (if pack then (length str + 1 + 3) div 4 else length str + 1)
      in bindR (amx_Allot (of_nat numcells) a) (\<lambda>r.
           case r of
             (e, None, b) \<Rightarrow> Inr (e, None, b)
           | (e, Some p, b) \<Rightarrow>
               bindR (amx_SetString str pack UNLIMITED (replicate numcells 0)) (\<lambda>(e1, cs).
                 bindR (store_cells cs p b) (\<lambda>c. bindR (amx_Push p c) (\<lambda>(e2, d). Inr (e2, Some p, d))))))"

section \<open>UTF-8\<close>

definition utf8_count :: "nat list" where "utf8_count = [0, 0, 0, 0, 0, 0, 0, 0, 1, 1, 1, 1, 2, 2, 3, 4]"
definition utf8_lowmark :: "cell list" where "utf8_lowmark = [0x80, 0x800, 0x10000, 0x200000, 0x4000000]"

definition utf8_reserved :: "cell \<Rightarrow> bool" where
  "utf8_reserved v \<longleftrightarrow> 0xd800 \<le>s v \<and> v \<le>s 0xdfff \<or> v = 0xfffe \<or> v = 0xffff"

text \<open>The switch that falls through: \<open>n\<close> follow-up bytes.\<close>

fun utf8_follow :: "nat \<Rightarrow> cell \<Rightarrow> byte list \<Rightarrow> (cell \<times> byte list) option result" where
  "utf8_follow 0 r s = Inr (Some (r, s))"
| "utf8_follow (Suc n) r [] = Inl BufferOverflow"
| "utf8_follow (Suc n) r (c # s) =
     (if c AND 0xc0 \<noteq> 0x80 then Inr None else utf8_follow n (push_bit 6 r OR (ucast c AND 0x3f)) s)"

text \<open>The string includes its terminator.\<close>

definition amx_UTF8Get :: "byte list \<Rightarrow> (int \<times> cell \<times> byte list) result" where
  "amx_UTF8Get str =
     (case str of [] \<Rightarrow> Inl BufferOverflow
      | c # s \<Rightarrow>
          if c < 0x80 then Inr (AMX_ERR_NONE, ucast c, s)
          else if c < 0xc0 \<or> 0xfe \<le> c then Inr (AMX_ERR_PARAMS, 0, str)
          else let followup = utf8_count ! unat (drop_bit 2 c AND 0x0f)
               in bindR (utf8_follow (followup + 1) (ucast c AND drop_bit followup 0x1f) s) (\<lambda>r.
                    case r of None \<Rightarrow> Inr (AMX_ERR_PARAMS, 0, str)
                    | Some (v, rest) \<Rightarrow>
                        if v <s utf8_lowmark ! followup \<or> utf8_reserved v then Inr (AMX_ERR_PARAMS, 0, str)
                        else Inr (AMX_ERR_NONE, v, rest)))"

definition amx_UTF8Put :: "int \<Rightarrow> cell \<Rightarrow> int \<times> byte list" where
  "amx_UTF8Put maxchars v =
     (let b = (\<lambda>n m l. ucast ((drop_bit n v AND m) OR l))
      in if v <s 0x80 then if maxchars < 1 then (AMX_ERR_PARAMS, []) else (AMX_ERR_NONE, [ucast v])
         else if v <s 0x800 then
           if maxchars < 2 then (AMX_ERR_PARAMS, []) else (AMX_ERR_NONE, [b 6 0x1f 0xc0, b 0 0x3f 0x80])
         else if v <s 0x10000 then
           if maxchars < 3 \<or> utf8_reserved v then (AMX_ERR_PARAMS, [])
           else (AMX_ERR_NONE, [b 12 0x0f 0xe0, b 6 0x3f 0x80, b 0 0x3f 0x80])
         else if v <s 0x200000 then
           if maxchars < 4 then (AMX_ERR_PARAMS, [])
           else (AMX_ERR_NONE, [b 18 0x07 0xf0, b 12 0x3f 0x80, b 6 0x3f 0x80, b 0 0x3f 0x80])
         else if v <s 0x4000000 then
           if maxchars < 5 then (AMX_ERR_PARAMS, [])
           else (AMX_ERR_NONE, [b 24 0x03 0xf8, b 18 0x3f 0x80, b 12 0x3f 0x80, b 6 0x3f 0x80, b 0 0x3f 0x80])
         else
           if maxchars < 6 then (AMX_ERR_PARAMS, [])
           else (AMX_ERR_NONE, [b 30 0x01 0xfc, b 24 0x3f 0x80, b 18 0x3f 0x80, b 12 0x3f 0x80, b 6 0x3f 0x80, b 0 0x3f 0x80]))"

lemma follow_length: "utf8_follow n r s = Inr (Some (v, rest)) \<Longrightarrow> length s = n + length rest"
  by (induction n r s rule: utf8_follow.induct) (auto split: if_splits)

lemma get_shorter:
  assumes "amx_UTF8Get s = Inr (AMX_ERR_NONE, v, rest)"
  shows "length rest < length s"
proof (cases s)
  case (Cons c t)
  show ?thesis
  proof (cases "c < 0x80")
    case False
    then obtain n r where "utf8_follow n r t = Inr (Some (v, rest))"
      using assms Cons by (auto simp: amx_UTF8Get_def Let_def bindR_Inr_iff split: if_splits option.splits)
    then show ?thesis using follow_length Cons by fastforce
  qed (use assms Cons in \<open>simp add: amx_UTF8Get_def\<close>)
qed (use assms in \<open>simp add: amx_UTF8Get_def\<close>)

function utf8_check :: "byte list \<Rightarrow> nat \<Rightarrow> (int \<times> nat) result" where
  "utf8_check s len =
     (case s of [] \<Rightarrow> Inl BufferOverflow
      | c # cs \<Rightarrow>
          if c = 0 then Inr (AMX_ERR_NONE, len)
          else case amx_UTF8Get s of Inl f \<Rightarrow> Inl f
               | Inr (e, v, rest) \<Rightarrow> if e = AMX_ERR_NONE then utf8_check rest (len + 1) else Inr (e, len + 1))"
  by pat_completeness auto
termination by (relation "measure (\<lambda>(s, len). length s)") (auto dest: get_shorter)

definition amx_UTF8Check :: "byte list \<Rightarrow> (int \<times> nat) result" where
  "amx_UTF8Check str = utf8_check str 0"

text \<open>The buffer of ten characters has room for every code.\<close>

definition amx_UTF8Len :: "cell list option \<Rightarrow> (int \<times> nat) result" where
  "amx_UTF8Len cstr =
     bindR (amx_StrLen cstr) (\<lambda>(e, len).
       case cstr of None \<Rightarrow> Inr (e, len)
       | Some cs \<Rightarrow> if hd cs \<le> UNPACKEDMAX
           then Inr (e, sum_list (map (\<lambda>c. length (snd (amx_UTF8Put 10 c))) (take len cs))) else Inr (e, len))"

section \<open>Every character has one code\<close>

lemma byte_all: "list_all (\<lambda>k. P (of_nat k :: byte)) [0..<256] \<Longrightarrow> P b"
proof -
  assume a: "list_all (\<lambda>k. P (of_nat k :: byte)) [0..<256]"
  have "unat b \<in> set [0..<256]" using unsigned_less [of b, where 'a = nat] by simp
  then have "P (of_nat (unat b) :: byte)" using a by (simp only: list_all_iff)
  then show "P b" by simp
qed

lemma follow_byte: "(c :: byte) AND 0xc0 = 0x80 \<longleftrightarrow> c = (c AND 0x3f) OR 0x80"
  by (rule byte_all) code_simp

lemma mask6: "(0x3f :: 'a :: len word) = mask 6"
  by (simp add: mask_eq_exp_minus_1)

lemma bit7: "bit (0x80 :: 'a :: len word) n \<longleftrightarrow> n = 7 \<and> 7 < LENGTH('a)"
proof -
  have "(0x80 :: 'a word) = push_bit 7 1" by (simp add: push_bit_eq_mult)
  then show ?thesis by (simp only: bit_push_bit_iff bit_1_iff possible_bit_word) auto
qed

lemma bit7_int: "bit (0x80 :: int) n \<longleftrightarrow> n = 7"
proof -
  have "(0x80 :: int) = push_bit 7 1" by (simp add: push_bit_eq_mult)
  then show ?thesis by (simp only: bit_push_bit_iff_int bit_1_iff) auto
qed

lemma follow_join:
  assumes "(r :: cell) = take_bit 26 r"
  shows "drop_bit 6 (push_bit 6 r OR (ucast (c :: byte) AND 0x3f)) = r"
    and "(push_bit 6 r OR (ucast c AND 0x3f)) AND 0x3f = (ucast c AND 0x3f :: cell)"
proof -
  have b: "bit r n \<Longrightarrow> n < 26" for n using assms bit_take_bit_iff [of 26 r n] by simp
  show "drop_bit 6 (push_bit 6 r OR (ucast c AND 0x3f)) = r"
    by (rule bit_word_eqI) (use b in \<open>auto simp: bit_simps mask6\<close>)
  show "(push_bit 6 r OR (ucast c AND 0x3f)) AND 0x3f = (ucast c AND 0x3f :: cell)"
    by (rule bit_word_eqI) (auto simp: bit_simps mask6)
qed

lemma follow_split: "push_bit 6 (drop_bit 6 w) OR (w AND 0x3f) = (w :: cell)"
  by (rule bit_word_eqI) (auto simp: mask6 bit_simps)

definition follow_of :: "cell \<Rightarrow> byte" where "follow_of w = ucast ((w AND 0x3f) OR 0x80)"

lemma follow_iff:
  assumes "(r :: cell) = take_bit 26 r"
  shows "c AND 0xc0 = 0x80 \<and> w = push_bit 6 r OR (ucast c AND 0x3f) \<longleftrightarrow> drop_bit 6 w = r \<and> c = follow_of w"
proof -
  have e: "follow_of w = (ucast (w AND 0x3f) :: byte) OR 0x80" for w
    by (rule bit_word_eqI) (auto simp: follow_of_def bit7 bit_simps)
  have u: "(ucast (ucast c AND 0x3f :: cell) :: byte) = c AND 0x3f"
    by (rule bit_word_eqI) (auto simp: bit_simps mask6)
  show ?thesis
  proof
    assume a: "c AND 0xc0 = 0x80 \<and> w = push_bit 6 r OR (ucast c AND 0x3f)"
    then have "w AND 0x3f = ucast c AND 0x3f" "drop_bit 6 w = r" using follow_join [OF assms] by simp_all
    then show "drop_bit 6 w = r \<and> c = follow_of w" using a u follow_byte unfolding e by simp
  next
    assume a: "drop_bit 6 w = r \<and> c = follow_of w"
    have x: "(ucast (follow_of w) AND 0x3f :: cell) = w AND 0x3f"
      unfolding e by (rule bit_word_eqI) (auto simp: bit_simps mask6 bit7_int)
    have "follow_of w AND 0xc0 = 0x80"
      unfolding follow_byte by (rule bit_word_eqI) (auto simp: bit_simps mask6 bit7 follow_of_def)
    then show "c AND 0xc0 = 0x80 \<and> w = push_bit 6 r OR (ucast c AND 0x3f)"
      using a x follow_split [of w] by simp
  qed
qed

fun follows :: "nat \<Rightarrow> cell \<Rightarrow> byte list" where
  "follows 0 v = []"
| "follows (Suc n) v = follow_of (drop_bit (6 * n) v) # follows n v"

lemma utf8_follow_iff:
  "take_bit m r = r \<Longrightarrow> m + 6 * n \<le> 32 \<Longrightarrow>
   utf8_follow n r s = Inr (Some (v, rest)) \<longleftrightarrow> drop_bit (6 * n) v = r \<and> s = follows n v @ rest"
proof (induction n arbitrary: r m s)
  case 0
  then show ?case by auto
next
  case (Suc n)
  show ?case
  proof (cases s)
    case (Cons c t)
    let ?r = "push_bit 6 r OR (ucast c AND 0x3f)"
    have b: "bit r k \<Longrightarrow> k < m" for k using Suc.prems(1) bit_take_bit_iff [of m r k] by simp
    have r: "r = take_bit 26 r" by (rule bit_word_eqI) (use Suc.prems(2) in \<open>auto simp: bit_simps dest: b\<close>)
    have "take_bit (m + 6) ?r = ?r" by (rule bit_word_eqI) (auto simp: bit_simps mask6 dest: b)
    then have "utf8_follow n ?r t = Inr (Some (v, rest)) \<longleftrightarrow> drop_bit (6 * n) v = ?r \<and> t = follows n v @ rest"
      using Suc.prems(2) by (intro Suc.IH) auto
    then show ?thesis
      using follow_iff [OF r, of c "drop_bit (6 * n) v"] Cons by (auto simp: drop_bit_drop_bit add.commute)
  qed simp
qed

lemma take_bit_self: "n < 32 \<Longrightarrow> take_bit n (w :: cell) = w \<longleftrightarrow> unat w < 2 ^ n"
  by (simp add: word_unat_eq_iff unsigned_take_bit_eq take_bit_nat_eq_self_iff)

lemma drop_bit_small:
  "m + n < 32 \<Longrightarrow> take_bit m (drop_bit n v) = drop_bit n v \<longleftrightarrow> take_bit (m + n) v = (v :: cell)"
  by (simp add: take_bit_self unat_drop_bit_eq drop_bit_eq_div [where 'a = nat] div_less_iff_less_mult power_add)

lemma class_bits:
  assumes "f \<le> 4"
  shows "take_bit (5 - f) (drop_bit (6 * (f + 1)) v) = drop_bit (6 * (f + 1)) v \<longleftrightarrow> take_bit (11 + 5 * f) v = (v :: cell)"
proof -
  have e: "5 - f + 6 * (f + 1) = 11 + 5 * f" using assms by simp
  show ?thesis by (rule drop_bit_small [of "5 - f" "6 * (f + 1)" v, unfolded e]) (use assms in simp)
qed

definition utf8_lead :: "cell list" where "utf8_lead = [0xc0, 0xe0, 0xf0, 0xf8, 0xfc]"

lemma head_byte:
  "0xc0 \<le> (c :: byte) \<and> c < 0xfe \<longrightarrow>
     (let f = utf8_count ! unat (drop_bit 2 c AND 0x0f); r = ucast c AND drop_bit f 0x1f :: cell
      in f \<le> 4 \<and> take_bit (5 - f) r = r \<and> c = ucast (r OR utf8_lead ! f))"
  by (rule byte_all) code_simp

lemma head_value:
  "list_all (\<lambda>f. list_all (\<lambda>k. let r = of_nat k :: cell; c = ucast (r OR utf8_lead ! f) :: byte
     in 0xc0 \<le> c \<and> c < 0xfe \<and> utf8_count ! unat (drop_bit 2 c AND 0x0f) = f \<and> ucast c AND drop_bit f 0x1f = r)
     [0..<2 ^ (5 - f)]) [0..<5]"
  by code_simp

lemma head_iff:
  "(0xc0 \<le> (c :: byte) \<and> c < 0xfe \<and> utf8_count ! unat (drop_bit 2 c AND 0x0f) = f \<and> ucast c AND drop_bit f 0x1f = r)
   \<longleftrightarrow> (f \<le> 4 \<and> take_bit (5 - f) r = r \<and> c = ucast (r OR utf8_lead ! f))" (is "?l = ?r")
proof
  assume ?l
  then show ?r using head_byte [of c] by (auto simp: Let_def)
next
  assume a: ?r
  have "unat r < 2 ^ (5 - f)"
    using a take_bit_self [of "5 - f" r] by simp
  then have "f \<in> set [0..<5]" "unat r \<in> set [0..<2 ^ (5 - f)]" using a by auto
  with head_value have "let r = of_nat (unat r) :: cell; c = ucast (r OR utf8_lead ! f) :: byte
     in 0xc0 \<le> c \<and> c < 0xfe \<and> utf8_count ! unat (drop_bit 2 c AND 0x0f) = f \<and> ucast c AND drop_bit f 0x1f = r"
    unfolding list_all_iff by blast
  then show ?l using a by (simp add: Let_def)
qed

text \<open>The code of a character that takes \<open>f + 2\<close> bytes.\<close>

definition utf8_code :: "nat \<Rightarrow> cell \<Rightarrow> byte list" where
  "utf8_code f v = ucast (drop_bit (6 * (f + 1)) v OR utf8_lead ! f) # follows (f + 1) v"

definition utf8_class :: "nat \<Rightarrow> cell \<Rightarrow> bool" where
  "utf8_class f v \<longleftrightarrow> f \<le> 4 \<and> take_bit (11 + 5 * f) v = v \<and> \<not> v <s utf8_lowmark ! f \<and> \<not> utf8_reserved v"

lemma lowmark_80: "f \<le> 4 \<Longrightarrow> take_bit (11 + 5 * f) v = v \<Longrightarrow> v < 0x80 \<Longrightarrow> v <s utf8_lowmark ! f"
proof -
  assume "f \<le> 4" and v: "v < (0x80 :: cell)"
  then have f: "f \<in> {0, 1, 2, 3, 4}" by auto
  have "sint v = int (unat v)" using sint_of_nat_cell [of "unat v"] v by (simp add: word_less_nat_alt)
  then show ?thesis using f v by (auto simp: word_sless_alt utf8_lowmark_def word_less_def)
qed

lemma get_iff:
  "amx_UTF8Get s = Inr (AMX_ERR_NONE, v, rest) \<longleftrightarrow>
     v < 0x80 \<and> s = ucast v # rest \<or> (\<exists>f. utf8_class f v \<and> s = utf8_code f v @ rest)"
proof (cases s)
  case Nil
  then show ?thesis by (simp add: amx_UTF8Get_def utf8_code_def)
next
  case (Cons c t)
  have lead: "0xc0 \<le> c" if "c = ucast (r OR utf8_lead ! f)" "f \<le> 4" "take_bit (5 - f) r = r" for r :: cell and f
    using that head_iff [of c f r] by blast
  show ?thesis
  proof (cases "c < 0x80")
    case True
    have u: "(ucast v = c \<and> v < 0x80) \<longleftrightarrow> v = ucast c" for v :: cell
    proof
      assume a: "ucast v = c \<and> v < 0x80"
      then have "unat v = unat c" by (auto simp: word_less_nat_alt unsigned_ucast_eq take_bit_nat_eq_self)
      then show "v = ucast c"
        using unsigned_less [of c, where 'a = nat] by (simp add: word_unat_eq_iff unsigned_ucast_eq take_bit_nat_eq_self)
    next
      assume a: "v = ucast c"
      then have "unat v = unat c" using unsigned_less [of c, where 'a = nat] by (simp add: unsigned_ucast_eq take_bit_nat_eq_self)
      moreover have "ucast (ucast c :: cell) = c" by (rule bit_word_eqI) (auto simp: bit_simps)
      ultimately show "ucast v = c \<and> v < 0x80" using a True by (simp add: word_less_nat_alt)
    qed
    have "\<not> (utf8_class f v \<and> c # t = utf8_code f v @ rest)" for f
    proof
      assume a: "utf8_class f v \<and> c # t = utf8_code f v @ rest"
      then have "0xc0 \<le> c"
        using class_bits [of f v] by (intro lead [of "drop_bit (6 * (f + 1)) v" f]) (auto simp: utf8_class_def utf8_code_def)
      then show False using True by (auto simp: word_le_nat_alt word_less_nat_alt)
    qed
    then show ?thesis using True u [of v] Cons by (auto simp: amx_UTF8Get_def)
  next
    case False
    have v80: "\<not> (v < 0x80 \<and> c # t = ucast v # rest)"
    proof
      assume a: "v < 0x80 \<and> c # t = ucast v # rest"
      then have "unat c = unat v" by (auto simp: word_less_nat_alt unsigned_ucast_eq take_bit_nat_eq_self)
      then show False using a False by (simp add: word_less_nat_alt)
    qed
    let ?f = "utf8_count ! unat (drop_bit 2 c AND 0x0f)"
    let ?r = "ucast c AND drop_bit ?f 0x1f :: cell"
    show ?thesis
    proof (cases "0xc0 \<le> c \<and> c < 0xfe")
      case bad: False
      have "\<not> (utf8_class f v \<and> c # t = utf8_code f v @ rest)" for f
        using bad head_iff [of c f "drop_bit (6 * (f + 1)) v"] class_bits [of "f" v]
        by (auto simp: utf8_class_def utf8_code_def)
      then show ?thesis using bad False v80 Cons by (auto simp: amx_UTF8Get_def)
    next
      case True
      have h: "?f \<le> 4" "take_bit (5 - ?f) ?r = ?r" "c = ucast (?r OR utf8_lead ! ?f)"
        using head_iff [of c ?f ?r] True by auto
      have "amx_UTF8Get s = Inr (AMX_ERR_NONE, v, rest) \<longleftrightarrow>
        utf8_follow (?f + 1) ?r t = Inr (Some (v, rest)) \<and> \<not> v <s utf8_lowmark ! ?f \<and> \<not> utf8_reserved v"
        using True False Cons by (auto simp: amx_UTF8Get_def Let_def bindR_Inr_iff split: option.splits)
      also have "\<dots> \<longleftrightarrow> drop_bit (6 * (?f + 1)) v = ?r \<and> t = follows (?f + 1) v @ rest
          \<and> \<not> v <s utf8_lowmark ! ?f \<and> \<not> utf8_reserved v"
        using utf8_follow_iff [OF h(2), of "?f + 1"] h(1) by auto
      also have "\<dots> \<longleftrightarrow> (\<exists>f. utf8_class f v \<and> s = utf8_code f v @ rest)"
      proof
        assume a: "drop_bit (6 * (?f + 1)) v = ?r \<and> t = follows (?f + 1) v @ rest \<and> \<not> v <s utf8_lowmark ! ?f \<and> \<not> utf8_reserved v"
        then have "utf8_class ?f v" using h(1,2) class_bits [of "?f" v] by (auto simp: utf8_class_def)
        moreover have "s = utf8_code ?f v @ rest" using a h(3) Cons by (simp add: utf8_code_def)
        ultimately show "\<exists>f. utf8_class f v \<and> s = utf8_code f v @ rest" by blast
      next
        assume "\<exists>f. utf8_class f v \<and> s = utf8_code f v @ rest"
        then obtain f where f: "utf8_class f v" "c = ucast (drop_bit (6 * (f + 1)) v OR utf8_lead ! f)" "t = follows (f + 1) v @ rest"
          using Cons by (auto simp: utf8_code_def)
        then have q: "?f = f" "?r = drop_bit (6 * (f + 1)) v"
          using head_iff [of c f "drop_bit (6 * (f + 1)) v"] class_bits [of f v] by (auto simp: utf8_class_def)
        show "drop_bit (6 * (?f + 1)) v = ?r \<and> t = follows (?f + 1) v @ rest \<and> \<not> v <s utf8_lowmark ! ?f \<and> \<not> utf8_reserved v"
          unfolding q(2) unfolding q(1) using f by (simp add: utf8_class_def)
      qed
      finally show ?thesis using v80 Cons by auto
    qed
  qed
qed

lemma less_of_bits: "n \<le> 31 \<Longrightarrow> take_bit n v = v \<longleftrightarrow> 0 \<le>s v \<and> sint (v :: cell) < 2 ^ n"
proof
  assume n: "n \<le> 31" and "take_bit n v = v"
  then have u: "unat v < 2 ^ n" by (simp add: take_bit_self)
  moreover have "(2 :: nat) ^ n \<le> 2 ^ 31" using n by (intro power_increasing) auto
  ultimately have "sint v = int (unat v)" using sint_of_nat_cell [of "unat v"] by simp
  moreover have "int (unat v) < 2 ^ n" using u by (metis of_nat_less_iff of_nat_numeral of_nat_power)
  ultimately show "0 \<le>s v \<and> sint v < 2 ^ n" by (simp add: word_sle_eq)
next
  assume n: "n \<le> 31" and a: "0 \<le>s v \<and> sint v < 2 ^ n"
  moreover have "(2 :: int) ^ n \<le> 2 ^ 31" using n by (intro power_increasing) auto
  ultimately have "uint v = sint v" by (simp add: uint_sint word_sle_eq take_bit_int_eq_self)
  then have "int (unat v) < 2 ^ n" using a by simp
  then have "unat v < 2 ^ n" by (metis of_nat_less_iff of_nat_numeral of_nat_power)
  then show "take_bit n v = v" using n by (simp add: take_bit_self)
qed

lemma class_iff:
  "0 \<le>s v \<Longrightarrow> utf8_class f v \<longleftrightarrow>
     f \<le> 4 \<and> sint (utf8_lowmark ! f) \<le> sint v \<and> sint v < 2 ^ (11 + 5 * f) \<and> \<not> utf8_reserved v"
  using less_of_bits [of "11 + 5 * f" v] by (auto simp: utf8_class_def word_sless_alt)

lemma code_masked:
  "utf8_class f v \<Longrightarrow> utf8_code f v
     = ucast ((drop_bit (6 * (f + 1)) v AND mask (5 - f)) OR utf8_lead ! f) # follows (f + 1) v"
  using class_bits [of "f" v]
  by (auto simp: utf8_class_def utf8_code_def take_bit_eq_mask)

lemma one_class:
  assumes "0 \<le>s v" and "f \<le> 4" and "sint (utf8_lowmark ! f) \<le> sint v" and "sint v < 2 ^ (11 + 5 * f)"
  shows "utf8_class g v \<longleftrightarrow> g = f \<and> \<not> utf8_reserved v"
proof -
  have m: "sint (utf8_lowmark ! k) = 2 ^ (6 + 5 * k + (if k = 0 then 1 else 0))" if "k \<le> 4" for k
  proof -
    have "k \<in> {0, 1, 2, 3, 4}" using that by auto
    then show ?thesis by (auto simp: utf8_lowmark_def)
  qed
  have "f < g \<Longrightarrow> g \<le> 4 \<Longrightarrow> sint v < sint (utf8_lowmark ! g)"
  proof -
    assume "f < g" "g \<le> 4"
    then have "(2 :: int) ^ (11 + 5 * f) \<le> 2 ^ (6 + 5 * g)" by (intro power_increasing) auto
    then have "sint v < 2 ^ (6 + 5 * g)" using assms(4) by linarith
    then show "sint v < sint (utf8_lowmark ! g)" using m [of g] \<open>f < g\<close> \<open>g \<le> 4\<close> by simp
  qed
  moreover have "g < f \<Longrightarrow> 2 ^ (11 + 5 * g) \<le> sint v"
  proof -
    assume "g < f"
    then have "(2 :: int) ^ (11 + 5 * g) \<le> 2 ^ (6 + 5 * f + (if f = 0 then 1 else 0))" by (intro power_increasing) auto
    also have "\<dots> = sint (utf8_lowmark ! f)" using m [of f] assms(2) by simp
    also have "\<dots> \<le> sint v" by (rule assms(3))
    finally show "2 ^ (11 + 5 * g) \<le> sint v" .
  qed
  ultimately show ?thesis using class_iff [OF assms(1), of g] assms(2-4) by (cases f g rule: linorder_cases) auto
qed

lemma not_reserved_outside: "utf8_reserved v \<Longrightarrow> 0x800 \<le> sint v \<and> sint v < 0x10000"
  by (auto simp: utf8_reserved_def word_sle_eq)

lemma put_iff:
  assumes "0 \<le>s v"
  shows "amx_UTF8Put 6 v = (AMX_ERR_NONE, bs) \<longleftrightarrow> v < 0x80 \<and> bs = [ucast v] \<or> (\<exists>f. utf8_class f v \<and> bs = utf8_code f v)"
proof -
  let ?x = "sint v"
  have x: "0 \<le> ?x" using assms by (simp add: word_sle_eq)
  have lt: "v < 0x80 \<longleftrightarrow> ?x < 0x80"
    using less_of_bits [of 7 v] take_bit_self [of 7 v] assms by (simp add: word_less_nat_alt)
  have hi: "?x < 2 ^ 31" using sint_lt [of v] by simp
  note put = amx_UTF8Put_def Let_def word_sless_alt
  consider "?x < 0x80" | "0x80 \<le> ?x" "?x < 0x800" | "0x800 \<le> ?x" "?x < 0x10000" | "0x10000 \<le> ?x" "?x < 0x200000"
    | "0x200000 \<le> ?x" "?x < 0x4000000" | "0x4000000 \<le> ?x" by linarith
  then show ?thesis
  proof cases
    case 1
    have "\<not> utf8_class f v" for f
      using 1 lt lowmark_80 [of f v] by (auto simp: utf8_class_def)
    then show ?thesis using 1 lt by (auto simp: put)
  next
    case 2
    then have "utf8_class g v \<longleftrightarrow> g = 0" for g
      using one_class [OF assms, of 0 g] not_reserved_outside [of v] by (auto simp: utf8_lowmark_def)
    then show ?thesis
      using 2 lt code_masked [of 0 v] by (auto simp: put utf8_lead_def follow_of_def mask_eq_exp_minus_1)
  next
    case 3
    then have "utf8_class g v \<longleftrightarrow> g = 1 \<and> \<not> utf8_reserved v" for g
      using one_class [OF assms, of 1 g] by (auto simp: utf8_lowmark_def)
    then show ?thesis
      using 3 lt code_masked [of 1 v] by (auto simp: put utf8_lead_def follow_of_def mask_eq_exp_minus_1 numeral_2_eq_2)
  next
    case 4
    then have "utf8_class g v \<longleftrightarrow> g = 2" for g
      using one_class [OF assms, of 2 g] not_reserved_outside [of v] by (auto simp: utf8_lowmark_def)
    then show ?thesis
      using 4 lt code_masked [of 2 v] by (auto simp: put utf8_lead_def follow_of_def mask_eq_exp_minus_1 eval_nat_numeral)
  next
    case 5
    then have "utf8_class g v \<longleftrightarrow> g = 3" for g
      using one_class [OF assms, of 3 g] not_reserved_outside [of v] by (auto simp: utf8_lowmark_def)
    then show ?thesis
      using 5 lt code_masked [of 3 v] by (auto simp: put utf8_lead_def follow_of_def mask_eq_exp_minus_1 eval_nat_numeral)
  next
    case 6
    then have "utf8_class g v \<longleftrightarrow> g = 4" for g
      using one_class [OF assms, of 4 g] not_reserved_outside [of v] hi by (auto simp: utf8_lowmark_def)
    then show ?thesis
      using 6 lt code_masked [of 4 v] by (auto simp: put utf8_lead_def follow_of_def mask_eq_exp_minus_1 eval_nat_numeral)
  qed
qed

text \<open>C20 (UTF-8): \<open>amx_UTF8Get\<close> and \<open>amx_UTF8Put\<close> are inverse to each other. A string is read as a
  character with success exactly when it starts with the code that \<open>amx_UTF8Put\<close> writes for it, so
  overlong forms, stray follow-up bytes and reserved characters are refused, and what remains is the
  string behind the code.\<close>
theorem utf8_codes:
  "amx_UTF8Get s = Inr (AMX_ERR_NONE, v, rest)
   \<longleftrightarrow> 0 \<le>s v \<and> (\<exists>bs. amx_UTF8Put 6 v = (AMX_ERR_NONE, bs) \<and> s = bs @ rest)"
proof -
  have "0 \<le>s v" if "v < 0x80 \<or> utf8_class f v" for f
  proof (cases "v < 0x80")
    case True
    then have "take_bit 7 v = v" by (simp add: take_bit_self word_less_nat_alt)
    then show ?thesis using less_of_bits [of 7 v] by simp
  next
    case False
    then have "f \<le> 4" "take_bit (11 + 5 * f) v = v" using that by (auto simp: utf8_class_def)
    then show ?thesis using less_of_bits [of "11 + 5 * f" v] by simp
  qed
  moreover have "(\<exists>bs. amx_UTF8Put 6 v = (AMX_ERR_NONE, bs) \<and> s = bs @ rest)
      \<longleftrightarrow> v < 0x80 \<and> s = ucast v # rest \<or> (\<exists>f. utf8_class f v \<and> s = utf8_code f v @ rest)" if "0 \<le>s v"
    unfolding put_iff [OF that] by auto
  ultimately show ?thesis unfolding get_iff by blast
qed

section \<open>Strings come back\<close>

text \<open>A packed string holds its characters from the high byte of each cell down.\<close>

definition packed_cell :: "byte \<Rightarrow> byte \<Rightarrow> byte \<Rightarrow> byte \<Rightarrow> cell" where
  "packed_cell a b c d = ucast d OR push_bit 8 (ucast c) OR push_bit 16 (ucast b) OR push_bit 24 (ucast a)"

fun packed :: "byte list \<Rightarrow> cell list" where
  "packed (a # b # c # d # bs) = packed_cell a b c d # packed bs"
| "packed [a, b, c] = [packed_cell a b c 0]"
| "packed [a, b] = [packed_cell a b 0 0]"
| "packed [a] = [packed_cell a 0 0 0]"
| "packed [] = [0]"

lemma bit_outside: "8 \<le> k \<Longrightarrow> \<not> bit (b :: byte) (k + n)"
  using bit_imp_le_length [of b "k + n"] by auto

lemma packed_bytes:
  "ucast (drop_bit 24 (packed_cell a b c d)) = a" "ucast (drop_bit 16 (packed_cell a b c d)) = b"
  "ucast (drop_bit 8 (packed_cell a b c d)) = c" "ucast (packed_cell a b c d) = d"
  unfolding packed_cell_def by (auto intro!: bit_word_eqI simp: bit_simps bit_outside)

lemma swapcell_bytes: "swapcell (packed_cell a b c d) = packed_cell d c b a"
  by (simp add: swapcell_def cell_bytes_le_def upt_rec packed_bytes) (simp add: packed_cell_def)

lemma cells_of_packed: "cells_of (a # b # c # d # bs) = packed_cell d c b a # cells_of bs"
  by (simp add: packed_cell_def)

lemma padding: "replicate (Suc 0) x = [x]" "replicate 2 x = [x, x]" "replicate 3 x = [x, x, x]" "replicate 4 x = [x, x, x, x]"
  by (simp_all add: numeral_eq_Suc)

lemma packed_string: "map swapcell (cells_of (s @ replicate (4 - length s mod 4) 0)) = packed s"
proof (induction s rule: packed.induct)
  case 5
  have "packed_cell 0 0 0 0 = 0" by (simp add: packed_cell_def)
  then show ?case using swapcell_bytes [of 0 0 0 0] by (simp add: padding)
qed (simp_all add: padding swapcell_bytes cells_of_packed del: cells_of.simps(1))

lemma up_to_4: "n = 0 \<or> n = Suc 0 \<or> n = Suc (Suc 0) \<or> n = Suc (Suc (Suc 0)) \<or> (\<exists>m. n = Suc (Suc (Suc (Suc m))))"
  by (metis not0_implies_Suc)

lemma get_packed_packed:
  "0 \<notin> set s \<Longrightarrow> get_packed n x 3 (packed s @ r) str = Inr (str @ (if n \<le> length s then take n s else s @ [0]))"
proof (induction s arbitrary: n x str rule: packed.induct)
  case (1 a b c d bs)
  then show ?case using up_to_4 [of n] by (elim disjE exE) (simp_all add: packed_bytes)
next
  case (2 a b c)
  then show ?case using up_to_4 [of n] by (elim disjE exE) (simp_all add: packed_bytes)
next
  case (3 a b)
  then show ?case using up_to_4 [of n] by (elim disjE exE) (simp_all add: packed_bytes)
next
  case (4 a)
  then show ?case using up_to_4 [of n] by (elim disjE exE) (simp_all add: packed_bytes)
next
  case 5
  then show ?case by (cases n) auto
qed

lemma signed_byte: "ucast (scast (b :: byte) :: cell) = b"
  by (rule byte_all) code_simp

lemma get_unpacked_map:
  "0 \<notin> set s \<Longrightarrow> get_unpacked n (map scast s @ 0 # r) str = Inr (str @ take n s)"
proof (induction s arbitrary: n str)
  case (Cons b s)
  have b: "ucast (scast b :: cell) = b" by (rule signed_byte)
  moreover have "scast b \<noteq> (0 :: cell)" using b Cons.prems by (metis list.set_intros(1) unsigned_0)
  ultimately show ?case using Cons by (cases n) auto
qed simp

lemma packed_big:
  assumes "s \<noteq> []" and "0 \<notin> set s"
  shows "UNPACKEDMAX < hd (packed s)"
proof -
  have "UNPACKEDMAX < packed_cell a b c d" if "a \<noteq> 0" for a b c d
  proof (rule ccontr)
    assume "\<not> ?thesis"
    then have "unat (packed_cell a b c d) < 2 ^ 24" by (simp add: UNPACKEDMAX_def word_le_nat_alt not_less)
    then have "drop_bit 24 (packed_cell a b c d) = 0" by (simp add: word_unat_eq_iff unat_drop_bit_eq drop_bit_eq_div [where 'a = nat])
    then show False using packed_bytes(1) [of a b c d] that by simp
  qed
  then show ?thesis using assms by (cases s rule: packed.cases) auto
qed

definition stored_chars :: "bool \<Rightarrow> nat \<Rightarrow> nat" where "stored_chars pack sz = (if pack then sz * 4 - 1 else sz - 1)"

lemma length_packed: "length (packed s) = length s div 4 + 1"
  by (induction s rule: packed.induct) auto

lemma low_byte: "b < 0x80 \<longrightarrow> \<not> UNPACKEDMAX < scast (b :: byte)"
  by (rule byte_all) code_simp

lemma read_back:
  assumes "0 \<notin> set t" and "0 < n" and "hd cs \<le> UNPACKEDMAX \<longrightarrow> cs = map scast t @ 0 # r"
    and "UNPACKEDMAX < hd cs \<longrightarrow> cs = packed t @ r" and "cs \<noteq> []"
  shows "amx_GetString cs n = Inr (AMX_ERR_NONE, Some (take (n - 1) t))"
proof -
  have w: "takeWhile (\<lambda>b. b \<noteq> 0) xs = xs" if "set xs \<subseteq> set t" for xs :: "byte list"
    using that assms(1) by (auto simp: takeWhile_eq_all_conv)
  have w2: "takeWhile (\<lambda>b. b \<noteq> 0) (take k t) = take k t" for k using w [of "take k t"] set_take_subset [of k t] by simp
  have w3: "takeWhile (\<lambda>b. b \<noteq> 0) (t @ [0]) = t" using w [of t] by (simp add: takeWhile_append2)
  show ?thesis
  proof (cases "UNPACKEDMAX < hd cs")
    case True
    then have "cs = packed t @ r" using assms(4) by simp
    then show ?thesis
      using True assms(2,5) w2 w3 get_packed_packed [OF assms(1), of n 0 r "[]"]
      by (auto simp: amx_GetString_def min_def not_le)
  next
    case False
    then have "cs = map scast t @ 0 # r" using assms(3) by simp
    then show ?thesis
      using False assms(1,2,5) w2 get_unpacked_map [OF assms(1), of n r "[]"] by (auto simp: amx_GetString_def min_def not_le)
  qed
qed

text \<open>C21 (\<open>amx_SetString\<close>, \<open>amx_GetString\<close>): a string that was stored is read back, cut off at the size
  of the cells in one direction and at the size of the buffer in the other. For an unpacked string
  the first character must be below 128: the characters are stored as signed numbers, and a
  negative first cell marks a packed string.\<close>
theorem stored_string_is_read:
  assumes "0 \<notin> set s" and "0 < sz" and "sz < UNLIMITED div 4" and "sz \<le> length dest" and "0 < n"
    and "pack \<or> s = [] \<or> hd s < 0x80"
  shows "\<exists>cs. amx_SetString s pack sz dest = Inr (AMX_ERR_NONE, cs) \<and> length cs = length dest
    \<and> amx_GetString cs n = Inr (AMX_ERR_NONE, Some (take (n - 1) (take (stored_chars pack sz) s)))"
proof -
  let ?t = "take (stored_chars pack sz) s"
  have t: "0 \<notin> set ?t" using assms(1) by (auto dest: in_set_takeD)
  show ?thesis
  proof (cases pack)
    case True
    let ?len = "if sz * 4 \<le> length s then sz * 4 - 1 else length s"
    have l: "take ?len s = ?t" "?len = length ?t" "length ?t div 4 < length dest"
      using True assms(2,4) by (auto simp: stored_chars_def min_def)
    let ?cs = "packed ?t @ drop (length ?t div 4 + 1) dest"
    have "amx_SetString s pack sz dest = Inr (AMX_ERR_NONE, ?cs)"
      using True assms(2,3) l packed_string [of ?t] by (simp add: amx_SetString_def Let_def)
    moreover have "length ?cs = length dest" using l(3) by (simp add: length_packed)
    moreover have "amx_GetString ?cs n = Inr (AMX_ERR_NONE, Some (take (n - 1) ?t))"
    proof (rule read_back [OF t assms(5)])
      show "hd ?cs \<le> UNPACKEDMAX \<longrightarrow> ?cs = map scast ?t @ 0 # drop (length ?t div 4 + 1) dest"
        using packed_big [OF _ t] length_packed [of ?t] by (cases "?t = []") (auto simp: hd_append not_le)
    qed (use length_packed [of ?t] in auto)
    ultimately show ?thesis by blast
  next
    case False
    let ?len = "if sz \<le> length s then sz - 1 else length s"
    have l: "take ?len s = ?t" "?len = length ?t" "length ?t < length dest"
      using False assms(2,4) by (auto simp: stored_chars_def min_def)
    let ?cs = "map scast ?t @ 0 # drop (length ?t + 1) dest :: cell list"
    have "sz < UNLIMITED" using assms(3) by (simp add: UNLIMITED_def)
    then have "amx_SetString s pack sz dest = Inr (AMX_ERR_NONE, ?cs)"
      using False assms(2) l by (simp add: amx_SetString_def Let_def)
    moreover have "length ?cs = length dest" using l(3) by simp
    moreover have "\<not> UNPACKEDMAX < hd ?cs"
      using assms(6) False low_byte by (cases ?t; cases s) (auto simp: UNPACKEDMAX_def take_Cons split: nat.splits)
    then have "amx_GetString ?cs n = Inr (AMX_ERR_NONE, Some (take (n - 1) ?t))"
      by (intro read_back [OF t assms(5)]) auto
    ultimately show ?thesis by blast
  qed
qed

theorem stored_string_is_read_witness:
  "\<exists>cs. amx_SetString [72, 101, 108, 108, 111] True 2 [1, 2, 3] = Inr (AMX_ERR_NONE, cs) \<and> length cs = length [1, 2, 3 :: cell]
    \<and> amx_GetString cs 10 = Inr (AMX_ERR_NONE, Some (take (10 - 1) (take (stored_chars True 2) [72, 101, 108, 108, 111])))"
  by (rule stored_string_is_read) (simp_all add: UNLIMITED_def)

text \<open>The restriction on the first character is needed: these three letters come back as four others.\<close>

lemma negative_first_character:
  "\<exists>cs. amx_SetString [0xE9, 0x74, 0xE9] False 5 [0, 0, 0, 0, 0] = Inr (AMX_ERR_NONE, cs)
    \<and> amx_GetString cs 20 = Inr (AMX_ERR_NONE, Some [0xFF, 0xFF, 0xFF, 0xE9])"
proof -
  have "map scast [0xE9, 0x74, 0xE9 :: byte] = [0xFFFFFFE9, 0x74, 0xFFFFFFE9 :: cell]" by code_simp
  then have "amx_SetString [0xE9, 0x74, 0xE9] False 5 [0, 0, 0, 0, 0] = Inr (AMX_ERR_NONE, [0xFFFFFFE9, 0x74, 0xFFFFFFE9, 0, 0])"
    by (simp add: amx_SetString_def)
  moreover have "amx_GetString [0xFFFFFFE9, 0x74, 0xFFFFFFE9, 0, 0] 20 = Inr (AMX_ERR_NONE, Some [0xFF, 0xFF, 0xFF, 0xE9])"
    by code_simp
  ultimately show ?thesis by blast
qed

section \<open>The length of a packed string\<close>

lemma bytes_of_packed: "bytes_of (packed_cell a b c d # cs) = d # c # b # a # bytes_of cs"
  by (simp add: bytes_of_def cell_bytes_le_def upt_rec packed_bytes)

lemma div_step: "(4 + n) div 4 = Suc (n div (4 :: nat))"
  by simp

lemma first_zero_byte:
  "0 \<notin> set s \<Longrightarrow> index_of (\<lambda>b. b = 0) (bytes_of (packed s @ r)) = Inr (4 * (length s div 4))"
proof (induction s rule: packed.induct)
  case 5
  have "packed_cell 0 0 0 0 = 0" by (simp add: packed_cell_def)
  then show ?case using bytes_of_packed [of 0 0 0 0 r] by simp
qed (auto simp: bytes_of_packed div_step)

lemma shift_packed: "push_bit 8 (packed_cell a b c d) = packed_cell b c d 0"
  unfolding packed_cell_def by (rule bit_word_eqI) (auto simp: bit_simps)

lemma charmask: "CHARMASK = push_bit 24 (mask 8)"
  by (simp add: CHARMASK_def mask_eq_exp_minus_1 push_bit_eq_mult)

lemma top_byte: "packed_cell a b c d AND CHARMASK \<noteq> 0 \<longleftrightarrow> a \<noteq> 0"
proof -
  have "packed_cell a b c d AND CHARMASK = push_bit 24 (ucast a)"
    unfolding packed_cell_def charmask by (rule bit_word_eqI) (auto simp: bit_simps dest: bit_imp_le_length)
  then show ?thesis using packed_bytes(1) [of a 0 0 0] by (auto simp: packed_cell_def)
qed

lemma top_packed: "top_chars 4 (packed_cell a b c 0) = (if a = 0 then 0 else if b = 0 then 1 else if c = 0 then 2 else 3)"
proof -
  have "(4 :: nat) = Suc (Suc (Suc (Suc 0)))" by simp
  then show ?thesis by (simp only: top_chars.simps) (simp add: top_byte shift_packed)
qed

lemma top_chars_packed:
  "0 \<notin> set s \<Longrightarrow> top_chars 4 ((packed s @ r) ! (length s div 4)) = length s mod 4"
proof (induction s rule: packed.induct)
  case 5
  then show ?case using top_packed [of 0 0 0] by (simp add: packed_cell_def)
qed (auto simp: top_packed div_step)

lemma amx_StrLen_packed:
  assumes "s \<noteq> []" and "0 \<notin> set s"
  shows "amx_StrLen (Some (packed s @ r)) = Inr (AMX_ERR_NONE, length s)"
proof -
  obtain c cs where p: "packed s = c # cs" using length_packed [of s] by (cases "packed s") auto
  then have "UNPACKEDMAX < c" using packed_big [OF assms] by simp
  then show ?thesis using first_zero_byte [OF assms(2), of r] top_chars_packed [OF assms(2), of r] p by (simp add: amx_StrLen_def)
qed

end
