(* ===== verification/ScChars.thy ===== *)
theory ScChars
  imports AmxString
begin

text \<open>
  Character sets of source files (sci18n.c): the translation by a code page, \<open>cp_translate\<close>, the
  reading of UTF-8 by the compiler, \<open>get_utf8_char\<close>, and the test of a line by \<open>scan_utf8\<close>. A source
  file counts as UTF-8 only when every line passes the test. The theory shows for which characters it
  does, against the encoder of the host.
\<close>

section \<open>Code pages\<close>

text \<open>The tables of the current code page: a code for every byte, and for lead bytes a table of pairs, which is
  allocated when the first pair is stored, with the number of its entries.\<close>

record codepage =
  bytetable :: "byte \<Rightarrow> cell"
  wordtable :: "(nat \<times> cell) list option"
  wordtabletop :: nat

definition LEADBYTE :: cell where "LEADBYTE = 0xfffe"

function word_search :: "(nat \<times> cell) list \<Rightarrow> nat \<Rightarrow> nat \<Rightarrow> nat \<Rightarrow> nat" where
  "word_search ws index low high =
     (if low < high then
        let mid = (low + high) div 2
        in if fst (ws ! mid) < index then word_search ws index (mid + 1) high else word_search ws index low mid
      else low)"
  by pat_completeness auto
termination by (relation "measure (\<lambda>(ws, index, low, high). high - low)") auto

declare word_search.simps [simp del]

text \<open>Behind a lead byte the next byte is taken, also when it is the terminator.\<close>

definition cp_translate :: "codepage \<Rightarrow> byte list \<Rightarrow> (cell \<times> byte list) result" where
  "cp_translate cp s =
     (case s of [] \<Rightarrow> Inl BufferOverflow
      | c # s1 \<Rightarrow>
          let r = bytetable cp c
          in if r = LEADBYTE \<and> wordtable cp \<noteq> None then
               (case s1 of [] \<Rightarrow> Inl BufferOverflow
                | d # s2 \<Rightarrow>
                    let index = unat c * 256 + unat d; ws = the (wordtable cp)
                    in bindR (assertR (0 < wordtabletop cp)) (\<lambda>_.
                         let low = word_search ws index 0 (wordtabletop cp - 1)
                         in Inr (if fst (ws ! low) = index then snd (ws ! low) else r, s2)))
             else Inr (r, s1))"

text \<open>A line of a code page file, with the number of values that \<open>sscanf\<close> found. New memory has no entries; the
  pairs in it are placeholders. The number of entries is not changed.\<close>

fun cp_insert :: "(nat \<times> cell) list \<Rightarrow> nat \<Rightarrow> nat \<Rightarrow> cell \<Rightarrow> (nat \<times> cell) list" where
  "cp_insert ws 0 index code = ws[0 := (index, code)]"
| "cp_insert ws (Suc pos) index code =
     (if index < fst (ws ! pos) then cp_insert (ws[Suc pos := ws ! pos]) pos index code else ws[Suc pos := (index, code)])"

definition cp_store :: "nat \<times> nat \<times> cell \<Rightarrow> codepage \<Rightarrow> codepage" where
  "cp_store = (\<lambda>(num, index, code) cp.
     if 1 \<le> num \<and> index < 256 then cp\<lparr>bytetable := (bytetable cp)(of_nat index := code)\<rparr>
     else if num = 2 \<and> 256 \<le> index \<and> index < 0xfffe then
       let ws = (case wordtable cp of None \<Rightarrow> [] | Some ws \<Rightarrow> ws); n = wordtabletop cp;
           ws1 = (if length ws \<le> n then take n ws @ replicate ((if ws = [] then 128 else 2 * length ws) - n) (0, 0) else ws)
       in cp\<lparr>wordtable := Some (if n < length ws1 then cp_insert ws1 n index code else ws1)\<rparr>
     else cp)"

definition is_pair :: "nat \<times> nat \<times> cell \<Rightarrow> bool" where
  "is_pair = (\<lambda>(num, index, code). num = 2 \<and> 256 \<le> index \<and> index < 0xfffe)"

lemma cp_store_fields:
  "wordtabletop (cp_store l cp) = wordtabletop cp \<and> (wordtable (cp_store l cp) = None \<longleftrightarrow> wordtable cp = None \<and> \<not> is_pair l)"
  by (cases l) (simp add: cp_store_def is_pair_def Let_def)

lemma cp_load_fields:
  "wordtabletop (fold cp_store ls cp) = wordtabletop cp
   \<and> (wordtable (fold cp_store ls cp) = None \<longleftrightarrow> wordtable cp = None \<and> \<not> list_ex is_pair ls)"
proof (induction ls arbitrary: cp)
  case (Cons l ls)
  show ?case using Cons [of "cp_store l cp"] cp_store_fields [of l cp] by (simp only: fold_simps list_ex_Cons_iff) blast
qed simp

text \<open>\<open>cp_set\<close>, \<open>cp_translate\<close>: no pair of bytes is ever translated. When the file has a pair, a lead byte fails the
  assertion on the number of entries, which stays 0; when it has none, the lead byte stands for itself.\<close>
theorem double_bytes_never_translated:
  assumes "wordtable cp = None" and "wordtabletop cp = 0" and "bytetable (fold cp_store ls cp) c = LEADBYTE"
  shows "cp_translate (fold cp_store ls cp) (c # d # s) =
    (if list_ex is_pair ls then Inl AssertFail else Inr (LEADBYTE, d # s))"
  using cp_load_fields [of ls cp] assms by (cases "list_ex is_pair ls") (simp_all add: cp_translate_def Let_def)

section \<open>UTF-8\<close>

text \<open>A leader code: the number of bytes that follow, the least character that needs them, and its bits.\<close>

definition utf8_leader :: "byte \<Rightarrow> (nat \<times> cell \<times> cell) option" where
  "utf8_leader ch =
     (if ch AND 0xe0 = 0xc0 then Some (1, 0x80, ucast (ch AND 0x1f))
      else if ch AND 0xf0 = 0xe0 then Some (2, 0x800, ucast (ch AND 0x0f))
      else if ch AND 0xf8 = 0xf0 then Some (3, 0x10000, ucast (ch AND 0x07))
      else if ch AND 0xfc = 0xf8 then Some (4, 0x200000, ucast (ch AND 0x03))
      else if ch AND 0xfe = 0xfc then Some (5, 0x4000000, ucast (ch AND 0x01))
      else None)"

text \<open>The endless loop; None is the result -1. The loop is left after the first follow-up byte, whatever
  the number of bytes still to come; only with the last one the character is checked. The string has no
  terminator here: a read of the terminator in front of any character moves behind it.\<close>

fun get_utf8_from :: "nat \<Rightarrow> cell \<Rightarrow> cell \<Rightarrow> byte list \<Rightarrow> (cell \<times> byte list) option result" where
  "get_utf8_from follow lowmark r [] = (if follow = 0 then Inl BufferOverflow else Inr None)"
| "get_utf8_from follow lowmark r (ch # s) =
     (if 0 < follow \<and> ch AND 0xc0 = 0x80 then
        let r' = push_bit 6 r OR (ucast ch AND 0x3f)
        in if follow = 1 \<and> (r' <s lowmark \<or> utf8_reserved r') then Inr None else Inr (Some (r', s))
      else if follow = 0 \<and> ch AND 0x80 = 0x80 then
        (case utf8_leader ch of None \<Rightarrow> Inr None | Some (f, l, v) \<Rightarrow> get_utf8_from f l v s)
      else if follow = 0 \<and> ch AND 0x80 = 0 then Inr (Some (ucast ch, s))
      else Inr None)"

definition get_utf8_char :: "byte list \<Rightarrow> (cell \<times> byte list) option result" where
  "get_utf8_char s = get_utf8_from 0 0 0 s"

lemma get_utf8_from_shorter: "get_utf8_from f l r s = Inr (Some (v, rest)) \<Longrightarrow> length rest < length s"
  by (induction f l r s rule: get_utf8_from.induct) (fastforce simp: Let_def split: if_splits option.splits)+

lemma get_utf8_char_shorter: "get_utf8_char s = Inr (Some (v, rest)) \<Longrightarrow> length rest < length s"
  unfolding get_utf8_char_def by (rule get_utf8_from_shorter)

text \<open>The loop of \<open>scan_utf8\<close> over a line, up to its zero byte.\<close>

function scan_line_utf8 :: "byte list \<Rightarrow> bool result" where
  "scan_line_utf8 s =
     (if s = [] \<or> hd s = 0 then Inr True
      else case get_utf8_char s of
          Inl e \<Rightarrow> Inl e
        | Inr None \<Rightarrow> Inr False
        | Inr (Some (v, rest)) \<Rightarrow> if 0 \<le>s v then scan_line_utf8 rest else Inr False)"
  by pat_completeness auto
termination by (relation "measure length") (auto dest: get_utf8_char_shorter)

declare scan_line_utf8.simps [simp del]

section \<open>What the compiler takes for UTF-8\<close>

text \<open>The text of characters below \<open>0x800\<close> in the encoding of the host.\<close>

lemma ascii_bytes:
  "(b :: byte) AND 0x80 \<noteq> 0x80 \<longrightarrow> b AND 0x80 = 0"
  by (rule byte_all) code_simp

lemma get_ascii:
  assumes "v < 0x80"
  shows "get_utf8_char (ucast v # rest) = Inr (Some (v, rest))"
proof -
  have "unat v < 128" using assms by (simp add: word_less_nat_alt)
  then have u: "v = of_nat (unat v)" "unat v \<in> set [0..<128]" by simp_all
  have "list_all (\<lambda>k. (ucast (ucast (of_nat k :: cell) :: byte) :: cell) = of_nat k \<and> (ucast (of_nat k :: cell) :: byte) AND 0x80 = 0) [0..<128]"
    by code_simp
  then have "ucast (ucast v :: byte) = v \<and> (ucast v :: byte) AND 0x80 = 0" using u unfolding list_all_iff by metis
  then show ?thesis by (simp add: get_utf8_char_def)
qed

lemma drop_six: "6 \<le> k \<Longrightarrow> take_bit 26 (drop_bit k w) = drop_bit k (w :: cell)"
proof (rule bit_word_eqI)
  fix n
  assume "6 \<le> k"
  moreover have "bit w (k + n) \<Longrightarrow> k + n < 32" using bit_imp_le_length [of w "k + n"] by simp
  ultimately show "bit (take_bit 26 (drop_bit k w)) n = bit (drop_bit k w) n" by (auto simp: bit_simps)
qed

lemma follow_byte_joins:
  "follow_of w AND 0xc0 = 0x80 \<and> w = push_bit 6 (drop_bit 6 w) OR (ucast (follow_of w) AND 0x3f)"
proof -
  have "drop_bit 6 w = take_bit 26 (drop_bit 6 w)" using drop_six [of 6 w] by simp
  from follow_iff [OF this, of "follow_of w" w] show ?thesis by simp
qed

lemma follow_byte_no_leader: "(b :: byte) AND 0xc0 = 0x80 \<longrightarrow> b AND 0x80 = 0x80 \<and> utf8_leader b = None"
  by (rule byte_all) code_simp

text \<open>The leader byte of a code of \<open>f + 2\<close> bytes.\<close>

lemma leader_of:
  "list_all (\<lambda>f. list_all (\<lambda>k. let r = of_nat k :: cell; c = ucast (r OR utf8_lead ! f) :: byte
     in c AND 0x80 = 0x80 \<and> utf8_leader c = Some (f + 1, utf8_lowmark ! f, r)) [0..<2 ^ (5 - f)]) [0..<5]"
  by code_simp

lemma get_code:
  assumes "utf8_class f v"
  shows "get_utf8_char (utf8_code f v @ rest)
    = get_utf8_from (f + 1) (utf8_lowmark ! f) (drop_bit (6 * (f + 1)) v) (follows (f + 1) v @ rest)"
proof -
  let ?r = "drop_bit (6 * (f + 1)) v"
  have f: "f \<le> 4" and "take_bit (5 - f) ?r = ?r" using assms class_bits [of f v] by (auto simp: utf8_class_def)
  then have "unat ?r < 2 ^ (5 - f)" using take_bit_self [of "5 - f" ?r] by simp
  then have "f \<in> set [0..<5]" "unat ?r \<in> set [0..<2 ^ (5 - f)]" using f by auto
  with leader_of have "let r = of_nat (unat ?r) :: cell; c = ucast (r OR utf8_lead ! f) :: byte
     in c AND 0x80 = 0x80 \<and> utf8_leader c = Some (f + 1, utf8_lowmark ! f, r)"
    unfolding list_all_iff by blast
  then show ?thesis by (simp add: get_utf8_char_def utf8_code_def Let_def)
qed

lemma code_head:
  assumes "utf8_class f v"
  shows "hd (utf8_code f v @ rest) \<noteq> 0"
proof -
  let ?r = "drop_bit (6 * (f + 1)) v"
  have f: "f \<le> 4" and "take_bit (5 - f) ?r = ?r" using assms class_bits [of f v] by (auto simp: utf8_class_def)
  then have "unat ?r < 2 ^ (5 - f)" using take_bit_self [of "5 - f" ?r] by simp
  then have "f \<in> set [0..<5]" "unat ?r \<in> set [0..<2 ^ (5 - f)]" using f by auto
  with leader_of have "let r = of_nat (unat ?r) :: cell; c = ucast (r OR utf8_lead ! f) :: byte
     in c AND 0x80 = 0x80 \<and> utf8_leader c = Some (f + 1, utf8_lowmark ! f, r)"
    unfolding list_all_iff by blast
  then have "hd (utf8_code f v @ rest) AND 0x80 = 0x80" by (simp add: utf8_code_def Let_def)
  then show ?thesis by auto
qed

lemma get_two_bytes:
  assumes "utf8_class 0 v"
  shows "get_utf8_char (utf8_code 0 v @ rest) = Inr (Some (v, rest))"
  using follow_byte_joins [of v] assms by (simp add: get_code [OF assms] utf8_class_def Let_def)

lemma get_more_bytes:
  assumes "utf8_class (Suc f) v"
  shows "get_utf8_char (utf8_code (Suc f) v @ rest)
    = Inr (Some (drop_bit (6 * Suc f) v, follow_of (drop_bit (6 * f) v) # follows f v @ rest))"
  using follow_byte_joins [of "drop_bit (6 * Suc f) v"] by (simp add: get_code [OF assms] Let_def drop_bit_drop_bit)

lemma scan_follow_byte: "scan_line_utf8 (follow_of w # rest) = Inr False"
proof -
  have "follow_of w \<noteq> 0" using follow_byte_joins [of w] by auto
  then show ?thesis
    using follow_byte_joins [of w] follow_byte_no_leader [of "follow_of w"]
    by (subst scan_line_utf8.simps) (simp add: get_utf8_char_def)
qed

lemma scan_code:
  assumes "0 \<le>s v" and "amx_UTF8Put 6 v = (AMX_ERR_NONE, bs)" and nz: "v \<noteq> 0"
  shows "scan_line_utf8 (bs @ rest) = (if v < 0x800 then scan_line_utf8 rest else Inr False)"
proof -
  from put_iff [OF assms(1), of bs] assms(2)
  consider "v < 0x80" "bs = [ucast v]" | "utf8_class 0 v" "bs = utf8_code 0 v" | f where "utf8_class (Suc f) v" "bs = utf8_code (Suc f) v"
    by (metis not0_implies_Suc)
  then show ?thesis
  proof cases
    case 1
    then have "v < 0x800" by (simp add: word_less_nat_alt)
    have "(ucast v :: byte) \<noteq> 0"
    proof
      assume "(ucast v :: byte) = 0"
      then have "get_utf8_char (0 # rest) = Inr (Some (v, rest))" using get_ascii [OF 1(1), of rest] by simp
      moreover have "get_utf8_char (0 # rest) = Inr (Some (0, rest))" using get_ascii [of 0 rest] by simp
      ultimately show False using nz by simp
    qed
    then show ?thesis using \<open>v < 0x800\<close> 1 get_ascii [of v rest] assms(1) by (subst scan_line_utf8.simps) simp
  next
    case 2
    then have "v < 0x800" using take_bit_self [of 11 v] by (simp add: utf8_class_def word_less_nat_alt)
    moreover have "utf8_code 0 v \<noteq> []" by (simp add: utf8_code_def)
    ultimately show ?thesis using 2 get_two_bytes [of v rest] code_head [OF 2(1), of rest] assms(1) by (subst scan_line_utf8.simps) simp
  next
    case 3
    have "sint v < 0x800 \<longleftrightarrow> v < 0x800" using less_of_bits [of 11 v] take_bit_self [of 11 v] assms(1) by (simp add: word_less_nat_alt)
    moreover have "0x800 \<le> sint v"
    proof -
      have "Suc f \<in> {1, 2, 3, 4}" using 3 by (auto simp: utf8_class_def)
      then show ?thesis using 3 class_iff [OF assms(1), of "Suc f"] by (auto simp: utf8_lowmark_def)
    qed
    ultimately have "\<not> v < 0x800" by simp
    moreover have "0 \<le>s drop_bit (6 * Suc f) v"
      using less_of_bits [of 26 "drop_bit (6 * Suc f) v"] drop_six [of "6 * Suc f" v] by simp
    moreover have "utf8_code (Suc f) v \<noteq> []" by (simp add: utf8_code_def)
    ultimately show ?thesis using 3 get_more_bytes [of f v rest] code_head [OF 3(1), of rest] scan_follow_byte by (subst scan_line_utf8.simps) simp
  qed
qed

text \<open>C37 (\<open>scan_utf8\<close>): the compiler does not recognise UTF-8 in general. A line that is encoded as
  the host encodes it passes the test exactly when all its characters (up to a zero byte) are below \<open>0x800\<close>, that is, have
  codes of one or two bytes; \<open>get_utf8_char\<close> leaves its loop after the first follow-up byte, and the
  second one is then taken for an invalid leader. A byte order mark, which has three bytes, fails too.\<close>
theorem utf8_source_lines:
  assumes "\<forall>v \<in> set vs. 0 \<le>s v \<and> fst (amx_UTF8Put 6 v) = AMX_ERR_NONE"
  shows "scan_line_utf8 (concat (map (\<lambda>v. snd (amx_UTF8Put 6 v)) vs)) = Inr (\<forall>v \<in> set (takeWhile (\<lambda>v. v \<noteq> 0) vs). v < 0x800)"
  using assms
proof (induction vs)
  case Nil
  then show ?case by (simp add: scan_line_utf8.simps)
next
  case (Cons v vs)
  show ?case
  proof (cases "v = 0")
    case True
    have "snd (amx_UTF8Put 6 0) = [0]" by code_simp
    then show ?thesis using True by (subst scan_line_utf8.simps) simp
  next
    case False
    then show ?thesis using Cons scan_code [of v "snd (amx_UTF8Put 6 v)" "concat (map (\<lambda>v. snd (amx_UTF8Put 6 v)) vs)"]
    by (cases "amx_UTF8Put 6 v") auto
  qed
qed

theorem utf8_source_lines_witness:
  "scan_line_utf8 (concat (map (\<lambda>v. snd (amx_UTF8Put 6 v)) [0x61, 0xE9, 0x20AC])) = Inr False"
proof -
  have "\<forall>v \<in> set [0x61, 0xE9, 0x20AC :: cell]. 0 \<le>s v \<and> fst (amx_UTF8Put 6 v) = AMX_ERR_NONE"
    by code_simp
  then show ?thesis using utf8_source_lines [of "[0x61, 0xE9, 0x20AC]"] by simp
qed

end
