(* ===== verification/ScLex.thy ===== *)
theory ScLex
  imports ScChars ScEmit
begin

text \<open>
  The scanner of the compiler (sc2.c): numbers, literal characters and strings, and the tokens of a
  line. \<open>lptr\<close> is the rest of the line, without its terminator. The errors that are reported and do
  not stop the compiler are collected by their numbers. The reading of the next line, which \<open>lex\<close>
  calls at the end of one, is not part of the model.
\<close>

section \<open>Numbers\<close>

definition char_at :: "string \<Rightarrow> nat \<Rightarrow> char" where "char_at s i = (if i < length s then s ! i else NUL)"

definition digit :: "char \<Rightarrow> cell" where "digit c = of_nat (code_of c - 48)"

fun bin_digits :: "cell \<Rightarrow> string \<Rightarrow> cell \<times> string" where
  "bin_digits v [] = (v, [])"
| "bin_digits v (c # s) =
     (if c = CHR ''_'' then bin_digits v s
      else if c = CHR ''0'' \<or> c = CHR ''1'' then bin_digits (push_bit 1 v OR digit c) s
      else (v, c # s))"

fun dec_digits :: "cell \<Rightarrow> string \<Rightarrow> cell \<times> string" where
  "dec_digits v [] = (v, [])"
| "dec_digits v (c # s) =
     (if c = CHR ''_'' then dec_digits v s
      else if isdigit c then dec_digits (v * 10 + digit c) s
      else (v, c # s))"

fun hex_digits_of :: "cell \<Rightarrow> string \<Rightarrow> cell \<times> string" where
  "hex_digits_of v [] = (v, [])"
| "hex_digits_of v (c # s) =
     (if c = CHR ''_'' then hex_digits_of v s
      else case hex_value c of Some d \<Rightarrow> hex_digits_of (push_bit 4 v + of_nat d) s | None \<Rightarrow> (v, c # s))"

text \<open>The number of characters that were processed, 0 if the text is no such number, and the value.\<close>

definition delimited :: "string \<Rightarrow> cell \<times> string \<Rightarrow> nat \<times> cell" where
  "delimited s r = (if alphanum (char_at (snd r) 0) then (0, fst r) else (length s - length (snd r), fst r))"

definition btoi :: "string \<Rightarrow> nat \<times> cell" where
  "btoi s = (if char_at s 0 = CHR ''0'' \<and> char_at s 1 = CHR ''b'' then delimited s (bin_digits 0 (drop 2 s)) else (0, 0))"

definition dtoi :: "string \<Rightarrow> nat \<times> cell" where
  "dtoi s =
     (if \<not> isdigit (char_at s 0) then (0, 0)
      else let r = dec_digits 0 s
           in if char_at (snd r) 0 = CHR ''.'' \<and> isdigit (char_at (snd r) 1) then (0, fst r) else delimited s r)"

definition htoi :: "string \<Rightarrow> nat \<times> cell" where
  "htoi s =
     (if \<not> isdigit (char_at s 0) then (0, 0)
      else if char_at s 0 = CHR ''0'' \<and> char_at s 1 = CHR ''x'' then delimited s (hex_digits_of 0 (drop 2 s)) else (0, 0))"

definition number :: "string \<Rightarrow> (nat \<times> cell) option" where
  "number s =
     (let b = btoi s; h = htoi s; d = dtoi s
      in if fst b \<noteq> 0 then Some b else if fst h \<noteq> 0 then Some h else if fst d \<noteq> 0 then Some d else None)"

section \<open>Literal characters\<close>

text \<open>The settings that the scanner reads. \<open>sc_rationaltag\<close> says whether there is a tag for rational numbers;
  \<open>float_cell\<close> gives the bits of the single precision number that the floating point arithmetic of the
  compiler's host makes of a text.\<close>

record lexenv =
  sc_ctrlchar :: char
  sc_is_utf8 :: bool
  cur_codepage :: codepage
  sc_packstr :: bool
  sc_allowtags :: bool
  tagnames :: "constvalue list"
  pc_docexpr :: bool
  sc_rationaltag :: bool
  rational_digits :: nat
  float_cell :: "string \<Rightarrow> cell"

definition to_byte :: "char \<Rightarrow> byte" where "to_byte c = of_nat (code_of c)"

fun escape_hex :: "cell \<Rightarrow> string \<Rightarrow> cell \<times> string" where
  "escape_hex v [] = (v, [])"
| "escape_hex v (c # s) =
     (case hex_value c of Some d \<Rightarrow> escape_hex (push_bit 4 v + of_nat d) s | None \<Rightarrow> (v, c # s))"

fun escape_dec :: "cell \<Rightarrow> string \<Rightarrow> cell \<times> string" where
  "escape_dec v [] = (v, [])"
| "escape_dec v (c # s) = (if isdigit c then escape_dec (v * 10 + digit c) s else (v, c # s))"

definition swallow :: "cell \<times> string \<Rightarrow> cell \<times> string" where
  "swallow r = (fst r, if char_at (snd r) 0 = CHR '';'' then tl (snd r) else snd r)"

definition escapes :: "(char \<times> cell) list" where
  "escapes = [(CHR ''a'', 7), (CHR ''b'', 8), (CHR ''e'', 27), (CHR ''f'', 12), (CHR ''n'', 10), (CHR ''r'', 13),
     (CHR ''t'', 9), (CHR ''v'', 11)]"

text \<open>The character behind the control character: the value, the rest of the line, and the error.\<close>

definition escape :: "lexenv \<Rightarrow> string \<Rightarrow> cell \<times> string \<times> nat list" where
  "escape env s =
     (let c = char_at s 0
      in if s \<noteq> [] \<and> c = sc_ctrlchar env then (of_nat (code_of c), tl s, [])
         else case map_of escapes c of
             Some v \<Rightarrow> (v, tl s, [])
           | None \<Rightarrow>
               if c = CHR ''x'' then (case swallow (escape_hex 0 (tl s)) of (v, r) \<Rightarrow> (v, r, []))
               else if c = CHR 0x27 \<or> c = CHR 0x22 \<or> c = CHR ''%'' then (of_nat (code_of c), tl s, [])
               else if isdigit c then (case swallow (escape_dec 0 s) of (v, r) \<Rightarrow> (v, r, []))
               else (0, s, [27]))"

text \<open>A plain character, by UTF-8 or by the code page.\<close>

definition plain_char :: "lexenv \<Rightarrow> bool \<Rightarrow> string \<Rightarrow> (cell \<times> string) result" where
  "plain_char env utf8mode s =
     (let bs = map to_byte s; back = (\<lambda>rest. drop (length s - length rest) s)
      in if sc_is_utf8 env \<and> utf8mode then
           bindR (get_utf8_char bs) (\<lambda>r. case r of None \<Rightarrow> Inl AssertFail | Some (v, rest) \<Rightarrow> Inr (v, back rest))
         else bindR (cp_translate (cur_codepage env) bs) (\<lambda>(v, rest). Inr (v, back rest)))"

definition litchar :: "lexenv \<Rightarrow> bool \<Rightarrow> bool \<Rightarrow> string \<Rightarrow> (cell \<times> string \<times> nat list) result" where
  "litchar env raw utf8mode s =
     bindR (if raw \<or> s = [] \<or> hd s \<noteq> sc_ctrlchar env
            then bindR (plain_char env utf8mode s) (\<lambda>(v, r). Inr (v, r, []))
            else Inr (escape env (tl s))) (\<lambda>(c, rest, es).
       bindR (assertR (0 \<le>s c)) (\<lambda>_. Inr (c, rest, es)))"

lemma escape_hex_length: "length (snd (escape_hex v s)) \<le> length s"
  by (induction v s rule: escape_hex.induct) (auto split: option.splits)

lemma escape_dec_length: "length (snd (escape_dec v s)) \<le> length s"
  by (induction v s rule: escape_dec.induct) auto

lemma swallow_length: "length (snd (swallow r)) \<le> length (snd r)"
  by (simp add: swallow_def)

lemma escape_length: "length (fst (snd (escape env s))) \<le> length s"
proof -
  have "length (snd (swallow (escape_hex 0 (tl s)))) \<le> length s"
    using swallow_length [of "escape_hex 0 (tl s)"] escape_hex_length [of 0 "tl s"] by simp
  moreover have "length (snd (swallow (escape_dec 0 s))) \<le> length s"
    using swallow_length [of "escape_dec 0 s"] escape_dec_length [of 0 s] by simp
  ultimately show ?thesis by (auto simp: escape_def Let_def split: option.splits prod.splits)
qed

lemma cp_translate_shorter: "cp_translate cp s = Inr (v, rest) \<Longrightarrow> length rest < length s"
  by (auto simp: cp_translate_def Let_def split: list.splits if_splits)

lemma plain_char_shorter:
  assumes "plain_char env u s = Inr (v, rest)"
  shows "length rest < length s"
proof -
  have "\<exists>bs :: byte list. length bs < length s \<and> rest = drop (length s - length bs) s"
    using assms get_utf8_char_shorter [of "map to_byte s"] cp_translate_shorter [of "cur_codepage env" "map to_byte s"]
    by (auto simp: plain_char_def Let_def bindR_Inr_iff split: if_splits option.splits prod.splits)
  then obtain bs :: "byte list" where "length bs < length s" "rest = drop (length s - length bs) s" by blast
  then show ?thesis by simp
qed

lemma litchar_shorter: "litchar env raw u s = Inr (v, rest, es) \<Longrightarrow> s \<noteq> [] \<Longrightarrow> length rest < length s"
  using plain_char_shorter [of env u s] escape_length [of env "tl s"]
  by (cases s) (auto simp: litchar_def bindR_Inr_iff split: if_splits)

section \<open>Literal strings\<close>

text \<open>The cells that are added to the literal queue, the rest of the line from the closing quote on, and
  the errors. The character 7 marks where lines were joined and is left out.\<close>

function unpackedstring :: "lexenv \<Rightarrow> bool \<Rightarrow> string \<Rightarrow> (cell list \<times> string \<times> nat list) result" where
  "unpackedstring env raw s =
     (case s of [] \<Rightarrow> Inr ([0], s, [])
      | c # t \<Rightarrow>
          if c = CHR 0x22 then Inr ([0], s, [])
          else if c = CHR 0x07 then unpackedstring env raw t
          else (case litchar env raw True s of Inl e \<Rightarrow> Inl e
                | Inr (v, rest, es) \<Rightarrow> bindR (unpackedstring env raw rest) (\<lambda>(cs, r, es'). Inr (v # cs, r, es @ es'))))"
  by pat_completeness auto
termination by (relation "measure (\<lambda>(env, raw, s). length s)") (auto dest: litchar_shorter)

function packedstring :: "lexenv \<Rightarrow> bool \<Rightarrow> nat \<Rightarrow> cell \<Rightarrow> string \<Rightarrow> (cell list \<times> string \<times> nat list) result" where
  "packedstring env raw i val s =
     (case s of [] \<Rightarrow> Inr ([if i \<noteq> 3 then val else 0], s, [])
      | c # t \<Rightarrow>
          if c = CHR 0x22 then Inr ([if i \<noteq> 3 then val else 0], s, [])
          else if c = CHR 0x07 then packedstring env raw i val t
          else (case litchar env raw False s of Inl e \<Rightarrow> Inl e
                | Inr (v, rest, es) \<Rightarrow>
                    let val' = val OR push_bit (8 * i) v; es1 = es @ (if 256 \<le> v then [43] else [])
                    in bindR (packedstring env raw ((i + 3) mod 4) (if i = 0 then 0 else val') rest) (\<lambda>(cs, r, es2).
                         Inr (if i = 0 then val' # cs else cs, r, es1 @ es2))))"
  by pat_completeness auto
termination by (relation "measure (\<lambda>(env, raw, i, val, s). length s)") (auto dest: litchar_shorter)

declare unpackedstring.simps [simp del] packedstring.simps [simp del]

section \<open>Rational numbers\<close>

fun int_part :: "nat \<Rightarrow> cell \<Rightarrow> string \<Rightarrow> cell \<times> string" where
  "int_part dbase dnum [] = (dnum, [])"
| "int_part dbase dnum (c # s) =
     (if c = CHR ''_'' then int_part dbase dnum s
      else if isdigit c then int_part dbase (dnum * 10 + digit c * of_nat dbase) s
      else (dnum, c # s))"

text \<open>\<open>warn\<close> is whether too many digits are still to be reported.\<close>

fun frac_part :: "bool \<Rightarrow> nat \<Rightarrow> cell \<Rightarrow> string \<Rightarrow> cell \<times> string \<times> nat list" where
  "frac_part warn dbase dnum [] = (dnum, [], [])"
| "frac_part warn dbase dnum (c # s) =
     (if c = CHR ''_'' then frac_part warn dbase dnum s
      else if isdigit c then
        (let base = dbase div 10; late = (base = 0 \<and> warn)
         in case frac_part (warn \<and> \<not> late) base (dnum + digit c * of_nat base) s of
              (d, r, es) \<Rightarrow> (d, r, if late then 222 # es else es))
      else (dnum, c # s, []))"

fun dec_nat :: "nat \<Rightarrow> string \<Rightarrow> nat \<times> string" where
  "dec_nat n [] = (n, [])"
| "dec_nat n (c # s) = (if isdigit c then dec_nat (n * 10 + (code_of c - 48)) s else (n, c # s))"

text \<open>The exponent, if there is one: None when the digits are missing, otherwise the sign, the value and
  the rest. The conversion of the power to an integer is undefined when it does not fit; this matters
  only for fixed point numbers.\<close>

definition exponent :: "string \<Rightarrow> (bool \<times> nat \<times> string) option" where
  "exponent s =
     (if char_at s 0 \<noteq> CHR ''e'' then Some (False, 0, s)
      else let below = (char_at s 1 = CHR ''-''); t = drop (if below then 2 else 1) s
           in if \<not> isdigit (char_at t 0) then None else case dec_nat 0 t of (e, r) \<Rightarrow> Some (below, e, r))"

definition ftoi :: "lexenv \<Rightarrow> string \<Rightarrow> (nat \<times> cell \<times> nat list) result" where
  "ftoi env s =
     bindR (assertR (rational_digits env < 9)) (\<lambda>_.
       if \<not> isdigit (char_at s 0) then Inr (0, 0, [])
       else let dbase = 10 ^ rational_digits env
            in case int_part dbase 0 s of (dnum, r) \<Rightarrow>
              if char_at r 0 \<noteq> CHR ''.'' \<or> \<not> isdigit (char_at r 1) then Inr (0, 0, [])
              else case frac_part (sc_rationaltag env \<and> rational_digits env > 0) dbase dnum (tl r) of (d, r2, es) \<Rightarrow>
                (case exponent r2 of None \<Rightarrow> Inr (0, 0, es)
                 | Some (below, e, r3) \<Rightarrow>
                     let len = length s - length r3
                     in if \<not> sc_rationaltag env then Inr (len, 0, es @ [70])
                        else if rational_digits env = 0 then Inr (len, float_cell env (take len s), es)
                        else if \<not> below \<and> 2 ^ 32 \<le> (10 :: nat) ^ e then Inl ArithUndefined
                        else Inr (len, d * (if below then if e = 0 then 1 else 0 else of_nat (10 ^ e)), es)))"

section \<open>Tokens\<close>

definition sc_operators :: "string list" where
  "sc_operators =
     [''*='', ''/='', ''%='', ''+='', ''-='', ''<<='', ''>>>='', ''>>='', ''&='', ''^='', ''|='',
      ''||'', ''&&'', ''=='', ''!='', ''<='', ''>='', ''<<'', ''>>>'', ''>>'', ''++'', ''--'',
      ''...'', ''..'', ''::'']"

definition sc_words :: "string list" where
  "sc_words =
     [''assert'', ''break'', ''case'', ''char'', ''const'', ''continue'', ''default'',
      ''defined'', ''do'', ''else'', ''enum'', ''exit'', ''for'', ''forward'', ''goto'',
      ''if'', ''native'', ''new'', ''operator'', ''public'', ''return'', ''sizeof'',
      ''sleep'', ''state'', ''static'', ''stock'', ''switch'', ''tagof'', ''while'',
      ''#assert'', ''#define'', ''#else'', ''#elseif'', ''#emit'', ''#endif'', ''#endinput'',
      ''#endscript'', ''#error'', ''#file'', ''#if'', ''#include'', ''#line'', ''#pragma'',
      ''#tryinclude'', ''#undef'']"

abbreviation tFIRST :: nat where "tFIRST \<equiv> 256"
abbreviation tMIDDLE :: nat where "tMIDDLE \<equiv> 280"
abbreviation tLAST :: nat where "tLAST \<equiv> 325"
abbreviation tNUMBER :: nat where "tNUMBER \<equiv> 328"
abbreviation tRATIONAL :: nat where "tRATIONAL \<equiv> 329"
abbreviation tSYMBOL :: nat where "tSYMBOL \<equiv> 330"
abbreviation tLABEL :: nat where "tLABEL \<equiv> 331"
abbreviation tSTRING :: nat where "tSTRING \<equiv> 332"

definition match_token :: "string \<Rightarrow> bool \<Rightarrow> string \<Rightarrow> string option" where
  "match_token st whole s =
     (if take (length st) s = st \<and> (whole \<longrightarrow> \<not> alphanum (char_at s (length st))) then Some (drop (length st) s) else None)"

fun first_token :: "nat \<Rightarrow> string list \<Rightarrow> bool \<Rightarrow> string \<Rightarrow> (nat \<times> string \<times> string) option" where
  "first_token i [] whole s = None"
| "first_token i (st # sts) whole s =
     (case match_token st whole s of Some r \<Rightarrow> Some (i, st, r) | None \<Rightarrow> first_token (i + 1) sts whole s)"

text \<open>What \<open>lex\<close> leaves: the token, its value and name, the rest of the line, the cells that were added to
  the literal queue, the errors, and the text for the documentation string.\<close>

record lexed =
  lextok :: nat
  lexval :: cell
  lexstr :: string
  lexrest :: string
  lexlits :: "cell list"
  lexerrs :: "nat list"
  lexdoc :: "string option"

definition token :: "nat \<Rightarrow> string \<Rightarrow> lexed" where
  "token t r = \<lparr>lextok = t, lexval = 0, lexstr = [], lexrest = r, lexlits = [], lexerrs = [], lexdoc = None\<rparr>"

definition lex_symbol :: "lexenv \<Rightarrow> string \<Rightarrow> lexed" where
  "lex_symbol env s =
     (let word = takeWhile alphanum s; r = dropWhile alphanum s; nm = take sNAMEMAX word;
          es = (if sNAMEMAX < length word then [200] else []);
          t = (if nm = ''@'' \<or> nm = ''_'' then code_of (hd nm) else tSYMBOL);
          sym = (token t r)\<lparr>lexstr := nm, lexerrs := es\<rparr>
      in if char_at r 0 = CHR '':'' \<and> char_at r 1 \<noteq> CHR '':'' \<and> nm \<noteq> ''@'' then
           if sc_allowtags env then sym\<lparr>lextok := tLABEL, lexrest := tl r\<rparr>
           else if find_constval (tagnames env) nm 0 \<noteq> None then sym\<lparr>lexerrs := es @ [220]\<rparr>
           else sym
         else sym)"

text \<open>A string from behind its opening quote.\<close>

definition lex_string :: "lexenv \<Rightarrow> nat \<Rightarrow> bool \<Rightarrow> bool \<Rightarrow> string \<Rightarrow> lexed result" where
  "lex_string env lidx pk raw s =
     bindR (if pk then packedstring env raw 3 0 s else unpackedstring env raw s) (\<lambda>(cs, r, es).
       let t = (token tSTRING r)\<lparr>lexval := of_nat lidx, lexlits := cs, lexerrs := es\<rparr>
       in Inr (if char_at r 0 = CHR 0x22 then t\<lparr>lexrest := tl r\<rparr> else t\<lparr>lexerrs := es @ [37]\<rparr>))"

definition lex_literal :: "lexenv \<Rightarrow> nat \<Rightarrow> string \<Rightarrow> lexed result" where
  "lex_literal env lidx s =
     (let c = char_at s 0; d = char_at s 1; e = char_at s 2; ctrl = sc_ctrlchar env; q = CHR 0x22; pack = sc_packstr env
      in if c = q \<or> c = ctrl \<and> d = q then
           lex_string env lidx pack (c = ctrl) (drop (if c = ctrl then 2 else 1) s)
         else if c = CHR ''!'' \<and> d = q \<or> c = CHR ''!'' \<and> d = ctrl \<and> e = q \<or> c = ctrl \<and> d = CHR ''!'' \<and> e = q then
           let raw = (c = ctrl \<or> d = ctrl) in lex_string env lidx (\<not> pack) raw (drop (if raw then 3 else 2) s)
         else if c = CHR 0x27 then
           bindR (litchar env False True (tl s)) (\<lambda>(v, r, es).
             let t = (token tNUMBER r)\<lparr>lexval := v, lexerrs := es\<rparr>
             in Inr (if char_at r 0 = CHR 0x27 then t\<lparr>lexrest := tl r\<rparr> else t\<lparr>lexerrs := es @ [27]\<rparr>))
         else Inr (token (code_of c) (tl s)))"

text \<open>\<open>lex\<close> from the first character that is no white space; the line is not at its end.\<close>

definition lex_token :: "lexenv \<Rightarrow> nat \<Rightarrow> string \<Rightarrow> lexed result" where
  "lex_token env lidx s =
     (let doc = (\<lambda>x t. t\<lparr>lexdoc := if pc_docexpr env then Some x else None\<rparr>)
      in case first_token tFIRST sc_operators False s of
           Some (i, st, r) \<Rightarrow> Inr (doc st (token i r))
         | None \<Rightarrow> (case first_token (tMIDDLE + 1) sc_words True s of
             Some (i, st, r) \<Rightarrow> Inr (doc st (token i r))
           | None \<Rightarrow>
               bindR (case number s of
                   Some (n, v) \<Rightarrow> Inr ((token tNUMBER (drop n s))\<lparr>lexval := v\<rparr>)
                 | None \<Rightarrow>
                     bindR (ftoi env s) (\<lambda>(n, v, es).
                       if n \<noteq> 0 then Inr ((token tRATIONAL (drop n s))\<lparr>lexval := v, lexerrs := es\<rparr>)
                       else bindR (if alpha (char_at s 0) then Inr (lex_symbol env s) else lex_literal env lidx s) (\<lambda>t.
                              Inr (t\<lparr>lexerrs := es @ lexerrs t\<rparr>)))) (\<lambda>t.
                 Inr (doc (take (length s - length (lexrest t)) s) t))))"

end
