(* ===== verification/ScTokens.thy ===== *)
theory ScTokens
  imports ScLex "HOL-Library.Sublist"
begin

text \<open>
  What the scanner makes of a line: numbers are read back whatever the base and the placing of
  underscores, an operator is the longest one that fits, a literal string becomes cells that the host
  reads as the text, an escape sequence is bounded by the assertion on characters, and every token is
  well formed and leaves less of the line.
\<close>

section \<open>Numbers\<close>

definition digits_of :: "string \<Rightarrow> string" where "digits_of = filter (\<lambda>c. c \<noteq> CHR ''_'')"

definition bit_char :: "bool \<Rightarrow> char" where "bit_char b = (if b then CHR ''1'' else CHR ''0'')"

definition fraction :: "string \<Rightarrow> bool" where "fraction s = (char_at s 0 = CHR ''.'' \<and> isdigit (char_at s 1))"

lemma stops:
  assumes "\<not> alphanum (char_at rest 0)"
  shows "rest = [] \<or> (\<exists>c s. rest = c # s \<and> c \<noteq> CHR ''_'' \<and> \<not> isdigit c \<and> c \<noteq> CHR ''0'' \<and> c \<noteq> CHR ''1'' \<and> hex_value c = None \<and> c \<noteq> CHR ''b'' \<and> c \<noteq> CHR ''x'')"
proof (cases rest)
  case (Cons c s)
  then have c: "\<not> alphanum c" using assms by (simp add: char_at_def)
  have "alphanum CHR ''_''" "alphanum CHR ''0''" "alphanum CHR ''1''" "alphanum CHR ''b''" "alphanum CHR ''x''"
    by (simp_all add: alphanum_def alpha_def isalpha_def islower_def isdigit_def code_of_def)
  moreover have "\<not> isdigit c" using c by (simp add: alphanum_def)
  moreover have "hex_value c = None"
    using c by (simp add: alphanum_def alpha_def isalpha_def islower_def isupper_def hex_value_def) linarith
  ultimately show ?thesis using Cons c by auto
qed simp

lemma delimited_at: "\<not> alphanum (char_at rest 0) \<Longrightarrow> delimited (p @ rest) (v, rest) = (length p, v)"
  by (simp add: delimited_def)

lemma dec_digits_run:
  assumes "list_all isdigit (digits_of ds)" and "\<not> alphanum (char_at rest 0)"
  shows "dec_digits v (ds @ rest) = (foldl (\<lambda>v c. v * 10 + digit c) v (digits_of ds), rest)"
  using assms(1)
proof (induction ds arbitrary: v)
  case Nil
  then show ?case using stops [OF assms(2)] by (auto simp: digits_of_def)
qed (auto simp: digits_of_def split: if_splits)

lemma bin_digits_run:
  assumes "digits_of ds = map bit_char bs" and "\<not> alphanum (char_at rest 0)"
  shows "bin_digits v (ds @ rest) = (foldl (\<lambda>v b. 2 * v + of_bool b) v bs, rest)"
  using assms(1)
proof (induction ds arbitrary: v bs)
  case Nil
  then show ?case using stops [OF assms(2)] by (auto simp: digits_of_def)
next
  case (Cons c ds)
  show ?case
  proof (cases "c = CHR ''_''")
    case True
    then show ?thesis using Cons.IH [of bs v] Cons.prems by (simp add: digits_of_def)
  next
    case False
    then obtain b bs' where b: "bs = b # bs'" "c = bit_char b" "digits_of ds = map bit_char bs'"
      using Cons.prems by (cases bs) (auto simp: digits_of_def)
    have "push_bit 1 v OR digit c = 2 * v + of_bool b"
    proof -
      have "push_bit 1 v OR of_bool b = push_bit 1 v + of_bool b"
        by (rule disjunctive_add [symmetric]) (simp only: bit_push_bit_iff bit_of_bool_iff, auto)
      then show ?thesis using b(2) by (cases b) (auto simp: bit_char_def digit_def code_of_def push_bit_eq_mult)
    qed
    then show ?thesis using Cons.IH [OF b(3), of "2 * v + of_bool b"] b False by (cases b) (auto simp: bit_char_def)
  qed
qed

lemma hex_add: "d < 16 \<Longrightarrow> push_bit 4 (v :: cell) + of_nat d = push_bit 4 v OR of_nat d"
proof (rule disjunctive_add)
  fix n
  assume "d < 16"
  then have "take_bit 4 d = d" by (simp add: take_bit_nat_eq_self)
  then have "bit d n \<Longrightarrow> n < 4" by (metis bit_take_bit_iff)
  then show "\<not> bit (push_bit 4 v) n \<or> \<not> bit (of_nat d :: cell) n" by (auto simp: bit_simps)
qed

lemma hex_value_range: "hex_value c = Some d \<Longrightarrow> d < 16"
  by (auto simp: hex_value_def isdigit_def split: if_splits)

lemma hex_digits_hex_loop:
  assumes "\<not> alphanum (char_at rest 0)" and "list_all ishex (digits_of ds)"
  shows "hex_digits_of v (ds @ rest) = hex_loop v (digits_of ds @ rest)"
  using assms(2)
proof (induction ds arbitrary: v)
  case Nil
  then show ?case using stops [OF assms(1)] by (auto simp: digits_of_def)
next
  case (Cons c ds)
  then show ?case
    by (auto simp: digits_of_def hex_value_ishex hex_add [OF hex_value_range] split: if_splits)
qed

lemma decimal_nonempty: "decimal n \<noteq> []"
  by (subst decimal.simps) simp

lemma digit_char: "k < 10 \<Longrightarrow> isdigit (char_of (48 + k)) \<and> digit (char_of (48 + k)) = of_nat k"
  by (simp add: isdigit_def digit_def code_of_def)

lemma decimal_read: "list_all isdigit (decimal n) \<and> foldl (\<lambda>v c. v * 10 + digit c) 0 (decimal n) = (of_nat n :: cell)"
proof (induction n rule: decimal.induct)
  case (1 n)
  show ?case
  proof (cases "n < 10")
    case True
    then show ?thesis by (subst (1 2) decimal.simps) (simp add: digit_char)
  next
    case False
    have "of_nat (n div 10) * 10 + of_nat (n mod 10) = (of_nat (n div 10 * 10 + n mod 10) :: cell)"
      by (simp only: of_nat_add of_nat_mult of_nat_numeral)
    then have "of_nat (n div 10) * 10 + of_nat (n mod 10) = (of_nat n :: cell)" by (simp only: div_mult_mod_eq)
    then show ?thesis
      using False 1 by (subst (1 2) decimal.simps) (simp add: digit_char del: of_nat_add of_nat_mult)
  qed
qed

text \<open>C22 (\<open>number\<close>, \<open>btoi\<close>, \<open>htoi\<close>, \<open>dtoi\<close>): a number is read back from its binary, hexadecimal or decimal
  text in front of anything that cannot belong to it, with underscores anywhere behind the prefix or the
  first decimal digit. A decimal text of any length is read modulo the width of a cell.\<close>
theorem number_reads_literals:
  assumes "\<not> alphanum (char_at rest 0)"
  shows "(digits_of ds = map bit_char bs \<longrightarrow>
       number (''0b'' @ ds @ rest) = Some (2 + length ds, foldl (\<lambda>v b. 2 * v + of_bool b) 0 bs))
    \<and> (digits_of ds = itoh v \<longrightarrow> number (''0x'' @ ds @ rest) = Some (2 + length ds, v))
    \<and> (digits_of ds = decimal n \<and> hd ds \<noteq> CHR ''_'' \<and> \<not> fraction rest \<longrightarrow>
       number (ds @ rest) = Some (length ds, of_nat n))"
proof (intro conjI impI)
  assume "digits_of ds = map bit_char bs"
  from bin_digits_run [OF this assms, of 0] delimited_at [OF assms, of "''0b'' @ ds"]
  show "number (''0b'' @ ds @ rest) = Some (2 + length ds, foldl (\<lambda>v b. 2 * v + of_bool b) 0 bs)"
    by (simp add: number_def btoi_def char_at_def)
next
  assume d: "digits_of ds = itoh v"
  then have "list_all ishex (digits_of ds)" using itoh_hex_digits by (auto simp: list_all_iff ishex_def)
  then have "hex_digits_of 0 (ds @ rest) = (v, rest)"
    using hex_digits_hex_loop [OF assms, of ds 0] hex_loop_itoh [of rest v] stops [OF assms] d
    by (auto simp: hex_value_ishex)
  moreover have "isdigit CHR ''0''" by (simp add: isdigit_def code_of_def)
  ultimately show "number (''0x'' @ ds @ rest) = Some (2 + length ds, v)"
    using delimited_at [OF assms, of "''0x'' @ ds"] by (simp add: number_def btoi_def htoi_def char_at_def)
next
  assume d: "digits_of ds = decimal n \<and> hd ds \<noteq> CHR ''_'' \<and> \<not> fraction rest"
  obtain c cs where ds: "ds = c # cs" using d decimal_nonempty [of n] by (cases ds) (auto simp: digits_of_def)
  have c: "isdigit c" using d decimal_read [of n] ds by (auto simp: digits_of_def dest: arg_cong [of _ _ "list_all isdigit"])
  have run: "dec_digits 0 (ds @ rest) = (of_nat n, rest)"
    using dec_digits_run [OF _ assms, of ds 0] d decimal_read [of n] by simp
  have second: "char_at (ds @ rest) 1 \<noteq> CHR ''b'' \<and> char_at (ds @ rest) 1 \<noteq> CHR ''x''"
  proof (cases cs)
    case Nil
    then show ?thesis using ds stops [OF assms] by (auto simp: char_at_def)
  next
    case (Cons e es)
    then have "e = CHR ''_'' \<or> isdigit e"
      using d decimal_read [of n] ds by (auto simp: digits_of_def dest: arg_cong [of _ _ "list_all isdigit"] split: if_splits)
    then show ?thesis using ds Cons by (auto simp: char_at_def isdigit_def code_of_def)
  qed
  have "dtoi (ds @ rest) = (length ds, of_nat n)"
    using run c ds d delimited_at [OF assms, of ds] by (auto simp: dtoi_def char_at_def fraction_def Let_def)
  then show "number (ds @ rest) = Some (length ds, of_nat n)"
    using second ds by (simp add: number_def btoi_def htoi_def Let_def)
qed

theorem number_reads_literals_witness:
  "number (''0b'' @ ''1_0'' @ '';'') = Some (5, 2) \<and> number (''0x'' @ ''12_34'' @ '';'') = Some (7, 0x1234)
    \<and> number (''12_34'' @ '';'') = Some (5, 1234)"
proof -
  have sep: "\<not> alphanum (char_at '';'' 0)" by code_simp
  have b: "digits_of ''1_0'' = map bit_char [True, False]" by code_simp
  have x: "digits_of ''12_34'' = itoh 0x1234" by code_simp
  have d: "digits_of ''12_34'' = decimal 1234 \<and> hd ''12_34'' \<noteq> CHR ''_'' \<and> \<not> fraction '';''" by code_simp
  show ?thesis
    using mp [OF conjunct1 [OF number_reads_literals [OF sep]] b]
      mp [OF conjunct1 [OF conjunct2 [OF number_reads_literals [OF sep]]] x]
      mp [OF conjunct2 [OF conjunct2 [OF number_reads_literals [OF sep]]] d] by simp
qed

section \<open>Operators\<close>

definition longer_first :: "string list \<Rightarrow> bool" where
  "longer_first ops = list_all (\<lambda>j. list_all (\<lambda>i. \<not> strict_prefix (ops ! i) (ops ! j)) [0..<j]) [0..<length ops]"

lemma longer_first_operators: "longer_first sc_operators"
  by code_simp

lemma match_operator: "match_token st False s = (if prefix st s then Some (drop (length st) s) else None)"
  by (auto simp: match_token_def prefix_def) (metis append_take_drop_id)

lemma first_token_some:
  "first_token i ops False s = Some (k, st, r) \<Longrightarrow>
   \<exists>j < length ops. k = i + j \<and> st = ops ! j \<and> s = st @ r \<and> (\<forall>h < j. \<not> prefix (ops ! h) s)"
proof (induction ops arbitrary: i)
  case (Cons op ops)
  show ?case
  proof (cases "prefix op s")
    case True
    then show ?thesis using Cons.prems by (auto simp: match_operator prefix_def)
  next
    case False
    with Cons obtain j where "j < length ops" "k = i + 1 + j" "st = ops ! j" "s = st @ r" "\<forall>h < j. \<not> prefix (ops ! h) s"
      by (fastforce simp: match_operator)
    then show ?thesis using False by (intro exI [of _ "Suc j"]) (auto simp: less_Suc_eq_0_disj)
  qed
qed simp

lemma first_token_none: "first_token i ops False s = None \<Longrightarrow> op \<in> set ops \<Longrightarrow> \<not> prefix op s"
  by (induction ops arbitrary: i) (auto simp: match_operator split: if_splits)

text \<open>C24 (\<open>lex\<close>, \<open>match\<close>, the operators of \<open>sc_tokens\<close>): a line that starts with an operator of several
  characters is cut behind the longest such operator, and the token tells which one it is.\<close>
theorem longest_operator_is_taken:
  assumes "op \<in> set sc_operators" and "prefix op s"
  shows "\<exists>j < length sc_operators. \<exists>t. lex_token env lidx s = Inr t \<and> lextok t = tFIRST + j
    \<and> s = sc_operators ! j @ lexrest t \<and> (\<forall>op' \<in> set sc_operators. prefix op' s \<longrightarrow> length op' \<le> length (sc_operators ! j))"
proof -
  obtain k st r where f: "first_token tFIRST sc_operators False s = Some (k, st, r)"
    using first_token_none [OF _ assms(1)] assms(2) by (cases "first_token tFIRST sc_operators False s") auto
  then obtain j where j: "j < length sc_operators" "k = tFIRST + j" "st = sc_operators ! j" "s = st @ r"
    "\<forall>h < j. \<not> prefix (sc_operators ! h) s" using first_token_some by blast
  have "length (sc_operators ! h) \<le> length st" if h: "h < length sc_operators" "prefix (sc_operators ! h) s" for h
  proof (rule ccontr)
    assume "\<not> length (sc_operators ! h) \<le> length st"
    moreover have "prefix st s" using j(4) by simp
    ultimately have "strict_prefix st (sc_operators ! h)"
      using prefix_length_prefix [of st s "sc_operators ! h"] h(2) by (auto simp: strict_prefix_def)
    moreover have "j < h" using j(5) h(2) \<open>\<not> length (sc_operators ! h) \<le> length st\<close> j(3) by (metis linorder_neqE_nat order_refl)
    ultimately show False
      using longer_first_operators h(1) j(3) by (auto simp: longer_first_def list_all_iff)
  qed
  then have "\<forall>op' \<in> set sc_operators. prefix op' s \<longrightarrow> length op' \<le> length (sc_operators ! j)"
    using j(3) by (auto simp: in_set_conv_nth)
  moreover obtain t where "lex_token env lidx s = Inr t" "lextok t = k" "lexrest t = r"
    using f by (simp add: lex_token_def token_def)
  ultimately show ?thesis using j by (intro exI [of _ j]) auto
qed

definition plain_env :: lexenv where
  "plain_env = \<lparr>sc_ctrlchar = CHR ''^'', sc_is_utf8 = False, cur_codepage = \<lparr>bytetable = ucast, wordtable = None, wordtabletop = 0\<rparr>,
     sc_packstr = False, sc_allowtags = True, tagnames = [], pc_docexpr = False, sc_rationaltag = True,
     rational_digits = 3, float_cell = (\<lambda>t. 0)\<rparr>"

theorem longest_operator_is_taken_witness:
  "\<exists>j < length sc_operators. \<exists>t. lex_token plain_env 0 ''>>>=b'' = Inr t \<and> lextok t = tFIRST + j
    \<and> ''>>>=b'' = sc_operators ! j @ lexrest t
    \<and> (\<forall>op' \<in> set sc_operators. prefix op' ''>>>=b'' \<longrightarrow> length op' \<le> length (sc_operators ! j))"
  by (rule longest_operator_is_taken [of "''>>''"]) (simp_all add: sc_operators_def)

section \<open>Literal strings\<close>

text \<open>A text of ordinary characters, in a source file with single bytes.\<close>

definition ordinary :: "lexenv \<Rightarrow> string \<Rightarrow> bool" where
  "ordinary env t \<longleftrightarrow> bytetable (cur_codepage env) = ucast \<and> \<not> sc_is_utf8 env
     \<and> list_all (\<lambda>c. c \<noteq> CHR 0x22 \<and> c \<noteq> CHR 7 \<and> c \<noteq> NUL \<and> c \<noteq> sc_ctrlchar env) t"

lemma byte_bound: "unat (ucast (b :: byte) :: cell) < 256"
  by (rule byte_all) code_simp

lemma to_byte_zero: "to_byte c = 0 \<longleftrightarrow> c = NUL"
proof -
  have "unat (to_byte c) = code_of c" by (simp add: to_byte_def unat_of_nat code_of_bound)
  moreover have "code_of NUL = 0" by (simp add: code_of_def)
  ultimately show ?thesis using code_of_inj [of c NUL] by (simp add: unat_eq_zero [symmetric] del: code_of_inj)
qed

lemma litchar_ordinary:
  assumes "bytetable (cur_codepage env) = ucast" and "\<not> sc_is_utf8 env" and "c \<noteq> sc_ctrlchar env"
  shows "litchar env False u (c # s) = Inr (ucast (to_byte c), s, [])"
proof -
  have "ucast b \<noteq> LEADBYTE \<and> 0 \<le>s (ucast b :: cell)" for b :: byte
    unfolding LEADBYTE_def by (rule byte_all) code_simp
  then show ?thesis using assms by (simp add: litchar_def plain_char_def cp_translate_def Let_def)
qed

lemma unpacked_text:
  "ordinary env t \<Longrightarrow>
   unpackedstring env False (t @ CHR 0x22 # rest) = Inr (map ucast (map to_byte t) @ [0], CHR 0x22 # rest, [])"
proof (induction t)
  case Nil
  then show ?case by (subst unpackedstring.simps) simp
next
  case (Cons c t)
  then show ?case
    by (subst unpackedstring.simps) (simp add: ordinary_def litchar_ordinary)
qed

lemma packed_step:
  assumes "ordinary env [c]"
  shows "packedstring env False i val (c # s) =
    bindR (packedstring env False ((i + 3) mod 4) (if i = 0 then 0 else val OR push_bit (8 * i) (ucast (to_byte c))) s)
      (\<lambda>(cs, r, es). Inr (if i = 0 then (val OR ucast (to_byte c)) # cs else cs, r, es))"
proof -
  have "\<not> 256 \<le> (ucast (to_byte c) :: cell)"
    using byte_bound [of "to_byte c"] by (simp add: word_le_nat_alt)
  then show ?thesis
    using assms by (subst packedstring.simps) (simp add: ordinary_def litchar_ordinary Let_def)
qed

lemma packed_end: "packedstring env raw i val (CHR 0x22 # s) = Inr ([if i \<noteq> 3 then val else 0], CHR 0x22 # s, [])"
  by (subst packedstring.simps) simp

lemma packed_text:
  "ordinary env t \<Longrightarrow>
   packedstring env False 3 0 (t @ CHR 0x22 # rest) = Inr (packed (map to_byte t), CHR 0x22 # rest, [])"
proof (induction "map to_byte t" arbitrary: t rule: packed.induct)
  case (1 a b c d bs)
  then obtain p q u v t' where t: "t = p # q # u # v # t'" by (auto simp: map_eq_Cons_conv)
  have "packedstring env False (Suc (Suc (Suc 0))) 0 (t' @ CHR 0x22 # rest) = Inr (packed (map to_byte t'), CHR 0x22 # rest, [])"
    using 1 t by (simp add: ordinary_def flip: numeral_3_eq_3)
  then show ?case using 1(3) t
    by (simp add: packed_step ordinary_def packed_cell_def ac_simps)
qed (auto simp: map_eq_Cons_conv packed_step ordinary_def packed_end packed_cell_def ac_simps)

lemma no_word: "list_all (\<lambda>w. hd w \<noteq> a \<and> hd w \<noteq> b \<and> w \<noteq> []) ws \<Longrightarrow> s \<noteq> [] \<and> hd s \<in> {a, b} \<Longrightarrow> first_token i ws whole s = None"
proof (induction ws arbitrary: i)
  case (Cons w ws)
  then have "take (length w) s \<noteq> w" by (cases s; cases w) auto
  then show ?case using Cons by (simp add: match_token_def)
qed simp

lemma get_unpacked_bytes: "0 \<notin> set s \<Longrightarrow> get_unpacked n (map ucast s @ 0 # r) str = Inr (str @ take n s)"
proof (induction s arbitrary: n str)
  case (Cons b s)
  have "ucast b \<noteq> (0 :: cell) \<or> b = 0" for b :: byte by (rule byte_all) code_simp
  moreover have "ucast (ucast b :: cell) = (b :: byte)" for b by (rule byte_all) code_simp
  ultimately show ?case using Cons by (cases n) auto
qed simp

lemma read_literal:
  assumes "0 \<notin> set t" and "0 < n"
  shows "amx_GetString ((if pk then packed t else map ucast t @ [0]) @ r) n = Inr (AMX_ERR_NONE, Some (take (n - 1) t))"
proof (cases "pk \<and> t \<noteq> []")
  case True
  have ne: "packed t \<noteq> []" using length_packed [of t] by auto
  then have "\<not> hd (packed t @ r) \<le> UNPACKEDMAX" using True packed_big [OF _ assms(1)] by (simp add: not_le)
  then have "amx_GetString (packed t @ r) n = Inr (AMX_ERR_NONE, Some (take (n - 1) t))"
    by (intro read_back [OF assms, of _ r]) (simp_all add: ne)
  then show ?thesis using True by simp
next
  case False
  have "ucast b \<le> UNPACKEDMAX" for b :: byte unfolding UNPACKEDMAX_def by (rule byte_all) code_simp
  then have "\<not> UNPACKEDMAX < hd (map ucast t @ 0 # r)" by (cases t) (auto simp: not_less UNPACKEDMAX_def)
  moreover have "takeWhile (\<lambda>b. b \<noteq> 0) (take k t) = take k t" for k
    using assms(1) by (auto simp: takeWhile_eq_all_conv dest: in_set_takeD)
  moreover from this [of "length t"] have "takeWhile (\<lambda>b. b \<noteq> 0) t = t" by simp
  ultimately have "amx_GetString (map ucast t @ 0 # r) n = Inr (AMX_ERR_NONE, Some (take (n - 1) t))"
    using get_unpacked_bytes [OF assms(1), of n r "[]"] assms(2) by (auto simp: amx_GetString_def min_def)
  then show ?thesis using False by auto
qed

text \<open>C13 (\<open>lex\<close>, \<open>packedstring\<close>, \<open>unpackedstring\<close>, \<open>amx_GetString\<close>): a literal string of ordinary characters,
  packed or not, becomes cells from which the host reads back the text, whatever follows it in memory, as
  far as its buffer reaches.\<close>
theorem string_literal_reaches_host:
  assumes "ordinary env t" and "sc_ctrlchar env \<noteq> CHR 0x22" and "sc_ctrlchar env \<noteq> CHR ''!''"
    and "rational_digits env < 9" and "0 < n"
  shows "\<exists>d. lex_token env lidx ((if bang then ''!'' else []) @ CHR 0x22 # t @ CHR 0x22 # rest) = Inr d
    \<and> lextok d = tSTRING \<and> lexval d = of_nat lidx \<and> lexrest d = rest \<and> lexerrs d = []
    \<and> amx_GetString (lexlits d @ behind) n = Inr (AMX_ERR_NONE, Some (take (n - 1) (map to_byte t)))"
proof -
  define s where "s = (if bang then ''!'' else []) @ CHR 0x22 # t @ CHR 0x22 # rest"
  define pk where "pk = (bang \<noteq> sc_packstr env)"
  let ?cs = "if pk then packed (map to_byte t) else map ucast (map to_byte t) @ [0]"
  have h: "s \<noteq> [] \<and> hd s \<in> {CHR 0x22, CHR ''!''}" and c: "char_at s 0 \<in> {CHR 0x22, CHR ''!''}"
    by (simp_all add: s_def char_at_def)
  have "first_token tFIRST sc_operators False s = None"
    by (cases bang) (simp_all add: sc_operators_def match_token_def s_def)
  moreover have "list_all (\<lambda>w. hd w \<noteq> CHR 0x22 \<and> hd w \<noteq> CHR ''!'' \<and> w \<noteq> []) sc_words" by code_simp
  then have "first_token (tMIDDLE + 1) sc_words True s = None" using h by (rule no_word)
  moreover have "\<not> isdigit (char_at s 0)" "char_at s 0 \<noteq> CHR ''0''" "\<not> alpha (char_at s 0)"
    using c by (auto simp: isdigit_def alpha_def isalpha_def islower_def isupper_def code_of_def)
  then have "number s = None" "ftoi env s = Inr (0, 0, [])" "\<not> alpha (char_at s 0)"
    using assms(4) by (simp_all add: number_def btoi_def htoi_def dtoi_def ftoi_def)
  moreover have "lex_literal env lidx s = Inr ((token tSTRING rest)\<lparr>lexval := of_nat lidx, lexlits := ?cs\<rparr>)"
    using assms(2,3) unpacked_text [OF assms(1), of rest] packed_text [OF assms(1), of rest]
    by (cases bang) (simp_all add: lex_literal_def lex_string_def char_at_def pk_def token_def s_def)
  ultimately obtain d where d: "lex_token env lidx s = Inr d" "lextok d = tSTRING" "lexval d = of_nat lidx" "lexrest d = rest"
      "lexerrs d = []" "lexlits d = ?cs"
    by (simp add: lex_token_def token_def)
  moreover have "amx_GetString (?cs @ behind) n = Inr (AMX_ERR_NONE, Some (take (n - 1) (map to_byte t)))"
  proof -
    have "NUL \<notin> set t" using assms(1) by (auto simp: ordinary_def list_all_iff)
    then have "0 \<notin> set (map to_byte t)" using to_byte_zero by (metis image_iff list.set_map)
    then show ?thesis using assms(5) by (rule read_literal)
  qed
  ultimately show ?thesis unfolding s_def [symmetric] by (intro exI [of _ d]) (simp only: d)
qed

theorem string_literal_reaches_host_witness:
  "\<exists>d. lex_token plain_env 12 ((if True then ''!'' else []) @ CHR 0x22 # ''hello'' @ CHR 0x22 # '');'') = Inr d
    \<and> lextok d = tSTRING \<and> lexval d = of_nat 12 \<and> lexrest d = '');'' \<and> lexerrs d = []
    \<and> amx_GetString (lexlits d @ [7]) 20 = Inr (AMX_ERR_NONE, Some (take (20 - 1) (map to_byte ''hello'')))"
  by (rule string_literal_reaches_host) (simp_all add: ordinary_def plain_env_def)

section \<open>Escape sequences\<close>

lemma escape_hex_loop: "escape_hex v s = hex_loop v s"
proof (induction v s rule: escape_hex.induct)
  case (2 v c s)
  then show ?case by (auto simp: hex_add [OF hex_value_range] split: option.splits)
qed simp

text \<open>\<open>litchar\<close>: a character given by its hexadecimal code stands for the code when this is
  below \<open>2 ^ 31\<close>; the closing semicolon belongs to it. A code from there on fails the assertion: it is
  negative as a cell.\<close>
theorem hex_escape_bound:
  assumes "sc_ctrlchar env \<noteq> CHR ''x''"
  shows "litchar env False utf8 (sc_ctrlchar env # ''x'' @ itoh v @ '';'' @ rest) =
    (if unat v < 2 ^ 31 then Inr (v, rest, []) else Inl AssertFail)"
proof -
  have "hex_loop 0 (itoh v @ CHR '';'' # rest) = (v, CHR '';'' # rest)"
    by (rule hex_loop_itoh) (auto simp: ishex_def isdigit_def code_of_def)
  then have "escape env (''x'' @ itoh v @ '';'' @ rest) = (v, rest, [])"
    using assms by (simp add: escape_def char_at_def escapes_def escape_hex_loop swallow_def Let_def)
  moreover have "0 \<le>s v \<longleftrightarrow> unat v < 2 ^ 31"
    using less_of_bits [of 31 v] take_bit_self [of 31 v] sint_lt [of v] by simp
  ultimately show ?thesis by (simp add: litchar_def)
qed

theorem hex_escape_bound_witness:
  "litchar plain_env False True (sc_ctrlchar plain_env # ''x'' @ itoh 0x20AC @ '';'' @ ''rest'') =
    (if unat (0x20AC :: cell) < 2 ^ 31 then Inr (0x20AC, ''rest'', []) else Inl AssertFail)"
  by (rule hex_escape_bound) (simp add: plain_env_def)

section \<open>Well formed tokens\<close>

lemma suffix_hex: "suffix (snd (escape_hex v s)) s"
  by (induction v s rule: escape_hex.induct) (auto intro: suffix_ConsI split: option.splits)

lemma suffix_dec: "suffix (snd (escape_dec v s)) s"
  by (induction v s rule: escape_dec.induct) (auto intro: suffix_ConsI)

lemma suffix_swallow: "suffix (snd r) s \<Longrightarrow> suffix (snd (swallow r)) s"
  unfolding swallow_def by (cases "snd r") (auto dest: suffix_ConsD)

lemma suffix_tl: "suffix r (tl s) \<Longrightarrow> suffix r s"
  by (cases s) (auto intro: suffix_ConsI)

lemma suffix_escape: "suffix (fst (snd (escape env s))) s"
proof -
  have "suffix (snd (swallow (escape_hex 0 (tl s)))) s" "suffix (snd (swallow (escape_dec 0 s))) s"
    using suffix_hex suffix_dec by (auto intro: suffix_swallow suffix_tl)
  moreover have "suffix (tl s) s" by (auto intro: suffix_tl)
  ultimately show ?thesis by (auto simp: escape_def Let_def split: option.splits prod.splits)
qed

lemma suffix_plain: "plain_char env u s = Inr (v, r) \<Longrightarrow> suffix r s"
  by (auto simp: plain_char_def Let_def bindR_Inr_iff suffix_drop split: if_splits option.splits prod.splits)

lemma suffix_litchar: "litchar env raw u s = Inr (v, r, es) \<Longrightarrow> suffix r s"
  using suffix_plain [of env u s] suffix_escape [of env "tl s"]
  by (auto simp: litchar_def bindR_Inr_iff intro: suffix_tl split: if_splits)

lemma unpacked_shape:
  "unpackedstring env raw s = Inr (cs, r, es) \<Longrightarrow> suffix r s \<and> cs \<noteq> [] \<and> last cs = 0"
proof (induction env raw s arbitrary: cs r es rule: unpackedstring.induct)
  case (1 env raw s)
  show ?case
  proof (cases s)
    case Nil
    then show ?thesis using "1.prems" by (subst (asm) unpackedstring.simps) auto
  next
    case (Cons c t)
    show ?thesis
      using "1.prems" "1.IH" [OF Cons] suffix_litchar [of env raw True s] Cons
      by (subst (asm) unpackedstring.simps)
         (fastforce simp: bindR_Inr_iff intro: suffix_ConsI suffix_order.trans split: if_splits sum.splits prod.splits)
  qed
qed

lemma low_shift: "0 < i \<Longrightarrow> val AND 0xff = 0 \<Longrightarrow> (val OR push_bit (8 * i) v) AND 0xff = (0 :: cell)"
proof -
  assume a: "0 < i" "val AND 0xff = 0"
  have "push_bit (8 * i) v AND 0xff = 0"
  proof -
    have "push_bit (8 * i) v AND mask 8 = 0" using a(1) by (intro bit_word_eqI) (auto simp: bit_simps)
    then show ?thesis by (simp add: mask_eq_exp_minus_1)
  qed
  then show ?thesis using a(2) by (simp add: bit.conj_disj_distrib2)
qed

lemma packed_shape:
  "packedstring env raw i val s = Inr (cs, r, es) \<Longrightarrow> val AND 0xff = 0 \<Longrightarrow>
   suffix r s \<and> cs \<noteq> [] \<and> last cs AND 0xff = 0"
proof (induction env raw i val s arbitrary: cs r es rule: packedstring.induct)
  case (1 env raw i val s)
  show ?case
  proof (cases s)
    case Nil
    then show ?thesis using "1.prems" by (subst (asm) packedstring.simps) auto
  next
    case (Cons c t)
    show ?thesis
      using "1.prems" "1.IH" [OF Cons] suffix_litchar [of env raw False s] low_shift [of i val] Cons
      by (subst (asm) packedstring.simps)
         (fastforce simp: bindR_Inr_iff Let_def intro: suffix_ConsI suffix_order.trans split: if_splits sum.splits prod.splits)
  qed
qed

text \<open>A token as the parser expects it, from the line \<open>s\<close>: it has one of the codes, some of the line was
  used up, a symbol or label has a name that begins like one and is not too long, and a string, which is the
  only token with literals, ends with a cell whose last character is the terminator.\<close>

definition well_formed_token :: "string \<Rightarrow> lexed \<Rightarrow> bool" where
  "well_formed_token s t \<longleftrightarrow>
     (lextok t < 256 \<or> tFIRST \<le> lextok t \<and> lextok t \<le> tLAST \<or> lextok t \<in> {tNUMBER, tRATIONAL, tSYMBOL, tLABEL, tSTRING})
     \<and> strict_suffix (lexrest t) s
     \<and> (lextok t \<in> {tSYMBOL, tLABEL} \<longrightarrow> lexstr t \<noteq> [] \<and> alpha (hd (lexstr t)) \<and> list_all alphanum (lexstr t))
     \<and> length (lexstr t) \<le> sNAMEMAX
     \<and> (if lextok t = tSTRING then lexlits t \<noteq> [] \<and> last (lexlits t) AND 0xff = 0 else lexlits t = [])"

lemma shorter_suffix: "suffix r s \<Longrightarrow> length r < length s \<Longrightarrow> strict_suffix r s"
  by (auto simp: strict_suffix_def)

lemma match_strict: "match_token st whole s = Some r \<Longrightarrow> st \<noteq> [] \<Longrightarrow> strict_suffix r s"
  by (cases s; cases st) (auto simp: match_token_def suffix_drop intro!: shorter_suffix suffix_ConsI split: if_splits)

lemma first_token_range:
  "first_token i ops whole s = Some (k, st, r) \<Longrightarrow> list_all (\<lambda>st. st \<noteq> []) ops \<Longrightarrow>
   i \<le> k \<and> k < i + length ops \<and> strict_suffix r s"
  by (induction i ops whole s rule: first_token.induct) (auto split: option.splits dest: match_strict)

lemma int_part_suffix: "suffix (snd (int_part b d s)) s"
  by (induction b d s rule: int_part.induct) (auto intro: suffix_ConsI)

lemma frac_part_suffix: "suffix (fst (snd (frac_part w b d s))) s"
  by (induction w b d s rule: frac_part.induct) (auto intro: suffix_ConsI simp: Let_def split: prod.splits)

lemma symbol_token:
  assumes "alpha (char_at s 0)"
  shows "well_formed_token s (lex_symbol env s)"
proof -
  obtain c u where s: "s = c # u" "alpha c"
    using assms by (cases s) (auto simp: char_at_def alpha_def isalpha_def isupper_def islower_def code_of_def)
  let ?word = "takeWhile alphanum s" and ?r = "dropWhile alphanum s"
  have a: "alphanum c" using s(2) by (simp add: alphanum_def)
  have "strict_suffix ?r s"
    using a s(1) suffix_dropWhile [of alphanum u] suffix_length_le [of "dropWhile alphanum u" u]
    by (auto intro!: shorter_suffix suffix_ConsI)
  moreover have "strict_suffix (tl ?r) s"
    using \<open>strict_suffix ?r s\<close> suffix_tl [of "tl ?r" ?r] by (meson suffix_order.le_less_trans suffix_order.order_refl)
  moreover have "list_all alphanum (take sNAMEMAX ?word)"
    by (auto simp: list_all_iff dest: in_set_takeD set_takeWhileD)
  moreover have "take sNAMEMAX ?word \<noteq> [] \<and> hd (take sNAMEMAX ?word) = c" using a s(1) by (simp add: sNAMEMAX_def)
  moreover have "lexstr (lex_symbol env s) = take sNAMEMAX ?word" "lexlits (lex_symbol env s) = []"
    "lexrest (lex_symbol env s) = ?r \<or> lexrest (lex_symbol env s) = tl ?r"
    by (simp_all add: lex_symbol_def Let_def token_def)
  moreover have "lextok (lex_symbol env s) < 256 \<or> lextok (lex_symbol env s) \<in> {tSYMBOL, tLABEL}"
    using code_of_bound by (simp add: lex_symbol_def Let_def token_def)
  ultimately show ?thesis using s(2) by (auto simp: well_formed_token_def)
qed

lemma string_token:
  "lex_string env lidx pk raw u = Inr t \<Longrightarrow> strict_suffix u s \<Longrightarrow> well_formed_token s t"
proof -
  assume a: "lex_string env lidx pk raw u = Inr t" "strict_suffix u s"
  then obtain cs r es where c: "(if pk then packedstring env raw 3 0 u else unpackedstring env raw u) = Inr (cs, r, es)"
    by (auto simp: lex_string_def bindR_Inr_iff)
  then have r: "suffix r u" "cs \<noteq> [] \<and> last cs AND 0xff = 0"
    using packed_shape [of env raw 3 0 u cs r es] unpacked_shape [of env raw u cs r es] by (auto split: if_splits)
  have "strict_suffix r s" using r(1) a(2) by (rule suffix_order.le_less_trans)
  moreover have "strict_suffix (tl r) s"
    using suffix_order.le_less_trans [OF suffix_tl [of "tl r" r] \<open>strict_suffix r s\<close>] by simp
  ultimately show ?thesis
    using a(1) c r(2) by (auto simp: lex_string_def bindR_Inr_iff well_formed_token_def token_def Let_def split: if_splits)
qed

lemma strict_drop: "s \<noteq> [] \<Longrightarrow> 0 < n \<Longrightarrow> strict_suffix (drop n s) s"
  by (rule shorter_suffix) (auto simp: suffix_drop)

lemma literal_token:
  assumes "lex_literal env lidx s = Inr t" and "s \<noteq> []"
  shows "well_formed_token s t"
proof -
  have d: "strict_suffix (drop 1 s) s" "strict_suffix (drop 2 s) s" "strict_suffix (drop 3 s) s"
    using assms(2) by (auto intro: strict_drop)
  have l: "strict_suffix r s \<and> strict_suffix (tl r) s" if "litchar env False True (tl s) = Inr (v, r, es)" for v r es
  proof -
    have "suffix r (tl s)" using that by (rule suffix_litchar)
    moreover have "suffix (tl r) (tl s)" using calculation by (metis suffix_order.trans suffix_tl suffix_order.refl)
    ultimately show ?thesis using d(1) by (auto simp: drop_Suc intro: suffix_order.le_less_trans)
  qed
  let ?c = "char_at s 0" and ?d = "char_at s 1" and ?e = "char_at s 2" and ?ctrl = "sc_ctrlchar env" and ?q = "CHR 0x22"
  show ?thesis
  proof (cases "?c = ?q \<or> ?c = ?ctrl \<and> ?d = ?q")
    case True
    then have "lex_string env lidx (sc_packstr env) (?c = ?ctrl) (drop (if ?c = ?ctrl then 2 else 1) s) = Inr t"
      using assms(1) by (simp add: lex_literal_def Let_def)
    then show ?thesis using d by (elim string_token) (simp split: if_split)
  next
    case a: False
    show ?thesis
    proof (cases "?c = CHR ''!'' \<and> ?d = ?q \<or> ?c = CHR ''!'' \<and> ?d = ?ctrl \<and> ?e = ?q \<or> ?c = ?ctrl \<and> ?d = CHR ''!'' \<and> ?e = ?q")
      case True
      have "lex_string env lidx (\<not> sc_packstr env) (?c = ?ctrl \<or> ?d = ?ctrl) (drop (if ?c = ?ctrl \<or> ?d = ?ctrl then 3 else 2) s) = Inr t"
        using assms(1) unfolding lex_literal_def Let_def if_not_P [OF a] if_P [OF True] .
      then show ?thesis using d by (elim string_token) (simp split: if_split)
    next
      case b: False
      have code: "code_of ?c < 256" by (rule code_of_bound)
      show ?thesis
        using assms(1) l code d(1) unfolding lex_literal_def Let_def if_not_P [OF a] if_not_P [OF b]
        by (auto simp: bindR_Inr_iff well_formed_token_def token_def drop_Suc split: if_splits)
    qed
  qed
qed

lemma count_number: "number s = Some (n, v) \<Longrightarrow> 0 < n"
  by (auto simp: number_def Let_def split: if_splits)

text \<open>C9 (\<open>lex\<close>): every token is well formed, and using it up leaves less of the line, whatever the line
  holds; so a line is worked off in finitely many steps.\<close>
theorem tokens_are_well_formed:
  assumes "s \<noteq> []" and "lex_token env lidx s = Inr t"
  shows "well_formed_token s t"
proof -
  have ne: "list_all (\<lambda>st. st \<noteq> []) sc_operators" "list_all (\<lambda>st. st \<noteq> []) sc_words" by code_simp+
  have len: "length sc_operators = 25" "length sc_words = 45" by code_simp+
  have doc: "well_formed_token s (u\<lparr>lexdoc := x\<rparr>) = well_formed_token s u"
    "well_formed_token s (u\<lparr>lexerrs := y\<rparr>) = well_formed_token s u" for u x y
    by (simp_all add: well_formed_token_def)
  show ?thesis
  proof (cases "first_token tFIRST sc_operators False s")
    case (Some x)
    then obtain i st r where x: "first_token tFIRST sc_operators False s = Some (i, st, r)" by (cases x) auto
    from first_token_range [OF this ne(1)] show ?thesis
      using assms(2) x len by (auto simp: lex_token_def doc) (simp add: well_formed_token_def token_def)
  next
    case None
    note ops = this
    show ?thesis
    proof (cases "first_token (tMIDDLE + 1) sc_words True s")
      case (Some x)
      then obtain i st r where x: "first_token (tMIDDLE + 1) sc_words True s = Some (i, st, r)" by (cases x) auto
      from first_token_range [OF this ne(2)] show ?thesis
        using assms(2) x ops len by (auto simp: lex_token_def doc) (simp add: well_formed_token_def token_def)
    next
      case None
      have n: "well_formed_token s ((token tNUMBER (drop n s))\<lparr>lexval := v\<rparr>)"
        "well_formed_token s ((token tRATIONAL (drop n s))\<lparr>lexval := v, lexerrs := es\<rparr>)" if "0 < n" for n v es
        using strict_drop [OF assms(1) that] by (simp_all add: well_formed_token_def token_def)
      show ?thesis
      proof (cases "number s")
        case (Some x)
        then show ?thesis using assms(2) ops None n(1) [OF count_number] by (cases x) (auto simp: lex_token_def doc)
      next
        case no: None
        obtain m v es where f: "ftoi env s = Inr (m, v, es)"
          using assms(2) ops None no by (auto simp: lex_token_def bindR_Inr_iff)
        define r where "r = (if alpha (char_at s 0) then Inr (lex_symbol env s) else lex_literal env lidx s)"
        have r: "well_formed_token s u" if "r = Inr u" for u
          using that symbol_token [of s env] literal_token [OF _ assms(1)] by (auto simp: r_def split: if_splits)
        show ?thesis
          using assms(2) ops None no f n(2) [of m] r
          by (cases "m = 0") (auto simp: lex_token_def doc bindR_Inr_iff r_def [symmetric])
      qed
    qed
  qed
qed

theorem tokens_are_well_formed_witness:
  "well_formed_token ''running: x;'' ((token tLABEL '' x;'')\<lparr>lexstr := ''running''\<rparr>)"
  by (rule tokens_are_well_formed [of _ plain_env 0]) code_simp+

end
