(* ===== verification/ScList.thy ===== *)
theory ScList
  imports Tables ScSym ScStage
begin

text \<open>
  The lists of sclist.c: sorted tables of string pairs (aliases and macros), the quick index of
  the macro table by first character, and the string lists (include paths, source files,
  documentation, automatic listing, debug strings). A node of a pair table carries its address,
  because the quick index keeps pointers into the table. The lemmas show that the search in a
  sorted table, which stops early, finds what a full search finds, and that the quick index
  stays exact under insertion and deletion.
\<close>

section \<open>Tables of string pairs\<close>

record stringpair =
  sp_addr :: nat
  sp_first :: string
  sp_second :: string
  matchlength :: nat

text \<open>The first byte of a C string, and a byte as the signed \<open>char\<close> that it is on the targets.\<close>

definition first_byte :: "string \<Rightarrow> char" where "first_byte s = (if s = [] then NUL else hd s)"

definition char_int :: "char \<Rightarrow> int" where
  "char_int c = (if code_of c < 128 then int (code_of c) else int (code_of c) - 256)"

definition strncmp :: "string \<Rightarrow> string \<Rightarrow> nat \<Rightarrow> int" where
  "strncmp a b n = strcmp (take n a) (take n b)"

definition insert_stringpair :: "stringpair \<Rightarrow> stringpair list \<Rightarrow> stringpair list" where
  "insert_stringpair cur root =
     takeWhile (\<lambda>p. strcmp (sp_first p) (sp_first cur) < 0) root
     @ cur # dropWhile (\<lambda>p. strcmp (sp_first p) (sp_first cur) < 0) root"

fun search_stringpair :: "stringpair list \<Rightarrow> string \<Rightarrow> nat \<Rightarrow> stringpair option" where
  "search_stringpair [] first n = None"
| "search_stringpair (cur # rest) first n =
     (let r = char_int (first_byte (sp_first cur)) - char_int (first_byte first)
      in if r = 0 \<and> n = matchlength cur then
           (let r' = strncmp (sp_first cur) first n
            in if r' = 0 then Some cur else if r' \<le> 0 then search_stringpair rest first n else None)
         else if r \<le> 0 then search_stringpair rest first n else None)"

definition find_stringpair :: "stringpair list \<Rightarrow> string \<Rightarrow> nat \<Rightarrow> stringpair option result" where
  "find_stringpair cur first n = bindR (assertR (0 < n)) (\<lambda>_. Inr (search_stringpair cur first n))"

fun delete_stringpair :: "stringpair list \<Rightarrow> nat \<Rightarrow> bool \<times> stringpair list" where
  "delete_stringpair [] item = (False, [])"
| "delete_stringpair (cur # rest) item =
     (if sp_addr cur = item then (True, rest)
      else case delete_stringpair rest item of (b, rest') \<Rightarrow> (b, cur # rest'))"

definition delete_stringpairtable :: "stringpair list \<Rightarrow> stringpair list" where
  "delete_stringpairtable root = []"

section \<open>String lists\<close>

type_synonym stringlist = "string list"

definition insert_string :: "stringlist \<Rightarrow> string \<Rightarrow> stringlist" where
  "insert_string root str = root @ [str]"

fun get_string :: "stringlist \<Rightarrow> int \<Rightarrow> string option" where
  "get_string [] index = None"
| "get_string (cur # rest) index = (if 0 < index then get_string rest (index - 1) else Some cur)"

fun delete_string :: "stringlist \<Rightarrow> int \<Rightarrow> bool \<times> stringlist" where
  "delete_string [] index = (False, [])"
| "delete_string (cur # rest) index =
     (if 0 < index then (case delete_string rest (index - 1) of (b, rest') \<Rightarrow> (b, cur # rest'))
      else (True, rest))"

definition delete_stringtable :: "stringlist \<Rightarrow> stringlist" where
  "delete_stringtable root = []"

section \<open>The lists of the compiler\<close>

record lists =
  alias_tab :: "stringpair list"
  includepaths :: stringlist
  substpair :: "stringpair list"
  substindex :: "char \<Rightarrow> nat option"
  sourcefiles :: stringlist
  docstrings :: stringlist
  autolist :: stringlist
  dbgstrings :: stringlist
  next_addr :: nat

definition new_pair :: "lists \<Rightarrow> string \<Rightarrow> string \<Rightarrow> nat \<Rightarrow> stringpair" where
  "new_pair l first second n = \<lparr>sp_addr = next_addr l, sp_first = first, sp_second = second, matchlength = n\<rparr>"

definition insert_alias :: "string \<Rightarrow> string \<Rightarrow> lists \<Rightarrow> lists result" where
  "insert_alias nm alias l =
     bindR (assertR (length nm \<le> sNAMEMAX)) (\<lambda>_.
     bindR (assertR (length alias \<le> sNAMEMAX)) (\<lambda>_.
       Inr (l\<lparr>alias_tab := insert_stringpair (new_pair l nm alias (length nm)) (alias_tab l),
              next_addr := next_addr l + 1\<rparr>)))"

definition lookup_alias :: "lists \<Rightarrow> string \<Rightarrow> string option result" where
  "lookup_alias l nm =
     bindR (find_stringpair (alias_tab l) nm (length nm)) (\<lambda>cur.
       case cur of None \<Rightarrow> Inr None
       | Some p \<Rightarrow> bindR (assertR (length (sp_second p) \<le> sNAMEMAX)) (\<lambda>_. Inr (Some (sp_second p))))"

definition delete_aliastable :: "lists \<Rightarrow> lists" where
  "delete_aliastable l = l\<lparr>alias_tab := delete_stringpairtable (alias_tab l)\<rparr>"

text \<open>Every include path is preceded by the compatibility directory below it (the Linux branch).\<close>

definition insert_path :: "string \<Rightarrow> lists \<Rightarrow> lists" where
  "insert_path path l =
     l\<lparr>includepaths := insert_string (insert_string (includepaths l) (path @ ''/amxmod_compat/'')) path\<rparr>"

definition get_path :: "lists \<Rightarrow> int \<Rightarrow> string option" where
  "get_path l index = get_string (includepaths l) index"

definition delete_pathtable :: "lists \<Rightarrow> lists" where
  "delete_pathtable l = l\<lparr>includepaths := delete_stringtable (includepaths l)\<rparr>"

section \<open>Text substitution\<close>

definition macro_start :: "char \<Rightarrow> bool" where "macro_start c \<longleftrightarrow> isalpha c \<or> c = CHR ''_''"

text \<open>\<open>substindex\<close> points to the first macro with a given first character.\<close>

definition first_with :: "char \<Rightarrow> stringpair list \<Rightarrow> nat option" where
  "first_with c ps = map_option sp_addr (find (\<lambda>p. first_byte (sp_first p) = c) ps)"

definition adjustindex :: "char \<Rightarrow> lists \<Rightarrow> lists result" where
  "adjustindex c l =
     bindR (assertR (macro_start c)) (\<lambda>_.
       Inr (l\<lparr>substindex := (substindex l)(c := first_with c (substpair l))\<rparr>))"

definition insert_subst :: "string \<Rightarrow> string \<Rightarrow> nat \<Rightarrow> lists \<Rightarrow> lists result" where
  "insert_subst pattern substitution prefixlen l =
     adjustindex (first_byte pattern)
       (l\<lparr>substpair := insert_stringpair (new_pair l pattern substitution prefixlen) (substpair l),
          next_addr := next_addr l + 1\<rparr>)"

text \<open>The search that starts at a pointer from the index; a pointer to a freed node is a fault.\<close>

definition find_from :: "nat option \<Rightarrow> stringpair list \<Rightarrow> string \<Rightarrow> nat \<Rightarrow> stringpair option result" where
  "find_from item root nm n =
     (case item of None \<Rightarrow> Inr None
      | Some a \<Rightarrow> if a \<in> sp_addr ` set root
                  then find_stringpair (dropWhile (\<lambda>p. sp_addr p \<noteq> a) root) nm n
                  else Inl UseAfterFree)"

definition find_subst :: "lists \<Rightarrow> string \<Rightarrow> nat \<Rightarrow> stringpair option result" where
  "find_subst l nm n =
     bindR (assertR (0 < n)) (\<lambda>_.
     bindR (assertR (macro_start (first_byte nm))) (\<lambda>_.
       find_from (substindex l (first_byte nm)) (substpair l) nm n))"

definition delete_subst :: "string \<Rightarrow> nat \<Rightarrow> lists \<Rightarrow> (bool \<times> lists) result" where
  "delete_subst nm n l =
     bindR (find_subst l nm n) (\<lambda>item.
       case item of
         None \<Rightarrow> Inr (False, l)
       | Some p \<Rightarrow>
           bindR (adjustindex (first_byte nm)
                   (l\<lparr>substpair := snd (delete_stringpair (substpair l) (sp_addr p))\<rparr>)) (\<lambda>l'.
             Inr (True, l')))"

definition delete_substtable :: "lists \<Rightarrow> lists" where
  "delete_substtable l = l\<lparr>substpair := delete_stringpairtable (substpair l), substindex := (\<lambda>_. None)\<rparr>"

section \<open>Source files, documentation, listing\<close>

definition insert_sourcefile :: "string \<Rightarrow> lists \<Rightarrow> lists" where
  "insert_sourcefile str l = l\<lparr>sourcefiles := insert_string (sourcefiles l) str\<rparr>"

definition get_sourcefile :: "lists \<Rightarrow> int \<Rightarrow> string option" where
  "get_sourcefile l index = get_string (sourcefiles l) index"

definition delete_sourcefiletable :: "lists \<Rightarrow> lists" where
  "delete_sourcefiletable l = l\<lparr>sourcefiles := delete_stringtable (sourcefiles l)\<rparr>"

definition insert_docstring :: "string \<Rightarrow> lists \<Rightarrow> lists" where
  "insert_docstring str l = l\<lparr>docstrings := insert_string (docstrings l) str\<rparr>"

definition get_docstring :: "lists \<Rightarrow> int \<Rightarrow> string option" where
  "get_docstring l index = get_string (docstrings l) index"

definition delete_docstring :: "int \<Rightarrow> lists \<Rightarrow> lists" where
  "delete_docstring index l = l\<lparr>docstrings := snd (delete_string (docstrings l) index)\<rparr>"

definition delete_docstringtable :: "lists \<Rightarrow> lists" where
  "delete_docstringtable l = l\<lparr>docstrings := delete_stringtable (docstrings l)\<rparr>"

definition insert_autolist :: "string \<Rightarrow> lists \<Rightarrow> lists" where
  "insert_autolist str l = l\<lparr>autolist := insert_string (autolist l) str\<rparr>"

definition get_autolist :: "lists \<Rightarrow> int \<Rightarrow> string option" where
  "get_autolist l index = get_string (autolist l) index"

definition delete_autolisttable :: "lists \<Rightarrow> lists" where
  "delete_autolisttable l = l\<lparr>autolist := delete_stringtable (autolist l)\<rparr>"

section \<open>Debug strings\<close>

text \<open>\<open>printf\<close> with \<open>%x\<close> and with a minimum width; \<open>%08lx\<close> of a cell cast to a 64-bit \<open>long\<close> prints
  the sign extension.\<close>

definition hex_digit :: "nat \<Rightarrow> char" where "hex_digit n = char_of (if n < 10 then 48 + n else 87 + n)"

fun hex_of :: "nat \<Rightarrow> string" where
  "hex_of n = (if n < 16 then [hex_digit n] else hex_of (n div 16) @ [hex_digit (n mod 16)])"

declare hex_of.simps [simp del]

definition hex_pad :: "nat \<Rightarrow> nat \<Rightarrow> string" where
  "hex_pad w n = replicate (w - length (hex_of n)) CHR ''0'' @ hex_of n"

definition print_x :: "cell \<Rightarrow> string" where "print_x v = hex_of (unat v)"
definition print_08x :: "cell \<Rightarrow> string" where "print_08x v = hex_pad 8 (unat v)"
definition print_08lx :: "cell \<Rightarrow> string" where "print_08lx v = hex_pad 8 (unat (scast v :: 64 word))"

definition debug_strings_on :: "cstate \<Rightarrow> bool" where
  "debug_strings_on s \<longleftrightarrow> sc_status s = StatWRITE \<and> dbg_bit sSYMBOLIC s"

text \<open>\<open>_MAX_PATH\<close> is 260 on Windows; the buffer has 40 bytes more.\<close>

definition insert_dbgfile :: "cstate \<Rightarrow> string \<Rightarrow> lists \<Rightarrow> lists result" where
  "insert_dbgfile s filename l =
     (if debug_strings_on s
      then bindR (assertR (length filename + 40 < 260 + 40)) (\<lambda>_.
             Inr (l\<lparr>dbgstrings := insert_string (dbgstrings l)
                     (''F:'' @ print_08lx (code_idx s) @ '' '' @ filename)\<rparr>))
      else Inr l)"

definition insert_dbgline :: "cstate \<Rightarrow> int \<Rightarrow> lists \<Rightarrow> lists" where
  "insert_dbgline s linenr l =
     (if debug_strings_on s
      then l\<lparr>dbgstrings := insert_string (dbgstrings l)
              (''L:'' @ print_08lx (code_idx s) @ '' ''
               @ hex_pad 4 (unat (word_of_int (if 0 < linenr then linenr - 1 else linenr) :: cell)))\<rparr>
      else l)"

definition ident_code :: "ident \<Rightarrow> nat" where
  "ident_code i = (case i of iLABEL \<Rightarrow> 0 | iVARIABLE \<Rightarrow> 1 | iREFERENCE \<Rightarrow> 2 | iARRAY \<Rightarrow> 3 | iREFARRAY \<Rightarrow> 4
     | iARRAYCELL \<Rightarrow> 5 | iARRAYCHAR \<Rightarrow> 6 | iEXPRESSION \<Rightarrow> 7 | iCONSTEXPR \<Rightarrow> 8 | iFUNCTN \<Rightarrow> 9
     | iREFFUNC \<Rightarrow> 10 | iVARARGS \<Rightarrow> 11)"

definition vclass_code :: "vclass \<Rightarrow> nat" where
  "vclass_code c = (case c of sGLOBAL \<Rightarrow> 0 | sLOCAL \<Rightarrow> 1 | sSTATIC \<Rightarrow> 2)"

text \<open>The dimensions of an array, from the symbol down its children. The assertion on the levels
  fails before a symbol is met twice, so a chain is shorter than \<open>n\<close>, the number of symbols plus one.\<close>

fun dims_text :: "symtabs \<Rightarrow> nat \<Rightarrow> symbol \<Rightarrow> int \<Rightarrow> string result" where
  "dims_text t 0 sub count = Inl AssertFail"
| "dims_text t (Suc n) sub count =
     bindR (assertR (slevel sub = count)) (\<lambda>_.
     bindR (case finddepend t (sid sub) of None \<Rightarrow> Inr [] | Some sub' \<Rightarrow> dims_text t n sub' (count - 1)) (\<lambda>rest.
       Inr (print_x (sidxtag sub) @ '':'' @ print_x (slength sub) @ '' '' @ rest)))"

definition insert_dbgsymbol :: "cstate \<Rightarrow> symtabs \<Rightarrow> symbol \<Rightarrow> lists \<Rightarrow> lists result" where
  "insert_dbgsymbol s t sy l =
     (if debug_strings_on s
      then bindR (funcdisplayname (tagname_tab s) (sname sy)) (\<lambda>symname.
           bindR (if length symname < 2 * sNAMEMAX + 16 then Inr () else Inl BufferOverflow) (\<lambda>_.
           bindR (if sident sy = iARRAY \<or> sident sy = iREFARRAY
                  then bindR (dims_text t (length (glbtab t) + length (loctab t) + 1) sy (slevel sy)) (\<lambda>dims.
                         Inr ('' [ '' @ dims @ '']''))
                  else Inr []) (\<lambda>dims.
             let str = ''S:'' @ print_08x (saddr sy) @ '' '' @ print_x (stag sy) @ '':'' @ symname @ '' ''
                   @ (if sident sy = iFUNCTN
                      then print_08x (saddr sy) @ '' '' @ print_08x (scodeaddr sy)
                      else print_08x (scodeaddr sy) @ '' '' @ print_08x (code_idx s))
                   @ '' '' @ hex_of (ident_code (sident sy)) @ '' '' @ hex_of (vclass_code (svclass sy)) @ dims
             in if length str < 2 * sNAMEMAX + 128
                then Inr (l\<lparr>dbgstrings := insert_string (dbgstrings l) str\<rparr>)
                else Inl BufferOverflow)))
      else Inr l)"

definition get_dbgstring :: "lists \<Rightarrow> int \<Rightarrow> string option" where
  "get_dbgstring l index = get_string (dbgstrings l) index"

definition delete_dbgstringtable :: "lists \<Rightarrow> lists" where
  "delete_dbgstringtable l = l\<lparr>dbgstrings := delete_stringtable (dbgstrings l)\<rparr>"

section \<open>Searching a sorted table\<close>

definition pair_ok :: "stringpair \<Rightarrow> bool" where
  "pair_ok p \<longleftrightarrow> sp_first p \<noteq> [] \<and> code_of (hd (sp_first p)) < 128 \<and> 0 < matchlength p"

definition pairs_sorted :: "stringpair list \<Rightarrow> bool" where
  "pairs_sorted = sorted_wrt (\<lambda>p q. strcmp (sp_first p) (sp_first q) \<le> 0)"

definition pair_table :: "stringpair list \<Rightarrow> bool" where
  "pair_table ps \<longleftrightarrow> list_all pair_ok ps \<and> pairs_sorted ps"

definition pair_matches :: "string \<Rightarrow> nat \<Rightarrow> stringpair \<Rightarrow> bool" where
  "pair_matches nm n p \<longleftrightarrow> matchlength p = n \<and> take n (sp_first p) = take n nm"

lemma strcmp_take: "strcmp a b \<le> 0 \<Longrightarrow> strcmp (take n a) (take n b) \<le> 0"
proof (induction a b arbitrary: n rule: strcmp.induct)
  case (4 a as b bs)
  then show ?case by (cases n) (auto split: if_splits)
next
  case (2 b bs)
  then show ?case by (cases n) auto
qed auto

lemma strcmp_hd: "strcmp a b \<le> 0 \<Longrightarrow> a \<noteq> [] \<Longrightarrow> b \<noteq> [] \<Longrightarrow> code_of (hd a) \<le> code_of (hd b)"
  by (cases a; cases b) (auto split: if_splits)

lemma take_differs: "a \<noteq> [] \<Longrightarrow> 0 < n \<Longrightarrow> first_byte b \<noteq> hd a \<Longrightarrow> take n a \<noteq> take n b"
  by (cases a; cases b; cases n) (auto simp: first_byte_def)

lemma char_int_ascii: "code_of c < 128 \<Longrightarrow> char_int c = int (code_of c)"
  by (simp add: char_int_def)

lemma char_int_eq: "char_int c = char_int d \<longleftrightarrow> c = d"
  using code_of_bound [of c] code_of_bound [of d] by (auto simp: char_int_def simp flip: code_of_inj split: if_splits)

lemma char_int_le: "char_int c \<le> int (code_of c)"
  by (simp add: char_int_def)

text \<open>The search stops at the first entry past the place of the key; no later entry matches.\<close>

lemma search_sorted:
  "pair_table ps \<Longrightarrow> 0 < n \<Longrightarrow> search_stringpair ps nm n = find (pair_matches nm n) ps"
proof (induction ps)
  case (Cons p ps)
  have p: "pair_ok p" and ps: "pair_table ps" and le: "\<forall>q \<in> set ps. strcmp (sp_first p) (sp_first q) \<le> 0 \<and> pair_ok q"
    using Cons.prems(1) by (auto simp: pair_table_def pairs_sorted_def list_all_iff)
  note ih = Cons.IH [OF ps Cons.prems(2)]
  have fp: "sp_first p \<noteq> []" "first_byte (sp_first p) = hd (sp_first p)"
    using p by (auto simp: pair_ok_def first_byte_def)
  let ?r = "char_int (first_byte (sp_first p)) - char_int (first_byte nm)"
  let ?m = "strncmp (sp_first p) nm n"
  show ?case
  proof (cases "?r = 0")
    case True
    show ?thesis
    proof (cases "n = matchlength p \<and> 0 < ?m")
      case later: True
      have "\<not> pair_matches nm n q" if "q \<in> set (p # ps)" for q
      proof -
        have "strcmp (sp_first p) (sp_first q) \<le> 0" using le that by auto
        then have "strcmp (take n (sp_first p)) (take n (sp_first q)) \<le> 0" by (rule strcmp_take)
        moreover have "strcmp (take n nm) (take n (sp_first p)) < 0"
          unfolding strcmp_antisym [where b = "take n nm"] using conjunct2 [OF later] by (simp only: strncmp_def neg_less_0_iff_less)
        ultimately have "take n (sp_first q) \<noteq> take n nm"
          using strcmp_less_trans [of "take n nm" "take n (sp_first p)" "take n (sp_first q)"]
          by (auto simp: order.order_iff_strict)
        then show ?thesis by (simp add: pair_matches_def)
      qed
      then have "find (pair_matches nm n) (p # ps) = None" by (auto simp: find_None_iff)
      then show ?thesis using conjunct1 [OF later] conjunct2 [OF later] True by (simp add: Let_def)
    next
      case False
      then show ?thesis using ih True by (auto simp: Let_def pair_matches_def strncmp_def)
    qed
  next
    case False
    then have "hd (sp_first p) \<noteq> first_byte nm" using fp by (auto simp: char_int_eq)
    then have np: "\<not> pair_matches nm n p"
      using take_differs [OF fp(1) Cons.prems(2), of nm] by (auto simp: pair_matches_def)
    show ?thesis
    proof (cases "?r \<le> 0")
      case True
      then show ?thesis using ih np False by (auto simp: Let_def)
    next
      case gt: False
      have "\<not> pair_matches nm n q" if q: "q \<in> set ps" for q
      proof -
        have q1: "sp_first q \<noteq> []" "code_of (hd (sp_first q)) < 128" using le q by (auto simp: pair_ok_def)
        have "code_of (hd (sp_first p)) \<le> code_of (hd (sp_first q))"
          using strcmp_hd [of "sp_first p" "sp_first q"] le q fp(1) q1(1) by auto
        then have "char_int (hd (sp_first q)) > char_int (first_byte nm)"
          using gt p q1(2) by (simp add: fp char_int_ascii pair_ok_def)
        then have "first_byte nm \<noteq> hd (sp_first q)" by auto
        from take_differs [OF q1(1) Cons.prems(2) this] show ?thesis by (auto simp: pair_matches_def)
      qed
      then have "find (pair_matches nm n) (p # ps) = None" using np by (auto simp: find_None_iff)
      then show ?thesis using gt by (simp add: Let_def)
    qed
  qed
qed simp

lemma insert_sorted_pair:
  assumes "pairs_sorted ps"
  shows "pairs_sorted (insert_stringpair p ps)"
  using assms
proof (induction ps)
  case (Cons q ps)
  have s: "pairs_sorted ps" "\<forall>r \<in> set ps. strcmp (sp_first q) (sp_first r) \<le> 0"
    using Cons.prems by (auto simp: pairs_sorted_def)
  show ?case
  proof (cases "strcmp (sp_first q) (sp_first p) < 0")
    case True
    then show ?thesis using Cons.IH [OF s(1)] s(2)
      by (auto simp: insert_stringpair_def pairs_sorted_def dest: set_takeWhileD set_dropWhileD)
  next
    case False
    then have "strcmp (sp_first p) (sp_first q) \<le> 0" using strcmp_antisym [of "sp_first p"] by simp
    then have "\<forall>r \<in> set ps. strcmp (sp_first p) (sp_first r) \<le> 0" using s(2) strcmp_le_trans by blast
    then show ?thesis using False Cons.prems \<open>strcmp (sp_first p) (sp_first q) \<le> 0\<close>
      by (simp add: insert_stringpair_def pairs_sorted_def)
  qed
qed (simp add: insert_stringpair_def pairs_sorted_def)

lemma set_insert_stringpair: "set (insert_stringpair p ps) = insert p (set ps)"
  unfolding insert_stringpair_def by (metis (no_types, lifting) Un_insert_right list.simps(15) set_append takeWhile_dropWhile_id)

lemma pair_table_insert: "pair_table ps \<Longrightarrow> pair_ok p \<Longrightarrow> pair_table (insert_stringpair p ps)"
  by (auto simp: pair_table_def insert_sorted_pair list_all_iff set_insert_stringpair)

section \<open>The quick index\<close>

definition subst_ok :: "lists \<Rightarrow> bool" where
  "subst_ok l \<longleftrightarrow> pair_table (substpair l) \<and> distinct (map sp_addr (substpair l))
     \<and> (\<forall>p \<in> set (substpair l). sp_addr p < next_addr l \<and> macro_start (hd (sp_first p)))
     \<and> (\<forall>c. macro_start c \<longrightarrow> substindex l c = first_with c (substpair l))"

lemma macro_start_ascii: "macro_start c \<Longrightarrow> code_of c < 128"
  by (auto simp: macro_start_def isalpha_def isupper_def islower_def code_of_def)

lemma first_with_split:
  assumes "first_with c ps = Some a" and "distinct (map sp_addr ps)"
  obtains before p after where "ps = before @ p # after" and "sp_addr p = a"
    and "first_byte (sp_first p) = c" and "\<forall>q \<in> set before. first_byte (sp_first q) \<noteq> c"
    and "dropWhile (\<lambda>q. sp_addr q \<noteq> a) ps = p # after"
proof -
  obtain p where f: "find (\<lambda>p. first_byte (sp_first p) = c) ps = Some p" "sp_addr p = a"
    using assms(1) by (auto simp: first_with_def)
  obtain i where i: "i < length ps" "first_byte (sp_first (ps ! i)) = c" "p = ps ! i"
      "\<forall>j < i. first_byte (sp_first (ps ! j)) \<noteq> c"
    using f(1) by (auto simp: find_Some_iff)
  have ps: "ps = take i ps @ p # drop (Suc i) ps" using i by (simp add: id_take_nth_drop)
  have "\<forall>q \<in> set (take i ps). sp_addr q \<noteq> a"
    using assms(2) f(2) by (subst (asm) ps) (auto simp: image_iff)
  then have "dropWhile (\<lambda>q. sp_addr q \<noteq> a) (take i ps @ p # drop (Suc i) ps) = p # drop (Suc i) ps"
    using f(2) by (simp add: dropWhile_append)
  then have d: "dropWhile (\<lambda>q. sp_addr q \<noteq> a) ps = p # drop (Suc i) ps" using ps by simp
  have "\<forall>q \<in> set (take i ps). first_byte (sp_first q) \<noteq> c" using i by (auto simp: in_set_conv_nth)
  with that [OF ps f(2) _ _ d] i show ?thesis by simp
qed

lemma pair_table_append: "pair_table (xs @ ys) \<Longrightarrow> pair_table ys"
  by (auto simp: pair_table_def pairs_sorted_def sorted_wrt_append)

lemma find_append_none: "\<forall>x \<in> set xs. \<not> P x \<Longrightarrow> find P (xs @ ys) = find P ys"
  by (induction xs) auto

text \<open>Searching through the index is searching the whole table.\<close>

lemma find_subst_full:
  assumes ok: "subst_ok l" and n: "0 < n" and c: "macro_start (first_byte nm)"
  shows "find_subst l nm n = Inr (find (pair_matches nm n) (substpair l))"
proof -
  let ?c = "first_byte nm"
  have tab: "pair_table (substpair l)" and dist: "distinct (map sp_addr (substpair l))"
    and ix: "substindex l ?c = first_with ?c (substpair l)" using ok c by (auto simp: subst_ok_def)
  have fb: "first_byte (sp_first p) = hd (sp_first p)" "sp_first p \<noteq> []" if "p \<in> set (substpair l)" for p
    using tab that by (auto simp: pair_table_def list_all_iff pair_ok_def first_byte_def)
  have nomatch: "\<not> pair_matches nm n p" if "p \<in> set (substpair l)" "first_byte (sp_first p) \<noteq> ?c" for p
    using take_differs [OF fb(2) [OF that(1)] n, of nm] fb(1) [OF that(1)] that(2) by (auto simp: pair_matches_def)
  show ?thesis
  proof (cases "first_with ?c (substpair l)")
    case None
    then have "\<forall>p \<in> set (substpair l). first_byte (sp_first p) \<noteq> ?c"
      by (auto simp: first_with_def find_None_iff)
    then have "find (pair_matches nm n) (substpair l) = None" using nomatch by (auto simp: find_None_iff)
    then show ?thesis using n c None ix by (simp add: find_subst_def find_from_def)
  next
    case (Some a)
    obtain before p after where s: "substpair l = before @ p # after" "sp_addr p = a"
      "\<forall>q \<in> set before. first_byte (sp_first q) \<noteq> ?c" "dropWhile (\<lambda>q. sp_addr q \<noteq> a) (substpair l) = p # after"
      using first_with_split [OF Some dist] by metis
    have "find (pair_matches nm n) (substpair l) = find (pair_matches nm n) (p # after)"
      using s(1,3) nomatch by (simp add: find_append_none)
    moreover have "pair_table (p # after)" using tab s(1) pair_table_append by metis
    ultimately show ?thesis
      using n c Some ix s by (simp add: find_subst_def find_from_def find_stringpair_def search_sorted del: search_stringpair.simps find.simps)
  qed
qed

lemma find_insert_other: "\<not> P p \<Longrightarrow> find P (insert_stringpair p ps) = find P ps"
proof -
  assume np: "\<not> P p"
  have "find P (xs @ p # ys) = find P (xs @ ys)" for xs ys
    using np by (induction xs) auto
  then show ?thesis unfolding insert_stringpair_def by (metis takeWhile_dropWhile_id)
qed

lemma distinct_insert_stringpair:
  "distinct (map sp_addr (insert_stringpair p ps)) \<longleftrightarrow> sp_addr p \<notin> sp_addr ` set ps \<and> distinct (map sp_addr ps)"
proof -
  have "distinct (map sp_addr (xs @ p # ys)) \<longleftrightarrow>
      sp_addr p \<notin> sp_addr ` set (xs @ ys) \<and> distinct (map sp_addr (xs @ ys))" for xs ys
    by auto
  then show ?thesis unfolding insert_stringpair_def by (simp only: takeWhile_dropWhile_id)
qed

lemma insert_subst_ok:
  assumes ok: "subst_ok l" and pat: "pattern \<noteq> []" "macro_start (hd pattern)" and n: "0 < n"
  shows "\<exists>l'. insert_subst pattern substitution n l = Inr l' \<and> subst_ok l'
    \<and> substpair l' = insert_stringpair (new_pair l pattern substitution n) (substpair l)"
proof -
  let ?p = "new_pair l pattern substitution n"
  have p: "pair_ok ?p" "first_byte (sp_first ?p) = hd pattern" "sp_addr ?p = next_addr l"
    using pat n by (auto simp: new_pair_def pair_ok_def first_byte_def macro_start_ascii)
  have "first_with c (insert_stringpair ?p (substpair l)) = first_with c (substpair l)" if "c \<noteq> hd pattern" for c
    using that p(2) by (simp add: first_with_def find_insert_other)
  moreover have "distinct (map sp_addr (insert_stringpair ?p (substpair l)))"
  proof -
    have "next_addr l \<notin> sp_addr ` set (substpair l)" using ok by (auto simp: subst_ok_def)
    then show ?thesis using ok p(3) by (simp add: distinct_insert_stringpair subst_ok_def)
  qed
  ultimately show ?thesis
    using ok p pat by (auto simp: insert_subst_def adjustindex_def subst_ok_def pair_table_insert set_insert_stringpair
        new_pair_def first_byte_def less_SucI)
qed

lemma delete_stringpair_filter:
  "distinct (map sp_addr ps) \<Longrightarrow>
   delete_stringpair ps a = (a \<in> sp_addr ` set ps, filter (\<lambda>p. sp_addr p \<noteq> a) ps)"
proof (induction ps)
  case (Cons p ps)
  then show ?case by (auto simp: image_iff intro!: filter_True [symmetric])
qed simp

lemma first_with_filter:
  "first_byte (sp_first p) \<noteq> c \<Longrightarrow> p \<in> set ps \<Longrightarrow> distinct (map sp_addr ps) \<Longrightarrow>
   first_with c (filter (\<lambda>q. sp_addr q \<noteq> sp_addr p) ps) = first_with c ps"
proof -
  assume a: "first_byte (sp_first p) \<noteq> c" "p \<in> set ps" "distinct (map sp_addr ps)"
  have "find P (filter Q qs) = find P qs" if "\<forall>q \<in> set qs. P q \<longrightarrow> Q q" for P Q and qs :: "stringpair list"
    using that by (induction qs) auto
  moreover have "\<forall>q \<in> set ps. first_byte (sp_first q) = c \<longrightarrow> sp_addr q \<noteq> sp_addr p"
  proof -
    have "inj_on sp_addr (set ps)" using a(3) by (simp add: distinct_map)
    then show ?thesis using a(1,2) by (auto simp: inj_on_def)
  qed
  ultimately have "find (\<lambda>q. first_byte (sp_first q) = c) (filter (\<lambda>q. sp_addr q \<noteq> sp_addr p) ps)
      = find (\<lambda>q. first_byte (sp_first q) = c) ps" by simp
  then show ?thesis by (simp add: first_with_def)
qed

lemma delete_subst_ok:
  assumes ok: "subst_ok l" and n: "0 < n" and c: "macro_start (first_byte nm)"
  shows "\<exists>l'. delete_subst nm n l = Inr (find (pair_matches nm n) (substpair l) \<noteq> None, l') \<and> subst_ok l'
    \<and> substpair l' = (case find (pair_matches nm n) (substpair l) of None \<Rightarrow> substpair l
        | Some p \<Rightarrow> filter (\<lambda>q. q \<noteq> p) (substpair l))"
proof (cases "find (pair_matches nm n) (substpair l)")
  case None
  then show ?thesis using find_subst_full [OF ok n c] ok by (simp add: delete_subst_def)
next
  case (Some p)
  have p: "p \<in> set (substpair l)" "pair_matches nm n p" using Some by (auto simp: find_Some_iff)
  have d: "distinct (map sp_addr (substpair l))" using ok by (simp add: subst_ok_def)
  let ?ps = "filter (\<lambda>q. sp_addr q \<noteq> sp_addr p) (substpair l)"
  have eq: "?ps = filter (\<lambda>q. q \<noteq> p) (substpair l)"
    using d p(1) by (intro filter_cong) (auto simp: distinct_map inj_on_def)
  have "pair_ok p" using ok p(1) by (simp add: subst_ok_def pair_table_def list_all_iff)
  then have ne: "sp_first p \<noteq> []" by (simp add: pair_ok_def)
  have "first_byte nm = hd (sp_first p)"
    using take_differs [OF ne n, of nm] p(2) by (auto simp: pair_matches_def)
  then have fb: "first_byte (sp_first p) = first_byte nm" using ne by (simp add: first_byte_def [of "sp_first p"])
  have "pair_table ?ps" using ok by (auto simp: subst_ok_def pair_table_def list_all_iff pairs_sorted_def sorted_wrt_filter)
  then have "subst_ok (l\<lparr>substpair := ?ps, substindex := (substindex l)(first_byte nm := first_with (first_byte nm) ?ps)\<rparr>)"
    using ok first_with_filter [OF _ p(1) d] fb d by (auto simp: subst_ok_def distinct_map_filter)
  then show ?thesis
    using find_subst_full [OF ok n c] Some c delete_stringpair_filter [OF d]
    by (simp add: delete_subst_def adjustindex_def eq)
qed

section \<open>The alias table\<close>

definition alias_ok :: "lists \<Rightarrow> bool" where
  "alias_ok l \<longleftrightarrow> pair_table (alias_tab l)
     \<and> (\<forall>p \<in> set (alias_tab l). matchlength p = length (sp_first p) \<and> length (sp_second p) \<le> sNAMEMAX)"

definition alias_fits :: "string \<Rightarrow> string \<Rightarrow> bool" where
  "alias_fits nm alias \<longleftrightarrow> nm \<noteq> [] \<and> code_of (hd nm) < 128 \<and> length nm \<le> sNAMEMAX \<and> length alias \<le> sNAMEMAX"

definition add_alias :: "string \<Rightarrow> string \<Rightarrow> lists \<Rightarrow> lists" where
  "add_alias nm alias l = (case insert_alias nm alias l of Inl e \<Rightarrow> l | Inr l' \<Rightarrow> l')"

definition alias_of :: "lists \<Rightarrow> string \<Rightarrow> string option" where
  "alias_of l nm = (case lookup_alias l nm of Inl e \<Rightarrow> None | Inr r \<Rightarrow> r)"

lemma lookup_alias_find:
  assumes "alias_ok l" and "nm \<noteq> []"
  shows "lookup_alias l nm = Inr (map_option sp_second (find (\<lambda>p. sp_first p = nm) (alias_tab l)))"
proof -
  have "find (pair_matches nm (length nm)) (alias_tab l) = find (\<lambda>p. sp_first p = nm) (alias_tab l)"
    using assms(1) by (intro find_cong) (auto simp: alias_ok_def pair_matches_def)
  moreover have "length (sp_second p) \<le> sNAMEMAX" if "find (\<lambda>p. sp_first p = nm) (alias_tab l) = Some p" for p
    using assms(1) that by (auto simp: alias_ok_def find_Some_iff)
  ultimately show ?thesis
    using assms by (auto simp: lookup_alias_def find_stringpair_def alias_ok_def search_sorted split: option.splits)
qed

lemma alias_of_find:
  "alias_ok l \<Longrightarrow> alias_of l nm = map_option sp_second (find (\<lambda>p. sp_first p = nm) (alias_tab l))"
proof (cases "nm = []")
  case True
  assume "alias_ok l"
  then have "find (\<lambda>p. sp_first p = []) (alias_tab l) = None"
    by (auto simp: find_None_iff alias_ok_def pair_table_def list_all_iff pair_ok_def)
  with True show ?thesis by (simp add: alias_of_def lookup_alias_def find_stringpair_def)
qed (simp add: alias_of_def lookup_alias_find)

lemma add_alias_eq:
  "alias_fits nm al \<Longrightarrow> alias_tab (add_alias nm al l) = insert_stringpair (new_pair l nm al (length nm)) (alias_tab l)"
  by (simp add: add_alias_def insert_alias_def alias_fits_def)

lemma alias_ok_insert: "alias_ok l \<Longrightarrow> alias_fits nm al \<Longrightarrow> alias_ok (add_alias nm al l)"
  by (auto simp: alias_ok_def add_alias_eq set_insert_stringpair alias_fits_def new_pair_def pair_ok_def
      intro!: pair_table_insert)

interpretation aliases: keyed_table alias_ok alias_fits add_alias alias_of
proof unfold_locales
  fix t k v k'
  assume a: "alias_ok t" "alias_fits k v" "alias_of t k = None"
  let ?p = "new_pair t k v (length k)"
  have p: "sp_first ?p = k" "sp_second ?p = v" by (simp_all add: new_pair_def)
  show "alias_of (add_alias k v t) k' = (if k' = k then Some v else alias_of t k')"
  proof (cases "k' = k")
    case True
    have none: "find (\<lambda>p. sp_first p = k) (alias_tab t) = None" using a alias_of_find [OF a(1)] by simp
    have "find P (xs @ ?p # ys) = Some ?p" if "P ?p" "find P (xs @ ys) = None" for P xs ys
      using that by (induction xs) (auto split: if_splits)
    then have "find (\<lambda>p. sp_first p = k) (insert_stringpair ?p (alias_tab t)) = Some ?p"
      unfolding insert_stringpair_def using p(1) none by (metis (mono_tags, lifting) takeWhile_dropWhile_id)
    then show ?thesis using True a by (simp add: alias_of_find alias_ok_insert add_alias_eq p)
  next
    case False
    then show ?thesis using a p by (simp add: alias_of_find alias_ok_insert add_alias_eq find_insert_other)
  qed
qed (rule alias_ok_insert)

section \<open>Properties\<close>

text \<open>\<open>find_subst\<close>: a macro search that starts at the pointer of the quick index and stops early
  in the sorted list finds exactly what a search of the whole table finds: the first macro with
  this prefix length whose pattern begins with the prefix. It never follows a stale pointer.\<close>
theorem find_subst_searches_whole_table:
  assumes "subst_ok l" and "0 < n" and "macro_start (first_byte nm)"
  shows "find_subst l nm n = Inr (find (pair_matches nm n) (substpair l))"
  by (rule find_subst_full [OF assms])

definition two_macros :: "lists result" where
  "two_macros =
     bindR (insert_subst ''max(%1)'' ''x'' 3 \<lparr>alias_tab = [], includepaths = [], substpair = [],
        substindex = (\<lambda>_. None), sourcefiles = [], docstrings = [], autolist = [], dbgstrings = [], next_addr = 0\<rparr>)
       (insert_subst ''main'' ''y'' 4)"

lemma empty_lists_ok:
  "subst_ok \<lparr>alias_tab = [], includepaths = [], substpair = [], substindex = (\<lambda>_. None), sourcefiles = [],
     docstrings = [], autolist = [], dbgstrings = [], next_addr = 0\<rparr>"
  by (simp add: subst_ok_def pair_table_def pairs_sorted_def first_with_def)

theorem find_subst_searches_whole_table_witness:
  "\<exists>l. two_macros = Inr l \<and> find_subst l ''max(1, 2)'' 3 = Inr (find (pair_matches ''max(1, 2)'' 3) (substpair l))"
proof -
  have m: "macro_start CHR ''m''" by code_simp
  obtain l1 where l1: "insert_subst ''max(%1)'' ''x'' 3 \<lparr>alias_tab = [], includepaths = [], substpair = [],
        substindex = (\<lambda>_. None), sourcefiles = [], docstrings = [], autolist = [], dbgstrings = [], next_addr = 0\<rparr> = Inr l1"
      "subst_ok l1"
    using insert_subst_ok [OF empty_lists_ok, of "''max(%1)''" 3] m by auto
  obtain l where l: "insert_subst ''main'' ''y'' 4 l1 = Inr l" "subst_ok l"
    using insert_subst_ok [OF l1(2), of "''main''" 4] m by auto
  show ?thesis
    using find_subst_searches_whole_table [OF l(2), of 3 "''max(1, 2)''"] l(1) l1(1) m
    by (simp add: two_macros_def first_byte_def)
qed

text \<open>C25 (the macro table): defining a macro inserts it at its place in the order, undefining removes
  exactly the macro that the search finds and reports whether there was one; both keep the table
  sorted and every pointer of the quick index on the first macro with its character.\<close>
theorem macro_table_keeps_quick_index:
  assumes "subst_ok l" and "0 < n" and "macro_start (first_byte nm)" and "nm \<noteq> []"
  shows "\<exists>l1 l2. insert_subst nm substitution n l = Inr l1 \<and> subst_ok l1
       \<and> substpair l1 = insert_stringpair (new_pair l nm substitution n) (substpair l)
     \<and> delete_subst nm n l = Inr (find (pair_matches nm n) (substpair l) \<noteq> None, l2) \<and> subst_ok l2
       \<and> substpair l2 = (case find (pair_matches nm n) (substpair l) of None \<Rightarrow> substpair l
            | Some p \<Rightarrow> filter (\<lambda>q. q \<noteq> p) (substpair l))"
  using insert_subst_ok [OF assms(1,4) _ assms(2), of substitution] delete_subst_ok [OF assms(1-3)] assms(3,4)
  by (auto simp: first_byte_def)

theorem macro_table_keeps_quick_index_witness:
  "\<exists>l1. insert_subst ''max(%1)'' ''x'' 3 \<lparr>alias_tab = [], includepaths = [], substpair = [],
        substindex = (\<lambda>_. None), sourcefiles = [], docstrings = [], autolist = [], dbgstrings = [], next_addr = 0\<rparr> = Inr l1
     \<and> subst_ok l1 \<and> length (substpair l1) = 1"
proof -
  have "macro_start (first_byte ''max(%1)'')" by code_simp
  then show ?thesis
    using macro_table_keeps_quick_index [OF empty_lists_ok, of 3 "''max(%1)''" "''x''"]
    by (auto simp: insert_stringpair_def)
qed

text \<open>names that start with the public character: the lexer accepts a symbol name that starts
  with an at sign, and \<open>#undef\<close> and \<open>defined\<close> pass every symbol name on to the macro table, whose
  assertions and quick index only cover letters and the underscore: the compiler is stopped.\<close>
theorem public_names_stop_macro_search:
  "alpha CHR ''@''
   \<and> find_subst l (CHR ''@'' # nm) (Suc (length nm)) = Inl AssertFail
   \<and> delete_subst (CHR ''@'' # nm) (Suc (length nm)) l = Inl AssertFail"
proof -
  have "alpha CHR ''@''" "\<not> macro_start CHR ''@''" by code_simp+
  then show ?thesis by (simp add: find_subst_def delete_subst_def first_byte_def)
qed

text \<open>the alias table: after any number of distinct aliases have been inserted, in any order,
  each name is replaced by its own alias and every other name by what it had before.\<close>
theorem alias_lookup_after_insertions:
  assumes "alias_ok l" and "\<forall>(nm, al) \<in> set als. alias_fits nm al \<and> alias_of l nm = None"
    and "distinct (map fst als)"
  shows "alias_of (aliases.ins_all als l) nm = (case map_of als nm of Some al \<Rightarrow> Some al | None \<Rightarrow> alias_of l nm)"
  using aliases.ins_all_lookup [OF assms] by simp

theorem alias_lookup_after_insertions_witness:
  "alias_of (aliases.ins_all [(''foo'', ''bar''), (''baz'', ''qux'')] \<lparr>alias_tab = [], includepaths = [], substpair = [],
     substindex = (\<lambda>_. None), sourcefiles = [], docstrings = [], autolist = [], dbgstrings = [], next_addr = 0\<rparr>) ''foo'' = Some ''bar''"
proof -
  let ?l = "\<lparr>alias_tab = [], includepaths = [], substpair = [], substindex = (\<lambda>_. None), sourcefiles = [],
     docstrings = [], autolist = [], dbgstrings = [], next_addr = 0\<rparr>"
  have "alias_ok ?l" by (simp add: alias_ok_def pair_table_def pairs_sorted_def)
  moreover have "alias_of ?l nm = None" for nm
    using alias_of_find [OF calculation] by simp
  ultimately show ?thesis
    using alias_lookup_after_insertions [of ?l "[(''foo'', ''bar''), (''baz'', ''qux'')]" "''foo''"]
    by (simp add: alias_fits_def sNAMEMAX_def code_of_def)
qed

end
