(* ===== verification/ScMacro.thy ===== *)
theory ScMacro
  imports ScTokens ScList
begin

text \<open>
  The macros of the preprocessor (sc2.c): \<open>substallpatterns\<close> looks for the macros in a line and
  \<open>substpattern\<close> matches and replaces one. A pointer into the line is the rest of the line from there. The
  theory shows what the macros without parameters do, that a macro whose text starts with its own name is
  replaced for ever, and when the line stays in its buffer.
\<close>

section \<open>Strings and groups\<close>

definition white :: "char \<Rightarrow> bool" where "white c \<longleftrightarrow> code_of c \<le> 32"

definition word_char :: "char \<Rightarrow> bool" where "word_char c \<longleftrightarrow> isalpha c \<or> isdigit c \<or> c = CHR ''_''"

definition is_quote :: "char \<Rightarrow> bool" where "is_quote c \<longleftrightarrow> c = CHR 0x22 \<or> c = CHR 0x27"

definition is_startstring :: "lexenv \<Rightarrow> string \<Rightarrow> bool" where
  "is_startstring env s \<longleftrightarrow>
     (let ctrl = sc_ctrlchar env; c = char_at s 0; d = char_at s 1; e = char_at s 2
      in is_quote c
         \<or> (if c = CHR ''!'' then is_quote d \<or> (d = ctrl \<and> is_quote e)
            else c = ctrl \<and> (is_quote d \<or> (d = CHR ''!'' \<and> is_quote e))))"

text \<open>From the open quote to the closing one, or to the end of the line.\<close>

function quote_end :: "lexenv \<Rightarrow> bool \<Rightarrow> char \<Rightarrow> string \<Rightarrow> (string \<times> nat list) result" where
  "quote_end env raw q s =
     (if s = [] \<or> hd s = q then Inr (s, [])
      else case litchar env raw False s of Inl e \<Rightarrow> Inl e
         | Inr (v, r, es) \<Rightarrow> bindR (quote_end env raw q r) (\<lambda>(t, es'). Inr (t, es @ es')))"
  by pat_completeness auto
termination by (relation "measure (\<lambda>(env, raw, q, s). length s)") (auto dest: litchar_shorter)

declare quote_end.simps [simp del]

definition skipstring :: "lexenv \<Rightarrow> string \<Rightarrow> (string \<times> nat list) result" where
  "skipstring env s =
     (let pre = (\<lambda>c. c = CHR ''!'' \<or> c = sc_ctrlchar env); t = dropWhile pre s
      in bindR (assertR (is_quote (char_at t 0))) (\<lambda>_.
           quote_end env (list_ex (\<lambda>c. c = sc_ctrlchar env) (takeWhile pre s)) (hd t) (tl t)))"

lemma quote_end_length: "quote_end env raw q s = Inr (t, es) \<Longrightarrow> length t \<le> length s"
proof (induction env raw q s arbitrary: t es rule: quote_end.induct)
  case (1 env raw q s)
  show ?case
  proof (cases "s = [] \<or> hd s = q")
    case True
    then show ?thesis using "1.prems" by (subst (asm) quote_end.simps) auto
  next
    case False
    then have "(case litchar env raw False s of Inl e \<Rightarrow> Inl e
        | Inr (v, r, es) \<Rightarrow> bindR (quote_end env raw q r) (\<lambda>(t, es'). Inr (t, es @ es'))) = Inr (t, es)"
      using "1.prems" by (subst (asm) quote_end.simps) simp
    then obtain v r es1 es2 where l: "litchar env raw False s = Inr (v, r, es1)" "quote_end env raw q r = Inr (t, es2)"
      by (auto simp: bindR_Inr_iff split: sum.splits)
    then show ?thesis using "1.IH" [OF False l(1) refl refl l(2)] litchar_shorter [OF l(1)] False by simp
  qed
qed

lemma skipstring_shorter: "skipstring env s = Inr (t, es) \<Longrightarrow> s \<noteq> [] \<and> length t < length s"
proof -
  assume a: "skipstring env s = Inr (t, es)"
  define u where "u = dropWhile (\<lambda>c. c = CHR ''!'' \<or> c = sc_ctrlchar env) s"
  have "is_quote (char_at u 0)" using a by (auto simp: skipstring_def u_def Let_def bindR_Inr_iff)
  then have "u \<noteq> []" by (auto simp: is_quote_def char_at_def)
  moreover have "length t \<le> length (tl u)"
    using a by (auto simp: skipstring_def u_def [symmetric] Let_def bindR_Inr_iff dest: quote_end_length)
  moreover have "length u \<le> length s" by (simp add: u_def length_dropWhile_le)
  ultimately show ?thesis by (cases u) auto
qed

definition closing :: "(char \<times> char) list" where
  "closing = [(CHR ''('', CHR '')''), (CHR ''{'', CHR ''}''), (CHR ''['', CHR '']''), (CHR ''<'', CHR ''>'')]"

text \<open>From behind the opening character of a group to the closing one, or to the end of the line.\<close>

function group_end :: "lexenv \<Rightarrow> char \<Rightarrow> char \<Rightarrow> nat \<Rightarrow> string \<Rightarrow> (string \<times> nat list) result" where
  "group_end env op cl nest s =
     (case s of [] \<Rightarrow> Inr ([], [])
      | c # t \<Rightarrow>
          if c = cl \<and> nest = 0 then Inr (s, [])
          else if c = op then group_end env op cl (nest + 1) t
          else if c = cl then group_end env op cl (nest - 1) t
          else if is_startstring env s then
            (case skipstring env s of Inl e \<Rightarrow> Inl e
             | Inr (r, es) \<Rightarrow> if r = [] then Inr ([], es)
                 else bindR (group_end env op cl nest (tl r)) (\<lambda>(u, es'). Inr (u, es @ es')))
          else group_end env op cl nest t)"
  by pat_completeness auto
termination
  by (relation "measure (\<lambda>(env, op, cl, nest, s). length s)") (auto dest: skipstring_shorter)

declare group_end.simps [simp del]

definition skippgroup :: "lexenv \<Rightarrow> string \<Rightarrow> (string \<times> nat list) result" where
  "skippgroup env s =
     (case map_of closing (char_at s 0) of None \<Rightarrow> Inl AssertFail
      | Some cl \<Rightarrow> group_end env (hd s) cl 0 (tl s))"

lemma group_end_length: "group_end env op cl nest s = Inr (t, es) \<Longrightarrow> length t \<le> length s"
proof (induction env op cl nest s arbitrary: t es rule: group_end.induct)
  case (1 env op cl nest s)
  show ?case
  proof (cases s)
    case Nil
    then show ?thesis using "1.prems" by (subst (asm) group_end.simps) auto
  next
    case (Cons c u)
    show ?thesis
      using "1.prems" "1.IH" [OF Cons] skipstring_shorter [of env s] Cons
      by (subst (asm) group_end.simps)
         (fastforce simp: bindR_Inr_iff split: if_splits sum.splits prod.splits)
  qed
qed

lemma skippgroup_shorter: "skippgroup env s = Inr (t, es) \<Longrightarrow> s \<noteq> [] \<and> length t < length s"
  by (cases s) (auto simp: skippgroup_def closing_def char_at_def less_Suc_eq_le dest: group_end_length split: option.splits if_splits)

section \<open>Matching a macro\<close>

text \<open>The end of a parameter: the next character of the pattern or the end of the line, outside of strings
  and groups.\<close>

function arg_end :: "lexenv \<Rightarrow> char \<Rightarrow> string \<Rightarrow> (string \<times> nat list) result" where
  "arg_end env stop s =
     (case s of [] \<Rightarrow> Inr ([], [])
      | c # t \<Rightarrow>
          if c = stop \<or> c = NL then Inr (s, [])
          else case (if is_startstring env s then skipstring env s
                     else if c \<in> {CHR ''('', CHR ''{'', CHR ''[''} then skippgroup env s
                     else Inr (s, [])) of Inl e \<Rightarrow> Inl e
             | Inr (r, es) \<Rightarrow> bindR (arg_end env stop (tl r)) (\<lambda>(u, es'). Inr (u, es @ es')))"
  by pat_completeness auto
termination
proof (relation "measure (\<lambda>(env, stop, s). length s)", goal_cases)
  case (2 env stop s c t p r es)
  then have "length r \<le> length s"
    using skipstring_shorter [of env s r es] skippgroup_shorter [of env s r es] by (auto split: if_splits)
  then show ?case using 2(1) by (cases r) auto
qed auto

declare arg_end.simps [simp del]

text \<open>The character of the pattern in front of a place in it.\<close>

definition prev_char :: "string \<Rightarrow> string \<Rightarrow> char" where
  "prev_char pattern p = char_at pattern (length pattern - length p - 1)"

text \<open>The loop over the pattern behind its prefix: whether it matched, the rest of the line, the rest of the
  pattern, and the parameters that were found. The loop also ends as a match when the line ends before the
  pattern does.\<close>

function match_rest :: "lexenv \<Rightarrow> bool \<Rightarrow> string \<Rightarrow> string \<Rightarrow> string \<Rightarrow> string option list
    \<Rightarrow> (bool \<times> string \<times> string \<times> string option list \<times> nat list) result" where
  "match_rest env semi pattern s p args =
     (if s = [] \<or> p = [] then Inr (True, s, p, args, [])
      else if hd p = CHR ''%'' then
        (case p of pc # d # p2 \<Rightarrow>
           if isdigit d then
             bindR (assertR (p2 \<noteq> [])) (\<lambda>_.
             bindR (arg_end env (char_at p2 0) s) (\<lambda>(e, es).
               let args' = args[code_of d - 48 := Some (take (length s - length e) s)];
                   go = (\<lambda>s'. bindR (match_rest env semi pattern s' (tl p2) args') (\<lambda>(m, s1, p1, a1, es1). Inr (m, s1, p1, a1, es @ es1)))
               in if e \<noteq> [] \<and> hd e = hd p2 then go (tl e)
                  else if char_at e 0 = NL \<and> p2 = '';'' \<and> \<not> semi then go e
                  else Inr (False, e, tl p2, args', es)))
           else Inr (False, s, tl p, args, [])
         | _ \<Rightarrow> Inr (False, s, tl p, args, []))
      else if p = '';'' \<and> \<not> semi then
        (let s1 = dropWhile white s in Inr (s1 = [] \<or> hd s1 = CHR '';'', s1, [], args, []))
      else
        (let s1 = (if \<not> alphanum (hd p) \<and> prev_char pattern p \<noteq> hd p then dropWhile white s else s)
         in case litchar env False False p of Inl e \<Rightarrow> Inl e
            | Inr (ch, p1, es) \<Rightarrow>
                if of_nat (code_of (char_at s1 0)) \<noteq> ch then Inr (False, s1, p1, args, es)
                else if s1 = [] then Inl BufferOverflow
                else bindR (match_rest env semi pattern (tl s1) p1 args) (\<lambda>(m, s2, p2, a, es'). Inr (m, s2, p2, a, es @ es'))))"
  by pat_completeness auto
termination
  by (relation "measure (\<lambda>(env, semi, pattern, s, p, args). length p)") (auto dest: litchar_shorter)

declare match_rest.simps [simp del]

section \<open>Replacing a macro\<close>

text \<open>The length that is computed in advance does not look at strings, the replacement leaves strings as
  they are.\<close>

fun subst_len :: "string option list \<Rightarrow> string \<Rightarrow> nat" where
  "subst_len args [] = 0"
| "subst_len args (c # t) =
     (if c = CHR ''%'' \<and> isdigit (char_at t 0) \<and> list_ex (\<lambda>a. a \<noteq> None) args then
        (case args ! (code_of (char_at t 0) - 48) of Some a \<Rightarrow> length a + subst_len args (tl t) | None \<Rightarrow> 1 + subst_len args t)
      else 1 + subst_len args t)"

function subst_text :: "lexenv \<Rightarrow> string option list \<Rightarrow> string \<Rightarrow> (string \<times> nat list) result" where
  "subst_text env args e =
     (case e of [] \<Rightarrow> Inr ([], [])
      | c # t \<Rightarrow>
          if c = CHR ''%'' \<and> isdigit (char_at t 0) \<and> args ! (code_of (char_at t 0) - 48) \<noteq> None then
            bindR (subst_text env args (tl t)) (\<lambda>(u, es). Inr (the (args ! (code_of (char_at t 0) - 48)) @ u, es))
          else if c = CHR 0x22 then
            (case skipstring env e of Inl f \<Rightarrow> Inl f
             | Inr (r, es) \<Rightarrow> bindR (assertR (r \<noteq> [])) (\<lambda>_.
                 bindR (subst_text env args (tl r)) (\<lambda>(u, es'). Inr (take (length e - length r + 1) e @ u, es @ es'))))
          else bindR (subst_text env args t) (\<lambda>(u, es). Inr (c # u, es)))"
  by pat_completeness auto
termination by (relation "measure (\<lambda>(env, args, e). length e)") (auto dest: skipstring_shorter)

declare subst_text.simps [simp del]

text \<open>The line afterwards; the buffer has room for \<open>room\<close> characters from the macro on.\<close>

definition substitute :: "lexenv \<Rightarrow> string option list \<Rightarrow> string \<Rightarrow> string \<Rightarrow> string \<Rightarrow> nat \<Rightarrow> (string \<times> nat list) result" where
  "substitute env args substitution line s room =
     (if room < length s + subst_len args substitution then Inr (line, [75])
      else bindR (subst_text env args substitution) (\<lambda>(u, es).
        if length u + length s \<le> room then Inr (u @ s, es) else Inl BufferOverflow))"

definition substpattern :: "lexenv \<Rightarrow> bool \<Rightarrow> string \<Rightarrow> nat \<Rightarrow> string \<Rightarrow> string \<Rightarrow> (bool \<times> string \<times> nat list) result" where
  "substpattern env semi line room pattern substitution =
     (let n = length (takeWhile word_char pattern)
      in bindR (assertR (0 < n \<and> take n line = take n pattern)) (\<lambda>_.
         bindR (match_rest env semi pattern (drop n line) (drop n pattern) (replicate 10 None)) (\<lambda>(m, s, p, args, es).
           if m \<and> (p = [] \<longrightarrow> \<not> (alphanum (prev_char pattern []) \<and> alphanum (char_at s 0))) then
             bindR (substitute env args substitution line s room) (\<lambda>(line', es'). Inr (True, line', es @ es'))
           else Inr (False, line, es))))"

section \<open>Replacing all macros\<close>

function skip_nonalpha :: "lexenv \<Rightarrow> string \<Rightarrow> (string \<times> nat list) result" where
  "skip_nonalpha env s =
     (case s of [] \<Rightarrow> Inr ([], [])
      | c # t \<Rightarrow>
          if isalpha c \<or> c = CHR ''_'' then Inr (s, [])
          else if is_startstring env s then
            (case skipstring env s of Inl e \<Rightarrow> Inl e
             | Inr (r, es) \<Rightarrow> if r = [] then Inr ([], es)
                 else bindR (skip_nonalpha env (tl r)) (\<lambda>(u, es'). Inr (u, es @ es')))
          else skip_nonalpha env t)"
  by pat_completeness auto
termination by (relation "measure (\<lambda>(env, s). length s)") (auto dest: skipstring_shorter)

declare skip_nonalpha.simps [simp del]

definition skip_defined :: "string \<Rightarrow> string" where
  "skip_defined s = dropWhile word_char (dropWhile (\<lambda>c. white c \<or> c = CHR ''('') (drop 7 s))"

definition emitted :: "string \<Rightarrow> nat list \<Rightarrow> (string \<times> nat list) result option \<Rightarrow> (string \<times> nat list) result option" where
  "emitted t es = map_option (\<lambda>r. bindR r (\<lambda>(u, es'). Inr (t @ u, es @ es')))"

text \<open>The loop from \<open>start\<close> on, with the room that the buffer has from there. The first argument bounds the
  number of turns: None when it is used up.\<close>

fun substallpatterns :: "lexenv \<Rightarrow> bool \<Rightarrow> lists \<Rightarrow> nat \<Rightarrow> nat \<Rightarrow> string \<Rightarrow> (string \<times> nat list) result option" where
  "substallpatterns env semi l 0 room start = None"
| "substallpatterns env semi l (Suc n) room start =
     (case skip_nonalpha env start of
        Inl e \<Rightarrow> Some (Inl e)
      | Inr (s, es) \<Rightarrow>
          let skipped = take (length start - length s) start; room1 = room - length skipped;
              go = (\<lambda>done es1 s'. emitted (skipped @ done) (es @ es1) (substallpatterns env semi l n (room1 - length done) s'))
          in if s = [] then Some (Inr (start, es))
             else if take 7 s = ''defined'' \<and> \<not> isalpha (char_at s 7) then
               go (take (length s - length (skip_defined s)) s) [] (skip_defined s)
             else let word = takeWhile word_char s; behind = dropWhile word_char s
               in case find_subst l s (length word) of
                    Inl e \<Rightarrow> Some (Inl e)
                  | Inr None \<Rightarrow> go word [] behind
                  | Inr (Some sp) \<Rightarrow>
                      (case substpattern env semi s room1 (sp_first sp) (sp_second sp) of
                         Inl e \<Rightarrow> Some (Inl e)
                       | Inr (m, s', es1) \<Rightarrow> if m then go [] es1 s' else go word es1 behind))"

lemma emitted_simps [simp]:
  "emitted t es None = None" "emitted t es (Some (Inl e)) = Some (Inl e)"
  "emitted t es (Some (Inr (u, es'))) = Some (Inr (t @ u, es @ es'))"
  by (simp_all add: emitted_def)

lemma emitted_emitted [simp]: "emitted t es (emitted u es' r) = emitted (t @ u) (es @ es') r"
  by (cases r rule: option.exhaust; cases "the r") (auto simp: emitted_def)

lemma emitted_nothing [simp]: "emitted [] [] r = r"
  by (cases r rule: option.exhaust; cases "the r") (auto simp: emitted_def)

section \<open>Defining a macro\<close>

text \<open>The pattern of a definition up to the first white space outside of parentheses, its characters and the
  rest of the line. The text is read twice, first for the length.\<close>

function define_pattern :: "lexenv \<Rightarrow> bool \<Rightarrow> string \<Rightarrow> (string \<times> string \<times> nat list) result" where
  "define_pattern env flag s =
     (let c = hd s; flag' = ((flag \<or> c = CHR ''('') \<and> c \<noteq> CHR '')'')
      in if s = [] \<or> \<not> flag' \<and> white c then Inr ([], s, [])
         else case litchar env False False s of Inl e \<Rightarrow> Inl e
            | Inr (v, r, es) \<Rightarrow> bindR (define_pattern env flag' r) (\<lambda>(cs, u, es'). Inr (char_of (unat v) # cs, u, es @ es')))"
  by pat_completeness auto
termination by (relation "measure (\<lambda>(env, flag, s). length s)") (auto dest: litchar_shorter)

declare define_pattern.simps [simp del]

definition trim :: "string \<Rightarrow> string" where "trim s = rev (dropWhile white (rev (dropWhile white s)))"

definition define_macro :: "lexenv \<Rightarrow> string \<Rightarrow> lists \<Rightarrow> (lists \<times> nat list) result" where
  "define_macro env s l =
     (let start = dropWhile white s
      in bindR (define_pattern env False start) (\<lambda>(cs, u, es).
           if \<not> isalpha (char_at start 0) \<and> char_at start 0 \<noteq> CHR ''_'' then Inr (l, es @ [74])
           else
             let n = length cs;
                 pattern = takeWhile (\<lambda>c. c \<noteq> NUL)
                   (if 2 \<le> n \<and> isdigit (cs ! (n - 1)) \<and> cs ! (n - 2) = CHR ''%'' then take (n - 2) cs else cs);
                 prefixlen = length (takeWhile word_char pattern)
             in bindR (assertR (0 < prefixlen)) (\<lambda>_.
                bindR (find_subst l pattern prefixlen) (\<lambda>def.
                bindR (case def of None \<Rightarrow> Inr (l, [])
                       | Some d \<Rightarrow> bindR (delete_subst pattern prefixlen l) (\<lambda>(b, l1).
                           Inr (l1, if sp_first d \<noteq> pattern \<or> sp_second d \<noteq> trim u then [201] else []))) (\<lambda>(l1, es1).
                bindR (insert_subst pattern (trim u) prefixlen l1) (\<lambda>l2. Inr (l2, es @ es @ es1)))))))"

section \<open>A macro that never ends\<close>

definition plain_macro :: "string \<Rightarrow> bool" where
  "plain_macro w \<longleftrightarrow> w \<noteq> [] \<and> (isalpha (hd w) \<or> hd w = CHR ''_'') \<and> list_all word_char w \<and> take 7 w \<noteq> ''defined''"

lemma word_alphanum: "word_char c \<Longrightarrow> alphanum c"
  by (auto simp: word_char_def alphanum_def alpha_def)

lemma word_no_quote: "word_char c \<Longrightarrow> c \<noteq> CHR 0x22"
proof -
  have "\<not> word_char CHR 0x22" by (simp add: word_char_def isalpha_def islower_def isupper_def isdigit_def code_of_def)
  then show "word_char c \<Longrightarrow> c \<noteq> CHR 0x22" by blast
qed

lemma word_split:
  assumes "list_all word_char w" and "\<not> word_char (char_at r 0) \<or> r = []"
  shows "takeWhile word_char (w @ r) = w" and "dropWhile word_char (w @ r) = r"
proof -
  have "takeWhile word_char r = [] \<and> dropWhile word_char r = r" using assms(2) by (cases r) (auto simp: char_at_def)
  then show "takeWhile word_char (w @ r) = w" "dropWhile word_char (w @ r) = r"
    using assms(1) by (auto simp: list_all_iff takeWhile_append2 dropWhile_append2)
qed

lemma match_whole: "match_rest env semi pattern s [] args = Inr (True, s, [], args, [])"
  by (subst match_rest.simps) simp

text \<open>A macro without parameters takes its word, unless the word goes on.\<close>

lemma substpattern_word:
  assumes "plain_macro w"
  shows "substpattern env semi (w @ r) room w t =
    (if alphanum (char_at r 0) then Inr (False, w @ r, [])
     else bindR (substitute env (replicate 10 None) t (w @ r) r room) (\<lambda>(line', es). Inr (True, line', es)))"
proof -
  have w: "takeWhile word_char w = w" using assms by (auto simp: plain_macro_def list_all_iff takeWhile_eq_all_conv)
  have "alphanum (prev_char w [])"
    using assms word_alphanum by (auto simp: plain_macro_def prev_char_def char_at_def list_all_iff)
  then show ?thesis using assms by (simp add: substpattern_def w match_whole plain_macro_def)
qed

lemma no_args_text:
  assumes "list_all (\<lambda>c. c \<noteq> CHR 0x22) t"
  shows "subst_text env (replicate 10 None) t = Inr (t, []) \<and> subst_len (replicate 10 None) t = length t"
  using assms
proof (induction t)
  case Nil
  then show ?case by (simp add: subst_text.simps)
next
  case (Cons c t)
  have "replicate 10 None ! (code_of (char_at t 0) - 48) = (None :: string option)" if "isdigit (char_at t 0)"
    using that by (intro nth_replicate) (auto simp: isdigit_def)
  then show ?case using Cons by (subst subst_text.simps) (auto simp: list_ex_iff)
qed

lemma skip_word: "isalpha (char_at s 0) \<or> char_at s 0 = CHR ''_'' \<Longrightarrow> s \<noteq> [] \<Longrightarrow> skip_nonalpha env s = Inr (s, [])"
  by (subst skip_nonalpha.simps) (auto simp: char_at_def split: list.splits)

lemma word_not_defined:
  assumes "plain_macro w" and "\<not> alphanum (char_at r 0)"
  shows "take 7 (w @ r) \<noteq> ''defined''"
proof
  assume a: "take 7 (w @ r) = ''defined''"
  show False
  proof (cases "7 \<le> length w")
    case True
    then show False using a assms(1) by (simp add: plain_macro_def)
  next
    case False
    have "length (take 7 (w @ r)) = 7" using a by simp
    then obtain c u where r: "r = c # u" using False by (cases r) auto
    then have "c \<in> set (take 7 (w @ r))" using False by (simp add: take_Cons')
    then have "c \<in> set ''defined''" unfolding a .
    then have "alphanum c" by (auto simp: alphanum_def alpha_def isalpha_def islower_def code_of_def)
    then show False using assms(2) r by (simp add: char_at_def)
  qed
qed

lemma self_macro_turns:
  assumes "subst_ok l" and "find (pair_matches w (length w)) (substpair l) = Some sp"
    and "sp_first sp = w" and "sp_second sp = w @ t" and "plain_macro w"
    and "list_all (\<lambda>c. c \<noteq> CHR 0x22) t" and "\<not> alphanum (char_at t 0)" and "\<not> alphanum (char_at r 0)"
  shows "substallpatterns env semi l n room (w @ r) = None"
  using assms(8)
proof (induction n arbitrary: r room)
  case (Suc n)
  have w: "w \<noteq> []" "macro_start (first_byte w)" "list_all word_char w"
    using assms(5) by (auto simp: plain_macro_def macro_start_def first_byte_def)
  have nw: "\<not> word_char (char_at r 0) \<or> r = []" using Suc.prems word_alphanum by blast
  have q: "list_all (\<lambda>c. c \<noteq> CHR 0x22) (w @ t)"
    using w(3) assms(6) word_no_quote by (auto simp: list_all_iff)
  have "pair_matches (w @ r) (length w) = pair_matches w (length w)" by (rule ext) (simp add: pair_matches_def)
  then have f: "find_subst l (w @ r) (length w) = Inr (Some sp)"
    using find_subst_full [OF assms(1), of "length w" "w @ r"] w assms(2) by (cases w) (simp_all add: first_byte_def)
  have sk: "skip_nonalpha env (w @ r) = Inr (w @ r, [])"
    using assms(5) by (intro skip_word) (cases w, auto simp: plain_macro_def char_at_def)+
  define s' where "s' = (if room < length r + length (w @ t) then w @ r else w @ (t @ r))"
  have "substitute env (replicate 10 None) (w @ t) (w @ r) r room = Inr (s', if room < length r + length (w @ t) then [75] else [])"
    unfolding substitute_def no_args_text [OF q, THEN conjunct1] no_args_text [OF q, THEN conjunct2] s'_def by simp
  then obtain es where "substpattern env semi (w @ r) room w (w @ t) = Inr (True, s', es)"
    using Suc.prems by (simp add: substpattern_word [OF assms(5)])
  moreover have "substallpatterns env semi l n room' s' = None" for room'
    using Suc.IH Suc.prems assms(7) by (cases t) (auto simp: s'_def char_at_def)
  ultimately show ?case
    using sk f w(1) word_not_defined [OF assms(5) Suc.prems] assms(3,4)
    by (simp add: word_split [OF w(3) nw])
qed simp

section \<open>Macros without parameters\<close>

definition inert :: "string \<Rightarrow> bool" where
  "inert t \<longleftrightarrow> list_all (\<lambda>c. \<not> isalpha c \<and> c \<noteq> CHR ''_'' \<and> \<not> is_quote c) t"

definition word_macros :: "nat \<Rightarrow> lists \<Rightarrow> bool" where
  "word_macros k l \<longleftrightarrow> subst_ok l \<and> list_all (\<lambda>p. plain_macro (sp_first p) \<and> matchlength p = length (sp_first p)
     \<and> inert (sp_second p) \<and> length (sp_second p) \<le> k) (substpair l)"

text \<open>The replacement of all words at once.\<close>

function expand_words :: "stringpair list \<Rightarrow> string \<Rightarrow> string" where
  "expand_words ps [] = []"
| "expand_words ps (c # t) =
     (if isalpha c \<or> c = CHR ''_'' then
        let w = takeWhile word_char (c # t); r = dropWhile word_char t
        in (case find (\<lambda>p. sp_first p = w) ps of
              Some p \<Rightarrow> if alphanum (char_at r 0) then w else sp_second p | None \<Rightarrow> w) @ expand_words ps r
      else c # expand_words ps t)"
  by pat_completeness auto
termination by (relation "measure (\<lambda>(ps, s). length s)") (auto simp: less_Suc_eq_le length_dropWhile_le)

lemma calm_no_start: "list_all (\<lambda>c. \<not> is_quote c) s \<Longrightarrow> \<not> is_startstring env s"
proof -
  assume a: "list_all (\<lambda>c. \<not> is_quote c) s"
  have "\<not> is_quote (char_at s i)" for i
    using a by (cases "i < length s") (auto simp: char_at_def list_all_iff is_quote_def)
  then show ?thesis by (simp add: is_startstring_def Let_def)
qed

lemma skip_calm_Cons:
  "list_all (\<lambda>c. \<not> is_quote c) (c # s) \<Longrightarrow> \<not> isalpha c \<Longrightarrow> c \<noteq> CHR ''_'' \<Longrightarrow> skip_nonalpha env (c # s) = skip_nonalpha env s"
  using calm_no_start [of "c # s" env] by (subst skip_nonalpha.simps) simp

lemma skip_calm: "list_all (\<lambda>c. \<not> is_quote c) s \<Longrightarrow> \<exists>u. skip_nonalpha env s = Inr (u, []) \<and> length u \<le> length s"
proof (induction s)
  case Nil
  then show ?case by (subst skip_nonalpha.simps) simp
next
  case (Cons c s)
  show ?case
  proof (cases "isalpha c \<or> c = CHR ''_''")
    case True
    then show ?thesis using skip_word [of "c # s" env] by (simp add: char_at_def)
  next
    case False
    then obtain u where "skip_nonalpha env s = Inr (u, [])" "length u \<le> length s" using Cons by auto
    then show ?thesis using False Cons.prems by (auto simp: skip_calm_Cons)
  qed
qed

lemma skip_one:
  assumes "list_all (\<lambda>c. \<not> is_quote c) (c # s)" and "\<not> isalpha c" and "c \<noteq> CHR ''_''"
  shows "substallpatterns env semi l n room (c # s) = emitted [c] [] (substallpatterns env semi l n (room - 1) s)"
proof (cases n)
  case (Suc k)
  obtain u where u: "skip_nonalpha env s = Inr (u, [])" "length u \<le> length s" using skip_calm assms(1) by fastforce
  have skipped: "take (length (c # s) - length u) (c # s) = c # take (length s - length u) s" using u(2) by (simp add: Suc_diff_le)
  show ?thesis
    unfolding Suc substallpatterns.simps skip_calm_Cons [OF assms] u(1) sum.case prod.case skipped
    by (simp add: Let_def split: option.split sum.split)
qed simp

lemma skip_inert:
  "list_all (\<lambda>c. \<not> is_quote c) s \<Longrightarrow> inert t \<Longrightarrow>
   substallpatterns env semi l n room (t @ s) = emitted t [] (substallpatterns env semi l n (room - length t) s)"
proof (induction t arbitrary: room)
  case (Cons c t)
  then have "substallpatterns env semi l n room (c # t @ s) = emitted [c] [] (substallpatterns env semi l n (room - 1) (t @ s))"
    by (intro skip_one) (auto simp: inert_def list_all_iff)
  then show ?case using Cons by (simp add: inert_def)
qed simp

lemma find_word:
  assumes "word_macros k l" and "w = takeWhile word_char s" and "isalpha (char_at s 0) \<or> char_at s 0 = CHR ''_''" and "s \<noteq> []"
  shows "find_subst l s (length w) = Inr (find (\<lambda>p. sp_first p = w) (substpair l))"
proof -
  have w: "w \<noteq> []" using assms(2-4) by (cases s) (auto simp: char_at_def word_char_def)
  have t: "take (length w) s = w" unfolding assms(2) by (rule takeWhile_eq_take [symmetric])
  have "find (pair_matches s (length w)) (substpair l) = find (\<lambda>p. sp_first p = w) (substpair l)"
    using assms(1) by (intro find_cong refl) (auto simp: word_macros_def list_all_iff pair_matches_def t)
  moreover have "macro_start (first_byte s)" using assms(3,4) by (auto simp: macro_start_def first_byte_def char_at_def hd_conv_nth)
  ultimately show ?thesis using find_subst_full [of l "length w" s] assms(1) w by (simp add: word_macros_def)
qed

text \<open>One turn on the word \<open>w\<close> with \<open>r\<close> behind it; \<open>u\<close> is what the later turns make of \<open>r\<close>.\<close>

lemma word_turn:
  assumes macros: "word_macros k l" and rw: "takeWhile word_char (w @ r) = w" "dropWhile word_char (w @ r) = r"
    and sk: "skip_nonalpha env (w @ r) = Inr (w @ r, [])" and nd: "take 7 (w @ r) \<noteq> ''defined''"
    and h: "isalpha (char_at (w @ r) 0) \<or> char_at (w @ r) 0 = CHR ''_''" "w @ r \<noteq> []" and w: "0 < length w"
    and rq: "list_all (\<lambda>c. \<not> is_quote c) r" and room: "length r * (1 + k) + (1 + k) \<le> room"
    and later: "\<And>room'. length r * (1 + k) \<le> room' \<Longrightarrow> substallpatterns env semi l m room' r = Some (Inr (u, []))"
    and plain: "substallpatterns env semi l m (room - length w) r = Some (Inr (u, []))"
  shows "substallpatterns env semi l (Suc m) room (w @ r) = Some (Inr ((case find (\<lambda>p. sp_first p = w) (substpair l) of
      Some p \<Rightarrow> if alphanum (char_at r 0) then w else sp_second p | None \<Rightarrow> w) @ u, []))"
proof -
  have wn: "w \<noteq> []" using w by simp
  have f: "find_subst l (w @ r) (length w) = Inr (find (\<lambda>p. sp_first p = w) (substpair l))"
    by (rule find_word [OF macros rw(1) [symmetric] h])
  show ?thesis
  proof (cases "find (\<lambda>p. sp_first p = w) (substpair l)")
    case None
    then show ?thesis unfolding substallpatterns.simps sk
      by (simp add: f nd rw plain wn del: take_append)
  next
    case (Some p)
    then have p: "sp_first p = w" "p \<in> set (substpair l)" by (auto simp: find_Some_iff)
    then have pm: "plain_macro w" "inert (sp_second p)" "length (sp_second p) \<le> k"
      using macros by (auto simp: word_macros_def list_all_iff)
    show ?thesis
    proof (cases "alphanum (char_at r 0)")
      case True
      then show ?thesis using Some p pm unfolding substallpatterns.simps sk
        by (simp add: f nd rw plain wn substpattern_word del: take_append)
    next
      case False
      have q: "list_all (\<lambda>c. c \<noteq> CHR 0x22) (sp_second p)" using pm(2) by (auto simp: inert_def list_all_iff is_quote_def)
      have "substitute env (replicate 10 None) (sp_second p) (w @ r) r room = Inr (sp_second p @ r, [])"
        using room pm(3) unfolding substitute_def no_args_text [OF q, THEN conjunct1] no_args_text [OF q, THEN conjunct2]
        by (simp add: algebra_simps)
      then have "substpattern env semi (w @ r) room w (sp_second p) = Inr (True, sp_second p @ r, [])"
        using False by (simp add: substpattern_word [OF pm(1)])
      moreover have "substallpatterns env semi l m room (sp_second p @ r) = Some (Inr (sp_second p @ u, []))"
        using skip_inert [OF rq pm(2)] later [of "room - length (sp_second p)"] room pm(3) by simp
      ultimately show ?thesis using False Some p(1) unfolding substallpatterns.simps sk
        by (simp add: f nd rw wn del: take_append)
    qed
  qed
qed

text \<open>C10 (\<open>substallpatterns\<close>, \<open>substpattern\<close>, \<open>find_subst\<close>): with macros that have no parameters and whose texts
  hold no letters, underscores or quotes, the preprocessor replaces every word of a line that is the name
  of a macro, and it ends within as many turns as the line has characters, and one. Strings and the
  operator \<open>defined\<close> are excluded here.\<close>
theorem word_macros_replace_words:
  assumes "word_macros k l" and "list_all (\<lambda>c. \<not> is_quote c) s" and "\<not> sublist ''defined'' s"
    and "length s * (1 + k) \<le> room" and "length s < n"
  shows "substallpatterns env semi l n room s = Some (Inr (expand_words (substpair l) s, []))"
  using assms(2-5)
proof (induction "substpair l" s arbitrary: n room rule: expand_words.induct)
  case 1
  then show ?case by (cases n) (simp_all add: skip_nonalpha.simps)
next
  case (2 c t)
  then obtain m where n: "n = Suc m" by (cases n) auto
  have ndt: "\<not> sublist ''defined'' t" using "2.prems"(2) by (meson sublist_Cons_right)
  show ?case
  proof (cases "isalpha c \<or> c = CHR ''_''")
    case False
    have "substallpatterns env semi l n (room - 1) t = Some (Inr (expand_words (substpair l) t, []))"
      using "2.hyps"(2) [OF False] "2.prems" ndt by (simp add: algebra_simps)
    then show ?thesis using False "2.prems"(1) skip_one [of c t] by simp
  next
    case True
    define w r where "w = takeWhile word_char (c # t)" and "r = dropWhile word_char t"
    have wc: "word_char c" using True by (auto simp: word_char_def)
    have s: "c # t = w @ r" using wc by (simp add: w_def r_def)
    have len: "length w + length r = Suc (length t)" "0 < length w" using arg_cong [OF s, of length] wc by (simp_all add: w_def)
    have sk: "skip_nonalpha env (w @ r) = Inr (w @ r, [])"
      using True unfolding s [symmetric] by (intro skip_word) (simp_all add: char_at_def)
    have nd: "take 7 (w @ r) \<noteq> ''defined''"
      using "2.prems"(2) unfolding s by (metis append_take_drop_id prefix_imp_sublist prefixI)
    have rw: "takeWhile word_char (w @ r) = w" "dropWhile word_char (w @ r) = r"
      using wc unfolding s [symmetric] by (simp_all add: w_def r_def)
    have rq: "list_all (\<lambda>c. \<not> is_quote c) r" "\<not> sublist ''defined'' r"
    proof -
      show "list_all (\<lambda>c. \<not> is_quote c) r" using "2.prems"(1) unfolding s by simp
      show "\<not> sublist ''defined'' r" using "2.prems"(2) unfolding s by (meson sublist_append_leftI sublist_order.order.trans)
    qed
    have room: "length r * (1 + k) + (1 + k) \<le> room"
    proof -
      have "length r < Suc (length t)" using len by linarith
      then have "length r + 1 \<le> length (c # t)" by simp
      then have "(length r + 1) * (1 + k) \<le> length (c # t) * (1 + k)" by (rule mult_le_mono1)
      then show ?thesis using "2.prems"(3) by simp
    qed
    have rl: "length r < m" using "2.prems"(4) len n by (cases w) simp_all
    have ih: "substallpatterns env semi l m room' r = Some (Inr (expand_words (substpair l) r, []))"
      if "length r * (1 + k) \<le> room'" for room'
      using "2.hyps"(1) [OF True w_def r_def rq that rl] by simp
    have h: "isalpha (char_at (w @ r) 0) \<or> char_at (w @ r) 0 = CHR ''_''" "w @ r \<noteq> []"
      using True unfolding s [symmetric] by (simp_all add: char_at_def)
    have e: "expand_words (substpair l) (w @ r) = (case find (\<lambda>p. sp_first p = w) (substpair l) of
              Some p \<Rightarrow> if alphanum (char_at r 0) then w else sp_second p | None \<Rightarrow> w) @ expand_words (substpair l) r"
      unfolding s [symmetric] expand_words.simps(2) if_P [OF True] Let_def w_def [symmetric] r_def [symmetric] ..
    have plain: "substallpatterns env semi l m (room - length w) r = Some (Inr (expand_words (substpair l) r, []))"
    proof (rule ih)
      have "length (c # t) = length w + length r" using len(1) by simp
      then have "length w * (1 + k) + length r * (1 + k) \<le> room" using "2.prems"(3) by (simp only: add_mult_distrib)
      moreover have "length w \<le> length w * (1 + k)" by simp
      ultimately show "length r * (1 + k) \<le> room - length w" by linarith
    qed
    show ?thesis unfolding s n e by (rule word_turn [OF assms(1) rw sk nd h len(2) rq(1) room ih plain])
  qed
qed

definition sample_macros :: lists where
  "sample_macros = \<lparr>alias_tab = [], includepaths = [],
     substpair = [\<lparr>sp_addr = 0, sp_first = ''MAX'', sp_second = ''32'', matchlength = 3\<rparr>],
     substindex = (\<lambda>c. if c = CHR ''M'' then Some 0 else None), sourcefiles = [], docstrings = [], autolist = [],
     dbgstrings = [], next_addr = 1\<rparr>"

lemma sample_macros_ok: "word_macros 2 sample_macros"
proof -
  have "subst_ok sample_macros"
    by (auto simp: subst_ok_def sample_macros_def pair_table_def pair_ok_def pairs_sorted_def code_of_def macro_start_def
          isalpha_def isupper_def first_with_def first_byte_def)
  moreover have "plain_macro ''MAX''" "inert ''32''" by code_simp+
  ultimately show ?thesis by (simp add: word_macros_def sample_macros_def)
qed

theorem word_macros_replace_words_witness:
  "substallpatterns plain_env True sample_macros 9 500 ''a[MAX]'' = Some (Inr (expand_words (substpair sample_macros) ''a[MAX]'', []))"
  by (rule word_macros_replace_words [OF sample_macros_ok]) (simp_all add: is_quote_def sublist_Cons_right)

lemma sample_words: "expand_words (substpair sample_macros) ''a[MAX]'' = ''a[32]''"
  by code_simp

lemma litchar_same: "char_of (unat (ucast (to_byte c) :: cell)) = c"
proof -
  have "unat (ucast b :: cell) = unat b" for b :: byte by (rule byte_all) code_simp
  moreover have "unat (to_byte c) = code_of c" by (simp add: to_byte_def unat_of_nat code_of_bound)
  ultimately show ?thesis by (simp add: code_of_def)
qed

lemma ordinary_pattern:
  assumes "ordinary env w" and "list_all word_char w" and "white (hd u)" and "u \<noteq> []" and "\<not> word_char (hd u)"
  shows "define_pattern env False (w @ u) = Inr (w, u, [])"
  using assms
proof (induction w)
  case Nil
  then show ?case by (subst define_pattern.simps) (auto simp: Let_def white_def code_of_def)
next
  case (Cons c w)
  have c: "\<not> white c" "c \<noteq> CHR ''(''" using Cons.prems(2) by (auto simp: white_def word_char_def isalpha_def isupper_def islower_def isdigit_def code_of_def)
  have ih: "define_pattern env False (w @ u) = Inr (w, u, [])" using Cons by (simp add: ordinary_def)
  have "litchar env False False (c # w @ u) = Inr (ucast (to_byte c), w @ u, [])"
    using Cons.prems(1) by (intro litchar_ordinary) (simp_all add: ordinary_def)
  then show ?case using c ih by (subst define_pattern.simps) (simp add: litchar_same)
qed

lemma trim_word:
  assumes "w \<noteq> []" and "list_all word_char w"
  shows "trim (CHR '' '' # w @ nl) = w"
proof -
  have nw: "\<not> white c" if "c \<in> set w" for c
    using assms(2) that by (auto simp: list_all_iff white_def word_char_def isalpha_def isupper_def islower_def isdigit_def code_of_def)
  have "dropWhile white (w @ nl) = w @ nl" using assms(1) nw by (cases w) auto
  moreover have "dropWhile white (rev w) = rev w" using assms(1) nw by (cases "rev w") (auto simp: dropWhile_eq_self_iff)
  moreover have "white (CHR '' '')" "white NL" by (simp_all add: white_def code_of_def)
  ultimately show ?thesis by (simp add: trim_def)
qed

lemma define_word:
  assumes "subst_ok l" and "find (pair_matches w (length w)) (substpair l) = None" and "plain_macro w" and "ordinary env w"
    and "trim (CHR '' '' # t) = v"
  shows "\<exists>l'. define_macro env (CHR '' '' # w @ CHR '' '' # t) l = Inr (l', []) \<and> subst_ok l'
    \<and> substpair l' = insert_stringpair (new_pair l w v (length w)) (substpair l)"
proof -
  have w: "w \<noteq> []" "macro_start (first_byte w)" "list_all word_char w" "isalpha (hd w) \<or> hd w = CHR ''_''"
    using assms(3) by (auto simp: plain_macro_def macro_start_def first_byte_def)
  have nw: "\<not> white (hd w)" "CHR ''%'' \<notin> set w" "NUL \<notin> set w"
    using w by (auto simp: list_all_iff white_def word_char_def isalpha_def isupper_def islower_def isdigit_def code_of_def)
  have sp: "white (CHR '' '')" "\<not> word_char (CHR '' '')" by (simp_all add: white_def word_char_def isalpha_def isupper_def islower_def isdigit_def code_of_def)
  have d: "dropWhile white (CHR '' '' # w @ CHR '' '' # t) = w @ CHR '' '' # t" using w(1) nw(1) sp(1) by (cases w) auto
  have p: "define_pattern env False (w @ CHR '' '' # t) = Inr (w, CHR '' '' # t, [])"
    using sp by (intro ordinary_pattern [OF assms(4) w(3)]) simp_all
  have tw: "takeWhile (\<lambda>c. c \<noteq> NUL) w = w" "takeWhile word_char w = w" using nw(3) w(3) by (auto simp: takeWhile_eq_all_conv list_all_iff)
  have f: "find_subst l w (length w) = Inr None" using find_subst_full [OF assms(1), of "length w" w] w assms(2) by simp
  obtain l' where l': "insert_subst w v (length w) l = Inr l'" "subst_ok l'"
      "substpair l' = insert_stringpair (new_pair l w v (length w)) (substpair l)"
    using insert_subst_ok [OF assms(1) w(1), of "length w" v] w by (auto simp: first_byte_def)
  have "w ! (length w - 2) \<noteq> CHR ''%''" using nw(2) w(1) nth_mem [of "length w - 2" w] by (metis diff_less length_greater_0_conv zero_less_numeral)
  moreover have "char_at (w @ CHR '' '' # t) 0 = hd w" using w(1) by (simp add: char_at_def nth_append hd_conv_nth)
  ultimately have "define_macro env (CHR '' '' # w @ CHR '' '' # t) l = Inr (l', [])"
    using w(1,4) unfolding define_macro_def d Let_def bindR.simps p prod.case by (auto simp: tw f l'(1) assms(5))
  then show ?thesis using l' by blast
qed

lemma find_new:
  "find (pair_matches w (length w)) ps = None \<Longrightarrow>
   find (pair_matches w (length w)) (insert_stringpair (new_pair l w v (length w)) ps) = Some (new_pair l w v (length w))"
  unfolding insert_stringpair_def
  by (subst find_append_none) (auto simp: find_None_iff pair_matches_def new_pair_def dest: set_takeWhileD)

text \<open>C19 (\<open>#define\<close>, \<open>substallpatterns\<close>): after the line \<open>#define w w\<close> any line with the word \<open>w\<close> keeps the
  preprocessor busy for ever: no number of turns is enough.\<close>
theorem self_macro_never_ends:
  assumes "subst_ok l" and "find (pair_matches w (length w)) (substpair l) = None" and "plain_macro w"
    and "ordinary env w" and "\<not> alphanum (char_at r 0)"
  shows "\<exists>l'. define_macro env (CHR '' '' # w @ CHR '' '' # w @ nl) l = Inr (l', []) \<and> subst_ok l'
    \<and> (\<forall>n. substallpatterns env semi l' n room (w @ r) = None)"
proof -
  have w: "w \<noteq> []" "list_all word_char w" using assms(3) by (simp_all add: plain_macro_def)
  obtain l' where l': "define_macro env (CHR '' '' # w @ CHR '' '' # w @ nl) l = Inr (l', [])" "subst_ok l'"
      "substpair l' = insert_stringpair (new_pair l w w (length w)) (substpair l)"
    using define_word [OF assms(1-4) trim_word [OF w]] by blast
  let ?p = "new_pair l w w (length w)"
  have "find (pair_matches w (length w)) (insert_stringpair ?p (substpair l)) = Some ?p"
    by (rule find_new [OF assms(2)])
  then have "substallpatterns env semi l' n room (w @ r) = None" for n
    using l'(2,3) assms(3,5) by (intro self_macro_turns [of l' w _ "[]"]) (auto simp: new_pair_def char_at_def alphanum_def alpha_def isalpha_def isupper_def islower_def isdigit_def code_of_def)
  then show ?thesis using l' by blast
qed

theorem self_macro_never_ends_witness:
  "\<exists>l'. define_macro plain_env (CHR '' '' # ''LOOP'' @ CHR '' '' # ''LOOP'' @ nl) sample_macros = Inr (l', []) \<and> subst_ok l'
    \<and> (\<forall>n. substallpatterns plain_env True l' n 500 (''LOOP'' @ '';'') = None)"
proof (rule self_macro_never_ends)
  show "subst_ok sample_macros" using sample_macros_ok by (simp add: word_macros_def)
  show "find (pair_matches ''LOOP'' (length ''LOOP'')) (substpair sample_macros) = None"
    by (simp add: sample_macros_def pair_matches_def)
  show "plain_macro ''LOOP''" "\<not> alphanum (char_at '';'' 0)" by code_simp+
  show "ordinary plain_env ''LOOP''" by (simp add: ordinary_def plain_env_def)
qed

section \<open>The buffer\<close>

lemma quote_free_text:
  assumes "list_all (\<lambda>c. c \<noteq> CHR 0x22) e" and "length args = 10"
  shows "\<exists>u. subst_text env args e = Inr (u, []) \<and> length u = subst_len args e"
  using assms(1)
proof (induction e rule: length_induct)
  case (1 e)
  show ?case
  proof (cases e)
    case Nil
    then show ?thesis by (simp add: subst_text.simps)
  next
    case (Cons c t)
    define k where "k = code_of (char_at t 0) - 48"
    have some: "list_ex (\<lambda>a. a \<noteq> None) args" if "isdigit (char_at t 0)" "args ! k \<noteq> None"
    proof -
      have "k < length args" using that(1) assms(2) by (auto simp: k_def isdigit_def)
      then show ?thesis using that(2) unfolding list_ex_iff by (intro bexI [of _ "args ! k"]) simp_all
    qed
    have ih: "\<exists>u. subst_text env args v = Inr (u, []) \<and> length u = subst_len args v" if "length v \<le> length t" "set v \<subseteq> set t" for v
    proof -
      have "length v < length e" using that(1) Cons by simp
      moreover have "list_all (\<lambda>c. c \<noteq> CHR 0x22) v" using that(2) 1(2) Cons unfolding list_all_iff by auto
      ultimately show ?thesis using 1(1) by blast
    qed
    obtain u where u: "subst_text env args t = Inr (u, [])" "length u = subst_len args t" using ih [of t] by auto
    have "length (tl t) \<le> length t" "set (tl t) \<subseteq> set t" by (cases t; auto)+
    then obtain v where v: "subst_text env args (tl t) = Inr (v, [])" "length v = subst_len args (tl t)" using ih [of "tl t"] by auto
    have c: "c \<noteq> CHR 0x22" using 1 Cons by simp
    show ?thesis
    proof (cases "c = CHR ''%'' \<and> isdigit (char_at t 0) \<and> args ! k \<noteq> None")
      case True
      then obtain a where a: "args ! k = Some a" by blast
      have "subst_text env args (c # t) = Inr (a @ v, [])" using True v(1) a by (subst subst_text.simps) (simp add: k_def)
      moreover have "subst_len args (c # t) = length a + subst_len args (tl t)" using True some a by (simp add: k_def)
      ultimately show ?thesis using v(2) Cons by simp
    next
      case False
      then have "subst_text env args (c # t) = Inr (c # u, [])" using u(1) c by (subst subst_text.simps) (auto simp: k_def)
      moreover have "subst_len args (c # t) = 1 + subst_len args t" using False by (auto simp: k_def)
      ultimately show ?thesis using u(2) Cons by simp
    qed
  qed
qed

text \<open>C38 (\<open>substpattern\<close>): when the text of a macro has no string in it, a replacement either stays in the room
  of the line buffer or is refused with error 75, which leaves the line as it is; whatever the
  parameters are.\<close>
theorem replacement_fits_buffer:
  assumes "list_all (\<lambda>c. c \<noteq> CHR 0x22) e" and "length args = 10" and "length line \<le> room"
  shows "\<exists>line' es. substitute env args e line s room = Inr (line', es) \<and> length line' \<le> room
    \<and> (es = [75] \<and> line' = line \<or> es = [] \<and> length line' = subst_len args e + length s)"
proof -
  obtain u where "subst_text env args e = Inr (u, [])" "length u = subst_len args e" using quote_free_text [OF assms(1,2)] by blast
  then show ?thesis using assms(3) by (auto simp: substitute_def)
qed

theorem replacement_fits_buffer_witness:
  "\<exists>line' es. substitute plain_env (replicate 10 None) ''32'' ''MAX;'' '';'' 10 = Inr (line', es) \<and> length line' \<le> 10
    \<and> (es = [75] \<and> line' = ''MAX;'' \<or> es = [] \<and> length line' = subst_len (replicate 10 None) ''32'' + length '';'')"
  by (rule replacement_fits_buffer) simp_all

text \<open>A parameter inside of a string is counted with the length of the argument but not replaced. With an
  empty argument the line outgrows its buffer.\<close>

lemma quoted_text_overruns:
  "substpattern plain_env True ''m()'' 4 ''m(%1)'' (CHR 0x22 # ''%1%1%1'' @ [CHR 0x22]) = Inl BufferOverflow"
  by code_simp

text \<open>A text with an open string fails the assertion of \<open>strins\<close>.\<close>

lemma open_string_fails: "substpattern plain_env True ''m'' 80 ''m'' [CHR 0x22, CHR ''a''] = Inl AssertFail"
  by code_simp

text \<open>At the end of a line without its line feed a part of the pattern is enough.\<close>

lemma part_of_pattern_matches: "substpattern plain_env True ''m'' 80 ''m(%1)'' ''f(%1)'' = Inr (True, ''f(%1)'', [])"
  by code_simp

end
