(* ===== verification/ScComment.thy ===== *)
theory ScComment
  imports ScMacro
begin

text \<open>
  Comments (\<open>stripcom\<close> of sc2.c), the documentation that is collected from them (\<open>sc_attachdocumentation\<close> of
  sc1.c, for the documentation outside of functions) and two small readers of the preprocessor. The theory
  shows that stripping replaces comments and nothing else and leaves no comment, and that a line with an
  open quote is read beyond its end.
\<close>

section \<open>Documentation\<close>

definition sDOCSEP :: char where "sDOCSEP = CHR 0x01"

text \<open>\<open>keep_docs\<close>: a report is wanted, and this is the first pass.\<close>

record comments =
  icomment :: nat
  prev_singleline :: bool
  in_function :: bool
  keep_docs :: bool
  sc_documentation :: "string option"
  com_lists :: lists
  com_errors :: "nat list"

fun docs_length :: "nat \<Rightarrow> string list \<Rightarrow> nat" where
  "docs_length n [] = n"
| "docs_length n (str # ss) = docs_length ((if 0 < n then n + 1 else n) + length str) ss"

definition join_doc :: "string \<Rightarrow> string \<Rightarrow> string" where
  "join_doc doc str = (if doc \<noteq> [] then doc @ '' '' else doc) @ str"

definition attach_global :: "comments \<Rightarrow> comments result" where
  "attach_global st =
     (let l = com_lists st; separator = (\<lambda>s. first_byte s = sDOCSEP);
          docs = takeWhile (\<lambda>s. \<not> separator s) (docstrings l); rest = dropWhile (\<lambda>s. \<not> separator s) (docstrings l)
      in if \<not> keep_docs st then Inr (st\<lparr>com_lists := delete_docstringtable l\<rparr>)
         else
           let n = docs_length 0 docs + (case sc_documentation st of None \<Rightarrow> 0 | Some d \<Rightarrow> length d + 1 + 4);
               doc = foldl join_doc (case sc_documentation st of None \<Rightarrow> [] | Some d \<Rightarrow> d @ ''<p/>'') docs
           in if 0 < n then
                if length doc \<le> n then Inr (st\<lparr>com_lists := l\<lparr>docstrings := drop 1 rest\<rparr>, sc_documentation := Some doc\<rparr>)
                else Inl BufferOverflow
              else Inr (if docstrings l \<noteq> [] \<and> separator (hd (docstrings l)) then st\<lparr>com_lists := delete_docstring 0 l\<rparr> else st))"

definition add_doc :: "string \<Rightarrow> comments \<Rightarrow> comments" where
  "add_doc str st = st\<lparr>com_lists := insert_docstring str (com_lists st)\<rparr>"

definition new_block :: "comments \<Rightarrow> comments result" where
  "new_block st = (if \<not> in_function st \<and> get_docstring (com_lists st) 0 \<noteq> None then attach_global st else Inr st)"

section \<open>Comments\<close>

definition COMMENT_LIMIT :: nat where "COMMENT_LIMIT = 100"
definition COMMENT_MARGIN :: nat where "COMMENT_MARGIN = 40"

text \<open>A character of a documentation comment: the text of the comment so far, whether white space and
  stars are still to be skipped, and the state.\<close>

definition collect :: "char \<Rightarrow> string \<Rightarrow> bool \<Rightarrow> comments \<Rightarrow> string \<times> bool \<times> comments" where
  "collect ch comment skipstar st =
     (if icomment st \<noteq> 2 \<or> skipstar \<and> (white ch \<or> ch = CHR ''*'') then (comment, skipstar, st)
      else if length comment < COMMENT_LIMIT + COMMENT_MARGIN - 1 then
        let c = comment @ [if ch \<noteq> NL then ch else CHR '' '']
        in if COMMENT_LIMIT < length c \<and> white ch then ([], False, add_doc c st) else (c, False, st)
      else (comment, skipstar, st))"

definition flush_comment :: "string \<Rightarrow> comments \<Rightarrow> comments" where
  "flush_comment comment st = (if icomment st = 2 \<and> comment \<noteq> [] then add_doc comment st else st)"

text \<open>A literal from behind its opening quote to its closing one; None if the line ends before.\<close>

fun literal_end :: "char \<Rightarrow> char \<Rightarrow> char \<Rightarrow> string \<Rightarrow> (string \<times> string) option" where
  "literal_end ctrl c prev [] = None"
| "literal_end ctrl c prev (x # t) =
     (if x = c \<and> prev \<noteq> ctrl then Some ([x], t) else map_option (\<lambda>(u, r). (x # u, r)) (literal_end ctrl c x t))"

lemma literal_end_split: "literal_end ctrl c prev s = Some (u, r) \<Longrightarrow> s = u @ r \<and> u \<noteq> []"
  by (induction ctrl c prev s arbitrary: u rule: literal_end.induct) (auto split: if_splits)

lemma literal_end_shorter: "literal_end ctrl c p (tl s) = Some (u, r) \<Longrightarrow> s \<noteq> [] \<Longrightarrow> length r < length s"
  by (cases s) (auto dest!: literal_end_split)

definition line_doc :: "bool \<Rightarrow> string \<Rightarrow> comments \<Rightarrow> comments result" where
  "line_doc singleline s st =
     (let st1 = (if CHR 7 \<in> set s then st\<lparr>com_errors := com_errors st @ [49]\<rparr> else st);
          str = dropWhile white (drop 3 s);
          text = (if NL \<in> set str then rev (tl (dropWhile (\<lambda>c. c \<noteq> NL) (rev str))) else str)
      in if char_at s 2 = CHR ''/'' \<and> white (char_at s 3) then
           bindR (if singleline then Inr st1 else new_block st1) (\<lambda>st2. Inr ((add_doc text st2)\<lparr>prev_singleline := True\<rparr>))
         else Inr st1)"

definition block_doc :: "string \<Rightarrow> comments \<Rightarrow> comments result" where
  "block_doc s st =
     (if char_at s 2 = CHR ''*'' \<and> white (char_at s 3)
      then bindR (new_block st) (\<lambda>st1. Inr (st1\<lparr>icomment := 2\<rparr>)) else Inr (st\<lparr>icomment := 1\<rparr>))"

text \<open>The rest of a line, with the state of the comment that is being collected: the text that is left and
  the state. Behind an open literal the line pointer is behind the terminator.\<close>

definition starts :: "string \<Rightarrow> string \<Rightarrow> bool" where "starts p s \<longleftrightarrow> take (length p) s = p"

function strip :: "char \<Rightarrow> bool \<Rightarrow> string \<Rightarrow> string \<Rightarrow> bool \<Rightarrow> comments \<Rightarrow> (string \<times> comments) result" where
  "strip ctrl single s comment skipstar st =
     (if s = [] then Inr ([], flush_comment comment st)
      else if icomment st \<noteq> 0 then
        if starts ''*/'' s then
          bindR (strip ctrl single (drop 2 s) comment skipstar ((flush_comment comment st)\<lparr>icomment := 0\<rparr>)) (\<lambda>(u, st').
            Inr (''  '' @ u, st'))
        else
          let st1 = (if starts ''/*'' s then st\<lparr>com_errors := com_errors st @ [216]\<rparr> else st)
          in case collect (hd s) comment skipstar st1 of (comment', skipstar', st2) \<Rightarrow>
               bindR (strip ctrl single (tl s) comment' skipstar' st2) (\<lambda>(u, st'). Inr (CHR '' '' # u, st'))
      else if starts ''/*'' s then
        (case block_doc s st of Inl e \<Rightarrow> Inl e
         | Inr st1 \<Rightarrow> let n = (if icomment st1 = 2 then 3 else 2)
             in bindR (strip ctrl single (drop n s) [] True st1) (\<lambda>(u, st'). Inr (replicate n (CHR '' '') @ u, st')))
      else if starts ''//'' s then bindR (line_doc single s st) (\<lambda>st1. Inr (nl, st1))
      else if is_quote (hd s) then
        (case literal_end ctrl (hd s) (hd s) (tl s) of None \<Rightarrow> Inl BufferOverflow
         | Some (lit, r) \<Rightarrow> bindR (strip ctrl single r comment skipstar st) (\<lambda>(u, st'). Inr (hd s # lit @ u, st')))
      else bindR (strip ctrl single (tl s) comment skipstar st) (\<lambda>(u, st'). Inr (hd s # u, st')))"
  by pat_completeness auto
termination
  by (relation "measure (\<lambda>(ctrl, single, s, comment, skipstar, st). length s)")
     (auto dest!: literal_end_shorter split: if_splits)

declare strip.simps [simp del]

definition stripcom :: "char \<Rightarrow> string \<Rightarrow> comments \<Rightarrow> (string \<times> comments) result" where
  "stripcom ctrl line st = strip ctrl (prev_singleline st) line [] True (st\<lparr>prev_singleline := False\<rparr>)"

section \<open>What is left of a line\<close>

text \<open>A literal: the quote at its end is the first one that is not behind a control character.\<close>

definition ends_literal :: "char \<Rightarrow> string \<Rightarrow> nat \<Rightarrow> bool" where
  "ends_literal ctrl lit i \<longleftrightarrow> 0 < i \<and> lit ! i = hd lit \<and> lit ! (i - 1) \<noteq> ctrl"

definition is_literal :: "char \<Rightarrow> string \<Rightarrow> bool" where
  "is_literal ctrl lit \<longleftrightarrow> lit \<noteq> [] \<and> is_quote (hd lit) \<and> ends_literal ctrl lit (length lit - 1)
     \<and> (\<forall>i < length lit - 1. \<not> ends_literal ctrl lit i)"

text \<open>\<open>blanked ctrl i s u e\<close>: the line \<open>s\<close>, which begins inside of a comment if \<open>i\<close>, is made of code, literals and
  comments; \<open>u\<close> has the same code and literals and, for every character of a comment, a space, or for a comment to the
  end of the line a line feed; the line ends inside of a comment if \<open>e\<close>.\<close>

inductive blanked :: "char \<Rightarrow> bool \<Rightarrow> string \<Rightarrow> string \<Rightarrow> bool \<Rightarrow> bool" for ctrl where
  stop: "blanked ctrl False [] [] False"
| code: "\<not> is_quote c \<Longrightarrow> \<not> starts ''/*'' (c # s) \<Longrightarrow> \<not> starts ''//'' (c # s) \<Longrightarrow> blanked ctrl False s u e \<Longrightarrow>
    blanked ctrl False (c # s) (c # u) e"
| literal: "is_literal ctrl lit \<Longrightarrow> blanked ctrl False s u e \<Longrightarrow> blanked ctrl False (lit @ s) (lit @ u) e"
| rest_of_line: "blanked ctrl False (''//'' @ s) nl False"
| comment: "blanked ctrl True s u e \<Longrightarrow> blanked ctrl False (''/*'' @ s) (''  '' @ u) e"
| ends: "\<not> sublist ''*/'' (b @ ''*'') \<Longrightarrow> blanked ctrl False s u e \<Longrightarrow>
    blanked ctrl True (b @ ''*/'' @ s) (replicate (length b + 2) (CHR '' '') @ u) e"
| goes_on: "\<not> sublist ''*/'' b \<Longrightarrow> blanked ctrl True b (replicate (length b) (CHR '' '')) True"

lemma starts_prefix: "starts p s \<longleftrightarrow> prefix p s"
  unfolding starts_def prefix_def by (metis append_eq_conv_conj append_take_drop_id)

lemma blanked_inside:
  assumes "blanked ctrl True s u e" and "\<not> starts ''*/'' (c # s)"
  shows "blanked ctrl True (c # s) (CHR '' '' # u) e"
  using assms(1)
proof cases
  case (ends b s' u')
  have "\<not> prefix ''*/'' (c # b @ ''*'')"
  proof
    assume "prefix ''*/'' (c # b @ ''*'')"
    moreover have "prefix (c # b @ ''*'') (c # s)" using ends(1) by (simp add: prefix_def)
    ultimately show False using assms(2) prefix_order.trans unfolding starts_prefix by blast
  qed
  then have "\<not> sublist ''*/'' ((c # b) @ ''*'')" using ends(3) by (simp add: sublist_Cons_right)
  from blanked.ends [OF this ends(4)] show ?thesis using ends(1,2) by simp
next
  case goes_on
  then have "\<not> sublist ''*/'' (c # s)" using assms(2) by (simp add: sublist_Cons_right starts_prefix)
  from blanked.goes_on [OF this] show ?thesis using goes_on by simp
qed simp_all

lemma literal_end_ends:
  "literal_end ctrl c prev s = Some (u, r) \<Longrightarrow>
   u \<noteq> [] \<and> (prev # u) ! length u = c \<and> (prev # u) ! (length u - 1) \<noteq> ctrl
   \<and> (\<forall>i. 0 < i \<and> i < length u \<longrightarrow> \<not> ((prev # u) ! i = c \<and> (prev # u) ! (i - 1) \<noteq> ctrl))"
proof (induction ctrl c prev s arbitrary: u rule: literal_end.induct)
  case (2 ctrl c prev x t)
  show ?case
  proof (cases "x = c \<and> prev \<noteq> ctrl")
    case True
    then have "u = [c]" using 2 by auto
    then show ?thesis using True by auto
  next
    case False
    then obtain w where w: "literal_end ctrl c x t = Some (w, r)" "u = x # w" using 2 by auto
    note ih = "2.IH" [OF False w(1)]
    have "\<not> ((prev # u) ! i = c \<and> (prev # u) ! (i - 1) \<noteq> ctrl)" if "0 < i" "i < length u" for i
    proof (cases "i = 1")
      case True
      then show ?thesis using False w(2) by simp
    next
      case ne: False
      have "0 < i - 1 \<and> i - 1 < length w \<longrightarrow> \<not> ((x # w) ! (i - 1) = c \<and> (x # w) ! (i - 1 - 1) \<noteq> ctrl)" using ih by blast
      moreover have "0 < i - 1 \<and> i - 1 < length w" using ne that w(2) by auto
      ultimately have "\<not> ((x # w) ! (i - 1) = c \<and> (x # w) ! (i - 1 - 1) \<noteq> ctrl)" by blast
      then show ?thesis using ne that w(2) by (cases i; cases "i - 1") auto
    qed
    moreover have "(prev # u) ! length u = c" "(prev # u) ! (length u - 1) \<noteq> ctrl" using ih w(2) by (cases "length w"; simp)+
    ultimately show ?thesis using w(2) by blast
  qed
qed simp

lemma literal_end_literal: "literal_end ctrl c c s = Some (u, r) \<Longrightarrow> is_quote c \<Longrightarrow> is_literal ctrl (c # u)"
proof -
  assume l: "literal_end ctrl c c s = Some (u, r)" and q: "is_quote c"
  note k = literal_end_ends [OF l]
  have "ends_literal ctrl (c # u) (length u)" using k unfolding ends_literal_def by simp
  moreover have "\<not> ends_literal ctrl (c # u) i" if "i < length u" for i
    using k that unfolding ends_literal_def by (metis list.sel(1))
  ultimately show ?thesis using q by (simp add: is_literal_def)
qed

lemma starts_drop: "starts p s \<Longrightarrow> s = p @ drop (length p) s"
  unfolding starts_def by (metis append_take_drop_id)

text \<open>No comment in a text: what stripping it from outside of a comment does.\<close>

definition clean :: "char \<Rightarrow> string \<Rightarrow> bool" where
  "clean ctrl u \<longleftrightarrow> (\<forall>single comment skipstar st. icomment st = 0 \<longrightarrow> strip ctrl single u comment skipstar st = Inr (u, st))"

lemma clean_Nil: "clean ctrl []"
  by (simp add: clean_def strip.simps flush_comment_def)

lemma clean_Cons:
  "clean ctrl u \<Longrightarrow> \<not> is_quote c \<Longrightarrow> \<not> starts ''/*'' (c # u) \<Longrightarrow> \<not> starts ''//'' (c # u) \<Longrightarrow> clean ctrl (c # u)"
  by (subst clean_def, subst strip.simps) (simp add: clean_def)

lemma clean_blanks: "clean ctrl u \<Longrightarrow> clean ctrl (replicate n (CHR '' '') @ u)"
  by (induction n) (simp_all add: clean_Cons is_quote_def starts_def)

lemma literal_end_again: "literal_end ctrl c prev s = Some (lit, r) \<Longrightarrow> literal_end ctrl c prev (lit @ u) = Some (lit, u)"
  by (induction ctrl c prev s arbitrary: lit rule: literal_end.induct) (auto split: if_splits)

lemma clean_literal:
  "clean ctrl u \<Longrightarrow> is_quote c \<Longrightarrow> literal_end ctrl c c s = Some (lit, r) \<Longrightarrow> clean ctrl (c # lit @ u)"
  unfolding clean_def using literal_end_again [of ctrl c c s lit r u]
  by (subst strip.simps) (auto simp: starts_def is_quote_def)

lemma starts_second: "starts (c # p) (c # s) \<longleftrightarrow> starts p s"
  by (simp add: starts_def)

lemma blanked_starts: "blanked ctrl False s u e \<Longrightarrow> starts [x] u \<Longrightarrow> x \<noteq> CHR '' '' \<Longrightarrow> x \<noteq> NL \<Longrightarrow> starts [x] s"
proof (induction "False" s u e rule: blanked.induct)
  case (literal lit s u e)
  then have "lit \<noteq> []" by (simp add: is_literal_def)
  then show ?case using literal.prems by (cases lit) (simp_all add: starts_def)
qed (simp_all add: starts_def)

text \<open>What leaves the mark of the comment alone.\<close>

lemma attach_global_icomment: "attach_global st = Inr t \<Longrightarrow> icomment t = icomment st"
  by (auto simp: attach_global_def Let_def split: if_splits)

lemma new_block_icomment: "new_block st = Inr t \<Longrightarrow> icomment t = icomment st"
  by (auto simp: new_block_def attach_global_icomment split: if_splits)

lemma line_doc_icomment: "line_doc single s st = Inr t \<Longrightarrow> icomment t = icomment st"
  by (auto simp: line_doc_def add_doc_def Let_def bindR_Inr_iff dest!: new_block_icomment split: if_splits)

lemma collect_icomment: "collect ch c k st = (a, b, t) \<Longrightarrow> icomment t = icomment st"
  by (auto simp: collect_def add_doc_def Let_def split: if_splits)

lemma flush_icomment [simp]: "icomment (flush_comment c st) = icomment st"
  by (simp add: flush_comment_def add_doc_def)

text \<open>A block of documentation begins with a second star and white space: the star belongs to the comment.\<close>

lemma block_doc_begins:
  assumes "block_doc s st = Inr st1" and "starts ''/*'' s"
  shows "icomment st1 \<noteq> 0 \<and> (if icomment st1 = 2 then \<exists>t. s = ''/*'' @ ''*'' @ t \<and> \<not> starts ''*/'' (CHR ''*'' # t) else True)"
proof -
  have s: "s = ''/*'' @ drop 2 s" using starts_drop [OF assms(2)] by (simp add: numeral_2_eq_2)
  show ?thesis
  proof (cases "char_at s 2 = CHR ''*'' \<and> white (char_at s 3)")
    case True
    then have "2 < length s" "s ! 2 = CHR ''*''" by (auto simp: char_at_def split: if_splits)
    then obtain t where t: "drop 2 s = CHR ''*'' # t" by (metis Cons_nth_drop_Suc)
    then have st: "s = ''/*'' @ ''*'' @ t" using s by simp
    have "\<not> starts ''*/'' (CHR ''*'' # t)"
    proof
      assume "starts ''*/'' (CHR ''*'' # t)"
      then have "char_at s 3 = CHR ''/''" unfolding st by (cases t) (auto simp: starts_def char_at_def)
      then show False using True by (simp add: white_def code_of_def)
    qed
    then show ?thesis using True assms(1) st by (auto simp: block_doc_def bindR_Inr_iff)
  qed (use assms(1) in \<open>auto simp: block_doc_def\<close>)
qed

lemma strip_result:
  "strip ctrl single s comment skipstar st = Inr (u, st') \<Longrightarrow>
   blanked ctrl (icomment st \<noteq> 0) s u (icomment st' \<noteq> 0) \<and> clean ctrl u"
proof (induction ctrl single s comment skipstar st arbitrary: u st' rule: strip.induct)
  case (1 ctrl single s comment skipstar st)
  note run = "1.prems" [unfolded strip.simps [of ctrl single s comment skipstar st]]
  show ?case
  proof (cases "s = []")
    case True
    then show ?thesis using run stop goes_on [of "[]"] by (cases "icomment st = 0") (auto simp: clean_Nil)
  next
    case ne: False
    show ?thesis
    proof (cases "icomment st = 0")
      case com: False
      show ?thesis
      proof (cases "starts ''*/'' s")
        case True
        then obtain u' where u: "u = ''  '' @ u'"
            "strip ctrl single (drop 2 s) comment skipstar ((flush_comment comment st)\<lparr>icomment := 0\<rparr>) = Inr (u', st')"
          using run ne com by (auto simp: bindR_Inr_iff)
        then have i: "blanked ctrl False (drop 2 s) u' (icomment st' \<noteq> 0)" "clean ctrl u'"
          using "1.IH"(1) [OF ne com True] by force+
        have "\<not> sublist ''*/'' ([] @ ''*'')" by code_simp
        from ends [OF this i(1)] show ?thesis
          using starts_drop [OF True] clean_blanks [OF i(2), of 2] u(1) com by (simp add: numeral_2_eq_2)
      next
        case False
        define st1 where "st1 = (if starts ''/*'' s then st\<lparr>com_errors := com_errors st @ [216]\<rparr> else st)"
        obtain a b c where abc: "collect (hd s) comment skipstar st1 = (a, b, c)" by (cases "collect (hd s) comment skipstar st1")
        then obtain u' where u: "u = CHR '' '' # u'" "strip ctrl single (tl s) a b c = Inr (u', st')"
          using run ne com False by (auto simp: bindR_Inr_iff st1_def Let_def)
        have c: "icomment c \<noteq> 0" using collect_icomment [OF abc] com by (simp add: st1_def)
        have i: "blanked ctrl True (tl s) u' (icomment st' \<noteq> 0)" "clean ctrl u'"
          using "1.IH"(2) [OF ne com False st1_def abc [symmetric] refl u(2)] c by simp_all
        show ?thesis
          using blanked_inside [OF i(1), of "hd s"] clean_blanks [OF i(2), of 1] u(1) ne com False by simp
      qed
    next
      case out: True
      then have out': "\<not> icomment st \<noteq> 0" by simp
      show ?thesis
      proof (cases "starts ''/*'' s")
        case True
        then obtain st1 where b: "block_doc s st = Inr st1" using run ne out by (cases "block_doc s st") auto
        define n :: nat where "n = (if icomment st1 = 2 then 3 else 2)"
        obtain u' where u: "u = replicate n (CHR '' '') @ u'" "strip ctrl single (drop n s) [] True st1 = Inr (u', st')"
          using run ne out True b by (auto simp: bindR_Inr_iff n_def Let_def)
        note bb = block_doc_begins [OF b True]
        have i: "blanked ctrl True (drop n s) u' (icomment st' \<noteq> 0)" "clean ctrl u'"
          using "1.IH"(3) [OF ne out' True b n_def u(2)] bb by simp_all
        have "blanked ctrl False s u (icomment st' \<noteq> 0)"
        proof (cases "icomment st1 = 2")
          case True
          then obtain t where t: "s = ''/*'' @ ''*'' @ t" "\<not> starts ''*/'' (CHR ''*'' # t)" using bb by auto
          have "blanked ctrl True t u' (icomment st' \<noteq> 0)" using i(1) t(1) True by (simp add: n_def)
          from comment [OF blanked_inside [OF this t(2)]] show ?thesis
            using t(1) u(1) True by (simp add: n_def numeral_3_eq_3)
        next
          case False
          then show ?thesis using comment [OF i(1)] starts_drop [OF \<open>starts ''/*'' s\<close>] u(1) by (simp add: n_def numeral_2_eq_2)
        qed
        then show ?thesis using clean_blanks [OF i(2)] u(1) out by simp
      next
        case nb: False
        show ?thesis
        proof (cases "starts ''//'' s")
          case True
          then have u: "u = nl" "line_doc single s st = Inr st'" using run ne out nb by (auto simp: bindR_Inr_iff)
          moreover have "clean ctrl nl" using clean_Nil by (auto intro!: clean_Cons simp: is_quote_def starts_def)
          moreover have "s = ''//'' @ drop 2 s" using starts_drop [OF True] by (simp add: numeral_2_eq_2)
          then have "blanked ctrl False s nl False" by (metis rest_of_line)
          ultimately show ?thesis using line_doc_icomment [OF u(2)] out by simp
        next
          case nl: False
          obtain c t where s: "s = c # t" using ne by (cases s) auto
          show ?thesis
          proof (cases "is_quote c")
            case True
            then obtain lit r u' where l: "literal_end ctrl c c t = Some (lit, r)" "u = c # lit @ u'"
                "strip ctrl single r comment skipstar st = Inr (u', st')"
              using run ne out nb nl s by (auto simp: bindR_Inr_iff split: option.splits)
            have i: "blanked ctrl False r u' (icomment st' \<noteq> 0) \<and> clean ctrl u'"
              using "1.IH"(4) [OF ne out' nb nl] True s l out by simp
            then show ?thesis
              using literal_end_split [OF l(1)] literal [OF literal_end_literal [OF l(1) True], of r u'] clean_literal [OF _ True l(1), of u'] l(2) s out
              by simp
          next
            case False
            then obtain u' where u: "u = c # u'" "strip ctrl single t comment skipstar st = Inr (u', st')"
              using run ne out nb nl s by (auto simp: bindR_Inr_iff)
            have ih: "blanked ctrl False t u' (icomment st' \<noteq> 0)" "clean ctrl u'"
              using "1.IH"(5) [OF ne out' nb nl] False s u(2) out by simp_all
            have "\<not> starts ''/*'' (c # u')" "\<not> starts ''//'' (c # u')"
              using nb nl s blanked_starts [OF ih(1)] by (cases "c = CHR ''/''"; auto simp: starts_second starts_def [of _ "c # _"])+
            then show ?thesis
              using code [OF False _ _ ih(1)] clean_Cons [OF ih(2) False] nb nl u(1) s out by simp
          qed
        qed
      qed
    qed
  qed
qed

text \<open>C18 (\<open>stripcom\<close>): stripping puts a space in the place of every character of a comment, or ends the line where a
  comment to its end begins, and leaves code and literals as they are; a comment that begins in an earlier line
  goes on, and the mark for the next line is set exactly if the line ends in a comment. And no comment is left:
  stripping the result again changes neither the text nor what is known of comments.\<close>
theorem stripping_removes_comments:
  assumes "stripcom ctrl line st = Inr (u, st')" and "icomment st2 = 0"
  shows "blanked ctrl (icomment st \<noteq> 0) line u (icomment st' \<noteq> 0)
    \<and> stripcom ctrl u st2 = Inr (u, st2\<lparr>prev_singleline := False\<rparr>)"
  using strip_result [OF assms(1) [unfolded stripcom_def]] assms(2) by (simp add: clean_def stripcom_def)

definition no_comment :: comments where
  "no_comment = \<lparr>icomment = 0, prev_singleline = False, in_function = False, keep_docs = True, sc_documentation = None,
     com_lists = sample_macros, com_errors = []\<rparr>"

theorem stripping_removes_comments_witness:
  "blanked CHR ''^'' False ''a/*b*/c'' ''a     c'' False
    \<and> stripcom CHR ''^'' ''a     c'' no_comment = Inr (''a     c'', no_comment\<lparr>prev_singleline := False\<rparr>)"
proof -
  have "strip CHR ''^'' False ''a/*b*/c'' [] True no_comment = Inr (''a     c'', no_comment)"
    by (simp add: strip.simps starts_def no_comment_def block_doc_def char_at_def is_quote_def collect_def flush_comment_def
        Let_def numeral_2_eq_2)
  then have "stripcom CHR ''^'' ''a/*b*/c'' no_comment = Inr (''a     c'', no_comment)"
    by (simp add: stripcom_def no_comment_def)
  from stripping_removes_comments [OF this, of no_comment] show ?thesis by (simp add: no_comment_def)
qed

text \<open>A line with an open quote: the line pointer moves behind the terminator, to what earlier lines have left
  in the buffer.\<close>

lemma open_quote_leaves_line: "stripcom CHR ''^'' (''don'' @ [CHR 0x27, CHR ''t'', NL]) no_comment = Inl BufferOverflow"
  by (simp add: stripcom_def strip.simps starts_def no_comment_def is_quote_def)

text \<open>The string of one control character, written as it must be: its closing quote is not seen, because only the
  character in front of a quote is looked at.\<close>

lemma doubled_control_character_hides_quote:
  "stripcom CHR ''^'' ([CHR 0x22] @ ''^^'' @ [CHR 0x22, NL]) no_comment = Inl BufferOverflow"
  by (simp add: stripcom_def strip.simps starts_def no_comment_def is_quote_def)

text \<open>The space for the documentation is counted without the space in front of a line that follows empty
  lines only.\<close>

lemma empty_line_overruns_documentation:
  "attach_global (no_comment\<lparr>sc_documentation := Some ''x'', com_lists := sample_macros\<lparr>docstrings := [[], ''y'']\<rparr>\<rparr>) = Inl BufferOverflow"
  by (simp add: attach_global_def no_comment_def join_doc_def first_byte_def sDOCSEP_def Let_def)

section \<open>Readers of the preprocessor\<close>

definition check_empty :: "string \<Rightarrow> nat list" where
  "check_empty s = (if dropWhile white s \<noteq> [] then [38] else [])"

definition getstring :: "nat \<Rightarrow> string \<Rightarrow> string \<times> string \<times> nat list" where
  "getstring n s =
     (let s1 = dropWhile white s; q = CHR 0x22
      in if char_at s1 0 \<noteq> q then ([], s1, [37])
         else let r = dropWhile (\<lambda>c. c \<noteq> q) (tl s1)
           in (take (n - 1) (takeWhile (\<lambda>c. c \<noteq> q) (tl s1)), tl r, if r = [] then [37] else []))"

end
