(* ===== verification/ScCond.thy ===== *)
theory ScCond
  imports Prelude
begin

text \<open>
  Conditional compilation (\<open>command\<close> of sc2.c): the stack of the directives \<open>#if\<close>, \<open>#elseif\<close>, \<open>#else\<close> and
  \<open>#endif\<close>, and which lines are compiled. The value of an expression is part of the directive here;
  \<open>preproc_expr\<close> is not modelled. The theory shows that exactly the lines of the branches that hold are
  compiled, for nested blocks, and that a second \<open>#else\<close> goes unnoticed.
\<close>

section \<open>The directives\<close>

definition sCOMP_STACK :: nat where "sCOMP_STACK = 32"
definition SKIPMODE :: nat where "SKIPMODE = 1"
definition PARSEMODE :: nat where "PARSEMODE = 2"
definition HANDLED_ELSE :: nat where "HANDLED_ELSE = 4"

text \<open>\<open>ifstack\<close> keeps what earlier directives left in it.\<close>

record cond =
  iflevel :: nat
  skiplevel :: nat
  ifstack :: "nat list"

definition skipping :: "cond \<Rightarrow> bool" where
  "skipping s \<longleftrightarrow> 0 < skiplevel s \<and> odd (ifstack s ! (skiplevel s - 1))"

datatype directive = DLine nat | DIf bool | DElseIf bool | DElse | DEndIf

definition set_top :: "nat \<Rightarrow> cond \<Rightarrow> cond" where
  "set_top v s = s\<lparr>ifstack := (ifstack s)[iflevel s - 1 := v]\<rparr>"

definition mode_of :: "bool \<Rightarrow> nat" where "mode_of b = (if b then PARSEMODE else SKIPMODE)"

text \<open>One directive, or a line of the program: the state, the lines that are compiled, and the errors.\<close>

fun command :: "directive \<Rightarrow> cond \<Rightarrow> (cond \<times> nat list \<times> nat list) result" where
  "command (DLine n) s = Inr (s, if skipping s then [] else [n], [])"
| "command (DIf b) s =
     (if sCOMP_STACK \<le> iflevel s then Inl (Fatal 102)
      else let s1 = s\<lparr>iflevel := iflevel s + 1\<rparr>
           in if skipping s1 then Inr (s1, [], [])
              else Inr (set_top (mode_of b) (s1\<lparr>skiplevel := iflevel s1\<rparr>), [], []))"
| "command (DElseIf b) s =
     (if iflevel s = 0 then Inr (s, [], [26])
      else let top = ifstack s ! (iflevel s - 1)
           in if top AND HANDLED_ELSE = HANDLED_ELSE then Inr (s, [], [61])
              else if top AND PARSEMODE = PARSEMODE then Inr (set_top (top OR SKIPMODE) s, [], [])
              else Inr (set_top (mode_of b) s, [], []))"
| "command DElse s =
     (if iflevel s = 0 then Inr (s, [], [26])
      else let top = ifstack s ! (iflevel s - 1)
           in if top AND HANDLED_ELSE = HANDLED_ELSE then Inr (s, [], [60])
              else if top AND PARSEMODE = PARSEMODE then Inr (set_top (top OR SKIPMODE) s, [], [])
              else Inr (set_top (top - top mod 2) s, [], []))"
| "command DEndIf s =
     (if iflevel s = 0 then Inr (s, [], [26])
      else let n = iflevel s - 1 in Inr (s\<lparr>iflevel := n, skiplevel := min n (skiplevel s)\<rparr>, [], []))"

fun commands :: "directive list \<Rightarrow> cond \<Rightarrow> (cond \<times> nat list \<times> nat list) result" where
  "commands [] s = Inr (s, [], [])"
| "commands (d # ds) s =
     bindR (command d s) (\<lambda>(s1, ls, es). bindR (commands ds s1) (\<lambda>(s2, ls2, es2). Inr (s2, ls @ ls2, es @ es2)))"

section \<open>What is meant\<close>

text \<open>A program consists of lines and blocks. A block has a first branch, and more branches or a last one
  for when none of the conditions holds.\<close>

datatype prog = Done | Line nat prog | Block bool prog "branches" prog
  and branches = EndIf | Else prog | ElseIf bool prog branches

fun prog_text :: "prog \<Rightarrow> directive list" and branches_text :: "branches \<Rightarrow> directive list" where
  "prog_text Done = []"
| "prog_text (Line n p) = DLine n # prog_text p"
| "prog_text (Block b p bs q) = DIf b # prog_text p @ branches_text bs @ DEndIf # prog_text q"
| "branches_text EndIf = []"
| "branches_text (Else p) = DElse # prog_text p"
| "branches_text (ElseIf b p bs) = DElseIf b # prog_text p @ branches_text bs"

fun selected :: "prog \<Rightarrow> nat list" and chosen :: "branches \<Rightarrow> nat list" where
  "selected Done = []"
| "selected (Line n p) = n # selected p"
| "selected (Block b p bs q) = (if b then selected p else chosen bs) @ selected q"
| "chosen EndIf = []"
| "chosen (Else p) = selected p"
| "chosen (ElseIf b p bs) = (if b then selected p else chosen bs)"

fun depth :: "prog \<Rightarrow> nat" and branches_depth :: "branches \<Rightarrow> nat" where
  "depth Done = 0"
| "depth (Line n p) = depth p"
| "depth (Block b p bs q) = max (1 + max (depth p) (branches_depth bs)) (depth q)"
| "branches_depth EndIf = 0"
| "branches_depth (Else p) = depth p"
| "branches_depth (ElseIf b p bs) = max (depth p) (branches_depth bs)"

section \<open>Which lines are compiled\<close>

definition cond_ok :: "cond \<Rightarrow> bool" where
  "cond_ok s \<longleftrightarrow> length (ifstack s) = sCOMP_STACK \<and> list_all (\<lambda>v. v < 4) (ifstack s) \<and> skiplevel s \<le> iflevel s
     \<and> (skipping s \<or> skiplevel s = iflevel s)"

definition same_below :: "nat \<Rightarrow> cond \<Rightarrow> cond \<Rightarrow> bool" where
  "same_below n s t \<longleftrightarrow> iflevel t = iflevel s \<and> skiplevel t = skiplevel s \<and> take n (ifstack t) = take n (ifstack s)
     \<and> length (ifstack t) = sCOMP_STACK \<and> list_all (\<lambda>v. v < 4) (ifstack t)"

definition runs :: "directive list \<Rightarrow> cond \<Rightarrow> nat list \<Rightarrow> cond \<Rightarrow> bool" where
  "runs ds s ls t \<longleftrightarrow> commands ds s = Inr (t, ls, [])"

lemma runs_Nil: "runs [] s [] s"
  by (simp add: runs_def)

lemma runs_Cons: "command d s = Inr (t, ls, []) \<Longrightarrow> runs ds t ls' u \<Longrightarrow> runs (d # ds) s (ls @ ls') u"
  by (simp add: runs_def)

lemma runs_append: "runs ds s ls t \<Longrightarrow> runs ds' t ls' u \<Longrightarrow> runs (ds @ ds') s (ls @ ls') u"
  by (induction ds arbitrary: s ls) (auto simp: runs_def bindR_Inr_iff)

lemma below_4: "v < 4 \<Longrightarrow> v = 0 \<or> v = 1 \<or> v = 2 \<or> v = (3 :: nat)"
  by auto

lemma mode_bits:
  assumes "v < 4"
  shows "v AND HANDLED_ELSE \<noteq> HANDLED_ELSE" and "v AND PARSEMODE = PARSEMODE \<longleftrightarrow> 2 \<le> v"
    and "2 \<le> v \<Longrightarrow> v OR SKIPMODE = 3" and "v < 2 \<Longrightarrow> v - v mod 2 = 0"
  using below_4 [OF assms] by (auto simp: HANDLED_ELSE_def PARSEMODE_def SKIPMODE_def)

lemma same_trans: "same_below n s t \<Longrightarrow> same_below m t u \<Longrightarrow> n \<le> m \<Longrightarrow> same_below n s u"
  by (auto simp: same_below_def) (metis min.absorb1 take_take)

lemma same_nth: "same_below n s t \<Longrightarrow> i < n \<Longrightarrow> ifstack t ! i = ifstack s ! i"
  unfolding same_below_def by (metis nth_take)

lemma same_skipping: "same_below n s t \<Longrightarrow> skiplevel s \<le> n \<Longrightarrow> skipping t = skipping s"
  using same_nth [of n s t "skiplevel s - 1"] by (auto simp: skipping_def same_below_def)

lemma same_ok: "same_below n s t \<Longrightarrow> skiplevel s \<le> n \<Longrightarrow> cond_ok s \<Longrightarrow> cond_ok t"
  using same_skipping [of n s t] by (auto simp: cond_ok_def same_below_def)

lemma set_top_same:
  "cond_ok s \<Longrightarrow> 0 < iflevel s \<Longrightarrow> v < 4 \<Longrightarrow> same_below (iflevel s - 1) s (set_top v s)"
  by (auto simp: same_below_def set_top_def cond_ok_def list_all_iff dest: set_update_subset_insert [THEN subsetD])

lemma set_top_top: "cond_ok s \<Longrightarrow> 0 < iflevel s \<Longrightarrow> iflevel s \<le> sCOMP_STACK \<Longrightarrow> ifstack (set_top v s) ! (iflevel s - 1) = v"
  by (simp add: set_top_def cond_ok_def)

lemma set_top_skipping:
  assumes "cond_ok s" and "0 < iflevel s" and "iflevel s \<le> sCOMP_STACK"
  shows "skipping (set_top v s) = (if skiplevel s = iflevel s then odd v else skipping s)"
  using assms by (auto simp: skipping_def set_top_def cond_ok_def nth_list_update)

definition prog_runs :: "prog \<Rightarrow> bool" where
  "prog_runs p \<longleftrightarrow> (\<forall>s. cond_ok s \<and> iflevel s + depth p \<le> sCOMP_STACK \<longrightarrow>
     (\<exists>t. runs (prog_text p) s (if skipping s then [] else selected p) t \<and> same_below (iflevel s) s t))"

definition branches_run :: "branches \<Rightarrow> bool" where
  "branches_run bs \<longleftrightarrow> (\<forall>s. cond_ok s \<and> 0 < iflevel s \<and> iflevel s + branches_depth bs \<le> sCOMP_STACK
       \<and> (skiplevel s = iflevel s \<longrightarrow> ifstack s ! (iflevel s - 1) \<noteq> 0) \<longrightarrow>
     (\<exists>t. runs (branches_text bs) s (if skiplevel s = iflevel s \<and> ifstack s ! (iflevel s - 1) = 1 then chosen bs else []) t
        \<and> same_below (iflevel s - 1) s t))"

lemma top_below_4: "cond_ok s \<Longrightarrow> 0 < iflevel s \<Longrightarrow> iflevel s \<le> sCOMP_STACK \<Longrightarrow> ifstack s ! (iflevel s - 1) < 4"
  by (auto simp: cond_ok_def list_all_length)

text \<open>The lines of a branch, when its directive has set the mode to \<open>v\<close>.\<close>

lemma branch_lines:
  assumes "prog_runs p" and "cond_ok s" and "0 < iflevel s" and "iflevel s + depth p \<le> sCOMP_STACK" and "v < 4"
  shows "\<exists>t. runs (prog_text p) (set_top v s) (if skiplevel s = iflevel s \<and> even v then selected p else []) t
    \<and> cond_ok t \<and> same_below (iflevel s - 1) s t \<and> ifstack t ! (iflevel s - 1) = v"
proof -
  let ?s = "set_top v s"
  have f: "iflevel ?s = iflevel s" "skiplevel ?s = skiplevel s" by (simp_all add: set_top_def)
  have sk: "skipping ?s = (if skiplevel s = iflevel s then odd v else skipping s)"
    using assms(2-4) by (intro set_top_skipping) simp_all
  have sm: "same_below (iflevel s - 1) s ?s" using assms(2,3,5) by (rule set_top_same)
  have ok: "cond_ok ?s" using assms(2) sm sk by (auto simp: cond_ok_def same_below_def)
  obtain t where t: "runs (prog_text p) ?s (if skipping ?s then [] else selected p) t" "same_below (iflevel s) ?s t"
    using assms(1) [unfolded prog_runs_def, rule_format, of ?s] assms(4) ok f by auto
  have "(if skipping ?s then [] else selected p) = (if skiplevel s = iflevel s \<and> even v then selected p else [])"
    using sk assms(2) by (auto simp: cond_ok_def)
  with t(1) have "runs (prog_text p) ?s (if skiplevel s = iflevel s \<and> even v then selected p else []) t" by simp
  moreover have "cond_ok t" using ok f by (intro same_ok [OF t(2)]) (auto simp: cond_ok_def)
  moreover have "same_below (iflevel s - 1) s t" using sm t(2) by (rule same_trans) simp
  moreover have "ifstack t ! (iflevel s - 1) = v"
    using same_nth [OF t(2), of "iflevel s - 1"] set_top_top [OF assms(2,3)] assms(3,4) by simp
  ultimately show ?thesis by blast
qed

lemma else_command:
  assumes "cond_ok s" and "0 < iflevel s" and "iflevel s \<le> sCOMP_STACK"
  shows "command DElse s = Inr (set_top (if 2 \<le> ifstack s ! (iflevel s - 1) then 3 else 0) s, [], [])"
    and "command (DElseIf b) s = Inr (set_top (if 2 \<le> ifstack s ! (iflevel s - 1) then 3 else mode_of b) s, [], [])"
  using assms(2) mode_bits [OF top_below_4 [OF assms]] by (auto simp: Let_def)

lemma runs_else:
  assumes "prog_runs p"
  shows "branches_run (Else p)"
  unfolding branches_run_def
proof (intro allI impI, elim conjE)
  fix s
  assume s: "cond_ok s" "0 < iflevel s" "iflevel s + branches_depth (Else p) \<le> sCOMP_STACK"
    and nz: "skiplevel s = iflevel s \<longrightarrow> ifstack s ! (iflevel s - 1) \<noteq> 0"
  let ?top = "ifstack s ! (iflevel s - 1)"
  define v :: nat where "v = (if 2 \<le> ?top then 3 else 0)"
  have le: "iflevel s \<le> sCOMP_STACK" using s(3) by simp
  have "iflevel s + depth p \<le> sCOMP_STACK" "v < 4" using s(3) by (simp_all add: v_def)
  from branch_lines [OF assms s(1,2) this]
  obtain t where t: "runs (prog_text p) (set_top v s) (if skiplevel s = iflevel s \<and> even v then selected p else []) t"
      "same_below (iflevel s - 1) s t" by blast
  have eq: "(if skiplevel s = iflevel s \<and> even v then selected p else []) = (if skiplevel s = iflevel s \<and> ?top = 1 then selected p else [])"
    using nz by (auto simp: v_def)
  have "runs (branches_text (Else p)) s (if skiplevel s = iflevel s \<and> ?top = 1 then chosen (Else p) else []) t"
    using runs_Cons [OF else_command(1) [OF s(1,2) le, folded v_def] t(1)] unfolding eq branches_text.simps chosen.simps append_Nil .
  then show "\<exists>t. runs (branches_text (Else p)) s (if skiplevel s = iflevel s \<and> ?top = 1 then chosen (Else p) else []) t
      \<and> same_below (iflevel s - 1) s t" using t(2) by blast
qed

lemma runs_elseif:
  assumes "prog_runs p" and "branches_run bs"
  shows "branches_run (ElseIf b p bs)"
  unfolding branches_run_def
proof (intro allI impI, elim conjE)
  fix s
  assume s: "cond_ok s" "0 < iflevel s" "iflevel s + branches_depth (ElseIf b p bs) \<le> sCOMP_STACK"
    and nz: "skiplevel s = iflevel s \<longrightarrow> ifstack s ! (iflevel s - 1) \<noteq> 0"
  let ?top = "ifstack s ! (iflevel s - 1)"
  define v where "v = (if 2 \<le> ?top then 3 else mode_of b)"
  have le: "iflevel s \<le> sCOMP_STACK" using s(3) by simp
  have v: "v < 4" "v \<noteq> 0" by (simp_all add: v_def mode_of_def PARSEMODE_def SKIPMODE_def)
  have "iflevel s + depth p \<le> sCOMP_STACK" using s(3) by simp
  from branch_lines [OF assms(1) s(1,2) this v(1)]
  obtain t where t: "runs (prog_text p) (set_top v s) (if skiplevel s = iflevel s \<and> even v then selected p else []) t"
      "cond_ok t" "same_below (iflevel s - 1) s t" "ifstack t ! (iflevel s - 1) = v" by blast
  have f: "iflevel t = iflevel s" "skiplevel t = skiplevel s" using t(3) by (simp_all add: same_below_def)
  have bd: "iflevel s + branches_depth bs \<le> sCOMP_STACK" using s(3) by simp
  obtain u where u: "runs (branches_text bs) t (if skiplevel s = iflevel s \<and> v = 1 then chosen bs else []) u"
      "same_below (iflevel s - 1) t u"
    using assms(2) [unfolded branches_run_def, rule_format, of t] s(2) t(2,4) f v(2) bd by auto
  have eq: "(if skiplevel s = iflevel s \<and> even v then selected p else []) @ (if skiplevel s = iflevel s \<and> v = 1 then chosen bs else [])
      = (if skiplevel s = iflevel s \<and> ?top = 1 then chosen (ElseIf b p bs) else [])"
    using nz by (auto simp: v_def mode_of_def PARSEMODE_def SKIPMODE_def)
  have "runs (branches_text (ElseIf b p bs)) s (if skiplevel s = iflevel s \<and> ?top = 1 then chosen (ElseIf b p bs) else []) u"
    using runs_Cons [OF else_command(2) [OF s(1,2) le, of b, folded v_def] runs_append [OF t(1) u(1)]]
    unfolding eq branches_text.simps append_Nil .
  moreover
  have "same_below (iflevel s - 1) s u" using t(3) u(2) by (rule same_trans) simp
  ultimately show "\<exists>t. runs (branches_text (ElseIf b p bs)) s (if skiplevel s = iflevel s \<and> ?top = 1 then chosen (ElseIf b p bs) else []) t
      \<and> same_below (iflevel s - 1) s t" by blast
qed

lemma runs_block:
  assumes "prog_runs p" and "branches_run bs" and "prog_runs q"
  shows "prog_runs (Block b p bs q)"
  unfolding prog_runs_def
proof (intro allI impI, elim conjE)
  fix s
  assume s: "cond_ok s" "iflevel s + depth (Block b p bs q) \<le> sCOMP_STACK"
  have dp: "iflevel s + 1 + depth p \<le> sCOMP_STACK" "iflevel s + 1 + branches_depth bs \<le> sCOMP_STACK" "iflevel s + depth q \<le> sCOMP_STACK"
    "iflevel s < sCOMP_STACK" using s(2) by simp_all
  define v where "v = (if skipping s then ifstack s ! iflevel s else mode_of b)"
  define s0 where "s0 = s\<lparr>iflevel := iflevel s + 1, skiplevel := if skipping s then skiplevel s else iflevel s + 1\<rparr>"
  have v: "v < 4" "\<not> skipping s \<longrightarrow> v = mode_of b"
    using s(1) dp(4) by (auto simp: v_def mode_of_def PARSEMODE_def SKIPMODE_def cond_ok_def list_all_length)
  have f0: "iflevel s0 = iflevel s + 1" "ifstack s0 = ifstack s" "0 < iflevel s0" "skiplevel s0 = iflevel s0 \<longleftrightarrow> \<not> skipping s"
    using s(1) by (auto simp: s0_def cond_ok_def)
  have ok0: "cond_ok s0" using s(1) by (auto simp: s0_def cond_ok_def skipping_def)
  have start: "command (DIf b) s = Inr (set_top v s0, [], [])"
    using dp(4) f0 s(1) by (auto simp: Let_def skipping_def s0_def set_top_def v_def)
  have "iflevel s0 + depth p \<le> sCOMP_STACK" using dp(1) f0(1) by simp
  have e: "iflevel s0 - 1 = iflevel s" using f0(1) by simp
  from branch_lines [OF assms(1) ok0 f0(3) \<open>iflevel s0 + depth p \<le> sCOMP_STACK\<close> v(1)]
  obtain t where t: "runs (prog_text p) (set_top v s0) (if \<not> skipping s \<and> even v then selected p else []) t"
      "cond_ok t" "same_below (iflevel s) s0 t" "ifstack t ! iflevel s = v"
    unfolding f0(4) e by blast
  have ft: "iflevel t = iflevel s + 1" "skiplevel t = skiplevel s0" using t(3) f0(1) by (simp_all add: same_below_def)
  have "skiplevel t = iflevel t \<longrightarrow> ifstack t ! (iflevel t - 1) \<noteq> 0"
    using ft t(4) v(2) f0(1,4) by (simp add: mode_of_def PARSEMODE_def SKIPMODE_def)
  then obtain u where u: "runs (branches_text bs) t (if \<not> skipping s \<and> v = 1 then chosen bs else []) u" "same_below (iflevel s) t u"
    using assms(2) [unfolded branches_run_def, rule_format, of t] t(2,4) dp(2) ft f0(1,4) by auto
  define w where "w = u\<lparr>iflevel := iflevel s, skiplevel := min (iflevel s) (skiplevel s0)\<rparr>"
  have su: "same_below (iflevel s) s0 u" using t(3) u(2) by (rule same_trans) simp
  then have stop: "command DEndIf u = Inr (w, [], [])" using f0(1) by (simp add: w_def same_below_def Let_def)
  have "same_below (iflevel s) s w"
    using su s(1) f0(2) by (auto simp: same_below_def w_def s0_def cond_ok_def)
  moreover have "skiplevel s \<le> iflevel s" using s(1) by (simp add: cond_ok_def)
  ultimately have w: "same_below (iflevel s) s w" "cond_ok w" "skipping w = skipping s" "iflevel w = iflevel s"
    using same_ok [of "iflevel s" s w] same_skipping [of "iflevel s" s w] s(1) by (auto simp: same_below_def)
  obtain x where x: "runs (prog_text q) w (if skipping s then [] else selected q) x" "same_below (iflevel s) w x"
    using assms(3) [unfolded prog_runs_def, rule_format, of w] w dp(3) by auto
  have eq: "(if \<not> skipping s \<and> even v then selected p else []) @ (if \<not> skipping s \<and> v = 1 then chosen bs else [])
      @ [] @ (if skipping s then [] else selected q) = (if skipping s then [] else selected (Block b p bs q))"
    using v(2) by (auto simp: mode_of_def PARSEMODE_def SKIPMODE_def)
  have "runs (prog_text (Block b p bs q)) s (if skipping s then [] else selected (Block b p bs q)) x"
    using runs_Cons [OF start runs_append [OF t(1) runs_append [OF u(1) runs_Cons [OF stop x(1)]]]]
    unfolding eq prog_text.simps by simp
  moreover have "same_below (iflevel s) s x" using w(1) x(2) by (rule same_trans) simp
  ultimately show "\<exists>t. runs (prog_text (Block b p bs q)) s (if skipping s then [] else selected (Block b p bs q)) t
      \<and> same_below (iflevel s) s t" by blast
qed

lemma all_run: "prog_runs p" and branches_all_run: "branches_run bs"
proof (induction p and bs)
  case Done
  then show ?case by (auto simp: prog_runs_def same_below_def cond_ok_def intro!: runs_Nil)
next
  case (Line n p)
  show ?case unfolding prog_runs_def
  proof (intro allI impI, elim conjE)
    fix s
    assume s: "cond_ok s" "iflevel s + depth (Line n p) \<le> sCOMP_STACK"
    then obtain t where "runs (prog_text p) s (if skipping s then [] else selected p) t" "same_below (iflevel s) s t"
      using Line by (auto simp: prog_runs_def)
    moreover have "command (DLine n) s = Inr (s, if skipping s then [] else [n], [])" by simp
    ultimately show "\<exists>t. runs (prog_text (Line n p)) s (if skipping s then [] else selected (Line n p)) t \<and> same_below (iflevel s) s t"
      using runs_Cons by fastforce
  qed
next
  case EndIf
  then show ?case by (auto simp: branches_run_def same_below_def cond_ok_def intro!: runs_Nil)
qed (simp_all add: runs_block runs_else runs_elseif)

text \<open>C11 (\<open>command\<close>): of a program in which every block has at most one \<open>#else\<close>, as its last branch, and blocks
  are nested at most 32 deep, exactly the lines of the branches that hold are compiled, without an error, and
  the level is back where it was.\<close>
theorem conditional_lines_selected:
  assumes "depth p \<le> sCOMP_STACK" and "length st = sCOMP_STACK" and "list_all (\<lambda>v. v < 4) st"
  shows "\<exists>t. commands (prog_text p) \<lparr>iflevel = 0, skiplevel = 0, ifstack = st\<rparr> = Inr (t, selected p, [])
    \<and> iflevel t = 0 \<and> skiplevel t = 0"
proof -
  let ?s = "\<lparr>iflevel = 0, skiplevel = 0, ifstack = st\<rparr>"
  have "cond_ok ?s" "\<not> skipping ?s" using assms(2,3) by (auto simp: cond_ok_def skipping_def)
  then obtain t where "runs (prog_text p) ?s (selected p) t" "same_below 0 ?s t"
    using all_run [of p, unfolded prog_runs_def, rule_format, of ?s] assms(1) by auto
  then show ?thesis by (auto simp: runs_def same_below_def)
qed

theorem conditional_lines_selected_witness:
  "\<exists>t. commands (prog_text (Block False (Line 1 Done) (Else (Block True (Line 2 Done) EndIf (Line 3 Done))) (Line 4 Done)))
      \<lparr>iflevel = 0, skiplevel = 0, ifstack = replicate 32 0\<rparr>
    = Inr (t, selected (Block False (Line 1 Done) (Else (Block True (Line 2 Done) EndIf (Line 3 Done))) (Line 4 Done)), [])
    \<and> iflevel t = 0 \<and> skiplevel t = 0"
  by (rule conditional_lines_selected) (simp_all add: sCOMP_STACK_def list_all_iff)

text \<open>No directive sets \<open>HANDLED_ELSE\<close>: a second \<open>#else\<close> is not reported, and its lines are compiled too.\<close>

lemma second_else_unnoticed:
  "\<exists>t. commands [DIf False, DLine 1, DElse, DLine 2, DElse, DLine 3, DEndIf] \<lparr>iflevel = 0, skiplevel = 0, ifstack = replicate 32 0\<rparr>
    = Inr (t, [2, 3], [])"
  by (simp add: sCOMP_STACK_def skipping_def set_top_def mode_of_def SKIPMODE_def PARSEMODE_def HANDLED_ELSE_def Let_def)

end
