(* ===== verification/ScErrors.thy ===== *)
theory ScErrors
  imports ScStage
begin

text \<open>
  The counting of errors and warnings (sc5.c): which messages are reported, when the compiler gives up, and
  the switches of the warnings. The text of the messages is left out; the reported numbers are collected with
  the line and file at which they were reported.
\<close>

section \<open>Reporting\<close>

definition NUM_WARNINGS :: nat where "NUM_WARNINGS = 33"

text \<open>The names of the counters in the code are \<open>errnum\<close> and \<open>warnnum\<close>; \<open>errors_on_line\<close> is the static
  variable \<open>errorcount\<close>; \<open>to_console\<close> says that no file for the messages was named. An aborted compilation is a fault with the number of the last message.\<close>

record errstate =
  errflag :: bool
  errnum :: nat
  warnnum :: nat
  errors_on_line :: nat
  lastline :: int
  lastfile :: int
  errstart :: int
  err_line :: int
  err_file :: int
  warndisable :: "byte list"
  err_status :: status
  to_console :: bool
  reported :: "(nat \<times> int \<times> int) list"

definition muted :: "nat \<Rightarrow> errstate \<Rightarrow> bool" where
  "muted n s \<longleftrightarrow> (errflag s \<or> err_status s \<noteq> StatWRITE) \<and> (n < 100 \<or> 200 \<le> n)"

definition disabled :: "nat \<Rightarrow> errstate \<Rightarrow> bool" where
  "disabled n s \<longleftrightarrow> 200 \<le> n \<and> warndisable s ! ((n - 200) div 8) AND push_bit ((n - 200) mod 8) 1 \<noteq> 0"

definition count_message :: "nat \<Rightarrow> errstate \<Rightarrow> errstate" where
  "count_message n s =
     (if n < 100 then s\<lparr>errflag := True, errnum := errnum s + 1\<rparr>
      else if n < 200 then s\<lparr>errnum := errnum s + 1\<rparr>
      else s\<lparr>warnnum := warnnum s + 1\<rparr>)"

definition other_line :: "errstate \<Rightarrow> bool" where
  "other_line s \<longleftrightarrow> errstart s < 0 \<and> lastline s \<noteq> err_line s \<or> lastline s < errstart s \<or> err_line s < lastline s
     \<or> err_file s \<noteq> lastfile s"

text \<open>\<open>pc_error\<close> of libpawnc.c and of sc1.c prints the message and never asks to stop; an answer other than
  zero would be the user's wish to abort.\<close>

definition pc_error :: "nat \<Rightarrow> nat" where "pc_error number = 0"

definition error :: "nat \<Rightarrow> errstate \<Rightarrow> errstate result" where
  "error n s =
     (if muted n s \<or> disabled n s then Inr s
      else let s1 = (count_message n s)\<lparr>reported := reported s @ [(n, err_line s, err_file s)]\<rparr>
        in bindR (assertR (errstart s \<le> err_line s)) (\<lambda>_.
             if to_console s \<and> pc_error n \<noteq> 0 then Inl (Fatal n)
             else if 100 \<le> n \<and> n < 200 \<or> 25 < errnum s1 then Inl (Fatal n)
             else let k = (if other_line s1 then 0 else errors_on_line s1) + (if n < 200 then 1 else 0)
               in if 3 \<le> k then Inl (Fatal 107)
                  else Inr (s1\<lparr>lastline := err_line s, lastfile := err_file s, errors_on_line := k\<rparr>)))"

datatype errcode = ResetFlag | ForceFlag | ExprMark | ExprRelease

fun errorset :: "errcode \<Rightarrow> errstate \<Rightarrow> errstate" where
  "errorset ResetFlag s = s\<lparr>errflag := False\<rparr>"
| "errorset ForceFlag s = s\<lparr>errflag := True\<rparr>"
| "errorset ExprMark s = s\<lparr>errstart := err_line s\<rparr>"
| "errorset ExprRelease s = s\<lparr>errstart := -1\<rparr>"

definition pc_enablewarning :: "nat \<Rightarrow> nat \<Rightarrow> errstate \<Rightarrow> bool \<times> errstate" where
  "pc_enablewarning number enable s =
     (if number < 200 \<or> NUM_WARNINGS \<le> number - 200 then (False, s)
      else let n = number - 200; i = n div 8; mask = push_bit (n mod 8) 1; w = warndisable s;
               v = (if enable = 0 then w ! i OR mask else if enable = 1 then w ! i AND NOT mask
                    else if enable = 2 then w ! i XOR mask else w ! i)
           in (True, s\<lparr>warndisable := w[i := v]\<rparr>))"

section \<open>The switches of the warnings\<close>

lemma mask_bit: "k < 8 \<Longrightarrow> bit (2 ^ k :: byte) j \<longleftrightarrow> j = k"
  by (auto simp: bit_exp_iff)

lemma masked_bits:
  fixes b :: byte
  assumes "k < 8" and "j < 8"
  shows "bit (b OR 2 ^ k) j \<longleftrightarrow> bit b j \<or> j = k" and "bit (b AND NOT (2 ^ k)) j \<longleftrightarrow> bit b j \<and> j \<noteq> k"
    and "bit (b XOR 2 ^ k) j \<longleftrightarrow> bit b j \<noteq> (j = k)"
  using assms by (auto simp: bit_or_iff bit_and_iff bit_xor_iff bit_not_iff mask_bit)

definition is_warning :: "nat \<Rightarrow> bool" where "is_warning n \<longleftrightarrow> 200 \<le> n \<and> n < 200 + NUM_WARNINGS"

text \<open>\<open>pc_enablewarning\<close>, \<open>error\<close>: a switch disables, enables or toggles the reports of its warning and
  of no other.\<close>
theorem warning_switch:
  assumes "length (warndisable s) = (NUM_WARNINGS + 7) div 8" and "is_warning n" and "is_warning m"
  shows "fst (pc_enablewarning n enable s)
    \<and> disabled m (snd (pc_enablewarning n enable s))
      = (if m \<noteq> n \<or> 2 < enable then disabled m s else enable = 0 \<or> enable = 2 \<and> \<not> disabled m s)"
proof -
  define i k i' k' where "i = (n - 200) div 8" and "k = (n - 200) mod 8" and "i' = (m - 200) div 8" and "k' = (m - 200) mod 8"
  note d = i_def k_def i'_def k'_def
  have len: "i < length (warndisable s)" "k < 8" "k' < 8" "200 \<le> n" "200 \<le> m"
    using assms by (auto simp: is_warning_def NUM_WARNINGS_def d)
  have dis: "disabled m t \<longleftrightarrow> bit (warndisable t ! i') k'" for t using len(5) by (simp add: disabled_def and_exp_eq_0_iff_not_bit d)
  have eq: "m = n \<longleftrightarrow> i' = i \<and> k' = k"
  proof
    assume "i' = i \<and> k' = k"
    then have "m - 200 = n - 200" unfolding d by (metis div_mult_mod_eq)
    then show "m = n" using len(4,5) by simp
  qed (simp add: d)
  define w where "w = warndisable s ! i"
  define v where "v = (if enable = 0 then w OR 2 ^ k else if enable = 1 then w AND NOT (2 ^ k) else if enable = 2 then w XOR 2 ^ k else w)"
  have "\<not> (n < 200 \<or> NUM_WARNINGS \<le> n - 200)" using assms(2) by (auto simp: is_warning_def)
  then have r: "pc_enablewarning n enable s = (True, s\<lparr>warndisable := (warndisable s)[i := v]\<rparr>)"
    by (simp add: pc_enablewarning_def Let_def v_def w_def d)
  have "bit v k' = (if k' \<noteq> k \<or> 2 < enable then bit w k' else enable = 0 \<or> enable = 2 \<and> \<not> bit w k')"
    using masked_bits [OF len(2,3), of w] by (auto simp: v_def)
  then show ?thesis using len(1) unfolding r dis eq by (cases "i' = i") (auto simp: w_def)
qed

definition no_errors :: errstate where
  "no_errors = \<lparr>errflag = False, errnum = 0, warnnum = 0, errors_on_line = 0, lastline = 0, lastfile = 0, errstart = -1,
     err_line = 0, err_file = 0, warndisable = replicate 5 0, err_status = StatIDLE, to_console = True, reported = []\<rparr>"

theorem warning_switch_witness:
  "fst (pc_enablewarning 217 0 no_errors)
    \<and> disabled 217 (snd (pc_enablewarning 217 0 no_errors))
      = (if (217 :: nat) \<noteq> 217 \<or> 2 < (0 :: nat) then disabled 217 no_errors else (0 :: nat) = 0 \<or> (0 :: nat) = 2 \<and> \<not> disabled 217 no_errors)"
  by (rule warning_switch) (simp_all add: no_errors_def is_warning_def NUM_WARNINGS_def)

section \<open>When the compiler gives up\<close>

text \<open>What can happen to the counters while the compiler runs.\<close>

inductive err_step :: "errstate \<Rightarrow> errstate \<Rightarrow> bool" where
  report: "error n s = Inr t \<Longrightarrow> err_step s t"
| set_flag: "err_step s (errorset c s)"
| switch: "err_step s (snd (pc_enablewarning n enable s))"
| read_line: "err_step s (s\<lparr>err_line := l, err_file := f\<rparr>)"
| change_pass: "err_step s (s\<lparr>err_status := st\<rparr>)"

inductive_cases err_stepE: "err_step s t"

definition errors_in :: "(nat \<times> int \<times> int) list \<Rightarrow> nat" where
  "errors_in rs = length (filter (\<lambda>r. fst r < 200) rs)"

definition warnings_in :: "(nat \<times> int \<times> int) list \<Rightarrow> nat" where
  "warnings_in rs = length (filter (\<lambda>r. 200 \<le> fst r) rs)"

definition at_place :: "int \<times> int \<Rightarrow> (nat \<times> int \<times> int) list \<Rightarrow> bool" where
  "at_place p rs \<longleftrightarrow> (\<forall>r \<in> set rs. snd r = p)"

lemma errors_in_simps [simp]:
  "errors_in [] = 0" "errors_in (rs @ qs) = errors_in rs + errors_in qs"
  "errors_in [r] = (if fst r < 200 then 1 else 0)"
  "warnings_in [] = 0" "warnings_in (rs @ qs) = warnings_in rs + warnings_in qs"
  "warnings_in [r] = (if 200 \<le> fst r then 1 else 0)"
  by (simp_all add: errors_in_def warnings_in_def)

lemma at_place_simps [simp]: "at_place p []" "at_place p (rs @ qs) \<longleftrightarrow> at_place p rs \<and> at_place p qs" "at_place p [r] \<longleftrightarrow> snd r = p"
  by (auto simp: at_place_def)

definition counted :: "errstate \<Rightarrow> bool" where
  "counted s \<longleftrightarrow> errnum s \<le> 25 \<and> errors_on_line s \<le> 2
     \<and> errnum s = errors_in (reported s) \<and> warnnum s = warnings_in (reported s)
     \<and> length (warndisable s) = (NUM_WARNINGS + 7) div 8"

text \<open>The messages that were reported one after the other from one line are within the count for the line:
  the last ones at the place of the last message, and two at most anywhere before.\<close>

definition few_on_a_line :: "errstate \<Rightarrow> bool" where
  "few_on_a_line s \<longleftrightarrow>
     (reported s \<noteq> [] \<longrightarrow> snd (last (reported s)) = (lastline s, lastfile s))
     \<and> (\<forall>xs ys. reported s = xs @ ys \<longrightarrow> at_place (lastline s, lastfile s) ys \<longrightarrow> errors_in ys \<le> errors_on_line s)
     \<and> (\<forall>p xs ys zs. reported s = xs @ ys @ zs \<longrightarrow> at_place p ys \<longrightarrow> errors_in ys \<le> 2)"

lemma counted_error: "error n s = Inr t \<Longrightarrow> counted s \<Longrightarrow> counted t"
  by (auto simp: error_def counted_def count_message_def Let_def bindR_Inr_iff split: if_splits)

lemma error_reports:
  assumes "error n s = Inr t"
  shows "t = s \<or> (reported t = reported s @ [(n, err_line s, err_file s)] \<and> lastline t = err_line s \<and> lastfile t = err_file s
    \<and> errstart s \<le> err_line s
    \<and> errors_on_line t = (if other_line s then 0 else errors_on_line s) + (if n < 200 then 1 else 0) \<and> errors_on_line t \<le> 2)"
proof -
  have o: "other_line ((count_message n s)\<lparr>reported := rs\<rparr>) = other_line s" for rs
    by (simp add: other_line_def count_message_def)
  have e: "errors_on_line ((count_message n s)\<lparr>reported := rs\<rparr>) = errors_on_line s" for rs
    by (simp add: count_message_def)
  show ?thesis using assms by (auto simp: error_def Let_def bindR_Inr_iff o e split: if_splits)
qed

lemma same_place_counts:
  "lastline s = err_line s \<Longrightarrow> lastfile s = err_file s \<Longrightarrow> errstart s \<le> err_line s \<Longrightarrow> \<not> other_line s"
  by (auto simp: other_line_def)

lemma few_error:
  assumes run: "error n s = Inr t" and few: "few_on_a_line s"
  shows "few_on_a_line t"
proof (cases "t = s")
  case True
  then show ?thesis using few by simp
next
  case False
  define r where "r = (n, err_line s, err_file s)"
  have t: "reported t = reported s @ [r]" "(lastline t, lastfile t) = snd r" "errstart s \<le> err_line s" "errors_on_line t \<le> 2"
    "errors_on_line t = (if other_line s then 0 else errors_on_line s) + errors_in [r]"
    using error_reports [OF run] False by (auto simp: r_def)
  have suffix: "errors_in ys \<le> errors_on_line t" if ys: "reported s @ [r] = xs @ ys" "at_place (snd r) ys" for xs ys
  proof (cases ys rule: rev_cases)
    case Nil
    then show ?thesis by simp
  next
    case (snoc us q)
    then have us: "reported s = xs @ us" "q = r" "at_place (snd r) us" using ys by auto
    show ?thesis
    proof (cases "us = []")
      case True
      then show ?thesis using snoc us(2) t(5) by simp
    next
      case ne: False
      then have "snd (last (reported s)) = snd r" using us by (auto simp: at_place_def)
      then have p: "(lastline s, lastfile s) = snd r" using few ne us(1) by (simp add: few_on_a_line_def)
      then have "\<not> other_line s" using same_place_counts [of s] t(3) by (simp add: r_def)
      moreover have "errors_in us \<le> errors_on_line s" using few us p unfolding few_on_a_line_def by metis
      ultimately show ?thesis using snoc us(2) t(5) by simp
    qed
  qed
  have "errors_in ys \<le> 2" if ys: "reported s @ [r] = xs @ ys @ zs" "at_place p ys" for p xs ys zs
  proof (cases zs rule: rev_cases)
    case Nil
    show ?thesis
    proof (cases ys rule: rev_cases)
      case (snoc us q)
      then have "p = snd r" using ys Nil by auto
      then show ?thesis using suffix [of xs ys] ys Nil t(4) by simp
    qed simp
  next
    case (snoc us q)
    then have "reported s = xs @ ys @ us" using ys(1) by simp
    then show ?thesis using few ys(2) unfolding few_on_a_line_def by blast
  qed
  then show ?thesis using suffix t(1,2) unfolding few_on_a_line_def by auto
qed

lemma counted_step: "err_step s t \<Longrightarrow> counted s \<and> few_on_a_line s \<Longrightarrow> counted t \<and> few_on_a_line t"
proof (induction rule: err_step.induct)
  case (report n s t)
  then show ?case using counted_error few_error by blast
next
  case (set_flag s c)
  then show ?case by (cases c) (auto simp: counted_def few_on_a_line_def)
next
  case (switch s n enable)
  then show ?case by (auto simp: counted_def few_on_a_line_def pc_enablewarning_def Let_def)
qed (auto simp: counted_def few_on_a_line_def)

text \<open>C23 (\<open>error\<close>): as long as the compiler goes on, in whatever order messages, resets and lines come, it
  has reported at most 25 errors, and among messages that were reported one after the other from the same
  line of the same file there are at most two errors, whatever warnings come between them. The counters are the
  numbers of reported errors and warnings.\<close>
theorem errors_are_bounded:
  assumes "err_step\<^sup>*\<^sup>* no_errors s"
  shows "errors_in (reported s) \<le> 25
    \<and> (\<forall>p xs ys zs. reported s = xs @ ys @ zs \<and> at_place p ys \<longrightarrow> errors_in ys \<le> 2)
    \<and> errnum s = errors_in (reported s) \<and> warnnum s = warnings_in (reported s)"
proof -
  have "counted s \<and> few_on_a_line s" using assms
  proof (induction rule: rtranclp_induct)
    case base
    show ?case by (simp add: counted_def few_on_a_line_def no_errors_def NUM_WARNINGS_def)
  next
    case (step s t)
    then show ?case using counted_step by blast
  qed
  then have c: "counted s" and f: "few_on_a_line s" by simp_all
  have "\<forall>p xs ys zs. reported s = xs @ ys @ zs \<and> at_place p ys \<longrightarrow> errors_in ys \<le> 2"
    using f unfolding few_on_a_line_def by blast
  then show ?thesis using c by (simp add: counted_def)
qed

theorem errors_are_bounded_witness:
  "\<exists>s :: errstate. reported s = [(17, 1, 0), (203, 1, 0)] \<and> errors_in (reported s) \<le> 25
    \<and> (\<forall>p xs ys zs. reported s = xs @ ys @ zs \<and> at_place p ys \<longrightarrow> errors_in ys \<le> 2)
    \<and> errnum s = errors_in (reported s) \<and> warnnum s = warnings_in (reported s)"
proof -
  let ?s = "no_errors\<lparr>err_status := StatWRITE\<rparr>" and ?t = "no_errors\<lparr>err_status := StatWRITE, err_line := 1\<rparr>"
  let ?u = "?t\<lparr>errflag := True, errnum := 1, reported := [(17, 1, 0)], lastline := 1, errors_on_line := 1\<rparr>"
  let ?v = "?u\<lparr>errflag := False, warnnum := 1, reported := [(17, 1, 0), (203, 1, 0)]\<rparr>"
  note d = error_def no_errors_def muted_def disabled_def count_message_def other_line_def pc_error_def
  have u: "error 17 ?t = Inr ?u" by (simp add: d)
  have v: "error 203 (errorset ResetFlag ?u) = Inr ?v" by (simp add: d)
  have "err_step no_errors ?s" by (rule change_pass)
  moreover have "err_step ?s ?t" using read_line [of ?s 0 1] by (simp add: no_errors_def)
  moreover have "err_step ?t ?u" using u by (rule report)
  moreover have "err_step ?u (errorset ResetFlag ?u)" by (rule set_flag)
  moreover have "err_step (errorset ResetFlag ?u) ?v" using v by (rule report)
  ultimately have "err_step\<^sup>*\<^sup>* no_errors ?v" by (meson rtranclp.rtrancl_into_rtrancl rtranclp.rtrancl_refl)
  from errors_are_bounded [OF this] show ?thesis by (intro exI [of _ ?v]) simp
qed

end
