(* ===== verification/AmxSafety.thy ===== *)
theory AmxSafety
  imports AmxExec
begin

text \<open>
  What the interpreter guarantees of memory and of division: accesses through pointers that it tests stay
  in the data segment, and the signed division rounds down where nothing overflows.
\<close>

section \<open>Accesses through pointers\<close>

lemma not_bad_in_data: "\<not> bad_addr s p \<Longrightarrow> n \<le> 4 \<Longrightarrow> in_data (amx s) p n"
  by (simp add: bad_addr_def in_data_def not_le word_less_nat_alt)

lemma sint_range: "- (2 ^ 31) \<le> sint (x :: cell)" "sint (x :: cell) < 2 ^ 31"
  using sint_ge [of x] sint_lt [of x] by simp_all

lemma of_int_of_sint: "word_of_int (sint x) = (x :: cell)"
  by (metis scast_eq scast_id)

text \<open>The address that an instruction uses as a pointer; \<open>v\<close> is its operand. The block instructions
  use \<open>alt\<close>, and but for \<open>OP_FILL\<close> also \<open>pri\<close>; their operand is the number of bytes.\<close>

definition pointer :: "cell \<Rightarrow> cell \<Rightarrow> vm \<Rightarrow> cell" where
  "pointer op v s =
     (if op \<in> {OP_LOAD_I, OP_LODB_I} then pri s
      else if op \<in> {OP_STOR_I, OP_STRB_I, OP_MOVS, OP_CMPS, OP_FILL} then alt s
      else if op = OP_LIDX then pri s * cell_bytes + alt s
      else push_bit (unat v) (pri s) + alt s)"

definition block_ops :: "cell set" where
  "block_ops = {OP_MOVS, OP_CMPS, OP_FILL}"

definition tested_ops :: "cell set" where
  "tested_ops = {OP_LOAD_I, OP_LODB_I, OP_STOR_I, OP_STRB_I, OP_LIDX, OP_LIDX_B} \<union> block_ops"

definition bad_block :: "vm \<Rightarrow> cell \<Rightarrow> cell \<Rightarrow> bool" where
  "bad_block s p n \<longleftrightarrow> bad_addr s p \<or> bad_end s (p + n)"

definition bad_pointer :: "cell \<Rightarrow> cell \<Rightarrow> vm \<Rightarrow> bool" where
  "bad_pointer op v s \<longleftrightarrow>
     (if op = OP_FILL then bad_block s (alt s) v
      else if op \<in> block_ops then bad_block s (pri s) v \<or> bad_block s (alt s) v
      else bad_addr s (pointer op v s))"

text \<open>A count of bytes that is positive as a cell, with a data segment of less than two gigabytes; the count
  of a copy does not make the blocks overlap.\<close>

definition sane_operand :: "cell \<Rightarrow> cell \<Rightarrow> vm \<Rightarrow> bool" where
  "sane_operand op v s \<longleftrightarrow>
     (op = OP_LIDX_B \<longrightarrow> unat v < 32) \<and> (op = OP_MOVS \<longrightarrow> \<not> overlap (alt s) (pri s) v)
     \<and> (op \<in> block_ops \<longrightarrow> 0 \<le>s v \<and> unat (a_stp (amx s)) < 2 ^ 31)"

text \<open>The number of bytes that an instruction can change.\<close>

definition bytes_written :: "cell \<Rightarrow> cell \<Rightarrow> nat" where
  "bytes_written op v =
     (if op \<in> {OP_STOR_I, OP_STRB_I} then 4 else if op \<in> {OP_MOVS, OP_FILL} then unat v else 0)"

text \<open>The memory is the same but for \<open>n\<close> bytes from an address on.\<close>

definition same_but :: "cell \<Rightarrow> nat \<Rightarrow> mem \<Rightarrow> mem \<Rightarrow> bool" where
  "same_but p n m m' \<longleftrightarrow> (\<forall>x. n \<le> unat (x - p) \<longrightarrow> m' x = m x)"

lemma same_but_refl [simp]: "same_but p n m m"
  by (simp add: same_but_def)

lemma same_but_put [simp]:
  "same_but p 4 m (put_cell m p v)" "same_but p 4 m (put_half m p v)" "same_but p 4 m (m(p := b))"
  by (auto simp: same_but_def put_cell_def put_half_def word_less_nat_alt)

lemma same_but_copy: "same_but dst (unat n) m (copy_bytes dst source n m)"
  by (simp add: same_but_def copy_bytes_def word_less_nat_alt)

lemma amx_simps [simp]:
  "amx (set_data m s) = (amx s)\<lparr>a_data := m\<rparr>" "hea (set_data m s) = hea s" "stk (set_data m s) = stk s"
  "pri (set_data m s) = pri s" "alt (set_data m s) = alt s" "frm (set_data m s) = frm s"
  "cip (set_data m s) = cip s" "reset_stk (set_data m s) = reset_stk s" "reset_hea (set_data m s) = reset_hea s"
  by (simp_all add: set_data_def)

lemma set_data_update [simp]:
  "set_data m (s\<lparr>cip := c\<rparr>) = (set_data m s)\<lparr>cip := c\<rparr>" "set_data m (s\<lparr>stk := c\<rparr>) = (set_data m s)\<lparr>stk := c\<rparr>"
  "set_data m (s\<lparr>frm := c\<rparr>) = (set_data m s)\<lparr>frm := c\<rparr>" "set_data m (s\<lparr>hea := c\<rparr>) = (set_data m s)\<lparr>hea := c\<rparr>"
  "set_data m (s\<lparr>pri := c\<rparr>) = (set_data m s)\<lparr>pri := c\<rparr>" "set_data m (s\<lparr>alt := c\<rparr>) = (set_data m s)\<lparr>alt := c\<rparr>"
  by (simp_all add: set_data_def)

definition aborted :: "int \<Rightarrow> vm \<Rightarrow> outcome result \<Rightarrow> bool" where
  "aborted e s r \<longleftrightarrow> (\<exists>t. r = return_code e t \<and> a_stk (amx t) = reset_stk s \<and> a_hea (amx t) = reset_hea s
     \<and> a_data (amx t) = a_data (amx s))"

lemma aborted_abort [simp]:
  "reset_stk t = reset_stk s \<Longrightarrow> reset_hea t = reset_hea s \<Longrightarrow> a_data (amx t) = a_data (amx s) \<Longrightarrow> aborted e s (abort e t)"
  by (auto simp: aborted_def abort_def)

definition ran_on :: "cell \<Rightarrow> nat \<Rightarrow> vm \<Rightarrow> outcome result \<Rightarrow> bool" where
  "ran_on p n s r \<longleftrightarrow>
     (\<exists>t. r = running t \<and> same_but p n (a_data (amx s)) (a_data (amx t)) \<and> stk t = stk s \<and> hea t = hea s)"

lemma ran_on_running [simp]:
  "same_but p n (a_data (amx s)) (a_data (amx t)) \<Longrightarrow> stk t = stk s \<Longrightarrow> hea t = hea s \<Longrightarrow> ran_on p n s (running t)"
  by (simp add: ran_on_def)

lemma good_block:
  assumes "\<not> bad_block s p n" and "0 \<le>s n" and "unat (a_stp (amx s)) < 2 ^ 31"
  shows "unat p + unat n \<le> unat (a_stp (amx s))"
proof -
  have p: "unat p < unat (a_stp (amx s))" "p + n \<le> a_stp (amx s)"
    using assms(1) by (auto simp: bad_block_def bad_addr_def bad_end_def not_le word_less_nat_alt word_le_nat_alt)
  have "unat n < 2 ^ 31"
  proof -
    have n: "0 \<le> sint n" "sint n < 2 ^ 31" using assms(2) sint_range(2) [of n] by (simp_all add: word_sle_eq)
    have "uint n = sint n mod 2 ^ 32" using uint_word_of_int [where 'a = 32, of "sint n"] by (simp add: of_int_of_sint)
    also have "\<dots> = sint n" by (rule mod_pos_pos_trivial) (use n in simp_all)
    finally have "int (unat n) = sint n" by simp
    then have "int (unat n) < int (2 ^ 31)" using n(2) by (simp only: of_nat_power of_nat_numeral)
    then show ?thesis by (simp only: of_nat_less_iff)
  qed
  then have "unat (p + n) = unat p + unat n"
    using p(1) assms(3) by (intro iffD1 [OF unat_add_lem]) simp
  then show ?thesis using p(2) by (simp add: word_le_nat_alt)
qed

lemma same_but_steps:
  assumes "same_but p 4 m m'" and "same_but (p + 4) (4 * n) m' m''" and "unat p + 4 * Suc n < 2 ^ 32"
  shows "same_but p (4 * Suc n) m m''"
  unfolding same_but_def
proof (intro allI impI)
  fix x :: cell assume x: "4 * Suc n \<le> unat (x - p)"
  have "unat (x - p - 4) = unat (x - p) - 4" using x by (simp add: unat_sub word_le_nat_alt)
  then have "4 * n \<le> unat (x - (p + 4))" using x by (simp add: diff_diff_eq)
  then have "m'' x = m' x" using assms(2) unfolding same_but_def by blast
  moreover have "m' x = m x" using assms(1) x unfolding same_but_def by simp
  ultimately show "m'' x = m x" by simp
qed

lemma same_but_more: "same_but p n m m' \<Longrightarrow> n \<le> k \<Longrightarrow> same_but p k m m'"
  by (simp add: same_but_def)

lemma fill_cells_ok:
  "unat p + 4 * n \<le> unat (a_stp (amx s)) \<Longrightarrow> unat (a_stp (amx s)) < 2 ^ 31 \<Longrightarrow> ran_on p (4 * n) s (fill_cells n p s)"
proof (induction n arbitrary: p s)
  case 0
  then show ?case by simp
next
  case (Suc n)
  define t where "t = set_data (put_cell (a_data (amx s)) p (pri s)) s"
  have w: "wr p (pri s) s = Inr t" using Suc.prems by (simp add: wr_def in_data_def t_def)
  have p4: "unat (p + 4) = unat p + 4" using Suc.prems by (subst unat_add_lem [THEN iffD1]) auto
  have "ran_on (p + 4) (4 * n) t (fill_cells n (p + 4) t)"
    by (rule Suc.IH) (use Suc.prems p4 in \<open>simp_all add: t_def\<close>)
  then obtain u where u: "fill_cells n (p + 4) t = running u" "same_but (p + 4) (4 * n) (a_data (amx t)) (a_data (amx u))"
    "stk u = stk t" "hea u = hea t" by (auto simp: ran_on_def)
  have "same_but p 4 (a_data (amx s)) (a_data (amx t))" by (simp add: t_def)
  from same_but_steps [OF this u(2)] Suc.prems
  have "same_but p (4 * Suc n) (a_data (amx s)) (a_data (amx u))" by simp
  then show ?case using w u by (auto simp: ran_on_def t_def)
qed

lemma plain_pointer_safe:
  assumes "op \<notin> block_ops" and "op \<in> tested_ops" and "fetch s (cip s) = Inr v" and "sane_operand op v s"
  shows "if bad_pointer op v s then aborted AMX_ERR_MEMACCESS s (exec_op H op s)
    else ran_on (pointer op v s) (bytes_written op v) s (exec_op H op s)"
proof -
  have b: "bad_addr (s\<lparr>cip := c\<rparr>) p = bad_addr s p" for c p by (simp add: bad_addr_def)
  have i: "in_data (amx s) p n" if "\<not> bad_addr s p" "n = 1 \<or> n = 2 \<or> n = 4" for p n
    using not_bad_in_data [OF that(1), of n] that(2) by auto
  consider "op = OP_LOAD_I" | "op = OP_LODB_I" | "op = OP_STOR_I" | "op = OP_STRB_I" | "op = OP_LIDX" | "op = OP_LIDX_B"
    using assms(1,2) by (auto simp: tested_ops_def)
  then show ?thesis
    by cases (use assms(3,4) in \<open>auto simp: pointer_def bad_pointer_def bytes_written_def block_ops_def sane_operand_def exec_op_def exec_load_def
        exec_store_def exec_index_def get_param_def load_checked_def store_at_def wr_def rd_def shift_def b i\<close>)
qed

lemma block_pointer_safe:
  assumes "op \<in> block_ops" and "op \<in> tested_ops" and "fetch s (cip s) = Inr v" and "sane_operand op v s"
  shows "if bad_pointer op v s then aborted AMX_ERR_MEMACCESS s (exec_op H op s)
    else ran_on (pointer op v s) (bytes_written op v) s (exec_op H op s)"
proof -
  have b: "bad_addr (s\<lparr>cip := c\<rparr>) p = bad_addr s p" "bad_end (s\<lparr>cip := c\<rparr>) p = bad_end s p" for c p
    by (simp_all add: bad_addr_def bad_end_def)
  have i: "in_data (amx s) p (unat v)" if "\<not> bad_block s p v" for p
    using good_block [OF that] assms(4,1) by (simp add: sane_operand_def in_data_def)
  consider (movs) "op = OP_MOVS" | (cmps) "op = OP_CMPS" | (fill) "op = OP_FILL" using assms(1) by (auto simp: block_ops_def)
  then show ?thesis
  proof cases
    case movs
    then show ?thesis
      using assms(3,4) i [of "pri s"] i [of "alt s"] same_but_copy [of "alt s" v]
      by (auto simp: bad_pointer_def bytes_written_def block_ops_def bad_block_def pointer_def sane_operand_def exec_op_def exec_block_def get_param_def b)
  next
    case cmps
    then show ?thesis
      using assms(3,4) i [of "pri s"] i [of "alt s"]
      by (auto simp: bad_pointer_def bytes_written_def block_ops_def bad_block_def pointer_def exec_op_def exec_block_def get_param_def b)
  next
    case fill
    show ?thesis
    proof (cases "bad_block s (alt s) v")
      case True
      then show ?thesis using assms(3) fill
        by (auto simp: bad_pointer_def bad_block_def exec_op_def exec_block_def get_param_def b)
    next
      case False
      let ?s = "s\<lparr>cip := cip s + 4\<rparr>"
      have n: "4 * (unat v div 4) \<le> unat v" by simp
      have "unat (alt s) + unat v \<le> unat (a_stp (amx s))" "unat (a_stp (amx s)) < 2 ^ 31"
        using good_block [OF False] assms(4) fill by (simp_all add: sane_operand_def block_ops_def)
      then have "ran_on (alt s) (4 * (unat v div 4)) ?s (fill_cells (unat v div 4) (alt s) ?s)"
        using n by (intro fill_cells_ok) simp_all
      then have "ran_on (alt s) (unat v) s (fill_cells (unat v div 4) (alt s) ?s)"
        using same_but_more [OF _ n] by (fastforce simp: ran_on_def)
      then show ?thesis using assms(3) fill False
        by (simp add: bad_pointer_def bytes_written_def bad_block_def block_ops_def pointer_def exec_op_def exec_block_def get_param_def b)
    qed
  qed
qed


text \<open>A machine and a host for examples: 1000 bytes of data, of which the heap has used 100 and the
  stack 100; the native does nothing and gives 7.\<close>

definition sample_vm :: "cell list \<Rightarrow> vm" where
  "sample_vm code =
     \<lparr>amx = amx_with code,
      pri = 0, alt = 0, stk = 900, frm = 0, hea = 100, reset_stk = 1000, reset_hea = 100, cip = 0, retval = None\<rparr>"

lemmas sample_def = sample_vm_def amx_with_def

definition sample_host :: host where
  "sample_host = \<lparr>callback = (\<lambda>i a. (0, 7, a)), native_at = (\<lambda>f a. (7, a)), debug_hook = (\<lambda>a. (0, a)),
     f_mul = (\<lambda>a b. 0), f_div = (\<lambda>a b. 0), f_add = (\<lambda>a b. 0), f_sub = (\<lambda>a b. 0), f_of_cell = id, f_round_half = id,
     f_floor = id, f_ceil = id, f_eq = (=), f_gt = (>)\<rparr>"


text \<open>The instructions that use a pointer and test nothing: with a pointer outside of the data segment
  they read there.\<close>

lemma untested_pointers:
  assumes "\<not> in_data (amx s) p 4"
  shows "pri s = p \<Longrightarrow> exec_op H OP_INC_I s = Inl BufferOverflow"
    and "pri s = p \<Longrightarrow> exec_op H OP_DEC_I s = Inl BufferOverflow"
    and "fetch s (cip s) = Inr v \<Longrightarrow> rd s v = Inr p \<Longrightarrow> exec_op H OP_LREF_PRI s = Inl BufferOverflow"
    and "fetch s (cip s) = Inr v \<Longrightarrow> rd s v = Inr p \<Longrightarrow> exec_op H OP_SREF_PRI s = Inl BufferOverflow"
proof -
  have r: "rd (s\<lparr>cip := c\<rparr>) q = rd s q" "wr q w (s\<lparr>cip := c\<rparr>) = bindR (wr q w s) (\<lambda>t. Inr (t\<lparr>cip := c\<rparr>))" for c q w
    by (simp_all add: rd_def wr_def set_data_def)
  have f: "rd s p = Inl BufferOverflow" "wr p w s = Inl BufferOverflow" for w using assms by (simp_all add: rd_def wr_def)
  show "pri s = p \<Longrightarrow> exec_op H OP_INC_I s = Inl BufferOverflow" "pri s = p \<Longrightarrow> exec_op H OP_DEC_I s = Inl BufferOverflow"
    by (simp_all add: exec_op_def exec_incdec_def add_at_def f)
  show "exec_op H OP_LREF_PRI s = Inl BufferOverflow" if "fetch s (cip s) = Inr v" "rd s v = Inr p"
    using that by (simp add: exec_op_def exec_load_def get_param_def r f)
  show "exec_op H OP_SREF_PRI s = Inl BufferOverflow" if "fetch s (cip s) = Inr v" "rd s v = Inr p"
    using that by (simp add: exec_op_def exec_store_def get_param_def store_at_def r f)
qed

section \<open>Division\<close>

lemma smod_range: "y \<noteq> 0 \<Longrightarrow> \<bar>x smod y\<bar> < \<bar>y :: int\<bar>"
  by (auto simp: signed_modulo_int_def abs_mult sgn_if)

lemma smod_smod: "y \<noteq> 0 \<Longrightarrow> (x smod y + y) smod y = (x mod y :: int)"
proof -
  assume y: "y \<noteq> 0"
  define z where "z = x smod y + y"
  have z: "z = x mod y \<or> z = x mod y + y" by (auto simp: z_def signed_modulo_int_eq_modulo_int)
  have "sgn z = sgn y \<or> y dvd z"
  proof (cases "0 < y")
    case True
    then have "0 \<le> z" using z pos_mod_sign [of y x] by auto
    then show ?thesis using True by (cases "z = 0") auto
  next
    case False
    then have "y < 0" using y by linarith
    then have "z \<le> 0" using z neg_mod_sign [of y x] by linarith
    then show ?thesis using False y by (cases "z = 0") auto
  qed
  then have "z smod y = z mod y" by (auto simp: signed_modulo_int_eq_modulo_int)
  then show ?thesis using z by (auto simp: z_def [symmetric])
qed

lemma sdivide_floor:
  fixes a b :: cell
  defines "A \<equiv> sint a" and "B \<equiv> sint b"
  assumes b: "b \<noteq> 0" and t: "\<not> div_traps a b"
    and s: "- (2 ^ 31) \<le> A smod B + B" "A smod B + B < 2 ^ 31"
    and d: "- (2 ^ 31) \<le> B * (A div B)" "B * (A div B) < 2 ^ 31"
  shows "\<exists>q r. sdivide a b = Inr (q, r) \<and> sint q = A div B \<and> sint r = A mod B"
proof -
  have B: "B \<noteq> 0" using b unfolding B_def by (metis signed_0 signed_word_eqI)
  have rA: "- (2 ^ 31) \<le> A" "A < 2 ^ 31" and rB: "- (2 ^ 31) \<le> B" "B < 2 ^ 31"
    using sint_range by (simp_all add: A_def B_def)
  have m1: "sint (cmod a b) = A smod B"
    unfolding cmod_def A_def [symmetric] B_def [symmetric]
    by (rule sint_wrap) (use smod_range [OF B, of A] rB in linarith)+
  have "cmod a b + b = word_of_int (A smod B + B)"
    unfolding cmod_def A_def B_def by (simp only: of_int_add of_int_of_sint)
  then have m2: "sint (cmod a b + b) = A smod B + B" using sint_wrap [OF s] by simp
  have rm: "- (2 ^ 31) \<le> A mod B" "A mod B < 2 ^ 31"
  proof -
    have "(0 \<le> A mod B \<and> A mod B < B) \<or> (B < A mod B \<and> A mod B \<le> 0)"
      using B pos_mod_bound [of B A] pos_mod_sign [of B A] neg_mod_bound [of B A] neg_mod_sign [of B A] by linarith
    then show "- (2 ^ 31) \<le> A mod B" "A mod B < 2 ^ 31" using rB by linarith+
  qed
  define offs where "offs = cmod (cmod a b + b) b"
  have offs: "sint offs = A mod B"
    unfolding offs_def cmod_def [of "cmod a b + b"] m2 B_def [symmetric] smod_smod [OF B] by (rule sint_wrap [OF rm])
  have "a - offs = word_of_int (A - A mod B)"
    unfolding of_int_diff offs [symmetric] of_int_of_sint unfolding A_def of_int_of_sint ..
  moreover have e: "A - A mod B = B * (A div B)" by (simp add: minus_mod_eq_mult_div)
  ultimately have m3: "sint (a - offs) = B * (A div B)" using sint_wrap [OF d] by simp
  have "B * (A div B) sdiv B = A div B"
    using B by (cases "0 < B") (simp_all add: signed_divide_int_def sgn_mult abs_mult mult_sgn_abs)
  then have q: "cdiv (a - offs) b = word_of_int (A div B)"
    unfolding cdiv_def m3 B_def [symmetric] by simp
  have "- (2 ^ 31) \<le> A div B \<and> A div B < 2 ^ 31"
  proof (cases "0 < B")
    case True
    then have B1: "1 \<le> B" by linarith
    show ?thesis
    proof (cases "0 \<le> A div B")
      case True
      then show ?thesis using mult_right_mono [OF B1 True] d by (intro conjI) linarith+
    next
      case False
      then show ?thesis using mult_right_mono_neg [OF B1, of "A div B"] d by (intro conjI) linarith+
    qed
  next
    case False
    then have B1: "B \<le> -1" using B by linarith
    show ?thesis
    proof (cases "A div B \<le> 0")
      case True
      then have "- (A div B) \<le> B * (A div B)" using mult_right_mono_neg [OF B1 True] by simp
      then show ?thesis using d True by (intro conjI) linarith+
    next
      case False
      then have "B * (A div B) \<le> - (A div B)" using mult_right_mono [OF B1, of "A div B"] by simp
      moreover have "A div B \<noteq> 2 ^ 31"
      proof
        assume e: "A div B = 2 ^ 31"
        then have "B * 2 ^ 31 \<ge> - (2 ^ 31)" using d by simp
        then have "B = -1" using B1 by simp
        with e t show False by (simp add: div_traps_def A_def B_def)
      qed
      ultimately show ?thesis using d False by (intro conjI) linarith+
    qed
  qed
  then have "sint (cdiv (a - offs) b) = A div B" unfolding q by (intro sint_wrap) auto
  then show ?thesis using t offs by (simp add: sdivide_def Let_def offs_def)
qed


text \<open>C35 (\<open>OP_SDIV\<close>): the signed division rounds down and its remainder has the sign of the divisor,
  as long as the two intermediate values, the remainder plus the divisor and the quotient times the
  divisor, are cells.\<close>
theorem sdiv_rounds_down:
  assumes "alt s \<noteq> 0" and "\<not> div_traps (pri s) (alt s)"
    and "- (2 ^ 31) \<le> sint (pri s) smod sint (alt s) + sint (alt s)"
      "sint (pri s) smod sint (alt s) + sint (alt s) < 2 ^ 31"
    and "- (2 ^ 31) \<le> sint (alt s) * (sint (pri s) div sint (alt s))"
      "sint (alt s) * (sint (pri s) div sint (alt s)) < 2 ^ 31"
  shows "\<exists>t. exec_op H OP_SDIV s = running t \<and> sint (pri t) = sint (pri s) div sint (alt s)
    \<and> sint (alt t) = sint (pri s) mod sint (alt s)"
proof -
  obtain q r where "sdivide (pri s) (alt s) = Inr (q, r)" "sint q = sint (pri s) div sint (alt s)"
    "sint r = sint (pri s) mod sint (alt s)"
    using sdivide_floor [OF assms] by blast
  then show ?thesis using assms(1) by (simp add: exec_op_def exec_arith_def)
qed

theorem sdiv_rounds_down_witness:
  "\<exists>t. exec_op sample_host OP_SDIV (sample_vm []\<lparr>pri := - 7, alt := 2\<rparr>) = running t \<and> sint (pri t) = - 4 \<and> sint (alt t) = 1"
proof -
  have "- 7 smod (2 :: int) = - 1" "- 7 div (2 :: int) = - 4" "- 7 mod (2 :: int) = 1" "sint (- 7 :: cell) = - 7" "sint (2 :: cell) = 2"
    by code_simp+
  then show ?thesis
    using sdiv_rounds_down [of "sample_vm []\<lparr>pri := - 7, alt := 2\<rparr>" sample_host] by (simp add: div_traps_def)
qed

text \<open>Outside of these bounds the result is wrong or there is none. The least cell divided by 3 gives a
  positive quotient, because the quotient times 3 is below the least cell; the largest cell but one
  divided by the largest gives -1 instead of 0; and the least cell divided by -1, for which the
  divisor is not tested, traps.\<close>

lemma sdiv_overflows:
  "exec_op H OP_SDIV (s\<lparr>pri := 0x80000000, alt := 3\<rparr>) = running (s\<lparr>pri := 715827882, alt := 1\<rparr>)
   \<and> exec_op H OP_SDIV (s\<lparr>pri := 0x7FFFFFFE, alt := 0x7FFFFFFF\<rparr>) = running (s\<lparr>pri := -1, alt := -3\<rparr>)
   \<and> exec_op H OP_SDIV (s\<lparr>pri := 0x80000000, alt := -1\<rparr>) = Inl ArithUndefined"
proof -
  have "sdivide 0x80000000 3 = Inr (715827882, 1)" "sdivide 0x7FFFFFFE 0x7FFFFFFF = Inr (-1, -3)"
    "sdivide 0x80000000 (-1) = Inl ArithUndefined"
    by code_simp+
  then show ?thesis by (simp add: exec_op_def exec_arith_def)
qed

end
