(* ===== verification/AmxCalls.thy ===== *)
theory AmxCalls
  imports AmxSafety
begin

text \<open>
  Function calls of the abstract machine: the frame that \<open>OP_CALL\<close> and \<open>OP_PROC\<close> build is taken down by
  \<open>OP_RETN\<close>, and a public function that reaches its return ends \<open>amx_Exec\<close>. The errors that the stack and
  heap checks return do not give the stack back.
\<close>

section \<open>Running\<close>

lemma run_add: "run (m + n) H s = bindR (run m H s) (\<lambda>r. case r of Running t \<Rightarrow> run n H t | Returned e t \<Rightarrow> return_code e t)"
proof (induction m arbitrary: s)
  case (Suc m)
  show ?case
  proof (cases "step H s")
    case (Inr r)
    then show ?thesis using Suc.IH by (cases r) simp_all
  qed simp
qed simp

lemma run_then: "run m H s = running t \<Longrightarrow> run (m + n) H s = run n H t"
  by (simp add: run_add)

lemma run_1: "run 1 H s = step H s"
proof (cases "step H s")
  case (Inr r)
  then show ?thesis by (cases r) simp_all
qed simp

lemma run_returned: "run m H s = return_code e t \<Longrightarrow> run (m + n) H s = return_code e t"
  by (simp add: run_add)

section \<open>Frames\<close>

text \<open>The state after \<open>OP_PROC\<close> at the start of a function.\<close>

definition entered :: "vm \<Rightarrow> vm" where
  "entered p = (set_data (put_cell (a_data (amx p)) (stk p - 4) (frm p)) p)
     \<lparr>stk := stk p - 4, frm := stk p - 4, cip := cip p + 4\<rparr>"

definition can_enter :: "vm \<Rightarrow> bool" where
  "can_enter p \<longleftrightarrow> fetch p (cip p) = Inr OP_PROC \<and> in_data (amx p) (stk p - 4) 4 \<and> \<not> stk p - 4 <s hea p + STKMARGIN"

text \<open>The function is at its return: the stack is as after \<open>OP_PROC\<close>, and the saved frame, the return
  address \<open>r\<close> and the size \<open>k\<close> of the parameters above it are untouched.\<close>

definition at_return :: "vm \<Rightarrow> cell \<Rightarrow> cell \<Rightarrow> vm \<Rightarrow> bool" where
  "at_return p r k t \<longleftrightarrow> fetch t (cip t) = Inr OP_RETN \<and> stk t = stk p - 4
     \<and> in_data (amx t) (stk p - 4) 4 \<and> in_data (amx t) (stk p) 4 \<and> in_data (amx t) (stk p + 4) 4
     \<and> get_cell (a_data (amx t)) (stk p - 4) = frm p \<and> get_cell (a_data (amx t)) (stk p) = r
     \<and> get_cell (a_data (amx t)) (stk p + 4) = k \<and> r < codesize (amx t)"

definition returned :: "vm \<Rightarrow> cell \<Rightarrow> cell \<Rightarrow> vm \<Rightarrow> vm" where
  "returned p r k t = t\<lparr>cip := r, frm := frm p, stk := stk p + 4 + (k + 4),
     amx := (amx t)\<lparr>a_stk := stk p + 4 + (k + 4)\<rparr>\<rparr>"

lemma rd_update [simp]:
  "rd (s\<lparr>cip := c\<rparr>) p = rd s p" "rd (s\<lparr>stk := c\<rparr>) p = rd s p" "rd (s\<lparr>frm := c\<rparr>) p = rd s p"
  "rd (s\<lparr>hea := c\<rparr>) p = rd s p" "rd (s\<lparr>pri := c\<rparr>) p = rd s p" "rd (s\<lparr>alt := c\<rparr>) p = rd s p"
  by (simp_all add: rd_def)

lemma fetch_update [simp]:
  "fetch (s\<lparr>cip := c\<rparr>) p = fetch s p" "fetch (s\<lparr>stk := c\<rparr>) p = fetch s p" "fetch (s\<lparr>frm := c\<rparr>) p = fetch s p"
  "fetch (s\<lparr>hea := c\<rparr>) p = fetch s p" "fetch (s\<lparr>pri := c\<rparr>) p = fetch s p" "fetch (s\<lparr>alt := c\<rparr>) p = fetch s p"
  "fetch (set_data m s) p = fetch s p"
  by (simp_all add: fetch_def)

lemma fetch_code: "a_code (amx s) = a_code (amx t) \<Longrightarrow> fetch s p = fetch t p"
  by (simp add: fetch_def)

lemma step_proc: "can_enter p \<Longrightarrow> step H p = running (entered p)"
  by (simp add: step_def can_enter_def entered_def exec_op_def exec_call_def push_def wr_def chkmargin_def Let_def)

lemma step_retn:
  assumes "at_return p r k t"
  shows "step H t = running (returned p r k t)"
proof -
  have "rd t (stk p - 4) = Inr (frm p)" "rd t (stk p) = Inr r" "rd t (stk p + 4) = Inr k"
    using assms by (simp_all add: at_return_def rd_def)
  moreover have "fetch t (cip t) = Inr OP_RETN" "stk t = stk p - 4" "\<not> codesize (amx t) \<le> r"
    using assms by (simp_all add: at_return_def not_le)
  ultimately show ?thesis
    by (simp add: step_def exec_op_def exec_call_def pop_def return_to_def returned_def Let_def)
qed

lemma proc_retn:
  assumes "can_enter p" and "run n H (entered p) = running t" and "at_return p r k t"
  shows "run (n + 2) H p = running (returned p r k t)"
proof -
  have "run (1 + n) H p = running t" using run_then [of 1 H p "entered p" n] run_1 step_proc [OF assms(1)] assms(2) by simp
  then have "run ((1 + n) + 1) H p = run 1 H t" by (rule run_then)
  then show ?thesis using run_1 step_retn [OF assms(3)] by simp
qed

text \<open>The state after \<open>OP_CALL\<close> of a function at \<open>f\<close>.\<close>

definition called :: "cell \<Rightarrow> vm \<Rightarrow> vm" where
  "called f s = (set_data (put_cell (a_data (amx s)) (stk s - 4) (cip s + 8)) s)\<lparr>stk := stk s - 4, cip := f\<rparr>"

text \<open>C16 (calls in \<open>amx_Exec\<close>): a function whose body leaves its frame and the cells above it alone
  returns: \<open>n\<close> instructions of the body after \<open>OP_CALL\<close> and \<open>OP_PROC\<close>, the \<open>OP_RETN\<close> continues behind the
  call, with the frame of the caller, the parameters and their size \<open>k\<close> taken off the stack, and
  \<open>pri\<close>, the heap and the memory as the body left them.\<close>
theorem call_returns:
  assumes "fetch s (cip s) = Inr OP_CALL" and "fetch s (cip s + 4) = Inr f" and "in_data (amx s) (stk s - 4) 4"
    and "can_enter (called f s)" and "run n H (entered (called f s)) = running t"
    and "at_return (called f s) (cip s + 8) k t"
  shows "\<exists>w. run (n + 3) H s = running w \<and> cip w = cip s + 8 \<and> frm w = frm s \<and> stk w = stk s + (k + 4)
    \<and> a_stk (amx w) = stk w \<and> pri w = pri t \<and> hea w = hea t \<and> a_data (amx w) = a_data (amx t)"
proof -
  have "step H s = running (called f s)"
    using assms(1-3)
    by (simp add: step_def exec_op_def exec_call_def push_def wr_def called_def jumpabs_def add.commute [of 8 "cip s"])
  then have "run (1 + (n + 2)) H s = running (returned (called f s) (cip s + 8) k t)"
    using run_then [of 1 H s "called f s" "n + 2"] run_1 proc_retn [OF assms(4-6)] by simp
  moreover have "1 + (n + 2) = n + 3" by simp
  ultimately have "run (n + 3) H s = running (returned (called f s) (cip s + 8) k t)" by (simp only:)
  then show ?thesis by (simp add: returned_def called_def)
qed


lemma sample_cells:
  "get_cell (\<lambda>x. 0) p = 0" "apart 892 896" "apart 892 900" "apart 896 900" "apart 888 892" "apart 888 896"
  by (simp_all add: get_cell_def apart_def word_le_nat_alt)

theorem call_returns_witness:
  "\<exists>w. run 3 sample_host (sample_vm [OP_CALL, 12, OP_NOP, OP_PROC, OP_RETN]) = running w \<and> cip w = 8 \<and> stk w = 904"
proof -
  let ?s = "sample_vm [OP_CALL, 12, OP_NOP, OP_PROC, OP_RETN]"
  have c: "a_data (amx (called 12 ?s)) = put_cell (\<lambda>_. 0) 896 8" "stk (called 12 ?s) = 896" "frm (called 12 ?s) = 0"
    by (simp_all add: called_def sample_def)
  have f: "fetch ?s (cip ?s) = Inr OP_CALL" "fetch ?s (cip ?s + 4) = Inr 12" "in_data (amx ?s) (stk ?s - 4) 4"
    "fetch (called 12 ?s) 12 = Inr OP_PROC" "fetch (entered (called 12 ?s)) 16 = Inr OP_RETN"
    by (simp_all add: sample_def called_def entered_def) (simp_all add: fetch_def in_data_def)
  have "can_enter (called 12 ?s)"
    using f(4) c by (simp add: can_enter_def called_def sample_def STKMARGIN_def in_data_def word_sless_alt)
  moreover have "at_return (called 12 ?s) 8 0 (entered (called 12 ?s))"
    using f(5) c sample_cells by (simp add: at_return_def entered_def) (simp add: called_def sample_def in_data_def codesize_def)
  moreover have "cip ?s + 8 = 8" by (simp add: sample_def)
  ultimately show ?thesis
    using call_returns [OF f(1-3), of 0 sample_host "entered (called 12 ?s)" 0] by (auto simp: sample_def)
qed

section \<open>Public functions\<close>

text \<open>The first instruction of every program is \<open>OP_HALT\<close> with code 0; the return address of a public
  function is 0.\<close>

lemma step_halt:
  assumes "fetch s (cip s) = Inr OP_HALT" and "fetch s (cip s + 4) = Inr 0"
  shows "\<exists>w. step H s = return_code AMX_ERR_NONE w \<and> retval w = Some (pri s) \<and> a_stk (amx w) = reset_stk s
    \<and> a_hea (amx w) = reset_hea s \<and> a_data (amx w) = a_data (amx s)"
  using assms by (simp add: step_def exec_op_def exec_leave_def get_param_def Let_def abort_def)

lemma start_reset:
  assumes "amx_exec_start index a = running s" and "index \<noteq> AMX_EXEC_CONT"
  shows "reset_stk s = a_stk a + a_paramcount a * cell_bytes \<and> reset_hea s = a_hea a \<and> stk s = a_stk a - 8
    \<and> get_cell (a_data (amx s)) (stk s) = 0 \<and> get_cell (a_data (amx s)) (stk s + 4) = a_paramcount a * cell_bytes"
proof -
  have "apart (a_stk a - 8) (a_stk a - 4)" by (simp add: apart_def word_le_nat_alt)
  then show ?thesis
  using assms
    by (auto simp: amx_exec_start_def Let_def chkstack_def chkheap_def chkmargin_def push_entry_def start_registers_def
        push_def wr_def set_data_def bindR_Inr_iff split: if_splits)
qed

text \<open>C8 (\<open>amx_Exec\<close>): a public function whose body comes to its \<open>OP_RETN\<close> ends \<open>amx_Exec\<close>: from some
  number of instructions on, it has returned \<open>AMX_ERR_NONE\<close> with \<open>pri\<close> as the result, the heap as
  before the call, and the stack as before the parameters were pushed.\<close>
theorem public_function_returns:
  assumes "index \<noteq> AMX_EXEC_CONT" and "amx_exec_start index a = running s"
    and "can_enter s" and "run n H (entered s) = running t" and "at_return s 0 k t"
    and "fetch t 0 = Inr OP_HALT" and "fetch t 4 = Inr 0"
    and "reset_stk t = reset_stk s" and "reset_hea t = reset_hea s"
  shows "\<exists>w. (\<forall>m. amx_exec (n + 3 + m) H index a = return_code AMX_ERR_NONE w) \<and> retval w = Some (pri t)
    \<and> a_stk (amx w) = a_stk a + a_paramcount a * cell_bytes \<and> a_hea (amx w) = a_hea a"
proof -
  let ?u = "returned s 0 k t"
  have u: "fetch ?u (cip ?u) = Inr OP_HALT" "fetch ?u (cip ?u + 4) = Inr 0"
    using assms(6,7) fetch_code [of ?u t] by (simp_all add: returned_def)
  obtain w where w: "step H ?u = return_code AMX_ERR_NONE w" "retval w = Some (pri ?u)"
    "a_stk (amx w) = reset_stk ?u" "a_hea (amx w) = reset_hea ?u"
    using step_halt [OF u] by blast
  have r: "run (n + 2) H s = running ?u" by (rule proc_retn [OF assms(3-5)])
  have "run ((n + 2) + 1) H s = run 1 H ?u" using r by (rule run_then)
  then have "run (n + 2 + 1) H s = return_code AMX_ERR_NONE w" using w(1) run_1 by simp
  then have "run (n + 2 + 1 + m) H s = return_code AMX_ERR_NONE w" for m by (rule run_returned)
  moreover have "n + 2 + 1 + m = n + 3 + m" for m by simp
  ultimately have "amx_exec (n + 3 + m) H index a = return_code AMX_ERR_NONE w" for m
    using assms(2) by (simp only: amx_exec_def bindR.simps outcome.case)
  moreover have "pri ?u = pri t" "reset_stk ?u = reset_stk t" "reset_hea ?u = reset_hea t" by (simp_all add: returned_def)
  ultimately show ?thesis using w(2-4) start_reset [OF assms(2,1)] assms(8,9) by auto
qed

theorem public_function_returns_witness:
  "\<exists>w. amx_exec 3 sample_host 0 (amx (sample_vm [OP_HALT, 0, OP_PROC, OP_RETN])) = return_code AMX_ERR_NONE w
    \<and> retval w = Some 0 \<and> a_stk (amx w) = 900"
proof -
  let ?a = "amx (sample_vm [OP_HALT, 0, OP_PROC, OP_RETN])"
  define s where "s = (set_data (put_cell (put_cell (\<lambda>_. 0) 896 0) 892 0) (sample_vm [OP_HALT, 0, OP_PROC, OP_RETN]))
    \<lparr>reset_stk := 900, reset_hea := 100, stk := 892, cip := 8\<rparr>"
  have e: "amx_exec_start 0 ?a = running s"
    by (simp add: amx_exec_start_def sample_def s_def Let_def AMX_EXEC_CONT_def AMX_EXEC_MAIN_def bad_index_def
        start_registers_def chkstack_def chkheap_def push_entry_def push_def wr_def in_data_def chkmargin_def STKMARGIN_def
        word_sless_alt AMX_MAGIC_def set_data_def)
  have f: "fetch s 8 = Inr OP_PROC" "fetch (entered s) 12 = Inr OP_RETN" "fetch (entered s) 0 = Inr OP_HALT" "fetch (entered s) 4 = Inr 0"
    by (simp_all add: s_def entered_def) (simp_all add: sample_def fetch_def)
  have "can_enter s"
    using f(1) by (simp add: can_enter_def s_def sample_def STKMARGIN_def in_data_def word_sless_alt)
  moreover have "at_return s 0 0 (entered s)"
    using f(2) sample_cells by (simp add: at_return_def s_def entered_def) (simp add: sample_def in_data_def codesize_def)
  moreover have "reset_stk (entered s) = reset_stk s" "reset_hea (entered s) = reset_hea s" by (simp_all add: entered_def)
  moreover have "(0 :: int) \<noteq> AMX_EXEC_CONT" by (simp add: AMX_EXEC_CONT_def)
  ultimately obtain w where "\<forall>m. amx_exec (0 + 3 + m) sample_host 0 ?a = return_code AMX_ERR_NONE w" "retval w = Some (pri (entered s))"
    "a_stk (amx w) = a_stk ?a + a_paramcount ?a * cell_bytes"
    using public_function_returns [of 0 ?a s 0 sample_host "entered s" 0] e f(3,4) by auto
  then show ?thesis
    using spec [of "\<lambda>m. amx_exec (0 + 3 + m) sample_host 0 ?a = return_code AMX_ERR_NONE w" 0]
    by (intro exI [of _ w]) (simp add: entered_def s_def sample_def)
qed

section \<open>Stack errors\<close>

text \<open>\<open>CHKMARGIN\<close>: a collision of stack and heap after a call of a native returns
  \<open>AMX_ERR_STACKERR\<close> without giving the stack back: \<open>stk\<close> of the machine stays where the call of the
  native has saved it, whereas every other error, such as \<open>AMX_ERR_BOUNDS\<close> in the same place, resets
  it to its value before the entry.\<close>
theorem stack_error_keeps_stack:
  assumes "fetch s (cip s) = Inr OP_SYSREQ_C" and "fetch s (cip s + 4) = Inr i"
    and "callback H i (amx (save_registers (s\<lparr>cip := cip s + 8\<rparr>))) = (AMX_ERR_NONE, v, amx (save_registers (s\<lparr>cip := cip s + 8\<rparr>)))"
    and "fetch s (cip s + 8) = Inr op" and "fetch s (cip s + 12) = Inr n"
  shows "(op = OP_STACK \<and> stk s + n <s hea s + STKMARGIN \<longrightarrow>
      (\<exists>w. run 2 H s = return_code AMX_ERR_STACKERR w \<and> a_stk (amx w) = stk s))
    \<and> (op = OP_BOUNDS \<and> n < v \<longrightarrow>
      (\<exists>w. run 2 H s = return_code AMX_ERR_BOUNDS w \<and> a_stk (amx w) = reset_stk s))"
proof -
  let ?t = "(save_registers (s\<lparr>cip := cip s + 8\<rparr>))\<lparr>pri := v\<rparr>"
  have "step H s = running ?t"
    using assms(1-3)
    by (simp add: step_def exec_op_def exec_leave_def get_param_def sysreq_def after_host_def Let_def add.commute [of 8 "cip s"])
  then have r: "run 2 H s = run 1 H ?t" using run_then [of 1 H s ?t 1] run_1 by (simp add: numeral_2_eq_2)
  have f: "fetch ?t (cip ?t) = Inr op" "fetch ?t (cip ?t + 4) = Inr n"
    using assms(4,5) fetch_code [of ?t s] by (simp_all add: save_registers_def add.commute [of 12 "cip s"])
  have "\<exists>w. run 2 H s = return_code AMX_ERR_STACKERR w \<and> a_stk (amx w) = stk s"
    if "op = OP_STACK \<and> stk s + n <s hea s + STKMARGIN"
    unfolding r run_1 using that f
    by (simp add: step_def exec_op_def exec_stack_def get_param_def Let_def chkmargin_def)
       (simp add: save_registers_def)
  moreover have "\<exists>w. run 2 H s = return_code AMX_ERR_BOUNDS w \<and> a_stk (amx w) = reset_stk s"
    if "op = OP_BOUNDS \<and> n < v"
    unfolding r run_1 using that f
    by (simp add: step_def exec_op_def exec_leave_def get_param_def abort_def)
       (simp add: save_registers_def)
  ultimately show ?thesis by blast
qed

theorem stack_error_keeps_stack_witness:
  "\<exists>w. run 2 sample_host (sample_vm [OP_SYSREQ_C, 0, OP_STACK, - 1000]) = return_code AMX_ERR_STACKERR w \<and> a_stk (amx w) = 900"
proof -
  let ?s = "sample_vm [OP_SYSREQ_C, 0, OP_STACK, - 1000]"
  have "fetch ?s (cip ?s) = Inr OP_SYSREQ_C" "fetch ?s (cip ?s + 4) = Inr 0" "fetch ?s (cip ?s + 8) = Inr OP_STACK"
    "fetch ?s (cip ?s + 12) = Inr (- 1000)" "stk ?s + (- 1000) <s hea ?s + STKMARGIN"
    by code_simp+
  moreover have "callback sample_host 0 a = (0, 7, a)" for a by (simp add: sample_host_def)
  ultimately show ?thesis using stack_error_keeps_stack [of ?s 0 sample_host 7 OP_STACK "- 1000"] by (simp add: sample_def)
qed

end
